(* ===== verification/Prelude.thy ===== *)
theory Prelude
  imports Main "HOL-Library.Word"
begin

unbundle bit_operations_syntax

text \<open>
  Shared vocabulary of the development: the C integer types of \<^verbatim>\<open>include/types.h\<close>
  as fixed-width words, the lemma collections the component theories fill, and the facts
  about alignment, wrap-around and counted loops that several components use.
\<close>

section \<open>C integer types\<close>

type_synonym u8 = "8 word"
type_synonym u16 = "16 word"
type_synonym u32 = "32 word"

text \<open>Addresses of the 32-bit kernel are \<open>u32\<close> values; the null pointer is \<open>0\<close>.\<close>

type_synonym ptr = u32

abbreviation PAGE_SIZE :: u32 where
  "PAGE_SIZE \<equiv> 4096"

text \<open>The bytes of a string literal.\<close>

definition chars :: "string \<Rightarrow> u8 list" where
  "chars = List.map of_char"

section \<open>Lemma collections\<close>

named_theorems frame_simps \<open>fields an operation leaves alone\<close>
named_theorems inv_intros \<open>invariant preservation, one rule per operation\<close>

section \<open>Words as numbers\<close>

lemma unat_of_nat32 [simp]: "n < 4294967296 \<Longrightarrow> unat (of_nat n :: u32) = n"
  by (simp add: unat_of_nat take_bit_nat_eq_self)

lemma unat_lt32: "unat (x :: u32) < 4294967296"
  using unsigned_less [of x, where 'a = nat] by simp

lemma of_nat32_eq_iff:
  assumes "m < 4294967296" and "n < 4294967296"
  shows "(of_nat m :: u32) = of_nat n \<longleftrightarrow> m = n"
proof
  assume "(of_nat m :: u32) = of_nat n"
  then have "unat (of_nat m :: u32) = unat (of_nat n :: u32)" by simp
  with assms show "m = n" by simp
qed simp

lemma of_nat32_eq_0_iff: "n < 4294967296 \<Longrightarrow> (of_nat n :: u32) = 0 \<longleftrightarrow> n = 0"
  using of_nat32_eq_iff [of n 0] by simp

lemma unat_plus32: "unat x + unat y < 4294967296 \<Longrightarrow> unat (x + y :: u32) = unat x + unat y"
  by (simp add: unat_word_ariths)

lemma unat_minus32: "y \<le> x \<Longrightarrow> unat (x - y :: u32) = unat x - unat y"
  by (simp add: unat_sub)

lemma unat_Suc32:
  assumes "(i :: u32) < n"
  shows "unat (i + 1) = Suc (unat i)"
proof -
  from assms have "unat i < unat n" by (simp add: word_less_nat_alt)
  with unat_lt32 [of n] have "unat i + unat (1 :: u32) < 4294967296" by simp
  from unat_plus32 [OF this] show ?thesis by simp
qed

text \<open>A counted loop \<open>for (i = a; i < n; i++)\<close> gets closer to its bound with every round.\<close>

lemma loop_measure32: "(i :: u32) < n \<Longrightarrow> unat n - unat (i + 1) < unat n - unat i"
  by (simp add: unat_Suc32 word_less_nat_alt diff_less_mono2)

lemma sint_small32:
  assumes "unat (i :: u32) < 2147483648"
  shows "sint i = int (unat i)"
proof -
  from assms have "int (unat i) < int 2147483648" by (simp only: of_nat_less_iff)
  then have "uint i < 2 ^ 31" by simp
  then have "signed_take_bit 31 (uint i) = uint i"
    using uint_ge_0 [of i] by (intro signed_take_bit_int_eq_self) linarith+
  then show ?thesis by (simp add: sint_uint)
qed

lemma sint_nonneg32: "0 \<le> sint (n :: u32) \<longleftrightarrow> unat n < 2147483648"
proof -
  have "0 \<le> sint n \<longleftrightarrow> \<not> odd (uint n div 2147483648)"
    by (simp add: sint_uint bit_iff_odd del: odd_iff_mod_2_eq_one)
  moreover have "uint n div 2147483648 \<in> {0, 1}" using uint_lt2p [of n] uint_ge_0 [of n] by auto
  moreover have "uint n div 2147483648 = 0 \<longleftrightarrow> uint n < 2147483648" using uint_ge_0 [of n]
    by (auto simp: div_eq_0_iff)
  ultimately have "0 \<le> sint n \<longleftrightarrow> uint n < 2147483648" by auto
  moreover have "int (unat n) = uint n" by simp
  ultimately show ?thesis by linarith
qed

text \<open>The sign bit of a byte.\<close>

lemma bit7_iff: "bit (c :: u8) 7 \<longleftrightarrow> c \<ge> 0x80"
proof -
  have "unat c < 256" using unsigned_less [of c, where 'a = nat] by simp
  then have "unat c div 128 = (if unat c \<ge> 128 then 1 else 0)"
    by (auto intro!: div_nat_eqI)
  then have "odd (unat c div 128) \<longleftrightarrow> unat c \<ge> 128" by simp
  moreover have "bit c 7 \<longleftrightarrow> odd (unat c div 128)"
  proof -
    have "bit c 7 \<longleftrightarrow> bit (unat c) 7" by (simp add: bit_simps)
    then show ?thesis by (simp add: bit_iff_odd [of "unat c"])
  qed
  ultimately show ?thesis by (simp add: word_le_nat_alt)
qed

lemma and_128_iff: "(c :: u8) AND 0x80 = 0 \<longleftrightarrow> c < 0x80"
  using and_exp_eq_0_iff_not_bit [of c 7] by (simp add: bit7_iff not_le)

section \<open>Alignment\<close>

text \<open>\<open>x & ~(2^n - 1)\<close> rounds down to a multiple of \<open>2^n\<close>.\<close>

lemma and_not_mask_unat: "unat (x AND NOT (mask n) :: 'a :: len word) = unat x div 2 ^ n * 2 ^ n"
proof -
  have "x AND NOT (mask n) = push_bit n (drop_bit n x)"
    by (rule bit_word_eqI) (auto simp: bit_simps)
  moreover have "unat (push_bit n (drop_bit n x)) = unat x div 2 ^ n * 2 ^ n"
  proof -
    have "unat x div 2 ^ n * 2 ^ n < 2 ^ LENGTH('a)"
      by (rule le_less_trans [OF _ unsigned_less [of x]]) (simp add: div_times_less_eq_dividend)
    moreover have "unat (push_bit n (drop_bit n x)) = take_bit LENGTH('a) (push_bit n (drop_bit n (unat x)))"
      by (simp only: unsigned_push_bit_eq unsigned_drop_bit_eq)
        (simp add: take_bit_nat_eq_self unsigned_less)
    ultimately show ?thesis
      by (simp only: drop_bit_eq_div push_bit_eq_mult take_bit_nat_eq_self)
  qed
  ultimately show ?thesis by simp
qed

lemma mask_2_word: "(mask 2 :: u32) = 3"
  by (simp add: mask_eq_exp_minus_1)

lemma mask_12_word: "(mask 12 :: u32) = 4095"
  by (simp add: mask_eq_exp_minus_1)

lemma align4_unat: "unat (x AND NOT 3 :: u32) = unat x div 4 * 4"
  using and_not_mask_unat [of x 2] by (simp add: mask_2_word)

lemma page_align_unat: "unat (x AND NOT 4095 :: u32) = unat x div 4096 * 4096"
  using and_not_mask_unat [of x 12] by (simp add: mask_12_word)

section \<open>Counting\<close>

lemma card_insert_below:
  assumes "i < n" and "\<not> P i"
  shows "card {j. j < n \<and> (j = i \<or> P j)} = Suc (card {j. j < (n :: nat) \<and> P j})"
proof -
  have "{j. j < n \<and> (j = i \<or> P j)} = insert i {j. j < n \<and> P j}"
    using assms by auto
  with assms(2) show ?thesis by simp
qed

lemma card_remove_below:
  assumes "i < n" and "P i"
  shows "card {j. j < n \<and> j \<noteq> i \<and> P j} = card {j. j < (n :: nat) \<and> P j} - 1"
proof -
  have "{j. j < n \<and> j \<noteq> i \<and> P j} = {j. j < n \<and> P j} - {i}"
    by auto
  with assms show ?thesis by simp
qed

lemma card_below_le: "card {j. j < n \<and> P j} \<le> (n :: nat)"
proof -
  have "card {j. j < n \<and> P j} \<le> card {..<n}"
    by (rule card_mono) auto
  then show ?thesis by simp
qed

lemma card_below_pos: "i < n \<Longrightarrow> P i \<Longrightarrow> 0 < card {j. j < (n :: nat) \<and> P j}"
  by (rule card_gt_0_iff [THEN iffD2]) auto

end
