(* ===== verification/Interfaces.thy ===== *)
theory Interfaces
  imports Prelude
begin

text \<open>
  The contracts between components, as locales. \<open>allocator\<close> is what the page allocator
  (\<^verbatim>\<open>mm/pmm.c\<close>) and the kernel heap (\<^verbatim>\<open>mm/heap.c\<close>) promise their clients:
  a request terminates, returns null and changes nothing or returns an address nobody
  holds, and a release gives back exactly that address.
\<close>

section \<open>Allocators\<close>

fun alloc_many :: "('r \<Rightarrow> 's \<Rightarrow> (ptr \<times> 's) option) \<Rightarrow> 'r list \<Rightarrow> 's \<Rightarrow> (ptr list \<times> 's) option" where
  "alloc_many alloc [] s = Some ([], s)"
| "alloc_many alloc (r # rs) s =
     (case alloc r s of None \<Rightarrow> None
      | Some (p, s') \<Rightarrow>
          (case alloc_many alloc rs s' of None \<Rightarrow> None
           | Some (ps, s'') \<Rightarrow> Some (p # ps, s'')))"

locale allocator =
  fixes inv :: "'s \<Rightarrow> bool"
    and live :: "'s \<Rightarrow> ptr set"
    and alloc :: "'r \<Rightarrow> 's \<Rightarrow> (ptr \<times> 's) option"
    and release :: "ptr \<Rightarrow> 's \<Rightarrow> 's option"
  assumes alloc_total: "inv s \<Longrightarrow> \<exists>p s'. alloc r s = Some (p, s')"
    and alloc_inv: "inv s \<Longrightarrow> alloc r s = Some (p, s') \<Longrightarrow> inv s'"
    and alloc_null: "inv s \<Longrightarrow> alloc r s = Some (0, s') \<Longrightarrow> s' = s"
    and alloc_fresh: "inv s \<Longrightarrow> alloc r s = Some (p, s') \<Longrightarrow> p \<noteq> 0 \<Longrightarrow>
          p \<notin> live s \<and> live s' = insert p (live s)"
    and release_ok: "inv s \<Longrightarrow> p \<in> live s \<Longrightarrow>
          \<exists>s'. release p s = Some s' \<and> inv s' \<and> live s' = live s - {p}"
begin

lemma alloc_live_mono: "inv s \<Longrightarrow> alloc r s = Some (p, s') \<Longrightarrow> live s \<subseteq> live s'"
  by (cases "p = 0") (use alloc_null alloc_fresh in blast)+

lemma alloc_many_ok:
  assumes "inv s"
  shows "\<exists>ps s'. alloc_many alloc rs s = Some (ps, s') \<and> inv s' \<and> length ps = length rs
           \<and> distinct (filter (\<lambda>p. p \<noteq> 0) ps)
           \<and> set (filter (\<lambda>p. p \<noteq> 0) ps) \<inter> live s = {}
           \<and> live s' = live s \<union> set (filter (\<lambda>p. p \<noteq> 0) ps)"
  using assms
proof (induction rs arbitrary: s)
  case Nil
  then show ?case by simp
next
  case (Cons r rs)
  from alloc_total [OF Cons.prems, of r]
  obtain p t where a: "alloc r s = Some (p, t)" by blast
  from alloc_inv [OF Cons.prems a] have "inv t" .
  from Cons.IH [OF this] obtain ps u where
    m: "alloc_many alloc rs t = Some (ps, u)" "inv u" "length ps = length rs"
       "distinct (filter (\<lambda>p. p \<noteq> 0) ps)" "set (filter (\<lambda>p. p \<noteq> 0) ps) \<inter> live t = {}"
       "live u = live t \<union> set (filter (\<lambda>p. p \<noteq> 0) ps)"
    by blast
  show ?case
  proof (cases "p = 0")
    case True
    with alloc_null [OF Cons.prems] a have "t = s" by simp
    with a m True show ?thesis by auto
  next
    case False
    from alloc_fresh [OF Cons.prems a False] have "p \<notin> live s" "live t = insert p (live s)"
      by auto
    with a m False show ?thesis by auto
  qed
qed

lemma alloc_release:
  assumes "inv s" and "alloc r s = Some (p, s')" and "p \<noteq> 0"
  shows "\<exists>s''. release p s' = Some s'' \<and> inv s'' \<and> live s'' = live s"
proof -
  from alloc_fresh [OF assms] have f: "p \<notin> live s" "live s' = insert p (live s)" by auto
  from release_ok [OF alloc_inv [OF assms(1,2)], of p] f
  obtain s'' where "release p s' = Some s'' \<and> inv s'' \<and> live s'' = live s' - {p}" by auto
  with f show ?thesis by auto
qed

end

section \<open>Queues\<close>

text \<open>
  \<open>fifo\<close> is what a queue promises: its state represents a list, \<open>put\<close> appends an element
  there is room for, \<open>get\<close> takes the oldest one and yields \<open>empty\<close> when there is none. The
  keyboard's ring buffer and the scheduler's ready queue provide it.
\<close>

fun drain :: "('s \<Rightarrow> 'a \<times> 's) \<Rightarrow> nat \<Rightarrow> 's \<Rightarrow> 'a list \<times> 's" where
  "drain get 0 s = ([], s)"
| "drain get (Suc n) s = (let (x, s') = get s; (xs, s'') = drain get n s' in (x # xs, s''))"

locale fifo =
  fixes rep :: "'s \<Rightarrow> 'a list \<Rightarrow> bool"
    and room :: "'s \<Rightarrow> 'a list \<Rightarrow> 'a \<Rightarrow> bool"
    and put :: "'a \<Rightarrow> 's \<Rightarrow> 's"
    and get :: "'s \<Rightarrow> 'a \<times> 's"
    and empty :: 'a
  assumes put_room: "rep s xs \<Longrightarrow> room s xs x \<Longrightarrow> rep (put x s) (xs @ [x])"
    and get_empty: "rep s [] \<Longrightarrow> get s = (empty, s)"
    and get_cons: "rep s (x # xs) \<Longrightarrow> \<exists>s'. get s = (x, s') \<and> rep s' xs"
begin

lemma put_then_get:
  assumes "rep s xs" and "room s xs x"
  shows "\<exists>s'. get (put x s) = (hd (xs @ [x]), s') \<and> rep s' (tl (xs @ [x]))"
proof -
  from put_room [OF assms] have "rep (put x s) (hd (xs @ [x]) # tl (xs @ [x]))" by simp
  then show ?thesis by (rule get_cons)
qed

lemma drain_all: "rep s xs \<Longrightarrow> \<exists>s'. drain get (length xs) s = (xs, s') \<and> rep s' []"
proof (induction xs arbitrary: s)
  case (Cons x xs)
  from get_cons [OF Cons.prems] obtain t where "get s = (x, t)" "rep t xs" by blast
  with Cons.IH [of t] show ?case by (auto simp: Let_def)
qed simp

lemma rep_unique:
  assumes "rep s xs" and "rep s ys" and "length xs = length ys"
  shows "xs = ys"
proof -
  from drain_all [OF assms(1)] obtain s1 where "drain get (length xs) s = (xs, s1)" by blast
  moreover from drain_all [OF assms(2)] obtain s2 where "drain get (length ys) s = (ys, s2)" by blast
  ultimately show ?thesis unfolding assms(3) by (simp only: prod.inject)
qed

end

end
