(* ===== verification/Floats.thy ===== *)
theory Floats
  imports Prelude Complex_Main
begin

text \<open>
  Single-precision arithmetic. The drawing and colour code computes a few values in \<open>float\<close>; the
  operations it applies are the fields of a record over a type \<open>'f\<close>, so that definitions compute
  with whatever arithmetic is given. \<open>exact_floats\<close> is what IEEE single precision
  guarantees: integers up to \<open>2^24\<close> are represented exactly, and an operation whose exact result
  is such an integer returns it. Rational arithmetic is an instance for concrete runs.
\<close>

record 'f floats =
  f_of_int :: "int \<Rightarrow> 'f"
  f_add :: "'f \<Rightarrow> 'f \<Rightarrow> 'f"
  f_sub :: "'f \<Rightarrow> 'f \<Rightarrow> 'f"
  f_mul :: "'f \<Rightarrow> 'f \<Rightarrow> 'f"
  f_div :: "'f \<Rightarrow> 'f \<Rightarrow> 'f"
  f_less :: "'f \<Rightarrow> 'f \<Rightarrow> bool"
  f_trunc :: "'f \<Rightarrow> int"

definition f_exact :: "int \<Rightarrow> bool" where
  "f_exact n \<longleftrightarrow> \<bar>n\<bar> \<le> 16777216"

definition exact_floats :: "'f floats \<Rightarrow> bool" where
  "exact_floats F \<longleftrightarrow>
     (\<forall>m n. f_exact m \<longrightarrow> f_exact n \<longrightarrow>
        (f_exact (m + n) \<longrightarrow> f_add F (f_of_int F m) (f_of_int F n) = f_of_int F (m + n))
      \<and> (f_exact (m - n) \<longrightarrow> f_sub F (f_of_int F m) (f_of_int F n) = f_of_int F (m - n))
      \<and> (f_exact (m * n) \<longrightarrow> f_mul F (f_of_int F m) (f_of_int F n) = f_of_int F (m * n))
      \<and> (n \<noteq> 0 \<longrightarrow> n dvd m \<longrightarrow> f_div F (f_of_int F m) (f_of_int F n) = f_of_int F (m div n))
      \<and> (f_less F (f_of_int F m) (f_of_int F n) \<longleftrightarrow> m < n))
     \<and> (\<forall>n. f_exact n \<longrightarrow> f_trunc F (f_of_int F n) = n)"

lemma exact_floatsD:
  assumes "exact_floats F" and "f_exact m" "f_exact n"
  shows "f_exact (m + n) \<Longrightarrow> f_add F (f_of_int F m) (f_of_int F n) = f_of_int F (m + n)"
    and "f_exact (m - n) \<Longrightarrow> f_sub F (f_of_int F m) (f_of_int F n) = f_of_int F (m - n)"
    and "f_exact (m * n) \<Longrightarrow> f_mul F (f_of_int F m) (f_of_int F n) = f_of_int F (m * n)"
    and "n \<noteq> 0 \<Longrightarrow> n dvd m \<Longrightarrow> f_div F (f_of_int F m) (f_of_int F n) = f_of_int F (m div n)"
    and "f_less F (f_of_int F m) (f_of_int F n) \<longleftrightarrow> m < n"
    and "f_trunc F (f_of_int F n) = n"
  using assms unfolding exact_floats_def by blast+

text \<open>Rational arithmetic, truncated towards zero as C does.\<close>

definition rat_floats :: "rat floats" where
  "rat_floats = \<lparr>f_of_int = of_int, f_add = (+), f_sub = (-), f_mul = (*), f_div = (/),
     f_less = (<), f_trunc = (\<lambda>x. if x < 0 then - floor (- x) else floor x)\<rparr>"

lemma rat_floats_exact: "exact_floats rat_floats"
  by (auto simp: exact_floats_def rat_floats_def of_int_div)

lemma f_exact_small: "0 \<le> n \<Longrightarrow> n \<le> 16777216 \<Longrightarrow> f_exact n"
  by (simp add: f_exact_def)

lemma f_exact_byte: "f_exact (uint (b :: u8))"
  using uint_lt2p [of b] uint_ge_0 [of b] by (simp add: f_exact_def)

end
