(* ===== verification/Pmm.thy ===== *)
theory Pmm
  imports Interfaces
begin

text \<open>
  The physical memory manager, \<^verbatim>\<open>kernel/mm/pmm.c\<close>: a bitmap with one bit per 4 KiB
  page frame (1 = in use), first-fit allocation, and the counters the shell reports.
  \<open>bitmap_words\<close> is the memory behind the pointer \<open>memory_bitmap\<close>. Abstractly the
  manager is the set of frames whose bit is set; \<open>pmm_inv\<close> ties the counter to it.
\<close>

section \<open>State and bitmap\<close>

record multiboot_info =
  mbi_flags :: u32
  mem_lower :: u32
  mem_upper :: u32

record pmm =
  total_memory :: u32
  used_blocks :: u32
  total_blocks :: u32
  memory_bitmap :: ptr
  bitmap_words :: "nat \<Rightarrow> u32"

abbreviation BITMAP_SIZE :: u32 where
  "BITMAP_SIZE \<equiv> 128 * 1024"

definition MULTIBOOT_FLAG_MEM :: u32 where
  "MULTIBOOT_FLAG_MEM = 1"

definition bitmap_set :: "u32 \<Rightarrow> pmm \<Rightarrow> pmm" where
  "bitmap_set b s =
     s\<lparr>bitmap_words := (bitmap_words s)
        (unat (b div 32) := bitmap_words s (unat (b div 32)) OR push_bit (unat (b mod 32)) 1)\<rparr>"

definition bitmap_clear :: "u32 \<Rightarrow> pmm \<Rightarrow> pmm" where
  "bitmap_clear b s =
     s\<lparr>bitmap_words := (bitmap_words s)
        (unat (b div 32) := bitmap_words s (unat (b div 32)) AND NOT (push_bit (unat (b mod 32)) 1))\<rparr>"

definition bitmap_test :: "u32 \<Rightarrow> pmm \<Rightarrow> u32" where
  "bitmap_test b s = bitmap_words s (unat (b div 32)) AND push_bit (unat (b mod 32)) 1"

text \<open>The scan of \<open>bitmap_find_free\<close>; its result is an \<open>int32_t\<close>, \<open>-1\<close> for none.\<close>

function bitmap_find_free_from :: "pmm \<Rightarrow> u32 \<Rightarrow> int" where
  "bitmap_find_free_from s i =
     (if i < total_blocks s
      then if bitmap_test i s = 0 then sint i else bitmap_find_free_from s (i + 1)
      else - 1)"
  by pat_completeness auto
termination
  by (relation "measure (\<lambda>(s, i). unat (total_blocks s) - unat i)") (auto intro: loop_measure32)

declare bitmap_find_free_from.simps [simp del]

definition bitmap_find_free :: "pmm \<Rightarrow> int" where
  "bitmap_find_free s = bitmap_find_free_from s 0"

section \<open>Operations\<close>

definition pmm_alloc_page :: "pmm \<Rightarrow> ptr \<times> pmm" where
  "pmm_alloc_page s =
     (let page = bitmap_find_free s in
      if page < 0 then (0, s)
      else let s1 = bitmap_set (word_of_int page) s
           in (word_of_int page * PAGE_SIZE, s1\<lparr>used_blocks := used_blocks s1 + 1\<rparr>))"

definition pmm_free_page :: "ptr \<Rightarrow> pmm \<Rightarrow> pmm" where
  "pmm_free_page page s =
     (let page_num = page div PAGE_SIZE in
      if page_num \<ge> total_blocks s then s
      else if bitmap_test page_num s = 0 then s
      else let s1 = bitmap_clear page_num s in s1\<lparr>used_blocks := used_blocks s1 - 1\<rparr>)"

definition pmm_get_total_memory :: "pmm \<Rightarrow> u32" where
  "pmm_get_total_memory s = total_memory s"

definition pmm_get_used_memory :: "pmm \<Rightarrow> u32" where
  "pmm_get_used_memory s = used_blocks s * PAGE_SIZE"

definition pmm_get_free_memory :: "pmm \<Rightarrow> u32" where
  "pmm_get_free_memory s = (total_blocks s - used_blocks s) * PAGE_SIZE"

text \<open>
  \<open>pmm_init\<close>, without its progress messages. \<open>pmm_free_region\<close> is its last loop, which
  hands the frames \<open>[i, free_end)\<close> to the allocator.
\<close>

function pmm_free_region :: "u32 \<Rightarrow> u32 \<Rightarrow> pmm \<Rightarrow> pmm" where
  "pmm_free_region i free_end s =
     (if i < free_end
      then let s1 = bitmap_clear i s
           in pmm_free_region (i + 1) free_end (s1\<lparr>used_blocks := used_blocks s1 - 1\<rparr>)
      else s)"
  by pat_completeness auto
termination
  by (relation "measure (\<lambda>(i, e, s). unat e - unat i)") (auto intro: loop_measure32)

declare pmm_free_region.simps [simp del]

definition pmm_free_start :: "u32 \<Rightarrow> u32" where
  "pmm_free_start bitmap =
     ((bitmap + BITMAP_SIZE + PAGE_SIZE - 1) AND NOT (PAGE_SIZE - 1)) div PAGE_SIZE"

definition pmm_init :: "multiboot_info \<Rightarrow> u32 \<Rightarrow> pmm \<Rightarrow> pmm" where
  "pmm_init mbi kernel_end s =
     (let total = (if mbi_flags mbi AND MULTIBOOT_FLAG_MEM \<noteq> 0
                   then (mem_lower mbi + mem_upper mbi) * 1024
                   else 32 * 1024 * 1024);
          blocks = total div PAGE_SIZE;
          bitmap = (kernel_end + PAGE_SIZE - 1) AND NOT (PAGE_SIZE - 1);
          filled = (\<lambda>i. if i < unat (BITMAP_SIZE div 4) then 0xFFFFFFFF else bitmap_words s i);
          s1 = s\<lparr>total_memory := total, total_blocks := blocks, used_blocks := blocks,
                 memory_bitmap := bitmap, bitmap_words := filled\<rparr>
      in pmm_free_region (pmm_free_start bitmap) (total div PAGE_SIZE) s1)"

section \<open>The set of used frames\<close>

definition page_used :: "pmm \<Rightarrow> nat \<Rightarrow> bool" where
  "page_used s i \<longleftrightarrow> bit (bitmap_words s (i div 32)) (i mod 32)"

definition used_count :: "pmm \<Rightarrow> nat" where
  "used_count s = card {i. i < unat (total_blocks s) \<and> page_used s i}"

definition pmm_inv :: "pmm \<Rightarrow> bool" where
  "pmm_inv s \<longleftrightarrow> unat (total_blocks s) < 2 ^ 20 \<and> unat (used_blocks s) = used_count s
     \<and> page_used s 0"

lemma bitmap_frames [frame_simps]:
  "total_blocks (bitmap_set b s) = total_blocks s" "total_blocks (bitmap_clear b s) = total_blocks s"
  "used_blocks (bitmap_set b s) = used_blocks s" "used_blocks (bitmap_clear b s) = used_blocks s"
  by (simp_all add: bitmap_set_def bitmap_clear_def)

lemma page_used_more [frame_simps]: "page_used (s\<lparr>used_blocks := n\<rparr>) = page_used s"
  by (simp add: page_used_def fun_eq_iff)

lemma bit_index_iff:
  "i div 32 = unat (b div 32 :: u32) \<and> i mod 32 = unat (b mod 32) \<longleftrightarrow> i = unat b"
  by (auto simp: unat_div unat_mod) (metis div_mult_mod_eq)

lemma unat_mod_32_bound: "unat (b mod 32 :: u32) < 32"
  by (simp add: unat_mod)

lemma page_used_bitmap_set: "page_used (bitmap_set b s) i \<longleftrightarrow> i = unat b \<or> page_used s i"
proof -
  have "page_used (bitmap_set b s) i \<longleftrightarrow>
      (i div 32 = unat (b div 32) \<and> i mod 32 = unat (b mod 32)) \<or> page_used s i"
    by (auto simp: page_used_def bitmap_set_def bit_simps)
  then show ?thesis by (simp only: bit_index_iff)
qed

lemma page_used_bitmap_clear: "page_used (bitmap_clear b s) i \<longleftrightarrow> i \<noteq> unat b \<and> page_used s i"
proof -
  have "page_used (bitmap_clear b s) i \<longleftrightarrow>
      \<not> (i div 32 = unat (b div 32) \<and> i mod 32 = unat (b mod 32)) \<and> page_used s i"
    using unat_mod_32_bound [of b] by (auto simp: page_used_def bitmap_clear_def bit_simps)
  then show ?thesis by (simp only: bit_index_iff)
qed

lemma bitmap_test_page_used: "bitmap_test b s \<noteq> 0 \<longleftrightarrow> page_used s (unat b)"
proof -
  let ?k = "unat (b mod 32)" and ?w = "bitmap_words s (unat (b div 32))"
  have "bitmap_test b s \<noteq> 0 \<longleftrightarrow> bit ?w ?k"
  proof
    assume "bitmap_test b s \<noteq> 0"
    then obtain n where "bit (bitmap_test b s) n"
      by (metis bit_0_eq bit_word_eqI bot_apply bot_bool_def)
    then show "bit ?w ?k"
      by (auto simp: bitmap_test_def bit_simps)
  next
    assume "bit ?w ?k"
    then have "bit (bitmap_test b s) ?k"
      using unat_mod_32_bound [of b] by (simp add: bitmap_test_def bit_simps)
    then show "bitmap_test b s \<noteq> 0"
      by (metis bit_0_eq bot_apply bot_bool_def)
  qed
  then show ?thesis by (simp add: page_used_def unat_div unat_mod)
qed

section \<open>First fit\<close>

lemma bitmap_find_free_from_spec:
  assumes "unat (total_blocks s) < 2 ^ 20"
  shows "(bitmap_find_free_from s i = - 1 \<and>
            (\<forall>j. unat i \<le> j \<and> j < unat (total_blocks s) \<longrightarrow> page_used s j))
       \<or> (\<exists>k. bitmap_find_free_from s i = int k \<and> unat i \<le> k \<and> k < unat (total_blocks s)
            \<and> \<not> page_used s k \<and> (\<forall>j. unat i \<le> j \<and> j < k \<longrightarrow> page_used s j))"
  using assms
proof (induction s i rule: bitmap_find_free_from.induct)
  case (1 s i)
  note eq = bitmap_find_free_from.simps [of s i]
  show ?case
  proof (cases "i < total_blocks s")
    case False
    with eq show ?thesis by (auto simp: word_less_nat_alt)
  next
    case lt: True
    then have i: "unat i < unat (total_blocks s)" by (simp add: word_less_nat_alt)
    show ?thesis
    proof (cases "bitmap_test i s = 0")
      case True
      with eq lt i "1.prems" have "bitmap_find_free_from s i = int (unat i)"
        by (simp add: sint_small32)
      with True i bitmap_test_page_used [of i s] show ?thesis
        by (intro disjI2 exI [of _ "unat i"]) auto
    next
      case False
      with bitmap_test_page_used have used: "page_used s (unat i)" by blast
      from eq lt False have step: "bitmap_find_free_from s i = bitmap_find_free_from s (i + 1)"
        by simp
      have cover: "unat i \<le> j \<longleftrightarrow> j = unat i \<or> unat (i + 1) \<le> j" for j
        using unat_Suc32 [OF lt] by auto
      from "1.IH" [OF lt False "1.prems"] show ?thesis
        unfolding step cover using used by blast
    qed
  qed
qed

lemma bitmap_find_free_cases:
  assumes "unat (total_blocks s) < 2 ^ 20"
  obtains (full) "bitmap_find_free s = - 1" "\<And>j. j < unat (total_blocks s) \<Longrightarrow> page_used s j"
    | (free) k where "bitmap_find_free s = int k" "k < unat (total_blocks s)" "\<not> page_used s k"
        "\<And>j. j < k \<Longrightarrow> page_used s j"
  using bitmap_find_free_from_spec [OF assms, of 0] unfolding bitmap_find_free_def by auto

lemma pmm_alloc_page_free:
  assumes "unat (total_blocks s) < 2 ^ 20" and "bitmap_find_free s = int k"
  shows "pmm_alloc_page s = (of_nat (k * 4096), (bitmap_set (of_nat k) s)\<lparr>used_blocks := used_blocks s + 1\<rparr>)"
  using assms by (simp add: pmm_alloc_page_def Let_def frame_simps)

lemma used_count_alloc:
  assumes "k < unat (total_blocks s)" and "\<not> page_used s k"
  shows "used_count ((bitmap_set (of_nat k) s)\<lparr>used_blocks := n\<rparr>) = Suc (used_count s)"
proof -
  from assms(1) unat_lt32 [of "total_blocks s"] have "unat (of_nat k :: u32) = k" by simp
  with card_insert_below [where P = "page_used s", OF assms] show ?thesis
    by (simp add: used_count_def page_used_bitmap_set frame_simps)
qed

lemma used_count_free:
  assumes "unat k < unat (total_blocks s)" and "page_used s (unat k)"
  shows "used_count ((bitmap_clear k s)\<lparr>used_blocks := n\<rparr>) = used_count s - 1"
  using card_remove_below [where P = "page_used s", OF assms]
  by (simp add: used_count_def page_used_bitmap_clear frame_simps)

lemma used_count_le: "used_count s \<le> unat (total_blocks s)"
  by (simp add: used_count_def card_below_le)

lemma pmm_alloc_page_inv [inv_intros]:
  assumes "pmm_inv s"
  shows "pmm_inv (snd (pmm_alloc_page s))"
proof -
  from assms have b: "unat (total_blocks s) < 2 ^ 20" by (simp add: pmm_inv_def)
  from this show ?thesis
  proof (cases rule: bitmap_find_free_cases)
    case full
    with assms show ?thesis by (simp add: pmm_alloc_page_def)
  next
    case (free k)
    from used_count_le [of s] b assms have "unat (used_blocks s) < 2 ^ 20"
      by (simp add: pmm_inv_def)
    then have "unat (used_blocks s + 1) = Suc (unat (used_blocks s))"
      by (subst unat_plus32) simp_all
    with assms used_count_alloc [OF free(2,3)] show ?thesis
      by (simp add: pmm_alloc_page_free [OF b free(1)] pmm_inv_def frame_simps page_used_bitmap_set)
  qed
qed

lemma pmm_free_page_eq:
  "pmm_free_page p s =
     (if unat (p div 4096) < unat (total_blocks s) \<and> page_used s (unat (p div 4096))
      then (bitmap_clear (p div 4096) s)\<lparr>used_blocks := used_blocks s - 1\<rparr> else s)"
proof -
  have "\<not> total_blocks s \<le> p div 4096 \<longleftrightarrow> unat (p div 4096) < unat (total_blocks s)"
    by (simp add: word_less_nat_alt not_le)
  then show ?thesis
    using bitmap_test_page_used [of "p div 4096" s]
    by (auto simp: pmm_free_page_def Let_def frame_simps)
qed

lemma unat_dec32: "0 < unat (n :: u32) \<Longrightarrow> unat (n - 1) = unat n - 1"
  using unat_minus32 [of 1 n] by (simp add: word_le_nat_alt)

lemma used_count_pos: "i < unat (total_blocks s) \<Longrightarrow> page_used s i \<Longrightarrow> 0 < used_count s"
  by (simp add: used_count_def card_below_pos)

lemma pmm_free_page_inv [inv_intros]:
  assumes "pmm_inv s" and "unat p div 4096 \<noteq> 0"
  shows "pmm_inv (pmm_free_page p s)"
proof (cases "unat (p div 4096) < unat (total_blocks s) \<and> page_used s (unat (p div 4096))")
  case True
  then have "0 < used_count s" by (blast intro: used_count_pos)
  with assms True show ?thesis
    by (simp add: pmm_free_page_eq pmm_inv_def used_count_free unat_dec32 frame_simps
        page_used_bitmap_clear unat_div)
next
  case False
  with assms show ?thesis by (simp only: pmm_free_page_eq if_False)
qed

section \<open>Initialisation\<close>

lemma pmm_free_region_spec:
  assumes "unat e \<le> unat (total_blocks s)" and "unat (used_blocks s) = used_count s"
    and "\<And>j. unat i \<le> j \<Longrightarrow> j < unat e \<Longrightarrow> page_used s j"
  shows "total_blocks (pmm_free_region i e s) = total_blocks s
       \<and> memory_bitmap (pmm_free_region i e s) = memory_bitmap s
       \<and> unat (used_blocks (pmm_free_region i e s)) = used_count (pmm_free_region i e s)
       \<and> (\<forall>j. page_used (pmm_free_region i e s) j \<longleftrightarrow> page_used s j \<and> \<not> (unat i \<le> j \<and> j < unat e))"
  using assms
proof (induction i e s rule: pmm_free_region.induct)
  case (1 i e s)
  note eq = pmm_free_region.simps [of i e s]
  show ?case
  proof (cases "i < e")
    case False
    with eq "1.prems" show ?thesis by (auto simp: word_less_nat_alt)
  next
    case lt: True
    let ?t = "(bitmap_clear i s)\<lparr>used_blocks := used_blocks s - 1\<rparr>"
    from lt have ie: "unat i < unat e" by (simp add: word_less_nat_alt)
    with "1.prems" have i: "unat i < unat (total_blocks s)" "page_used s (unat i)" by auto
    from eq lt have step: "pmm_free_region i e s = pmm_free_region (i + 1) e ?t"
      by (simp add: Let_def frame_simps)
    have Suc: "unat (i + 1) = Suc (unat i)" using lt by (rule unat_Suc32)
    have count: "unat (used_blocks ?t) = used_count ?t"
      using "1.prems"(2) used_count_pos [OF i] used_count_free [OF i] by (simp add: unat_dec32)
    have rest: "page_used ?t j" if "unat (i + 1) \<le> j" "j < unat e" for j
      using that Suc "1.prems"(3) by (simp add: page_used_bitmap_clear frame_simps)
    have same: "unat e \<le> unat (total_blocks ?t)" "total_blocks ?t = total_blocks s"
        "memory_bitmap ?t = memory_bitmap s"
      using "1.prems"(1) by (simp_all add: frame_simps) (simp add: bitmap_clear_def)
    have cover: "unat i \<le> j \<and> j < unat e \<longleftrightarrow> j = unat i \<or> unat (i + 1) \<le> j \<and> j < unat e" for j
      using Suc ie by auto
    from "1.IH" [OF lt refl, folded step] count rest same show ?thesis
      by (auto simp: step cover page_used_bitmap_clear frame_simps)
  qed
qed

lemma bit_all_ones: "n < 32 \<Longrightarrow> bit (0xFFFFFFFF :: u32) n"
proof -
  have "(0xFFFFFFFF :: u32) = - 1" by simp
  then show "n < 32 \<Longrightarrow> bit (0xFFFFFFFF :: u32) n" by (simp only: bit_minus_1_iff) simp
qed

lemma page_used_filled:
  assumes "j < 2 ^ 20" and "\<And>w. w < 32768 \<Longrightarrow> bitmap_words s w = 0xFFFFFFFF"
  shows "page_used s j"
proof -
  from assms(1) have "j div 32 < 32768" by (simp add: less_mult_imp_div_less)
  then have "bitmap_words s (j div 32) = 0xFFFFFFFF" by (rule assms(2))
  moreover have "bit (0xFFFFFFFF :: u32) (j mod 32)" by (rule bit_all_ones) simp
  ultimately show ?thesis by (simp only: page_used_def)
qed

lemma pmm_free_start_unat:
  assumes "unat b < 2 ^ 31"
  shows "unat (pmm_free_start b) = (unat b + 131072 + 4095) div 4096"
proof -
  have e: "b + BITMAP_SIZE + PAGE_SIZE - 1 = b + 135167" and n: "(PAGE_SIZE - 1 :: u32) = 4095"
    by simp_all
  have "unat (b + 135167) = unat b + 135167"
    using assms by (subst unat_plus32) simp_all
  then have "unat (((b + 135167) AND NOT 4095) div PAGE_SIZE) = (unat b + 135167) div 4096 * 4096 div 4096"
    by (simp only: unat_div page_align_unat) simp
  then show ?thesis
    by (simp only: pmm_free_start_def e n) simp
qed

lemma page_ceil_reserve: "(c * 4096 + 131072 + 4095) div 4096 = (c * 4096 + 131072) div (4096 :: nat)"
  by (simp add: add.assoc)

lemma pmm_init_spec:
  fixes s :: pmm and mbi :: multiboot_info and kernel_end :: u32
  assumes "unat kernel_end < 2 ^ 31 - 4096"
  defines "t \<equiv> pmm_init mbi kernel_end s"
  shows "unat (memory_bitmap t) = (unat kernel_end + 4095) div 4096 * 4096"
    and "unat (total_blocks t) < 2 ^ 20"
    and "unat (used_blocks t) = used_count t"
    and "j < unat (total_blocks t) \<Longrightarrow>
           page_used t j \<longleftrightarrow> j < (unat (memory_bitmap t) + 131072) div 4096"
proof -
  define total where "total = (if mbi_flags mbi AND MULTIBOOT_FLAG_MEM \<noteq> 0
                   then (mem_lower mbi + mem_upper mbi) * 1024 else 32 * 1024 * 1024)"
  define blocks where "blocks = total div PAGE_SIZE"
  define bm where "bm = (kernel_end + PAGE_SIZE - 1) AND NOT (PAGE_SIZE - 1)"
  define s1 where "s1 = s\<lparr>total_memory := total, total_blocks := blocks, used_blocks := blocks,
     memory_bitmap := bm,
     bitmap_words := (\<lambda>i. if i < unat (BITMAP_SIZE div 4) then 0xFFFFFFFF else bitmap_words s i)\<rparr>"
  have t: "t = pmm_free_region (pmm_free_start bm) blocks s1"
    by (simp only: t_def pmm_init_def Let_def total_def blocks_def bm_def s1_def)
  have "kernel_end + PAGE_SIZE - 1 = kernel_end + 4095" and "(PAGE_SIZE - 1 :: u32) = 4095"
    by simp_all
  moreover have "unat (kernel_end + 4095) = unat kernel_end + 4095"
    using assms by (subst unat_plus32) simp_all
  ultimately have bm: "unat bm = (unat kernel_end + 4095) div 4096 * 4096"
    by (simp only: bm_def page_align_unat)
  then have small: "unat bm < 2 ^ 31" using assms(1) by simp
  have size: "unat (BITMAP_SIZE div 4) = 32768" by simp
  have blocks: "unat blocks < 2 ^ 20"
    using unat_lt32 [of total] by (simp add: blocks_def unat_div less_mult_imp_div_less)
  have filled: "page_used s1 j" if "j < 2 ^ 20" for j
    using that by (rule page_used_filled) (simp add: s1_def size)
  then have "{i. i < unat blocks \<and> page_used s1 i} = {..<unat blocks}"
    using blocks by auto
  then have "used_count s1 = unat blocks"
    by (simp add: used_count_def s1_def)
  then have pre: "unat blocks \<le> unat (total_blocks s1)" "unat (used_blocks s1) = used_count s1"
    by (simp_all add: s1_def)
  have R: "total_blocks t = total_blocks s1 \<and> memory_bitmap t = memory_bitmap s1
       \<and> unat (used_blocks t) = used_count t
       \<and> (\<forall>j. page_used t j \<longleftrightarrow> page_used s1 j \<and> \<not> (unat (pmm_free_start bm) \<le> j \<and> j < unat blocks))"
    unfolding t by (rule pmm_free_region_spec [OF pre]) (use blocks filled in auto)
  show "unat (memory_bitmap t) = (unat kernel_end + 4095) div 4096 * 4096"
    using R bm by (simp add: s1_def)
  show "unat (total_blocks t) < 2 ^ 20" "unat (used_blocks t) = used_count t"
    using R blocks by (simp_all add: s1_def)
  have "(unat bm + 131072 + 4095) div 4096 = (unat bm + 131072) div 4096"
    unfolding bm by (rule page_ceil_reserve)
  then have start: "unat (pmm_free_start bm) = (unat bm + 131072) div 4096"
    by (simp only: pmm_free_start_unat [OF small])
  show "page_used t j \<longleftrightarrow> j < (unat (memory_bitmap t) + 131072) div 4096"
    if j: "j < unat (total_blocks t)"
  proof -
    from R have tot: "total_blocks t = blocks" and mb: "memory_bitmap t = bm"
      and used: "page_used t j \<longleftrightarrow> page_used s1 j \<and> \<not> (unat (pmm_free_start bm) \<le> j \<and> j < unat blocks)"
      by (simp_all add: s1_def)
    from j blocks have "page_used s1 j" by (intro filled) (simp add: tot)
    with used j show ?thesis by (simp add: tot mb start not_le)
  qed
qed

lemma pmm_init_inv:
  assumes "unat kernel_end < 2 ^ 31 - 4096" and "0 < unat (total_blocks (pmm_init mbi kernel_end s))"
  shows "pmm_inv (pmm_init mbi kernel_end s)"
  using pmm_init_spec(2,3) [OF assms(1)] pmm_init_spec(4) [OF assms]
  by (simp add: pmm_inv_def)

section \<open>The page allocator contract\<close>

definition pmm_live :: "pmm \<Rightarrow> ptr set" where
  "pmm_live s = {p. p \<noteq> 0 \<and> unat p mod 4096 = 0 \<and> unat p div 4096 < unat (total_blocks s)
                   \<and> page_used s (unat p div 4096)}"

text \<open>The address of frame \<open>k\<close>.\<close>

definition frame_ptr :: "nat \<Rightarrow> ptr" where
  "frame_ptr k = of_nat (k * 4096)"

lemma unat_frame_ptr [simp]: "k < 2 ^ 20 \<Longrightarrow> unat (frame_ptr k) = k * 4096"
  unfolding frame_ptr_def by (subst unat_of_nat32) simp_all

lemma frame_ptr_0_iff: "k < 2 ^ 20 \<Longrightarrow> frame_ptr k = 0 \<longleftrightarrow> k = 0"
  unfolding frame_ptr_def by (subst of_nat32_eq_0_iff) simp_all

lemma pmm_alloc_page_cases:
  assumes "pmm_inv s"
  obtains (full) "pmm_alloc_page s = (0, s)" "\<And>j. j < unat (total_blocks s) \<Longrightarrow> page_used s j"
    | (free) k t where "pmm_alloc_page s = (frame_ptr k, t)" "0 < k"
        "k < unat (total_blocks s)" "\<not> page_used s k" "\<And>j. j < k \<Longrightarrow> page_used s j"
        "t = (bitmap_set (of_nat k) s)\<lparr>used_blocks := used_blocks s + 1\<rparr>"
proof -
  from assms have b: "unat (total_blocks s) < 2 ^ 20" and z: "page_used s 0"
    by (simp_all add: pmm_inv_def)
  from b show thesis
  proof (cases rule: bitmap_find_free_cases)
    case full
    then show ?thesis by (intro that(1)) (simp_all add: pmm_alloc_page_def)
  next
    case (free k)
    with z have "0 < k" by (cases k) auto
    with free show ?thesis by (intro that(2)) (auto simp: pmm_alloc_page_free [OF b] frame_ptr_def)
  qed
qed

lemma page_addr_eq:
  assumes "unat q mod 4096 = 0" and "k < 2 ^ 20"
  shows "unat q div 4096 = k \<longleftrightarrow> q = frame_ptr k"
proof
  assume "unat q div 4096 = k"
  with assms(1) have "unat q = k * 4096" by (metis add.right_neutral div_mult_mod_eq)
  with assms(2) have "unat q = unat (frame_ptr k)" by simp
  then show "q = frame_ptr k" by (rule word_unat_eq_iff [THEN iffD2])
next
  assume "q = frame_ptr k"
  with assms(2) show "unat q div 4096 = k" by simp
qed

lemma pmm_alloc_page_live:
  assumes "pmm_inv s" and "pmm_alloc_page s = (p, t)" and "p \<noteq> 0"
  shows "p \<notin> pmm_live s \<and> pmm_live t = insert p (pmm_live s)"
  using assms(1)
proof (cases rule: pmm_alloc_page_cases)
  case full
  with assms show ?thesis by simp
next
  case (free k t')
  from assms(1) free(3) have b: "k < 2 ^ 20" by (simp add: pmm_inv_def)
  with free assms have p: "p = frame_ptr k" "t = t'" "unat (of_nat k :: u32) = k"
      "unat p = k * 4096" by simp_all
  have "q \<in> pmm_live t \<longleftrightarrow> q = p \<or> q \<in> pmm_live s" for q
    using free(2,3) p page_addr_eq [of q k] b
    by (auto simp: pmm_live_def free(6) page_used_bitmap_set frame_simps)
  with free(4) p show ?thesis by (auto simp: pmm_live_def)
qed

lemma pmm_free_page_live:
  assumes "pmm_inv s" and "p \<in> pmm_live s"
  shows "pmm_live (pmm_free_page p s) = pmm_live s - {p}"
proof -
  from assms have p: "unat p mod 4096 = 0" "unat p div 4096 < unat (total_blocks s)"
    "page_used s (unat p div 4096)" and b: "unat p div 4096 < 2 ^ 20"
    by (auto simp: pmm_live_def pmm_inv_def)
  then have eq: "pmm_free_page p s = (bitmap_clear (p div 4096) s)\<lparr>used_blocks := used_blocks s - 1\<rparr>"
    by (simp add: pmm_free_page_eq unat_div)
  have "unat q div 4096 = unat p div 4096 \<longleftrightarrow> q = p" if "unat q mod 4096 = 0" for q
    using page_addr_eq [OF that b] page_addr_eq [OF p(1) b] by auto
  then show ?thesis
    unfolding eq by (auto simp: pmm_live_def page_used_bitmap_clear unat_div frame_simps)
qed

interpretation pages: allocator pmm_inv pmm_live "\<lambda>_ :: unit. \<lambda>s. Some (pmm_alloc_page s)"
  "\<lambda>p s. Some (pmm_free_page p s)"
proof (unfold_locales, goal_cases)
  case (1 s r)
  then show ?case by (metis surj_pair)
next
  case (2 s r p s')
  then show ?case using pmm_alloc_page_inv [of s] by simp
next
  case (3 s r s')
  from 3(1) show ?case
    by (cases rule: pmm_alloc_page_cases) (use 3 in \<open>auto simp: pmm_inv_def frame_ptr_0_iff\<close>)
next
  case (4 s r p s')
  then show ?case using pmm_alloc_page_live [of s p s'] by simp
next
  case (5 s p)
  then have "p \<noteq> 0" "unat p mod 4096 = 0" by (auto simp: pmm_live_def)
  then have "unat p div 4096 \<noteq> 0"
    by (metis add.right_neutral div_mult_mod_eq mult_zero_left unat_eq_zero)
  with 5 pmm_free_page_inv pmm_free_page_live show ?case by simp
qed

section \<open>Properties\<close>

lemma bitmap_clear_set: "\<not> page_used s (unat b) \<Longrightarrow> bitmap_clear b (bitmap_set b s) = s"
proof -
  assume free: "\<not> page_used s (unat b)"
  let ?w = "bitmap_words s (unat (b div 32))" and ?m = "push_bit (unat (b mod 32)) (1 :: u32)"
  have "(?w OR ?m) AND NOT ?m = ?w"
    by (rule bit_word_eqI) (use free in \<open>auto simp: page_used_def bit_simps unat_div unat_mod\<close>)
  then show ?thesis by (simp add: bitmap_clear_def bitmap_set_def)
qed

lemma frame_ptr_div: "k < 2 ^ 20 \<Longrightarrow> frame_ptr k div 4096 = of_nat k"
  by (rule word_unat_eq_iff [THEN iffD2]) (simp add: unat_div)

text \<open>A 128 MiB machine with the kernel ending at \<open>0x120000\<close>, for the witnesses.\<close>

definition mbi_demo :: multiboot_info where
  "mbi_demo = \<lparr>mbi_flags = 1, mem_lower = 639, mem_upper = 130048\<rparr>"

definition pmm_zero :: pmm where
  "pmm_zero = \<lparr>total_memory = 0, used_blocks = 0, total_blocks = 0, memory_bitmap = 0,
     bitmap_words = (\<lambda>_. 0)\<rparr>"

definition pmm_demo :: pmm where
  "pmm_demo = pmm_init mbi_demo 0x120000 pmm_zero"

lemma pmm_region_total: "total_blocks (pmm_free_region i e s) = total_blocks s"
  by (induction i e s rule: pmm_free_region.induct)
    (subst pmm_free_region.simps, simp add: Let_def frame_simps)

lemma pmm_demo_total: "unat (total_blocks pmm_demo) = 32671"
  by (simp add: pmm_demo_def pmm_init_def Let_def pmm_region_total mbi_demo_def MULTIBOOT_FLAG_MEM_def)

lemma pmm_demo_inv: "pmm_inv pmm_demo"
  unfolding pmm_demo_def
  by (rule pmm_init_inv) (use pmm_demo_total in \<open>simp_all add: pmm_demo_def\<close>)

lemma pmm_demo_used:
  "j < 32671 \<Longrightarrow> page_used pmm_demo j \<longleftrightarrow> j < 320"
  using pmm_init_spec(1) [of "0x120000" mbi_demo pmm_zero]
    pmm_init_spec(4) [of "0x120000" j mbi_demo pmm_zero] pmm_demo_total
  by (simp add: pmm_demo_def)

lemma pmm_demo_alloc: "fst (pmm_alloc_page pmm_demo) = frame_ptr 320"
  using pmm_demo_inv
proof (cases rule: pmm_alloc_page_cases)
  case full
  from full(2) [of 320] pmm_demo_used [of 320] pmm_demo_total show ?thesis by simp
next
  case (free k t)
  have "\<not> k < 320" using free(3,4) pmm_demo_used [of k] pmm_demo_total by simp
  moreover have "\<not> 320 < k" using free(5) [of 320] pmm_demo_used [of 320] by auto
  ultimately show ?thesis using free(1) by simp
qed

text \<open>
  Remark. Initialisation: the bitmap is page-aligned above the kernel, the counter of
  used blocks is exact, and a frame is marked used exactly if it lies below the end of the
  kernel image and the bitmap itself; so the kernel and the bitmap are never handed out.
\<close>

theorem pmm_init_correct:
  fixes s :: pmm and mbi :: multiboot_info and kernel_end :: u32
  assumes "unat kernel_end < 2 ^ 31 - 4096"
  defines "t \<equiv> pmm_init mbi kernel_end s"
  shows "unat (memory_bitmap t) = (unat kernel_end + 4095) div 4096 * 4096
    \<and> unat (used_blocks t) = used_count t
    \<and> (\<forall>j < unat (total_blocks t).
         page_used t j \<longleftrightarrow> j < (unat (memory_bitmap t) + 131072) div 4096)"
  using pmm_init_spec [OF assms(1), where mbi = mbi and s = s] unfolding t_def by blast

theorem pmm_init_correct_witness:
  "unat (memory_bitmap pmm_demo) = 0x120000 \<and> unat (used_blocks pmm_demo) = used_count pmm_demo
    \<and> page_used pmm_demo 319 \<and> \<not> page_used pmm_demo 320"
  using pmm_init_correct [of "0x120000" mbi_demo pmm_zero, folded pmm_demo_def] by (simp add: pmm_demo_total)

text \<open>
  Property C16. Allocation is first fit: it returns null and changes nothing exactly when
  every frame is in use, and otherwise the address of the lowest free frame, which is then
  the only frame whose bit changed, with the counter one higher.
\<close>

theorem pmm_alloc_first_fit:
  assumes "pmm_inv s"
  shows "(\<forall>j < unat (total_blocks s). page_used s j) \<and> pmm_alloc_page s = (0, s)
    \<or> (\<exists>k t. pmm_alloc_page s = (frame_ptr k, t) \<and> frame_ptr k \<noteq> 0 \<and> pmm_inv t
          \<and> k < unat (total_blocks s) \<and> \<not> page_used s k \<and> (\<forall>j < k. page_used s j)
          \<and> (\<forall>j. page_used t j \<longleftrightarrow> j = k \<or> page_used s j)
          \<and> used_count t = Suc (used_count s))"
  using assms
proof (cases rule: pmm_alloc_page_cases)
  case (free k t)
  have "k < 2 ^ 20" using assms free(3) by (simp add: pmm_inv_def)
  moreover have "pmm_inv t" using pmm_alloc_page_inv [OF assms] free(1) by simp
  moreover have "page_used t j \<longleftrightarrow> j = k \<or> page_used s j" for j
    using free(6) \<open>k < 2 ^ 20\<close> by (simp add: page_used_bitmap_set frame_simps)
  moreover have "used_count t = Suc (used_count s)"
    unfolding free(6) by (rule used_count_alloc [OF free(3,4)])
  ultimately show ?thesis using free(1-5) by (auto simp: frame_ptr_0_iff)
qed blast

theorem pmm_alloc_first_fit_witness:
  "(\<forall>j < unat (total_blocks pmm_demo). page_used pmm_demo j) \<and> pmm_alloc_page pmm_demo = (0, pmm_demo)
    \<or> (\<exists>k t. pmm_alloc_page pmm_demo = (frame_ptr k, t) \<and> frame_ptr k \<noteq> 0 \<and> pmm_inv t
          \<and> k < unat (total_blocks pmm_demo) \<and> \<not> page_used pmm_demo k \<and> (\<forall>j < k. page_used pmm_demo j)
          \<and> (\<forall>j. page_used t j \<longleftrightarrow> j = k \<or> page_used pmm_demo j)
          \<and> used_count t = Suc (used_count pmm_demo))"
  by (rule pmm_alloc_first_fit [OF pmm_demo_inv])

text \<open>
  Property C17. Any sequence of allocations returns, apart from nulls, pairwise distinct
  frames, none of which was in use before; exactly these are in use afterwards.
\<close>

theorem pmm_allocations_distinct:
  assumes "pmm_inv s"
  shows "\<exists>ps t. alloc_many (\<lambda>_ :: unit. \<lambda>s. Some (pmm_alloc_page s)) rs s = Some (ps, t)
    \<and> pmm_inv t \<and> distinct (filter (\<lambda>p. p \<noteq> 0) ps)
    \<and> set (filter (\<lambda>p. p \<noteq> 0) ps) \<inter> pmm_live s = {}
    \<and> pmm_live t = pmm_live s \<union> set (filter (\<lambda>p. p \<noteq> 0) ps)"
  using pages.alloc_many_ok [OF assms, of rs] by blast

theorem pmm_allocations_distinct_witness:
  "\<exists>ps t. alloc_many (\<lambda>_ :: unit. \<lambda>s. Some (pmm_alloc_page s)) [(), (), ()] pmm_demo = Some (ps, t)
    \<and> pmm_inv t \<and> distinct (filter (\<lambda>p. p \<noteq> 0) ps)
    \<and> set (filter (\<lambda>p. p \<noteq> 0) ps) \<inter> pmm_live pmm_demo = {}
    \<and> pmm_live t = pmm_live pmm_demo \<union> set (filter (\<lambda>p. p \<noteq> 0) ps)"
  by (rule pmm_allocations_distinct [OF pmm_demo_inv])

text \<open>
  Remark. Freeing the page just allocated restores the whole state, bitmap and
  counter; freeing it a second time changes nothing.
\<close>

theorem pmm_alloc_free_roundtrip:
  assumes "pmm_inv s" and "pmm_alloc_page s = (p, t)" and "p \<noteq> 0"
  shows "pmm_free_page p t = s \<and> pmm_free_page p (pmm_free_page p t) = s"
  using assms(1)
proof (cases rule: pmm_alloc_page_cases)
  case full
  with assms show ?thesis by simp
next
  case (free k t')
  have k: "k < 2 ^ 20" using assms(1) free(3) by (simp add: pmm_inv_def)
  with free(4) have u: "\<not> page_used s (unat (of_nat k :: u32))" by simp
  have t: "t = (bitmap_set (of_nat k) s)\<lparr>used_blocks := used_blocks s + 1\<rparr>" and p: "p = frame_ptr k"
    using assms(2) free(1,6) by simp_all
  have swap: "bitmap_clear b (r\<lparr>used_blocks := n\<rparr>) = (bitmap_clear b r)\<lparr>used_blocks := n\<rparr>" for b r n
    by (simp add: bitmap_clear_def)
  have "pmm_free_page p t = s"
    using free(3) k
    by (simp add: pmm_free_page_eq p t frame_ptr_div page_used_bitmap_set frame_simps swap
        bitmap_clear_set [OF u])
  moreover have "pmm_free_page p s = s"
    using free(4) k by (simp add: pmm_free_page_eq p frame_ptr_div)
  ultimately show ?thesis by simp
qed

theorem pmm_alloc_free_roundtrip_witness:
  "frame_ptr 320 \<noteq> 0 \<and> pmm_free_page (frame_ptr 320) (snd (pmm_alloc_page pmm_demo)) = pmm_demo
    \<and> pmm_free_page (frame_ptr 320) (pmm_free_page (frame_ptr 320) (snd (pmm_alloc_page pmm_demo))) = pmm_demo"
proof -
  have a: "pmm_alloc_page pmm_demo = (frame_ptr 320, snd (pmm_alloc_page pmm_demo))"
    by (rule prod_eqI) (simp_all add: pmm_demo_alloc)
  have n: "frame_ptr 320 \<noteq> 0" by (simp add: frame_ptr_0_iff)
  with pmm_alloc_free_roundtrip [OF pmm_demo_inv a n] show ?thesis by blast
qed

text \<open>
  Remark. \<open>pmm_free_page(NULL)\<close> is not ignored: it frees frame 0, and the next
  allocation takes frame 0 and returns its address, the null pointer that callers read as
  "out of memory", however many frames are free.
\<close>

theorem pmm_free_null_hides_memory:
  assumes "pmm_inv s" and "0 < unat (total_blocks s)"
  shows "pmm_alloc_page (pmm_free_page 0 s) = (0, s)"
proof -
  from assms have z: "page_used s 0" and b: "unat (total_blocks s) < 2 ^ 20"
    by (simp_all add: pmm_inv_def)
  let ?f = "pmm_free_page 0 s"
  have f: "?f = (bitmap_clear 0 s)\<lparr>used_blocks := used_blocks s - 1\<rparr>"
    using assms(2) z by (simp add: pmm_free_page_eq)
  then have bf: "unat (total_blocks ?f) < 2 ^ 20" using b by (simp add: frame_simps)
  have nz: "\<not> page_used ?f 0" unfolding f by (simp add: page_used_bitmap_clear frame_simps)
  have "bitmap_find_free ?f = int 0"
    using bf by (cases rule: bitmap_find_free_cases)
      (use nz assms(2) in \<open>auto simp: f frame_simps\<close>)
  moreover have "bitmap_set 0 (bitmap_clear 0 s) = s"
  proof -
    have "(bitmap_words s 0 AND NOT 1) OR (1 :: u32) = bitmap_words s 0"
      by (rule bit_word_eqI) (use z in \<open>auto simp: page_used_def bit_simps\<close>)
    then show ?thesis by (simp add: bitmap_set_def bitmap_clear_def)
  qed
  moreover have "bitmap_set 0 (r\<lparr>used_blocks := n\<rparr>) = (bitmap_set 0 r)\<lparr>used_blocks := n\<rparr>" for r n
    by (simp add: bitmap_set_def)
  ultimately show ?thesis
    by (simp add: pmm_alloc_page_def Let_def f frame_simps)
qed

theorem pmm_free_null_hides_memory_witness:
  "pmm_alloc_page (pmm_free_page 0 pmm_demo) = (0, pmm_demo)"
  by (rule pmm_free_null_hides_memory [OF pmm_demo_inv]) (simp add: pmm_demo_total)

end
