(* ===== verification/Heap.thy ===== *)
theory Heap
  imports Interfaces
begin

text \<open>
  The kernel heap, \<^verbatim>\<open>kernel/mm/heap.c\<close>: a singly linked list of block headers that
  tile the region \<open>[HEAP_START, HEAP_START + HEAP_SIZE)\<close>. \<open>hmem\<close> is the explicit store of
  headers by address; \<open>kmalloc\<close> and \<open>kfree\<close> walk the \<open>next\<close> pointers in it, so their
  loops are partial functions. The abstraction is the list of blocks (payload size, used);
  \<open>heap_rep\<close> says which list a store holds, and the operations are shown to refine
  first-fit allocation and coalescing release on that list.
\<close>

section \<open>State and operations\<close>

record heap_block =
  hb_size :: u32
  hb_used :: u32
  hb_next :: ptr

record heap =
  heap_start :: ptr
  heap_used :: u32
  hmem :: "ptr \<Rightarrow> heap_block"

abbreviation HEAP_START :: u32 where
  "HEAP_START \<equiv> 0x00400000"

abbreviation HEAP_SIZE :: u32 where
  "HEAP_SIZE \<equiv> 0x00400000"

text \<open>\<open>sizeof(heap_block_t)\<close> on the 32-bit target: three 4-byte fields.\<close>

abbreviation sizeof_heap_block :: u32 where
  "sizeof_heap_block \<equiv> 12"

definition heap_init :: "heap \<Rightarrow> heap" where
  "heap_init h =
     h\<lparr>heap_start := HEAP_START,
       hmem := (hmem h)(HEAP_START :=
          \<lparr>hb_size = HEAP_SIZE - sizeof_heap_block, hb_used = 0, hb_next = 0\<rparr>),
       heap_used := 0\<rparr>"

text \<open>The body of the \<open>kmalloc\<close> loop once a block fits: split, mark, return the payload.\<close>

definition kmalloc_take :: "heap \<Rightarrow> u32 \<Rightarrow> ptr \<Rightarrow> ptr \<times> heap" where
  "kmalloc_take h sz current =
     (let b = hmem h current;
          m = (if hb_size b > sz + sizeof_heap_block + 4
               then let new_block = current + sizeof_heap_block + sz;
                        m1 = (hmem h)(new_block :=
                          \<lparr>hb_size = hb_size b - sz - sizeof_heap_block, hb_used = 0,
                           hb_next = hb_next b\<rparr>)
                    in m1(current := (m1 current)\<lparr>hb_size := sz, hb_next := new_block\<rparr>)
               else hmem h);
          m' = m(current := (m current)\<lparr>hb_used := 1\<rparr>)
      in (current + sizeof_heap_block,
          h\<lparr>hmem := m', heap_used := heap_used h + hb_size (m' current)\<rparr>))"

partial_function (option) kmalloc_loop :: "heap \<Rightarrow> u32 \<Rightarrow> ptr \<Rightarrow> (ptr \<times> heap) option" where
  "kmalloc_loop h sz current =
     (if current = 0 then Some (0, h)
      else if hb_used (hmem h current) = 0 \<and> hb_size (hmem h current) \<ge> sz
      then Some (kmalloc_take h sz current)
      else kmalloc_loop h sz (hb_next (hmem h current)))"

definition kmalloc :: "u32 \<Rightarrow> heap \<Rightarrow> (ptr \<times> heap) option" where
  "kmalloc sz h =
     (if sz = 0 then Some (0, h)
      else kmalloc_loop h ((sz + 3) AND NOT 3) (heap_start h))"

partial_function (option) kfree_find_prev :: "(ptr \<Rightarrow> heap_block) \<Rightarrow> ptr \<Rightarrow> ptr \<Rightarrow> ptr option" where
  "kfree_find_prev m block current =
     (if current \<noteq> 0 \<and> hb_next (m current) \<noteq> block
      then kfree_find_prev m block (hb_next (m current))
      else Some current)"

definition kfree_merge_next :: "(ptr \<Rightarrow> heap_block) \<Rightarrow> ptr \<Rightarrow> (ptr \<Rightarrow> heap_block)" where
  "kfree_merge_next m block =
     (let b = m block; n = hb_next b in
      if n \<noteq> 0 \<and> hb_used (m n) = 0
      then m(block := b\<lparr>hb_size := hb_size b + (sizeof_heap_block + hb_size (m n)),
                        hb_next := hb_next (m n)\<rparr>)
      else m)"

definition kfree_merge_prev :: "(ptr \<Rightarrow> heap_block) \<Rightarrow> ptr \<Rightarrow> ptr \<Rightarrow> (ptr \<Rightarrow> heap_block)" where
  "kfree_merge_prev m block current =
     (if current \<noteq> 0 \<and> hb_used (m current) = 0
      then let c = m current in
           m(current := c\<lparr>hb_size := hb_size c + (sizeof_heap_block + hb_size (m block)),
                          hb_next := hb_next (m block)\<rparr>)
      else m)"

definition kfree :: "ptr \<Rightarrow> heap \<Rightarrow> heap option" where
  "kfree ptr h =
     (if ptr = 0 then Some h
      else let block = ptr - sizeof_heap_block in
      if hb_used (hmem h block) = 0 then Some h
      else let m1 = (hmem h)(block := (hmem h block)\<lparr>hb_used := 0\<rparr>);
               used' = heap_used h - hb_size (m1 block);
               m2 = kfree_merge_next m1 block
           in (case kfree_find_prev m2 block (heap_start h) of
                 None \<Rightarrow> None
               | Some current \<Rightarrow>
                   Some (h\<lparr>heap_used := used', hmem := kfree_merge_prev m2 block current\<rparr>)))"

definition heap_get_used :: "heap \<Rightarrow> u32" where
  "heap_get_used h = heap_used h"

definition heap_get_free :: "heap \<Rightarrow> u32" where
  "heap_get_free h = HEAP_SIZE - heap_used h - sizeof_heap_block"

section \<open>Block lists\<close>

text \<open>A block list: payload size and used flag of every block, in address order.\<close>

type_synonym blocks = "(nat \<times> bool) list"

fun span :: "blocks \<Rightarrow> nat" where
  "span [] = 0"
| "span ((k, u) # bs) = 12 + k + span bs"

fun used_bytes :: "blocks \<Rightarrow> nat" where
  "used_bytes [] = 0"
| "used_bytes ((k, u) # bs) = (if u then k else 0) + used_bytes bs"

fun coalesced :: "blocks \<Rightarrow> bool" where
  "coalesced ((k, u) # (k', u') # bs) \<longleftrightarrow> (u \<or> u') \<and> coalesced ((k', u') # bs)"
| "coalesced _ \<longleftrightarrow> True"

text \<open>Payload addresses of the used blocks of a list that starts at address \<open>a\<close>.\<close>

fun payloads :: "nat \<Rightarrow> blocks \<Rightarrow> nat set" where
  "payloads a [] = {}"
| "payloads a ((k, u) # bs) = (if u then {a + 12} else {}) \<union> payloads (a + 12 + k) bs"

text \<open>First-fit allocation of \<open>n\<close> bytes on a block list that starts at \<open>a\<close>.\<close>

definition split_block :: "nat \<Rightarrow> nat \<Rightarrow> blocks" where
  "split_block n k = (if k > n + 16 then [(n, True), (k - n - 12, False)] else [(k, True)])"

fun blocks_alloc :: "nat \<Rightarrow> nat \<Rightarrow> blocks \<Rightarrow> (nat \<times> nat \<times> blocks) option" where
  "blocks_alloc n a [] = None"
| "blocks_alloc n a ((k, u) # bs) =
     (if \<not> u \<and> n \<le> k
      then Some (a + 12, (if k > n + 16 then n else k), split_block n k @ bs)
      else map_option (\<lambda>(p, g, bs'). (p, g, (k, u) # bs')) (blocks_alloc n (a + 12 + k) bs))"

text \<open>Release of the block between \<open>xs\<close> and \<open>ys\<close>, merged with its free neighbours.\<close>

fun join_next :: "nat \<Rightarrow> blocks \<Rightarrow> blocks" where
  "join_next k ((k', False) # ys) = (k + 12 + k', False) # ys"
| "join_next k ys = (k, False) # ys"

fun join_prev :: "blocks \<Rightarrow> blocks \<Rightarrow> blocks" where
  "join_prev [] bs = bs"
| "join_prev [(k, False)] ((k', u) # ys) = (k + 12 + k', False) # ys"
| "join_prev [x] bs = x # bs"
| "join_prev (x # y # xs) bs = x # join_prev (y # xs) bs"

definition blocks_free :: "blocks \<Rightarrow> nat \<Rightarrow> blocks \<Rightarrow> blocks" where
  "blocks_free xs k ys = join_prev xs (join_next k ys)"

section \<open>Which list a store holds\<close>

fun blocks_at :: "(ptr \<Rightarrow> heap_block) \<Rightarrow> nat \<Rightarrow> blocks \<Rightarrow> ptr \<Rightarrow> bool" where
  "blocks_at m a [] e \<longleftrightarrow> True"
| "blocks_at m a ((k, u) # bs) e \<longleftrightarrow>
     m (of_nat a) = \<lparr>hb_size = of_nat k, hb_used = of_bool u,
                     hb_next = (if bs = [] then e else of_nat (a + 12 + k))\<rparr>
     \<and> blocks_at m (a + 12 + k) bs e"

definition heap_rep :: "heap \<Rightarrow> blocks \<Rightarrow> bool" where
  "heap_rep h bs \<longleftrightarrow> heap_start h = HEAP_START \<and> blocks_at (hmem h) 4194304 bs 0
     \<and> span bs = 4194304 \<and> (\<forall>(k, u) \<in> set bs. 4 dvd k) \<and> coalesced bs
     \<and> heap_used h = of_nat (used_bytes bs)"

lemma span_append [simp]: "span (xs @ ys) = span xs + span ys"
  by (induction xs rule: span.induct) auto

lemma used_bytes_append [simp]: "used_bytes (xs @ ys) = used_bytes xs + used_bytes ys"
  by (induction xs rule: used_bytes.induct) auto

lemma payloads_append [simp]: "payloads a (xs @ ys) = payloads a xs \<union> payloads (a + span xs) ys"
  by (induction xs arbitrary: a rule: span.induct) (auto simp: ac_simps)

lemma blocks_at_append:
  "blocks_at m a (xs @ ys) e \<longleftrightarrow>
     blocks_at m a xs (if ys = [] then e else of_nat (a + span xs)) \<and> blocks_at m (a + span xs) ys e"
proof (induction xs arbitrary: a rule: span.induct)
  case (2 k u bs)
  have "a + 12 + k + span bs = a + span ((k, u) # bs)" by simp
  with 2 [of "a + 12 + k"] show ?case by (cases bs) (auto simp: ac_simps)
qed simp

lemma blocks_at_frame:
  assumes "a + span bs \<le> 4294967296" and "\<And>x. x \<in> {a..<a + span bs} \<Longrightarrow> m' (of_nat x) = m (of_nat x)"
  shows "blocks_at m' a bs e \<longleftrightarrow> blocks_at m a bs e"
  using assms
proof (induction bs arbitrary: a rule: span.induct)
  case (2 k u bs)
  from "2.IH" [of "a + 12 + k"] "2.prems" have "blocks_at m' (a + 12 + k) bs e = blocks_at m (a + 12 + k) bs e"
    by simp
  moreover from "2.prems"(2) [of a] have "m' (of_nat a) = m (of_nat a)" by simp
  ultimately show ?case by simp
qed simp

lemma blocks_at_upd:
  assumes "a + span bs \<le> 4294967296" and "x < a \<or> a + span bs \<le> x" and "x < 4294967296"
  shows "blocks_at (m(of_nat x := v)) a bs e \<longleftrightarrow> blocks_at m a bs e"
  using assms by (intro blocks_at_frame) (auto simp: of_nat32_eq_iff)

section \<open>Allocation on block lists\<close>

lemma span_split_block: "n \<le> k \<Longrightarrow> span (split_block n k) = 12 + k"
  by (simp add: split_block_def)

lemma payloads_split_block: "n \<le> k \<Longrightarrow> payloads a (split_block n k) = {a + 12}"
  by (simp add: split_block_def)

lemma used_bytes_split_block:
  "used_bytes (split_block n k) = (if k > n + 16 then n else k)"
  by (simp add: split_block_def)

lemma split_block_ne [simp]: "split_block n k \<noteq> []"
  by (simp add: split_block_def)

lemma blocks_alloc_span:
  "blocks_alloc n a bs = Some (p, g, bs') \<Longrightarrow> span bs' = span bs \<and> bs' \<noteq> [] \<and> bs \<noteq> []"
  by (induction n a bs arbitrary: p g bs' rule: blocks_alloc.induct)
    (auto simp: span_split_block split: if_splits)

lemma payloads_bounds: "x \<in> payloads a bs \<Longrightarrow> a + 12 \<le> x \<and> x \<le> a + span bs"
  by (induction a bs rule: payloads.induct) (fastforce split: if_splits)+

lemma blocks_alloc_bounds:
  "blocks_alloc n a bs = Some (p, g, bs') \<Longrightarrow>
     n \<le> g \<and> a + 12 \<le> p \<and> p + g \<le> a + span bs \<and> p \<notin> payloads a bs
     \<and> payloads a bs' = insert p (payloads a bs) \<and> used_bytes bs' = used_bytes bs + g"
proof (induction n a bs arbitrary: p g bs' rule: blocks_alloc.induct)
  case (2 n a k u bs)
  have low: "x \<ge> a + k + 24" if "x \<in> payloads (a + 12 + k) bs" for x
    using payloads_bounds [OF that] by simp
  show ?case
  proof (cases "\<not> u \<and> n \<le> k")
    case True
    then have "payloads a (split_block n k @ bs) = insert (a + 12) (payloads (a + 12 + k) bs)"
      by (simp add: payloads_split_block span_split_block ac_simps)
    moreover have "a + 12 \<notin> payloads (a + 12 + k) bs" using low by fastforce
    moreover from True "2.prems" have "p = a + 12" "g = (if k > n + 16 then n else k)"
      "bs' = split_block n k @ bs" "\<not> u" "n \<le> k" by (simp_all split: if_splits)
    ultimately show ?thesis
      by (simp add: used_bytes_split_block)
  next
    case False
    with "2.prems" obtain bs'' where r: "blocks_alloc n (a + 12 + k) bs = Some (p, g, bs'')"
      and bs': "bs' = (k, u) # bs''" by (auto split: if_splits)
    from "2.IH" [OF False r] show ?thesis by (auto simp: bs')
  qed
qed simp

lemma coalesced_Cons: "coalesced ((k, u) # bs) \<longleftrightarrow> (bs = [] \<or> u \<or> snd (hd bs)) \<and> coalesced bs"
  by (cases bs) auto

lemma coalesced_append:
  "coalesced (xs @ ys) \<longleftrightarrow>
     coalesced xs \<and> coalesced ys \<and> (xs = [] \<or> ys = [] \<or> snd (last xs) \<or> snd (hd ys))"
proof (induction xs rule: span.induct)
  case (2 k u bs)
  then show ?case by (cases bs) (auto simp: coalesced_Cons)
qed simp

lemma blocks_alloc_shape:
  "blocks_alloc n a bs = Some (p, g, bs') \<Longrightarrow>
     \<exists>xs k ys. bs = xs @ (k, False) # ys \<and> n \<le> k \<and> p = a + span xs + 12
       \<and> g = (if k > n + 16 then n else k) \<and> bs' = xs @ split_block n k @ ys"
proof (induction n a bs arbitrary: p g bs' rule: blocks_alloc.induct)
  case (2 n a k u bs)
  show ?case
  proof (cases "\<not> u \<and> n \<le> k")
    case True
    with "2.prems" show ?thesis by (intro exI [of _ "[]"] exI [of _ k] exI [of _ bs]) auto
  next
    case False
    with "2.prems" obtain bs'' where r: "blocks_alloc n (a + 12 + k) bs = Some (p, g, bs'')"
      and bs': "bs' = (k, u) # bs''" by (auto split: if_splits)
    from "2.IH" [OF False r] obtain xs k' ys where
      "bs = xs @ (k', False) # ys \<and> n \<le> k' \<and> p = a + 12 + k + span xs + 12
       \<and> g = (if k' > n + 16 then n else k') \<and> bs'' = xs @ split_block n k' @ ys" by blast
    then show ?thesis unfolding bs' by (intro exI [of _ "(k, u) # xs"] exI [of _ k'] exI [of _ ys]) auto
  qed
qed simp

lemma blocks_alloc_None:
  "blocks_alloc n a bs = None \<longleftrightarrow> (\<forall>(k, u) \<in> set bs. u \<or> k < n)"
  by (induction n a bs rule: blocks_alloc.induct) auto

lemma blocks_alloc_keeps:
  assumes "blocks_alloc n a bs = Some (p, g, bs')" and "4 dvd n"
    and "coalesced bs" and "\<forall>(k, u) \<in> set bs. 4 dvd k"
  shows "coalesced bs' \<and> (\<forall>(k, u) \<in> set bs'. 4 dvd k) \<and> 4 dvd g"
proof -
  from blocks_alloc_shape [OF assms(1)] obtain xs k ys where
    s: "bs = xs @ (k, False) # ys" "g = (if k > n + 16 then n else k)" "bs' = xs @ split_block n k @ ys"
    by blast
  from assms(3,4) s(1) have k: "4 dvd k" "coalesced xs" "coalesced ys"
    "ys = [] \<or> snd (hd ys)"
    by (auto simp: coalesced_append coalesced_Cons)
  then have "coalesced (split_block n k @ ys)"
    by (auto simp: split_block_def coalesced_Cons)
  with k assms s have "coalesced bs'"
    by (auto simp: coalesced_append split_block_def split: if_splits)
  moreover have "4 dvd k - n - 12" if "k > n + 16"
    using that k(1) assms(2) by (intro dvd_diff_nat) auto
  ultimately show ?thesis
    using k assms(2,4) s by (auto simp: split_block_def split: if_splits)
qed

section \<open>\<open>kmalloc\<close> refines first fit\<close>

lemma hdr_eq: "hb_size (m a) = k \<Longrightarrow> hb_used (m a) = u \<Longrightarrow> hb_next (m a) = n \<Longrightarrow>
    m a = \<lparr>hb_size = k, hb_used = u, hb_next = n\<rparr>"
  by (cases "m a") simp

text \<open>Taking a free block of \<open>k\<close> bytes at address \<open>a\<close>, with the rest of the list after it.\<close>

lemma kmalloc_take_refines:
  assumes at: "blocks_at (hmem h) a ((k, False) # bs) e" and le: "n \<le> k"
    and fits: "a + span ((k, False) # bs) \<le> 2147483648"
  shows "\<exists>m'. kmalloc_take h (of_nat n) (of_nat a)
      = (of_nat (a + 12), h\<lparr>hmem := m', heap_used := heap_used h + of_nat (if k > n + 16 then n else k)\<rparr>)
    \<and> blocks_at m' a (split_block n k @ bs) e
    \<and> (\<forall>x. x < 4294967296 \<longrightarrow> x < a \<or> a + span ((k, False) # bs) \<le> x \<longrightarrow> m' (of_nat x) = hmem h (of_nat x))"
proof -
  let ?A = "of_nat a :: u32" and ?N = "of_nat (a + 12 + n) :: u32"
  let ?b = "hmem h ?A"
  from at have b: "?b = \<lparr>hb_size = of_nat k, hb_used = 0,
      hb_next = (if bs = [] then e else of_nat (a + 12 + k))\<rparr>"
    and rest: "blocks_at (hmem h) (a + 12 + k) bs e" by simp_all
  show ?thesis
  proof (cases "k > n + 16")
    case False
    then have "\<not> hb_size ?b > of_nat n + 12 + 4"
    proof -
      have "unat (of_nat n + 12 + 4 :: u32) = n + 16"
        using le fits by (simp add: unat_word_ariths)
      then show ?thesis using False fits by (simp add: word_less_nat_alt b)
    qed
    then have eq: "kmalloc_take h (of_nat n) ?A
      = (of_nat (a + 12), h\<lparr>hmem := (hmem h)(?A := ?b\<lparr>hb_used := 1\<rparr>), heap_used := heap_used h + of_nat k\<rparr>)"
      by (simp add: kmalloc_take_def Let_def b)
    have "blocks_at ((hmem h)(?A := ?b\<lparr>hb_used := 1\<rparr>)) (a + 12 + k) bs e"
      using rest fits by (subst blocks_at_upd) auto
    with False show ?thesis
      unfolding eq by (intro exI [of _ "(hmem h)(?A := ?b\<lparr>hb_used := 1\<rparr>)"])
        (use fits in \<open>auto simp: split_block_def b of_nat32_eq_iff\<close>)
  next
    case True
    have "unat (of_nat n + 12 + 4 :: u32) = n + 16"
      using le fits by (simp add: unat_word_ariths)
    then have gt: "hb_size ?b > of_nat n + 12 + 4"
      using True fits by (simp add: word_less_nat_alt b)
    have N: "?A + 12 + of_nat n = ?N" and A12: "?A + 12 = of_nat (a + 12)" by simp_all
    have ne: "?A \<noteq> ?N" using fits le by (subst of_nat32_eq_iff) auto
    have rem: "(of_nat k - of_nat n - 12 :: u32) = of_nat (k - n - 12)"
      using True by (simp add: of_nat_diff)
    define m' where "m' = (hmem h)
      (?N := \<lparr>hb_size = of_nat (k - n - 12), hb_used = 0, hb_next = hb_next ?b\<rparr>,
       ?A := \<lparr>hb_size = of_nat n, hb_used = 1, hb_next = ?N\<rparr>)"
    have eq: "kmalloc_take h (of_nat n) ?A
      = (of_nat (a + 12), h\<lparr>hmem := m', heap_used := heap_used h + of_nat n\<rparr>)"
      using gt ne unfolding kmalloc_take_def Let_def N
      by (simp add: b m'_def rem A12 del: of_nat_add)
    have "blocks_at m' (a + 12 + k) bs e"
      unfolding m'_def using rest fits True by (subst blocks_at_upd, simp, simp, simp)+ 
    moreover have sum: "a + 12 + n + 12 + (k - n - 12) = a + 12 + k" using True by simp
    moreover have "m' ?A = \<lparr>hb_size = of_nat n, hb_used = 1, hb_next = ?N\<rparr>"
      by (simp add: m'_def)
    moreover have "m' ?N = \<lparr>hb_size = of_nat (k - n - 12), hb_used = 0,
        hb_next = (if bs = [] then e else of_nat (a + 12 + k))\<rparr>"
      using ne by (simp add: m'_def b del: of_nat_add)
    ultimately have "blocks_at m' a (split_block n k @ bs) e"
      using True by (simp only: split_block_def if_True append.simps blocks_at.simps sum) simp
    moreover have "m' (of_nat x) = hmem h (of_nat x)"
      if "x < 4294967296" "x < a \<or> a + span ((k, False) # bs) \<le> x" for x
      using that fits True by (auto simp: m'_def of_nat32_eq_iff simp del: of_nat_add)
    ultimately show ?thesis using True eq by auto
  qed
qed

lemma kmalloc_loop_None:
  assumes "blocks_at (hmem h) a bs 0" and "0 < a" and "a + span bs \<le> 2147483648" and "n < 4294967296"
    and "blocks_alloc n a bs = None"
  shows "kmalloc_loop h (of_nat n) (if bs = [] then 0 else of_nat a) = Some (0, h)"
  using assms
proof (induction n a bs rule: blocks_alloc.induct)
  case (1 n a)
  then show ?case by (simp add: kmalloc_loop.simps)
next
  case (2 n a k u bs)
  from "2.prems" have b: "hmem h (of_nat a) = \<lparr>hb_size = of_nat k, hb_used = of_bool u,
      hb_next = (if bs = [] then 0 else of_nat (a + 12 + k))\<rparr>" by simp
  have a: "of_nat a \<noteq> (0 :: u32)" using "2.prems" by (simp add: of_nat32_eq_0_iff)
  have cmp: "(of_nat n :: u32) \<le> of_nat k \<longleftrightarrow> n \<le> k"
    using "2.prems" by (simp add: word_le_nat_alt)
  from "2.prems" have nf: "\<not> (\<not> u \<and> n \<le> k)" by auto
  then have "kmalloc_loop h (of_nat n) (of_nat a)
      = kmalloc_loop h (of_nat n) (if bs = [] then 0 else of_nat (a + 12 + k))"
    using a cmp by (subst kmalloc_loop.simps) (auto simp: b simp del: of_nat_add)
  with "2.IH" [OF nf] "2.prems" nf show ?case by (simp del: of_nat_add)
qed

lemma kmalloc_loop_Some:
  assumes "blocks_at (hmem h) a bs 0" and "0 < a" and "a + span bs \<le> 2147483648" and "n < 4294967296"
    and "blocks_alloc n a bs = Some (p, g, bs')"
  shows "\<exists>m'. kmalloc_loop h (of_nat n) (if bs = [] then 0 else of_nat a)
         = Some (of_nat p, h\<lparr>hmem := m', heap_used := heap_used h + of_nat g\<rparr>)
      \<and> blocks_at m' a bs' 0
      \<and> (\<forall>x. x < 4294967296 \<longrightarrow> x < a \<or> a + span bs \<le> x \<longrightarrow> m' (of_nat x) = hmem h (of_nat x))"
  using assms
proof (induction n a bs arbitrary: p g bs' rule: blocks_alloc.induct)
  case (1 n a)
  then show ?case by simp
next
  case (2 n a k u bs)
  from "2.prems" have b: "hmem h (of_nat a) = \<lparr>hb_size = of_nat k, hb_used = of_bool u,
      hb_next = (if bs = [] then 0 else of_nat (a + 12 + k))\<rparr>" by simp
  have a: "of_nat a \<noteq> (0 :: u32)" using "2.prems" by (simp add: of_nat32_eq_0_iff)
  have cmp: "(of_nat n :: u32) \<le> of_nat k \<longleftrightarrow> n \<le> k"
    using "2.prems" by (simp add: word_le_nat_alt)
  show ?case
  proof (cases "\<not> u \<and> n \<le> k")
    case True
    with "2.prems" have p: "p = a + 12" "g = (if k > n + 16 then n else k)" "bs' = split_block n k @ bs"
      by simp_all
    have "kmalloc_loop h (of_nat n) (of_nat a) = Some (kmalloc_take h (of_nat n) (of_nat a))"
      using a cmp True by (subst kmalloc_loop.simps) (simp add: b)
    with kmalloc_take_refines [of h a k bs 0 n] True "2.prems"(1,3) p show ?thesis by auto
  next
    case False
    with "2.prems"(5) obtain bs'' where r: "blocks_alloc n (a + 12 + k) bs = Some (p, g, bs'')"
      and bs': "bs' = (k, u) # bs''" by (auto split: if_splits)
    from "2.prems" have pre: "blocks_at (hmem h) (a + 12 + k) bs 0" "0 < a + 12 + k"
      "a + 12 + k + span bs \<le> 2147483648" "n < 4294967296" by simp_all
    from "2.IH" [OF False pre r] obtain m' where m':
      "kmalloc_loop h (of_nat n) (if bs = [] then 0 else of_nat (a + 12 + k))
         = Some (of_nat p, h\<lparr>hmem := m', heap_used := heap_used h + of_nat g\<rparr>)"
      "blocks_at m' (a + 12 + k) bs'' 0"
      "\<forall>x. x < 4294967296 \<longrightarrow> x < a + 12 + k \<or> a + 12 + k + span bs \<le> x \<longrightarrow> m' (of_nat x) = hmem h (of_nat x)"
      by blast
    have "kmalloc_loop h (of_nat n) (of_nat a)
      = kmalloc_loop h (of_nat n) (if bs = [] then 0 else of_nat (a + 12 + k))"
      using a cmp False by (subst kmalloc_loop.simps) (auto simp: b simp del: of_nat_add)
    moreover have "m' (of_nat a) = hmem h (of_nat a)" using m'(3) "2.prems" by simp
    moreover have "bs'' \<noteq> []" "bs \<noteq> []" using blocks_alloc_span [OF r] by auto
    ultimately have "kmalloc_loop h (of_nat n) (if (k, u) # bs = [] then 0 else of_nat a)
         = Some (of_nat p, h\<lparr>hmem := m', heap_used := heap_used h + of_nat g\<rparr>)"
      and "blocks_at m' a bs' 0"
      using m' b bs' by (simp_all del: of_nat_add)
    with m'(3) show ?thesis by (intro exI [of _ m']) simp
  qed
qed

text \<open>The size \<open>kmalloc\<close> searches for, and the refinement of the whole call.\<close>

definition round4 :: "u32 \<Rightarrow> u32" where
  "round4 n = (n + 3) AND NOT 3"

lemma round4_unat:
  "unat n \<le> 4294967292 \<Longrightarrow> unat (round4 n) = (unat n + 3) div 4 * 4"
  unfolding round4_def align4_unat by (simp add: unat_plus32)

lemma round4_dvd: "4 dvd unat (round4 n)"
  unfolding round4_def align4_unat by simp

lemma heap_rep_nonempty: "heap_rep h bs \<Longrightarrow> bs \<noteq> []"
  by (auto simp: heap_rep_def)

lemma kmalloc_eq:
  assumes "heap_rep h bs" and "n \<noteq> 0"
  shows "kmalloc n h = kmalloc_loop h (of_nat (unat (round4 n))) (if bs = [] then 0 else of_nat 4194304)"
  using assms heap_rep_nonempty [OF assms(1)] by (simp add: kmalloc_def heap_rep_def round4_def)

lemma kmalloc_None:
  assumes "heap_rep h bs" and "n \<noteq> 0" and "blocks_alloc (unat (round4 n)) 4194304 bs = None"
  shows "kmalloc n h = Some (0, h)"
  unfolding kmalloc_eq [OF assms(1,2)]
  by (rule kmalloc_loop_None) (use assms unat_lt32 in \<open>auto simp: heap_rep_def\<close>)

lemma kmalloc_Some:
  assumes rep: "heap_rep h bs" and "n \<noteq> 0"
    and al: "blocks_alloc (unat (round4 n)) 4194304 bs = Some (p, g, bs')"
  shows "\<exists>h'. kmalloc n h = Some (of_nat p, h') \<and> heap_rep h' bs'"
proof -
  from rep have pre: "blocks_at (hmem h) 4194304 bs 0" "(0 :: nat) < 4194304"
    "4194304 + span bs \<le> 2147483648" by (simp_all add: heap_rep_def)
  from kmalloc_loop_Some [OF pre unat_lt32 al] obtain m' where m':
    "kmalloc_loop h (of_nat (unat (round4 n))) (if bs = [] then 0 else of_nat 4194304)
         = Some (of_nat p, h\<lparr>hmem := m', heap_used := heap_used h + of_nat g\<rparr>)"
    "blocks_at m' 4194304 bs' 0" by blast
  from rep have "coalesced bs'" "\<forall>(k, u) \<in> set bs'. 4 dvd k"
    using blocks_alloc_keeps [OF al round4_dvd] by (auto simp: heap_rep_def)
  moreover have "span bs' = span bs" using blocks_alloc_span [OF al] by simp
  moreover have "used_bytes bs' = used_bytes bs + g" using blocks_alloc_bounds [OF al] by simp
  ultimately have "heap_rep (h\<lparr>hmem := m', heap_used := heap_used h + of_nat g\<rparr>) bs'"
    using rep m'(2) by (simp add: heap_rep_def)
  then show ?thesis
    unfolding kmalloc_eq [OF rep assms(2)] m'(1) by blast
qed

section \<open>Release on block lists\<close>

lemma join_next_cases:
  obtains (merge) k' ys' where "ys = (k', False) # ys'" "join_next k ys = (k + 12 + k', False) # ys'"
    | (keep) "join_next k ys = (k, False) # ys" "ys = [] \<or> snd (hd ys)"
  by (cases "(k, ys)" rule: join_next.cases) auto

lemma join_prev_snoc:
  "join_prev (xs @ [(k, u)]) ((k', u') # ys)
     = (if u then xs @ (k, u) # (k', u') # ys else xs @ (k + 12 + k', False) # ys)"
proof (induction xs)
  case (Cons x xs)
  then show ?case by (cases xs) (auto split: prod.splits)
qed simp

lemma join_prev_cases:
  obtains (none) "xs = []" "join_prev xs ((k, False) # ys) = (k, False) # ys"
    | (used) xs' k' where "xs = xs' @ [(k', True)]" "join_prev xs ((k, False) # ys) = xs @ (k, False) # ys"
    | (merge) xs' k' where "xs = xs' @ [(k', False)]"
        "join_prev xs ((k, False) # ys) = xs' @ (k' + 12 + k, False) # ys"
proof (cases xs rule: rev_cases)
  case Nil
  then show ?thesis by (intro none) simp_all
next
  case (snoc xs' x)
  then show ?thesis
    by (cases x; cases "snd x") (auto intro: used merge simp: join_prev_snoc)
qed

lemma join_next_facts:
  assumes "coalesced ys" and "4 dvd k" and "\<forall>(k, u) \<in> set ys. 4 dvd k"
  shows "\<exists>K zs. join_next k ys = (K, False) # zs \<and> 12 + K + span zs = 12 + k + span ys
     \<and> used_bytes zs = used_bytes ys \<and> coalesced zs \<and> (zs = [] \<or> snd (hd zs))
     \<and> 4 dvd K \<and> (\<forall>(k, u) \<in> set zs. 4 dvd k)
     \<and> payloads (a + 12 + K) zs = payloads (a + 12 + k) ys"
proof (cases rule: join_next_cases [of ys k])
  case (merge k' ys')
  have "4 dvd k + 12 + k'" using assms merge(1) by simp
  moreover have "payloads (a + 12 + (k + 12 + k')) ys' = payloads (a + 12 + k) ys"
    by (simp add: merge(1) add.assoc)
  ultimately show ?thesis
    using assms unfolding merge by (intro exI [of _ "k + 12 + k'"] exI [of _ ys']) (simp add: coalesced_Cons)
next
  case keep
  with assms show ?thesis by (intro exI [of _ k] exI [of _ ys]) simp
qed

lemma blocks_free_facts:
  assumes "coalesced xs" "coalesced ys" and "4 dvd k"
    and "\<forall>(k, u) \<in> set xs. 4 dvd k" "\<forall>(k, u) \<in> set ys. 4 dvd k"
  shows "span (blocks_free xs k ys) = span (xs @ (k, True) # ys)"
    and "used_bytes (blocks_free xs k ys) = used_bytes xs + used_bytes ys"
    and "coalesced (blocks_free xs k ys)"
    and "\<forall>(k, u) \<in> set (blocks_free xs k ys). 4 dvd k"
    and "payloads a (blocks_free xs k ys) = payloads a xs \<union> payloads (a + span xs + 12 + k) ys"
proof -
  from join_next_facts [OF assms(2,3,5), of "a + span xs"] obtain K zs where
    n: "join_next k ys = (K, False) # zs" "12 + K + span zs = 12 + k + span ys"
       "used_bytes zs = used_bytes ys" "coalesced zs" "zs = [] \<or> snd (hd zs)"
       "4 dvd K" "\<forall>(k, u) \<in> set zs. 4 dvd k"
       "payloads (a + span xs + 12 + K) zs = payloads (a + span xs + 12 + k) ys"
    by blast
  have "span (blocks_free xs k ys) = span (xs @ (k, True) # ys)
    \<and> used_bytes (blocks_free xs k ys) = used_bytes xs + used_bytes ys
    \<and> coalesced (blocks_free xs k ys) \<and> (\<forall>(k, u) \<in> set (blocks_free xs k ys). 4 dvd k)
    \<and> payloads a (blocks_free xs k ys) = payloads a xs \<union> payloads (a + span xs + 12 + k) ys"
  proof (cases rule: join_prev_cases [of xs K zs])
    case none
    with n assms show ?thesis by (simp add: blocks_free_def coalesced_Cons)
  next
    case (used xs' k')
    with n assms show ?thesis by (auto simp: blocks_free_def coalesced_append coalesced_Cons)
  next
    case (merge xs' k')
    then have eq: "blocks_free xs k ys = xs' @ (k' + 12 + K, False) # zs"
      by (simp add: blocks_free_def n(1))
    have "coalesced (blocks_free xs k ys)"
      using n(4,5) assms(1) merge(1) unfolding eq by (simp add: coalesced_append coalesced_Cons)
    moreover have "\<forall>(k, u) \<in> set (blocks_free xs k ys). 4 dvd k"
      using n(6,7) assms(4) merge(1) unfolding eq by auto
    moreover have "payloads a (blocks_free xs k ys) = payloads a xs \<union> payloads (a + span xs + 12 + k) ys"
      using n(8) unfolding eq by (simp add: merge(1) add.assoc)
    ultimately show ?thesis
      using n(2,3) unfolding eq by (simp add: merge(1))
  qed
  then show "span (blocks_free xs k ys) = span (xs @ (k, True) # ys)"
    "used_bytes (blocks_free xs k ys) = used_bytes xs + used_bytes ys"
    "coalesced (blocks_free xs k ys)" "\<forall>(k, u) \<in> set (blocks_free xs k ys). 4 dvd k"
    "payloads a (blocks_free xs k ys) = payloads a xs \<union> payloads (a + span xs + 12 + k) ys"
    by blast+
qed

section \<open>\<open>kfree\<close> refines coalescing release\<close>

text \<open>Absorbing the block behind \<open>L\<close> into \<open>L\<close>, the step both merges of \<open>kfree\<close> make.\<close>

definition absorb :: "(ptr \<Rightarrow> heap_block) \<Rightarrow> ptr \<Rightarrow> (ptr \<Rightarrow> heap_block)" where
  "absorb m L = m(L := (m L)\<lparr>hb_size := hb_size (m L) + (12 + hb_size (m (hb_next (m L)))),
                              hb_next := hb_next (m (hb_next (m L)))\<rparr>)"

lemma blocks_at_mark:
  assumes "blocks_at m s (xs @ (k, u) # ys) e" and "s + span (xs @ (k, u) # ys) \<le> 4294967296"
  shows "blocks_at (m(of_nat (s + span xs) := (m (of_nat (s + span xs)))\<lparr>hb_used := of_bool u'\<rparr>))
           s (xs @ (k, u') # ys) e"
proof -
  let ?c = "s + span xs" and ?v = "(m (of_nat (s + span xs)))\<lparr>hb_used := of_bool u'\<rparr>"
  have "blocks_at (m(of_nat ?c := ?v)) s xs (of_nat ?c)"
    using assms by (subst blocks_at_upd) (auto simp: blocks_at_append simp del: of_nat_add)
  moreover have "blocks_at (m(of_nat ?c := ?v)) (?c + 12 + k) ys e"
    using assms by (subst blocks_at_upd) (auto simp: blocks_at_append simp del: of_nat_add)
  ultimately show ?thesis
    using assms(1) by (auto simp: blocks_at_append simp del: of_nat_add)
qed

lemma blocks_at_absorb:
  assumes "blocks_at m s (xs @ (k, u) # (k', u') # ys) e"
    and "s + span (xs @ (k, u) # (k', u') # ys) \<le> 4294967296"
  shows "blocks_at (absorb m (of_nat (s + span xs))) s (xs @ (k + 12 + k', u) # ys) e"
proof -
  let ?c = "s + span xs" and ?m = "absorb m (of_nat (s + span xs))"
  from assms(1) have c: "m (of_nat ?c) = \<lparr>hb_size = of_nat k, hb_used = of_bool u, hb_next = of_nat (?c + 12 + k)\<rparr>"
    and c': "m (of_nat (?c + 12 + k)) = \<lparr>hb_size = of_nat k', hb_used = of_bool u',
      hb_next = (if ys = [] then e else of_nat (?c + 12 + k + 12 + k'))\<rparr>"
    by (simp_all add: blocks_at_append del: of_nat_add)
  have "?m (of_nat ?c) = \<lparr>hb_size = of_nat (k + 12 + k'), hb_used = of_bool u,
      hb_next = (if ys = [] then e else of_nat (?c + 12 + (k + 12 + k')))\<rparr>"
    by (simp add: absorb_def c c' del: of_nat_add) (simp add: ac_simps)
  moreover have "blocks_at ?m s xs (of_nat ?c)"
    unfolding absorb_def using assms
    by (subst blocks_at_upd) (auto simp: blocks_at_append simp del: of_nat_add)
  moreover have "blocks_at ?m (?c + 12 + (k + 12 + k')) ys e"
    unfolding absorb_def using assms
    by (subst blocks_at_upd) (auto simp: blocks_at_append add.assoc simp del: of_nat_add)
  ultimately show ?thesis
    by (simp add: blocks_at_append del: of_nat_add)
qed

lemma find_prev_last:
  assumes "blocks_at m a xs (of_nat (a + span xs))" and "xs \<noteq> []" and "0 < a"
    and "a + span xs < 4294967296"
  shows "kfree_find_prev m (of_nat (a + span xs)) (of_nat a) = Some (of_nat (a + span (butlast xs)))"
  using assms
proof (induction xs arbitrary: a rule: span.induct)
  case 1
  then show ?case by simp
next
  case (2 k u bs)
  have a: "of_nat a \<noteq> (0 :: u32)" using "2.prems" by (simp add: of_nat32_eq_0_iff)
  show ?case
  proof (cases "bs = []")
    case True
    with a "2.prems" show ?thesis by (subst kfree_find_prev.simps) simp
  next
    case False
    with "2.prems" have nx: "hb_next (m (of_nat a)) = of_nat (a + 12 + k)" by simp
    have "0 < span bs" using False by (cases bs) auto
    then have ne: "of_nat (a + 12 + k) \<noteq> (of_nat (a + span ((k, u) # bs)) :: u32)"
      using "2.prems" by (subst of_nat32_eq_iff) auto
    have sum: "a + span ((k, u) # bs) = a + 12 + k + span bs" by simp
    have "kfree_find_prev m (of_nat (a + span ((k, u) # bs))) (of_nat a)
        = kfree_find_prev m (of_nat (a + 12 + k + span bs)) (of_nat (a + 12 + k))"
      using a ne nx unfolding sum by (subst kfree_find_prev.simps) (simp del: of_nat_add)
    also have "\<dots> = Some (of_nat (a + 12 + k + span (butlast bs)))"
      using "2.prems" False by (intro "2.IH") (auto simp: ac_simps simp del: of_nat_add)
    also have "a + 12 + k + span (butlast bs) = a + span (butlast ((k, u) # bs))"
      using False by simp
    finally show ?thesis .
  qed
qed

lemma find_prev_none:
  assumes "blocks_at m a bs 0" and "0 < c" and "c \<le> a" and "a + span bs < 4294967296"
  shows "kfree_find_prev m (of_nat c) (if bs = [] then 0 else of_nat a) = Some 0"
  using assms
proof (induction bs arbitrary: a rule: span.induct)
  case 1
  then show ?case by (simp add: kfree_find_prev.simps)
next
  case (2 k u bs)
  from "2.prems" have "of_nat a \<noteq> (0 :: u32)" "of_nat c \<noteq> (0 :: u32)"
    "of_nat (a + 12 + k) \<noteq> (of_nat c :: u32)"
    by (auto simp: of_nat32_eq_0_iff of_nat32_eq_iff simp del: of_nat_add)
  then have "kfree_find_prev m (of_nat c) (of_nat a)
      = kfree_find_prev m (of_nat c) (if bs = [] then 0 else of_nat (a + 12 + k))"
    using "2.prems"(1) by (subst kfree_find_prev.simps) (auto simp del: of_nat_add)
  also have "\<dots> = Some 0" using "2.prems" by (intro "2.IH") auto
  finally show ?case by simp
qed

lemma merge_next_refines:
  assumes "blocks_at m s (xs @ (k, False) # ys) 0" and "0 < s"
    and "s + span (xs @ (k, False) # ys) < 4294967296"
  shows "blocks_at (kfree_merge_next m (of_nat (s + span xs))) s (xs @ join_next k ys) 0"
proof -
  let ?c = "s + span xs"
  from assms(1) have c: "m (of_nat ?c) = \<lparr>hb_size = of_nat k, hb_used = 0,
      hb_next = (if ys = [] then 0 else of_nat (?c + 12 + k))\<rparr>"
    by (simp add: blocks_at_append del: of_nat_add)
  show ?thesis
  proof (cases rule: join_next_cases [of ys k])
    case (merge k' ys')
    have nz: "of_nat (?c + 12 + k) \<noteq> (0 :: u32)"
      using assms by (subst of_nat32_eq_0_iff) auto
    have "hb_used (m (of_nat (?c + 12 + k))) = 0"
      using assms(1) merge(1) by (simp add: blocks_at_append del: of_nat_add)
    with c nz merge(1) have "kfree_merge_next m (of_nat ?c) = absorb m (of_nat ?c)"
      by (simp add: kfree_merge_next_def absorb_def Let_def del: of_nat_add)
    with blocks_at_absorb [of m s xs k False k' False ys' 0] assms merge show ?thesis
      by (simp del: of_nat_add)
  next
    case keep
    have "hb_next (m (of_nat ?c)) = 0 \<or> hb_used (m (hb_next (m (of_nat ?c)))) \<noteq> 0"
    proof (cases ys)
      case (Cons y zs)
      obtain k1 u1 where y: "y = (k1, u1)" by (cases y)
      with keep Cons have "u1" by simp
      with assms(1) Cons y have "hb_used (m (of_nat (?c + 12 + k))) = 1"
        by (simp add: blocks_at_append del: of_nat_add)
      with c Cons show ?thesis by (simp del: of_nat_add)
    qed (simp add: c del: of_nat_add)
    then have "kfree_merge_next m (of_nat ?c) = m"
      by (auto simp: kfree_merge_next_def Let_def)
    with assms(1) keep show ?thesis by simp
  qed
qed

lemma kfree_tail_refines:
  assumes at: "blocks_at m s (xs @ (K, False) # zs) 0" and "0 < s"
    and fits: "s + span (xs @ (K, False) # zs) < 4294967296"
  shows "\<exists>current. kfree_find_prev m (of_nat (s + span xs)) (of_nat s) = Some current
     \<and> blocks_at (kfree_merge_prev m (of_nat (s + span xs)) current) s (join_prev xs ((K, False) # zs)) 0"
proof (cases rule: join_prev_cases [of xs K zs])
  case none
  from at none(1) assms(2) fits
  have "kfree_find_prev m (of_nat s) (if (K, False) # zs = [] then 0 else of_nat s) = Some 0"
    by (intro find_prev_none) simp_all
  with at none show ?thesis by (auto simp: kfree_merge_prev_def)
next
  case (used xs' k')
  let ?L = "of_nat (s + span xs') :: u32"
  from at have "blocks_at m s xs (of_nat (s + span xs))" by (simp add: blocks_at_append del: of_nat_add)
  with assms used(1) have "kfree_find_prev m (of_nat (s + span xs)) (of_nat s) = Some (of_nat (s + span (butlast xs)))"
    by (intro find_prev_last) auto
  moreover have "hb_used (m ?L) = 1"
    using at used(1) by (simp add: blocks_at_append del: of_nat_add)
  then have "kfree_merge_prev m (of_nat (s + span xs)) ?L = m" by (simp add: kfree_merge_prev_def)
  ultimately show ?thesis using at used by (simp del: of_nat_add)
next
  case (merge xs' k')
  let ?L = "of_nat (s + span xs') :: u32"
  from at have "blocks_at m s xs (of_nat (s + span xs))" by (simp add: blocks_at_append del: of_nat_add)
  with assms merge(1) have "kfree_find_prev m (of_nat (s + span xs)) (of_nat s) = Some (of_nat (s + span (butlast xs)))"
    by (intro find_prev_last) auto
  then have find: "kfree_find_prev m (of_nat (s + span xs)) (of_nat s) = Some ?L"
    using merge(1) by simp
  have L: "hb_used (m ?L) = 0" "hb_next (m ?L) = of_nat (s + span xs)"
    using at merge(1) by (simp_all add: blocks_at_append add.assoc del: of_nat_add)
  have "?L \<noteq> 0" using assms(2) fits merge(1) by (subst of_nat32_eq_0_iff) auto
  with L have "kfree_merge_prev m (of_nat (s + span xs)) ?L = absorb m ?L"
    by (simp add: kfree_merge_prev_def absorb_def Let_def)
  with blocks_at_absorb [of m s xs' k' False K False zs 0] at fits merge find show ?thesis
    by (simp del: of_nat_add)
qed

lemma kfree_refines:
  assumes rep: "heap_rep h (xs @ (k, True) # ys)"
  shows "\<exists>h'. kfree (of_nat (4194304 + span xs + 12)) h = Some h' \<and> heap_rep h' (blocks_free xs k ys)"
proof -
  let ?s = "4194304 :: nat"
  let ?c = "?s + span xs" and ?bs = "xs @ (k, True) # ys"
  let ?C = "of_nat ?c :: u32"
  let ?m1 = "(hmem h)(?C := (hmem h ?C)\<lparr>hb_used := 0\<rparr>)"
  let ?m2 = "kfree_merge_next ?m1 ?C"
  from rep have at: "blocks_at (hmem h) ?s ?bs 0" and sp: "span ?bs = 4194304"
    and st: "heap_start h = of_nat ?s" and ub: "heap_used h = of_nat (used_bytes ?bs)"
    and dv: "\<forall>(k, u) \<in> set ?bs. 4 dvd k" and co: "coalesced ?bs"
    by (simp_all add: heap_rep_def)
  have parts: "coalesced xs" "coalesced ys" "4 dvd k" "\<forall>(k, u) \<in> set xs. 4 dvd k"
      "\<forall>(k, u) \<in> set ys. 4 dvd k"
    using co dv by (auto simp: coalesced_append coalesced_Cons)
  note facts = blocks_free_facts [OF parts]
  have blk: "hb_size (hmem h ?C) = of_nat k" "hb_used (hmem h ?C) = 1"
    using at by (simp_all add: blocks_at_append del: of_nat_add)
  have m1: "blocks_at ?m1 ?s (xs @ (k, False) # ys) 0"
    using blocks_at_mark [OF at, of False] sp by simp
  then have "blocks_at ?m2 ?s (xs @ join_next k ys) 0"
    using merge_next_refines [OF m1] sp by simp
  moreover obtain K zs where jn: "join_next k ys = (K, False) # zs" "12 + K + span zs = 12 + k + span ys"
    using join_next_facts [OF parts(2,3,5), of 0] by blast
  ultimately obtain current where cur: "kfree_find_prev ?m2 ?C (of_nat ?s) = Some current"
    "blocks_at (kfree_merge_prev ?m2 ?C current) ?s (blocks_free xs k ys) 0"
    using kfree_tail_refines [of ?m2 ?s xs K zs] sp by (auto simp: blocks_free_def)
  let ?h' = "h\<lparr>heap_used := heap_used h - of_nat k, hmem := kfree_merge_prev ?m2 ?C current\<rparr>"
  have ptr: "of_nat (?c + 12) \<noteq> (0 :: u32)" "of_nat (?c + 12) - 12 = ?C"
  proof -
    show "of_nat (?c + 12) \<noteq> (0 :: u32)" using sp by (subst of_nat32_eq_0_iff) auto
    have "of_nat (?c + 12) = ?C + (12 :: u32)" by simp
    then show "of_nat (?c + 12) - 12 = ?C" by simp
  qed
  have "kfree (of_nat (?c + 12)) h = Some ?h'"
    unfolding kfree_def Let_def ptr(2) using ptr(1) cur(1) blk st by (simp del: of_nat_add)
  moreover have "heap_rep ?h' (blocks_free xs k ys)"
    using cur(2) facts sp st ub by (simp add: heap_rep_def)
  ultimately show ?thesis by blast
qed

lemma kfree_null [simp]: "kfree 0 h = Some h"
  by (simp add: kfree_def)

lemma heap_init_rep: "heap_rep (heap_init h) [(4194292, False)]"
  by (simp add: heap_rep_def heap_init_def)

section \<open>The abstraction is a function\<close>

lemma blocks_at_unique:
  assumes "blocks_at m a bs 0" and "blocks_at m a cs 0" and "bs \<noteq> []" and "cs \<noteq> []"
    and "0 < a" and "a + span bs < 4294967296" and "a + span cs < 4294967296"
  shows "bs = cs"
  using assms
proof (induction bs arbitrary: a cs rule: span.induct)
  case (2 k u bs)
  from "2.prems" obtain k' u' cs' where cs: "cs = (k', u') # cs'" by (cases cs) auto
  from "2.prems" cs have eq: "\<lparr>hb_size = of_nat k, hb_used = of_bool u,
       hb_next = (if bs = [] then 0 else of_nat (a + 12 + k))\<rparr>
     = \<lparr>hb_size = of_nat k', hb_used = of_bool u',
       hb_next = (if cs' = [] then 0 else of_nat (a + 12 + k'))\<rparr>" by (simp del: of_nat_add)
  then have k: "k = k'" "u = u'" using "2.prems" cs by (auto simp: of_nat32_eq_iff split: if_splits)
  have nz: "of_nat (a + 12 + k) \<noteq> (0 :: u32)"
    using "2.prems" by (subst of_nat32_eq_0_iff) auto
  from eq nz k have "bs = [] \<longleftrightarrow> cs' = []" by (auto split: if_splits)
  moreover have "bs = cs'" if "bs \<noteq> []" "cs' \<noteq> []"
    using that "2.prems" cs k by (intro "2.IH" [of "a + 12 + k"]) auto
  ultimately show ?case using cs k by auto
qed simp

lemma heap_rep_unique: "heap_rep h bs \<Longrightarrow> heap_rep h cs \<Longrightarrow> bs = cs"
  by (rule blocks_at_unique [of "hmem h" 4194304])
    (auto simp: heap_rep_def dest: heap_rep_nonempty)

section \<open>Extents of the live blocks\<close>

text \<open>Payload start and size of every used block.\<close>

fun extents :: "nat \<Rightarrow> blocks \<Rightarrow> (nat \<times> nat) set" where
  "extents a [] = {}"
| "extents a ((k, u) # bs) = (if u then {(a + 12, k)} else {}) \<union> extents (a + 12 + k) bs"

lemma extents_append [simp]: "extents a (xs @ ys) = extents a xs \<union> extents (a + span xs) ys"
  by (induction xs arbitrary: a rule: span.induct) (auto simp: add.assoc)

lemma extents_bounds: "(q, k) \<in> extents a bs \<Longrightarrow> a + 12 \<le> q \<and> q + k \<le> a + span bs"
  by (induction a bs rule: extents.induct) (fastforce split: if_splits)+

lemma payloads_extents: "payloads a bs = fst ` extents a bs"
  by (induction a bs rule: extents.induct) (auto simp: image_Un)

lemma blocks_alloc_extents:
  assumes "blocks_alloc n a bs = Some (p, g, bs')"
  shows "extents a bs' = insert (p, g) (extents a bs)
    \<and> (\<forall>(q, k) \<in> extents a bs. q + k \<le> p \<or> p + g \<le> q)"
proof -
  from blocks_alloc_shape [OF assms] obtain xs k ys where s: "bs = xs @ (k, False) # ys" "n \<le> k"
    "p = a + span xs + 12" "g = (if k > n + 16 then n else k)" "bs' = xs @ split_block n k @ ys" by blast
  have "extents (a + span xs) (split_block n k) = {(p, g)}"
    by (simp add: split_block_def s)
  then have "extents a bs' = insert (p, g) (extents a bs)"
    using s span_split_block [OF s(2)] by (simp add: add.assoc)
  moreover have "q + k' \<le> p \<or> p + g \<le> q" if "(q, k') \<in> extents a bs" for q k'
  proof -
    from that s(1) consider "(q, k') \<in> extents a xs" | "(q, k') \<in> extents (a + span xs + (12 + k)) ys"
      by (auto simp: add.assoc)
    then show ?thesis
      by cases (use s(2-4) in \<open>auto dest!: extents_bounds\<close>)
  qed
  ultimately show ?thesis by blast
qed

lemma payloads_split:
  assumes "p \<in> payloads a bs"
  obtains xs k ys where "bs = xs @ (k, True) # ys" and "p = a + span xs + 12"
  using assms
proof (induction a bs arbitrary: thesis rule: payloads.induct)
  case (2 a k u bs)
  from "2.prems"(2) consider "u" "p = a + 12" | "p \<in> payloads (a + 12 + k) bs"
    by (auto split: if_splits)
  then show ?case
  proof cases
    case 1
    then show ?thesis using "2.prems"(1) [of "[]" k bs] by simp
  next
    case 2
    then obtain xs k' ys where "bs = xs @ (k', True) # ys" "p = a + 12 + k + span xs + 12"
      using "2.IH" by blast
    then show ?thesis using "2.prems"(1) [of "(k, u) # xs" k' ys] by simp
  qed
qed simp

lemma payloads_remove:
  "a + span xs + 12 \<notin> payloads a xs \<and> a + span xs + 12 \<notin> payloads (a + span xs + 12 + k) ys"
  using payloads_bounds [of "a + span xs + 12" a xs]
    payloads_bounds [of "a + span xs + 12" "a + span xs + 12 + k" ys] by auto

section \<open>The allocator contract\<close>

definition heap_inv :: "heap \<Rightarrow> bool" where
  "heap_inv h \<longleftrightarrow> (\<exists>bs. heap_rep h bs)"

definition heap_live :: "heap \<Rightarrow> ptr set" where
  "heap_live h = {p. \<exists>bs. heap_rep h bs \<and> p \<in> of_nat ` payloads 4194304 bs}"

lemma heap_live_rep: "heap_rep h bs \<Longrightarrow> heap_live h = of_nat ` payloads 4194304 bs"
  unfolding heap_live_def using heap_rep_unique by blast

lemma heap_payload_less: "heap_rep h bs \<Longrightarrow> x \<in> payloads 4194304 bs \<Longrightarrow> 4194304 < x \<and> x < 4294967296"
  using payloads_bounds [of x 4194304 bs] by (auto simp: heap_rep_def)

lemma kmalloc_cases:
  assumes "heap_rep h bs"
  obtains (null) "kmalloc n h = Some (0, h)"
    | (block) p g bs' h' where "n \<noteq> 0" "blocks_alloc (unat (round4 n)) 4194304 bs = Some (p, g, bs')"
        "kmalloc n h = Some (of_nat p, h')" "heap_rep h' bs'" "of_nat p \<noteq> (0 :: u32)" "p < 4294967296"
proof (cases "n = 0 \<or> blocks_alloc (unat (round4 n)) 4194304 bs = None")
  case True
  then have "kmalloc n h = Some (0, h)"
    using kmalloc_None [OF assms] by (auto simp: kmalloc_def)
  then show thesis by (rule null)
next
  case False
  then obtain p g bs' where al: "blocks_alloc (unat (round4 n)) 4194304 bs = Some (p, g, bs')" by auto
  from kmalloc_Some [OF assms _ al] False obtain h' where h': "kmalloc n h = Some (of_nat p, h')" "heap_rep h' bs'"
    by auto
  have "p \<in> payloads 4194304 bs'" using blocks_alloc_bounds [OF al] by simp
  from heap_payload_less [OF h'(2) this] have "of_nat p \<noteq> (0 :: u32)" "p < 4294967296"
    by (simp_all add: of_nat32_eq_0_iff)
  with False al h' show thesis by (intro block) auto
qed

lemma kfree_live:
  assumes rep: "heap_rep h bs" and live: "p \<in> heap_live h"
  obtains h' xs k ys where "kfree p h = Some h'" "bs = xs @ (k, True) # ys"
    "p = of_nat (4194304 + span xs + 12)" "heap_rep h' (blocks_free xs k ys)" "heap_live h' = heap_live h - {p}"
proof -
  from rep live obtain x where x: "x \<in> payloads 4194304 bs" "p = of_nat x"
    by (auto simp: heap_live_rep)
  from x(1) obtain xs k ys where bs: "bs = xs @ (k, True) # ys" and xp: "x = 4194304 + span xs + 12"
    by (rule payloads_split)
  from kfree_refines rep bs obtain h' where
    h': "kfree (of_nat (4194304 + span xs + 12)) h = Some h'" "heap_rep h' (blocks_free xs k ys)" by blast
  let ?A = "payloads 4194304 xs \<union> payloads (4194304 + span xs + 12 + k) ys"
  have "coalesced xs" "coalesced ys" "4 dvd k" "\<forall>(k, u) \<in> set xs. 4 dvd k" "\<forall>(k, u) \<in> set ys. 4 dvd k"
    using rep bs by (auto simp: heap_rep_def coalesced_append coalesced_Cons)
  from blocks_free_facts(5) [OF this] have "heap_live h' = of_nat ` ?A"
    using heap_live_rep [OF h'(2)] by simp
  moreover have "heap_live h = of_nat ` insert x ?A"
    using heap_live_rep [OF rep] by (simp add: bs xp add.assoc)
  moreover have "(of_nat x :: u32) \<notin> of_nat ` ?A"
  proof
    assume "(of_nat x :: u32) \<in> of_nat ` ?A"
    then obtain y where y: "y \<in> ?A" "(of_nat x :: u32) = of_nat y" by auto
    then have "y \<in> payloads 4194304 bs" by (auto simp: bs add.assoc)
    with y x(1) heap_payload_less [OF rep] have "x = y" by (auto simp: of_nat32_eq_iff)
    with y(1) payloads_remove [of 4194304 xs k ys] xp show False by auto
  qed
  ultimately have "heap_live h' = heap_live h - {p}" using x(2) by auto
  with h' bs xp x(2) show thesis by (intro that) simp_all
qed

interpretation kheap: allocator heap_inv heap_live kmalloc kfree
proof (unfold_locales, goal_cases)
  case (1 h n)
  then obtain bs where "heap_rep h bs" by (auto simp: heap_inv_def)
  then show ?case by (cases rule: kmalloc_cases [of h bs n]) auto
next
  case (2 h n p h')
  then obtain bs where "heap_rep h bs" by (auto simp: heap_inv_def)
  then show ?case using 2 by (cases rule: kmalloc_cases [of h bs n]) (auto simp: heap_inv_def)
next
  case (3 h n h')
  then obtain bs where "heap_rep h bs" by (auto simp: heap_inv_def)
  then show ?case using 3(2) by (cases rule: kmalloc_cases [of h bs n]) auto
next
  case (4 h n p h')
  then obtain bs where rep: "heap_rep h bs" by (auto simp: heap_inv_def)
  then show ?case
  proof (cases rule: kmalloc_cases [of h bs n])
    case null
    with 4 show ?thesis by simp
  next
    case (block x g bs' h1)
    with 4 have p: "p = of_nat x" "h' = h1" by simp_all
    from blocks_alloc_bounds [OF block(2)] have
      b: "x \<notin> payloads 4194304 bs" "payloads 4194304 bs' = insert x (payloads 4194304 bs)" by auto
    have "(of_nat x :: u32) \<notin> of_nat ` payloads 4194304 bs"
      using b(1) block(6) heap_payload_less [OF rep] by (auto simp: of_nat32_eq_iff)
    then show ?thesis
      using b(2) p block(4) by (simp add: heap_live_rep [OF rep] heap_live_rep [OF block(4)])
  qed
next
  case (5 h p)
  then obtain bs where rep: "heap_rep h bs" by (auto simp: heap_inv_def)
  then show ?case using 5(2) by (rule kfree_live) (auto simp: heap_inv_def)
qed

section \<open>Properties\<close>

definition heap_zero :: heap where
  "heap_zero = \<lparr>heap_start = 0, heap_used = 0,
     hmem = (\<lambda>_. \<lparr>hb_size = 0, hb_used = 0, hb_next = 0\<rparr>)\<rparr>"

lemma heap_demo_rep: "heap_rep (heap_init heap_zero) [(4194292, False)]"
  by (rule heap_init_rep)

lemma heap_demo_alloc:
  "blocks_alloc (unat (round4 100)) 4194304 [(4194292, False)]
     = Some (4194316, 100, [(100, True), (4194180, False)])"
  using round4_unat [of 100] by (simp add: split_block_def)

fun free_bytes :: "blocks \<Rightarrow> nat" where
  "free_bytes [] = 0"
| "free_bytes ((k, u) # bs) = (if u then 0 else k) + free_bytes bs"

lemma span_sums: "span bs = 12 * length bs + used_bytes bs + free_bytes bs"
  by (induction bs rule: span.induct) auto

text \<open>
  Property C1. \<open>kmalloc\<close> refines first-fit allocation: on a store that holds the block list
  \<open>bs\<close> it always returns; null and an unchanged heap if no free block has the rounded size,
  and otherwise the address first fit chooses, on a store that holds the new list. The
  tiling, the coalescing and the byte counter (all part of \<open>heap_rep\<close>) are kept.
\<close>

theorem kmalloc_refines_first_fit:
  assumes "heap_rep h bs" and "n \<noteq> 0"
  shows "case blocks_alloc (unat (round4 n)) 4194304 bs of
           None \<Rightarrow> kmalloc n h = Some (0, h)
         | Some (p, g, bs') \<Rightarrow> \<exists>h'. kmalloc n h = Some (of_nat p, h') \<and> heap_rep h' bs'"
  using kmalloc_None [OF assms] kmalloc_Some [OF assms] by (auto split: option.splits)

theorem kmalloc_refines_first_fit_witness:
  "\<exists>h'. kmalloc 100 (heap_init heap_zero) = Some (4194316, h')
      \<and> heap_rep h' [(100, True), (4194180, False)]"
  using kmalloc_refines_first_fit [OF heap_demo_rep, of 100] heap_demo_alloc by simp

lemma kmalloc_extents:
  assumes "heap_rep h bs" and "unat n \<le> 4294967292" and "kmalloc n h = Some (p, h')" and "p \<noteq> 0"
  shows "\<exists>g bs'. heap_rep h' bs' \<and> unat n \<le> g \<and> 4194304 + 12 \<le> unat p \<and> unat p + g \<le> 8388608
     \<and> (\<forall>(q, k) \<in> extents 4194304 bs. q + k \<le> unat p \<or> unat p + g \<le> q)
     \<and> extents 4194304 bs' = insert (unat p, g) (extents 4194304 bs)
     \<and> heap_used h' = heap_used h + of_nat g"
  using assms(1)
proof (cases rule: kmalloc_cases [of h bs n])
  case null
  with assms show ?thesis by simp
next
  case (block x g bs' h1)
  with assms have p: "p = of_nat x" "h' = h1" by simp_all
  then have up: "unat p = x" using block(6) by simp
  have "unat n \<le> unat (round4 n)" using round4_unat [OF assms(2)] by simp
  moreover have "span bs = 4194304" using assms(1) by (simp add: heap_rep_def)
  ultimately show ?thesis
    using blocks_alloc_bounds [OF block(2)] blocks_alloc_extents [OF block(2)] block(4) p(2) up assms(1)
    by (intro exI [of _ g] exI [of _ bs']) (auto simp: heap_rep_def)
qed

lemma span_dvd: "\<forall>(k, u) \<in> set bs. 4 dvd k \<Longrightarrow> 4 dvd span bs"
proof (induction bs rule: span.induct)
  case (2 k u bs)
  then have "4 dvd k" "4 dvd span bs" "4 dvd (12 :: nat)" by auto
  then show ?case by (metis span.simps(2) dvd_add)
qed simp

lemma kmalloc_aligned:
  assumes "heap_rep h bs" and "kmalloc n h = Some (p, h')" and "p \<noteq> 0"
  shows "4 dvd unat p"
  using assms(1)
proof (cases rule: kmalloc_cases [of h bs n])
  case null
  with assms show ?thesis by simp
next
  case (block x g bs' h1)
  from blocks_alloc_shape [OF block(2)] obtain xs k ys where
    x: "bs = xs @ (k, False) # ys" "x = 4194304 + span xs + 12" by blast
  have "4 dvd span xs" using assms(1) by (intro span_dvd) (auto simp: heap_rep_def x(1))
  then have "4 dvd span xs + 4194316" by (rule dvd_add) simp
  moreover have "p = of_nat x" using assms(2) block(3) by simp
  then have "unat p = x" using block(6) by simp
  then have "unat p = span xs + 4194316" by (simp add: x(2))
  ultimately show ?thesis by simp
qed

text \<open>
  Property C3. A successful \<open>kmalloc\<close> of a size up to \<open>2^32 - 4\<close> returns a 4-aligned block
  inside the heap region, at least as large as asked, that overlaps no live block, and the
  live blocks afterwards are the old ones and this one.
\<close>

theorem kmalloc_disjoint:
  assumes "heap_rep h bs" and "unat n \<le> 4294967292" and "kmalloc n h = Some (p, h')" and "p \<noteq> 0"
  shows "4 dvd unat p \<and> (\<exists>g bs'. heap_rep h' bs' \<and> unat n \<le> g \<and> 4194304 + 12 \<le> unat p \<and> unat p + g \<le> 8388608
     \<and> (\<forall>(q, k) \<in> extents 4194304 bs. q + k \<le> unat p \<or> unat p + g \<le> q)
     \<and> extents 4194304 bs' = insert (unat p, g) (extents 4194304 bs)
     \<and> heap_used h' = heap_used h + of_nat g)"
  using kmalloc_aligned [OF assms(1,3,4)] kmalloc_extents [OF assms] by blast

theorem kmalloc_disjoint_witness:
  "\<exists>h' g bs'. heap_rep h' bs' \<and> unat (100 :: u32) \<le> g \<and> 4194304 + 12 \<le> unat (4194316 :: u32)
     \<and> unat (4194316 :: u32) + g \<le> 8388608
     \<and> (\<forall>(q, k) \<in> extents 4194304 [(4194292, False)]. q + k \<le> unat (4194316 :: u32) \<or> unat (4194316 :: u32) + g \<le> q)
     \<and> extents 4194304 bs' = insert (unat (4194316 :: u32), g) (extents 4194304 [(4194292, False)])
     \<and> heap_used h' = heap_used (heap_init heap_zero) + of_nat g"
proof -
  from kmalloc_Some [OF heap_demo_rep _ heap_demo_alloc] obtain h' where
    "kmalloc 100 (heap_init heap_zero) = Some (4194316, h')" by auto
  from kmalloc_disjoint [OF heap_demo_rep _ this] show ?thesis by (intro exI [of _ h']) simp
qed

text \<open>
  Property C2. \<open>kfree\<close> of a live pointer always returns, refines release with merging of the
  free neighbours on both sides (so no two adjacent free blocks ever exist), and makes
  exactly that pointer dead.
\<close>

theorem kfree_refines_coalescing:
  assumes "heap_rep h bs" and "p \<in> heap_live h"
  shows "\<exists>h' xs k ys. kfree p h = Some h' \<and> bs = xs @ (k, True) # ys
     \<and> p = of_nat (4194304 + span xs + 12) \<and> heap_rep h' (blocks_free xs k ys)
     \<and> coalesced (blocks_free xs k ys) \<and> heap_live h' = heap_live h - {p}"
  using assms
proof (rule kfree_live)
  fix h' xs k ys
  assume "kfree p h = Some h'" "bs = xs @ (k, True) # ys" "p = of_nat (4194304 + span xs + 12)"
    "heap_rep h' (blocks_free xs k ys)" "heap_live h' = heap_live h - {p}"
  moreover from this(4) have "coalesced (blocks_free xs k ys)" by (simp add: heap_rep_def)
  ultimately show ?thesis by blast
qed

theorem kfree_refines_coalescing_witness:
  "\<exists>h h' xs k ys. kmalloc 100 (heap_init heap_zero) = Some (4194316, h) \<and> kfree 4194316 h = Some h'
     \<and> [(100, True), (4194180, False)] = xs @ (k, True) # ys
     \<and> 4194316 = (of_nat (4194304 + span xs + 12) :: u32) \<and> heap_rep h' (blocks_free xs k ys)
     \<and> coalesced (blocks_free xs k ys) \<and> heap_live h' = heap_live h - {4194316}"
proof -
  from kmalloc_Some [OF heap_demo_rep _ heap_demo_alloc] obtain h where
    h: "kmalloc 100 (heap_init heap_zero) = Some (4194316, h)" "heap_rep h [(100, True), (4194180, False)]"
    by auto
  have "4194316 \<in> heap_live h" by (simp add: heap_live_rep [OF h(2)])
  from kfree_refines_coalescing [OF h(2) this] h(1) show ?thesis by blast
qed

lemma blocks_free_alloc:
  assumes "coalesced (xs @ (k, False) # ys)" and "n \<le> k"
  shows "blocks_free xs (if k > n + 16 then n else k)
      ((if k > n + 16 then [(k - n - 12, False)] else []) @ ys) = xs @ (k, False) # ys"
proof -
  from assms(1) have x: "xs = [] \<or> snd (last xs)" and y: "ys = [] \<or> snd (hd ys)"
    by (auto simp: coalesced_append coalesced_Cons)
  have "join_next k ys = (k, False) # ys" using y
    by (cases ys) (auto elim: join_next_cases [of ys k])
  then have "join_next (if k > n + 16 then n else k)
      ((if k > n + 16 then [(k - n - 12, False)] else []) @ ys) = (k, False) # ys"
    by simp
  with x show ?thesis
    unfolding blocks_free_def by (cases rule: join_prev_cases [of xs k ys]) auto
qed

text \<open>
  Property C4. Freeing what \<open>kmalloc\<close> just returned gives back the block list it started
  from, split or not: the remainder of a split is merged again.
\<close>

theorem kmalloc_kfree_roundtrip:
  assumes "heap_rep h bs" and "kmalloc n h = Some (p, h')" and "p \<noteq> 0"
  shows "\<exists>h''. kfree p h' = Some h'' \<and> heap_rep h'' bs \<and> heap_used h'' = heap_used h"
  using assms(1)
proof (cases rule: kmalloc_cases [of h bs n])
  case null
  with assms show ?thesis by simp
next
  case (block x g bs' h1)
  with assms have p: "p = of_nat x" "h' = h1" by simp_all
  let ?n = "unat (round4 n)"
  from blocks_alloc_shape [OF block(2)] obtain xs k ys where s: "bs = xs @ (k, False) # ys" "?n \<le> k"
    "x = 4194304 + span xs + 12" "bs' = xs @ split_block ?n k @ ys" by blast
  let ?k = "if k > ?n + 16 then ?n else k"
    and ?ys = "(if k > ?n + 16 then [(k - ?n - 12, False)] else []) @ ys"
  have "bs' = xs @ (?k, True) # ?ys" by (simp add: s split_block_def)
  with block(4) have "heap_rep h1 (xs @ (?k, True) # ?ys)" by simp
  from kfree_refines [OF this] obtain h2 where h2: "kfree (of_nat (4194304 + span xs + 12)) h1 = Some h2"
    "heap_rep h2 (blocks_free xs ?k ?ys)" by blast
  have "blocks_free xs ?k ?ys = bs"
    using blocks_free_alloc [of xs k ys ?n] assms(1) s by (simp add: heap_rep_def)
  with h2(2) have "heap_rep h2 bs" by (simp only:)
  moreover from this have "heap_used h2 = heap_used h" using assms(1) by (simp add: heap_rep_def)
  ultimately show ?thesis using h2(1) p s(3) by auto
qed

theorem kmalloc_kfree_roundtrip_witness:
  "\<exists>h h'. kmalloc 100 (heap_init heap_zero) = Some (4194316, h) \<and> kfree 4194316 h = Some h'
     \<and> heap_rep h' [(4194292, False)] \<and> heap_used h' = heap_used (heap_init heap_zero)"
proof -
  from kmalloc_Some [OF heap_demo_rep _ heap_demo_alloc] obtain h where
    h: "kmalloc 100 (heap_init heap_zero) = Some (4194316, h)" by auto
  from kmalloc_kfree_roundtrip [OF heap_demo_rep h] h show ?thesis by auto
qed

text \<open>
  Remark. The size is rounded up without an overflow check: every request above
  \<open>2^32 - 4\<close> becomes a request for 0 bytes, and \<open>kmalloc\<close> returns a non-null pointer to a
  block of 0 usable bytes if the first block is free and larger than 16.
\<close>

theorem kmalloc_overflow:
  assumes "heap_rep h ((k, False) # bs)" and "4294967292 < unat n" and "16 < k"
  shows "\<exists>h'. kmalloc n h = Some (HEAP_START + 12, h')
     \<and> heap_rep h' ((0, True) # (k - 12, False) # bs)"
proof -
  have "n \<noteq> 0" using assms(2) by auto
  moreover have "unat (n + 3) = unat n + 3 - 4294967296"
    using assms(2) unat_lt32 [of n] by (simp add: unat_word_ariths mod_if)
  then have "unat (n + 3) < 4" using unat_lt32 [of n] by simp
  then have "unat (round4 n) = 0" unfolding round4_def align4_unat by simp
  ultimately show ?thesis
    using kmalloc_Some [OF assms(1), of n "4194316" 0] assms(3) by (simp add: split_block_def)
qed

theorem kmalloc_overflow_witness:
  "\<exists>h'. kmalloc 0xFFFFFFFF (heap_init heap_zero) = Some (HEAP_START + 12, h')
     \<and> heap_rep h' ((0, True) # (4194292 - 12, False) # [])"
  by (rule kmalloc_overflow [OF heap_demo_rep]) simp_all

text \<open>
  Remark. What \<open>heap_get_free\<close> reports is the free payload plus 12 bytes for every
  block after the first: it does not subtract the headers that splitting has added.
\<close>

theorem heap_get_free_overcounts:
  assumes "heap_rep h bs"
  shows "unat (heap_get_free h) = free_bytes bs + 12 * (length bs - 1)
     \<and> unat (heap_get_used h) = used_bytes bs"
proof -
  from assms have sp: "span bs = 4194304" and u: "heap_used h = of_nat (used_bytes bs)"
    by (simp_all add: heap_rep_def)
  from heap_rep_nonempty [OF assms] obtain l where l: "length bs = Suc l" by (cases bs) auto
  with sp have eq: "used_bytes bs + (free_bytes bs + 12 * l) = 4194292" by (simp add: span_sums)
  then have "(4194292 :: u32) = of_nat (used_bytes bs + (free_bytes bs + 12 * l))" by simp
  then have "heap_get_free h = of_nat (free_bytes bs + 12 * l)"
    by (simp add: heap_get_free_def u algebra_simps)
  with eq u l show ?thesis by (simp add: heap_get_used_def del: of_nat_add)
qed

theorem heap_get_free_overcounts_witness:
  "unat (heap_get_free (heap_init heap_zero)) = free_bytes [(4194292, False)] + 12 * (length [(4194292 :: nat, False)] - 1)
     \<and> unat (heap_get_used (heap_init heap_zero)) = used_bytes [(4194292, False)]"
  by (rule heap_get_free_overcounts [OF heap_demo_rep])

end
