(* ===== verification/Paging.thy ===== *)
theory Paging
  imports Pmm
begin

text \<open>
  The paging unit, \<^verbatim>\<open>kernel/mm/paging.c\<close> and \<^verbatim>\<open>paging.h\<close>: the kernel page
  directory, the static pool of 256 page tables it hands out in order, and map, unmap and
  lookup over them. Bit-fields are booleans and short words; table addresses go through the
  20-bit \<open>frame\<close> field as in the code. \<open>page_tables_addr\<close> is the link address of the
  static array \<open>page_tables\<close>, a constant of the state. The messages of the unit go to the console
  of \<open>Boot\<close>: those of \<open>paging_init\<close> and \<open>paging_test\<close>, and what \<open>paging_map_page\<close> prints
  when the pool is exhausted (\<open>map_page_messages\<close>). Abstractly the unit is the partial
  function \<open>translate\<close> from virtual to physical addresses.
\<close>

section \<open>State\<close>

record page_dir_entry =
  pde_present :: bool
  pde_rw :: bool
  pde_user :: bool
  pde_pwt :: bool
  pde_pcd :: bool
  pde_accessed :: bool
  pde_reserved :: bool
  pde_page_size :: bool
  pde_global :: bool
  pde_available :: "3 word"
  pde_frame :: "20 word"

record page_table_entry =
  pte_present :: bool
  pte_rw :: bool
  pte_user :: bool
  pte_pwt :: bool
  pte_pcd :: bool
  pte_accessed :: bool
  pte_dirty :: bool
  pte_pat :: bool
  pte_global :: bool
  pte_available :: "3 word"
  pte_frame :: "20 word"

record paging =
  kernel_directory :: ptr
  current_directory :: ptr
  dir_entries :: "nat \<Rightarrow> page_dir_entry"
  page_tables_addr :: ptr
  page_tables :: "nat \<Rightarrow> nat \<Rightarrow> page_table_entry"
  next_table_index :: u32
  cr3_loaded :: ptr
  paging_enabled :: bool
  page_fault_registered :: bool
  tlb_flushed :: "u32 list"

definition PAGE_PRESENT :: u32 where "PAGE_PRESENT = 0x001"
definition PAGE_WRITE :: u32 where "PAGE_WRITE = 0x002"
definition PAGE_USER :: u32 where "PAGE_USER = 0x004"

definition PAGE_DIR_INDEX :: "u32 \<Rightarrow> nat" where
  "PAGE_DIR_INDEX addr = unat (drop_bit 22 addr)"

definition PAGE_TABLE_INDEX :: "u32 \<Rightarrow> nat" where
  "PAGE_TABLE_INDEX addr = unat (drop_bit 12 addr AND 0x3FF)"

text \<open>The address stored through a \<open>frame\<close> field, and the pool slot it points to.\<close>

definition frame_of :: "u32 \<Rightarrow> 20 word" where
  "frame_of addr = ucast (drop_bit 12 addr)"

definition addr_of_frame :: "20 word \<Rightarrow> u32" where
  "addr_of_frame f = push_bit 12 (ucast f)"

definition table_ptr :: "paging \<Rightarrow> u32 \<Rightarrow> ptr" where
  "table_ptr s i = page_tables_addr s + 4096 * i"

definition table_slot :: "paging \<Rightarrow> ptr \<Rightarrow> nat" where
  "table_slot s table = unat ((table - page_tables_addr s) div 4096)"

section \<open>Operations\<close>

definition alloc_page_table :: "paging \<Rightarrow> ptr \<times> paging" where
  "alloc_page_table s =
     (if next_table_index s \<ge> 256 then (0, s)
      else let i = next_table_index s; slot = unat i;
               clear = (\<lambda>j. if j < 1024
                        then (page_tables s slot j)
                               \<lparr>pte_present := False, pte_rw := True, pte_user := False, pte_frame := 0\<rparr>
                        else page_tables s slot j)
           in (table_ptr s i,
               s\<lparr>next_table_index := i + 1, page_tables := (page_tables s)(slot := clear)\<rparr>))"

definition set_pte :: "ptr \<Rightarrow> nat \<Rightarrow> u32 \<Rightarrow> u32 \<Rightarrow> paging \<Rightarrow> paging" where
  "set_pte table table_index phys flags s =
     (let slot = table_slot s table; e = page_tables s slot table_index;
          e' = e\<lparr>pte_present := (flags AND PAGE_PRESENT \<noteq> 0), pte_rw := (flags AND PAGE_WRITE \<noteq> 0),
                 pte_user := (flags AND PAGE_USER \<noteq> 0), pte_frame := frame_of phys\<rparr>
      in s\<lparr>page_tables := (page_tables s)(slot := (page_tables s slot)(table_index := e'))\<rparr>)"

definition paging_map_page :: "u32 \<Rightarrow> u32 \<Rightarrow> u32 \<Rightarrow> paging \<Rightarrow> paging" where
  "paging_map_page virt phys flags s =
     (let dir_index = PAGE_DIR_INDEX virt; table_index = PAGE_TABLE_INDEX virt in
      if \<not> pde_present (dir_entries s dir_index)
      then (let (table, s1) = alloc_page_table s in
            if table = 0 then s1
            else let e = (dir_entries s1 dir_index)
                           \<lparr>pde_present := True, pde_rw := True,
                            pde_user := (flags AND PAGE_USER \<noteq> 0), pde_frame := frame_of table\<rparr>
                 in set_pte table table_index phys flags
                      (s1\<lparr>dir_entries := (dir_entries s1)(dir_index := e)\<rparr>))
      else set_pte (addr_of_frame (pde_frame (dir_entries s dir_index))) table_index phys flags s)"

definition paging_unmap_page :: "u32 \<Rightarrow> paging \<Rightarrow> paging" where
  "paging_unmap_page virt s =
     (let dir_index = PAGE_DIR_INDEX virt; table_index = PAGE_TABLE_INDEX virt in
      if \<not> pde_present (dir_entries s dir_index) then s
      else let slot = table_slot s (addr_of_frame (pde_frame (dir_entries s dir_index)));
               e = (page_tables s slot table_index)\<lparr>pte_present := False\<rparr>
           in s\<lparr>page_tables := (page_tables s)(slot := (page_tables s slot)(table_index := e)),
                tlb_flushed := tlb_flushed s @ [virt]\<rparr>)"

definition paging_get_physical :: "u32 \<Rightarrow> paging \<Rightarrow> u32" where
  "paging_get_physical virt s =
     (let dir_index = PAGE_DIR_INDEX virt; table_index = PAGE_TABLE_INDEX virt in
      if \<not> pde_present (dir_entries s dir_index) then 0
      else let e = page_tables s (table_slot s (addr_of_frame (pde_frame (dir_entries s dir_index)))) table_index
           in if \<not> pte_present e then 0
              else addr_of_frame (pte_frame e) OR (virt AND 0xFFF))"

definition paging_switch_directory :: "ptr \<Rightarrow> paging \<Rightarrow> paging" where
  "paging_switch_directory dir s = s\<lparr>current_directory := dir, cr3_loaded := dir\<rparr>"

definition paging_get_directory :: "paging \<Rightarrow> ptr" where
  "paging_get_directory s = current_directory s"

function paging_identity_map :: "u32 \<Rightarrow> paging \<Rightarrow> paging" where
  "paging_identity_map i s =
     (if i < 0x1000000
      then paging_identity_map (i + PAGE_SIZE) (paging_map_page i i (PAGE_PRESENT OR PAGE_WRITE) s)
      else s)"
  by pat_completeness auto
termination
proof (relation "measure (\<lambda>(i, s). 16777216 - unat i)", goal_cases)
  case (2 i s)
  then have "unat i < 16777216" by (simp add: word_less_nat_alt)
  moreover from this have "unat (i + PAGE_SIZE) = unat i + 4096" by (subst unat_plus32) simp_all
  ultimately show ?case by simp
qed simp

declare paging_identity_map.simps [simp del]

definition clear_directory :: "paging \<Rightarrow> paging" where
  "clear_directory s =
     s\<lparr>dir_entries := (\<lambda>i. if i < 1024
         then (dir_entries s i)\<lparr>pde_present := False, pde_rw := True, pde_user := False, pde_frame := 0\<rparr>
         else dir_entries s i)\<rparr>"

text \<open>\<open>paging_init\<close>, without its progress messages; it takes its directory from the PMM.\<close>

definition paging_init :: "pmm \<Rightarrow> paging \<Rightarrow> pmm \<times> paging" where
  "paging_init p s =
     (let (dir, p1) = pmm_alloc_page p; s1 = s\<lparr>kernel_directory := dir\<rparr> in
      if dir = 0 then (p1, s1)
      else let s2 = paging_identity_map 0 (clear_directory s1)
           in (p1, s2\<lparr>page_fault_registered := True, current_directory := dir, cr3_loaded := dir,
                      paging_enabled := True\<rparr>))"

text \<open>
  \<open>paging_test\<close>: the outcomes of its four checks, and the state it leaves. \<open>mem\<close> is the
  memory the read/write check goes through.
\<close>

definition paging_test :: "(u32 \<Rightarrow> u32) \<Rightarrow> paging \<Rightarrow> bool list \<times> (u32 \<Rightarrow> u32) \<times> paging" where
  "paging_test mem s =
     (let t1 = (paging_get_physical 0x100000 s = 0x100000);
          mem1 = mem(0x200000 := 0xDEADBEEF);
          t2 = (mem1 0x200000 = 0xDEADBEEF);
          t3 = pde_present (dir_entries s (PAGE_DIR_INDEX 0x200000));
          s1 = paging_map_page 0x500000 0x800000 (PAGE_PRESENT OR PAGE_WRITE) s;
          t4 = (paging_get_physical 0x500000 s1 = 0x800000)
      in ([t1, t2, t3, t4], mem1, s1))"

section \<open>Addresses, indices and frames\<close>

lemma PAGE_DIR_INDEX_nat: "PAGE_DIR_INDEX v = unat v div 4194304"
  by (simp add: PAGE_DIR_INDEX_def drop_bit_eq_div unat_div)

lemma PAGE_TABLE_INDEX_nat: "PAGE_TABLE_INDEX v = unat v div 4096 mod 1024"
proof -
  have m: "(0x3FF :: u32) = mask 10" by (simp add: mask_eq_exp_minus_1)
  have "unat (take_bit 10 (drop_bit 12 v)) = unat v div 4096 mod 1024"
    by (simp add: drop_bit_eq_div take_bit_eq_mod unat_div unat_mod)
  then show ?thesis by (simp only: PAGE_TABLE_INDEX_def m take_bit_eq_mask [symmetric])
qed

lemma PAGE_DIR_INDEX_less: "PAGE_DIR_INDEX v < 1024"
  using unat_lt32 [of v] by (simp add: PAGE_DIR_INDEX_nat less_mult_imp_div_less)

lemma PAGE_TABLE_INDEX_less: "PAGE_TABLE_INDEX v < 1024"
  by (simp add: PAGE_TABLE_INDEX_nat)

text \<open>Two addresses have the same indices exactly if they are on the same page.\<close>

definition page_of :: "u32 \<Rightarrow> nat" where
  "page_of v = unat v div 4096"

lemma same_page_iff:
  "PAGE_DIR_INDEX v = PAGE_DIR_INDEX w \<and> PAGE_TABLE_INDEX v = PAGE_TABLE_INDEX w
     \<longleftrightarrow> page_of v = page_of w"
proof -
  have "unat x div 4194304 = page_of x div 1024" for x :: u32
    by (simp add: page_of_def div_mult2_eq [symmetric])
  then show ?thesis
    unfolding PAGE_DIR_INDEX_nat PAGE_TABLE_INDEX_nat
    by (metis div_mult_mod_eq page_of_def)
qed

lemma addr_of_frame_of: "addr_of_frame (frame_of a) = a AND NOT 4095"
proof -
  have "addr_of_frame (frame_of a) = a AND NOT (mask 12)"
    by (rule bit_word_eqI) (auto simp: addr_of_frame_def frame_of_def bit_simps)
  then show ?thesis by (simp only: mask_12_word)
qed

lemma page_offset_restore: "(a AND NOT 4095) OR (a AND 0xFFF) = (a :: u32)"
  by (rule bit_word_eqI) (auto simp: bit_simps)

section \<open>Invariant and translation\<close>

definition dir_table :: "paging \<Rightarrow> nat \<Rightarrow> nat" where
  "dir_table s d = table_slot s (addr_of_frame (pde_frame (dir_entries s d)))"

abbreviation present_dirs :: "paging \<Rightarrow> nat set" where
  "present_dirs s \<equiv> {d. d < 1024 \<and> pde_present (dir_entries s d)}"

definition paging_inv :: "paging \<Rightarrow> bool" where
  "paging_inv s \<longleftrightarrow> 0 < unat (page_tables_addr s) \<and> unat (page_tables_addr s) mod 4096 = 0
     \<and> unat (page_tables_addr s) + 256 * 4096 \<le> 4294967296
     \<and> unat (next_table_index s) \<le> 256
     \<and> (\<forall>d \<in> present_dirs s. dir_table s d < unat (next_table_index s))
     \<and> inj_on (dir_table s) (present_dirs s)"

definition translate :: "paging \<Rightarrow> u32 \<Rightarrow> u32 option" where
  "translate s v =
     (if pde_present (dir_entries s (PAGE_DIR_INDEX v))
      then let e = page_tables s (dir_table s (PAGE_DIR_INDEX v)) (PAGE_TABLE_INDEX v)
           in if pte_present e then Some (addr_of_frame (pte_frame e) OR (v AND 0xFFF)) else None
      else None)"

lemma paging_get_physical_translate:
  "paging_get_physical v s = (case translate s v of None \<Rightarrow> 0 | Some p \<Rightarrow> p)"
  by (simp add: paging_get_physical_def translate_def Let_def dir_table_def)

text \<open>The pool slot found again through a 20-bit frame number.\<close>

lemma table_ptr_unat:
  assumes "paging_inv s" and "unat i < 256"
  shows "unat (table_ptr s i) = unat (page_tables_addr s) + 4096 * unat i"
proof -
  have "unat (4096 * i :: u32) = 4096 * unat i"
    using assms(2) by (simp add: unat_word_ariths)
  then show ?thesis
    using assms unfolding table_ptr_def paging_inv_def by (subst unat_plus32) simp_all
qed

lemma table_slot_frame:
  assumes "paging_inv s" and "unat i < 256"
  shows "table_slot s (addr_of_frame (frame_of (table_ptr s i))) = unat i"
proof -
  have "unat (table_ptr s i AND NOT 4095) = unat (table_ptr s i)"
  proof -
    have "unat (table_ptr s i) mod 4096 = 0"
      using assms by (simp add: table_ptr_unat paging_inv_def)
    then show ?thesis unfolding page_align_unat by (metis add.right_neutral div_mult_mod_eq)
  qed
  then have "table_ptr s i AND NOT 4095 = table_ptr s i" by (rule word_unat_eq_iff [THEN iffD2])
  then have "addr_of_frame (frame_of (table_ptr s i)) = table_ptr s i" by (simp only: addr_of_frame_of)
  moreover have "table_ptr s i - page_tables_addr s = 4096 * i" by (simp add: table_ptr_def)
  moreover have "unat (4096 * i :: u32) = 4096 * unat i"
    using assms(2) by (simp add: unat_word_ariths)
  ultimately show ?thesis by (simp add: table_slot_def unat_div)
qed

section \<open>Mapping one page\<close>

text \<open>A mapping needs a directory entry or a free table of the pool.\<close>

definition can_map :: "paging \<Rightarrow> u32 \<Rightarrow> bool" where
  "can_map s v \<longleftrightarrow> pde_present (dir_entries s (PAGE_DIR_INDEX v)) \<or> unat (next_table_index s) < 256"

lemma set_pte_frames [frame_simps]:
  "dir_entries (set_pte t i p f s) = dir_entries s" "next_table_index (set_pte t i p f s) = next_table_index s"
  "page_tables_addr (set_pte t i p f s) = page_tables_addr s"
  "kernel_directory (set_pte t i p f s) = kernel_directory s"
  "dir_table (set_pte t i p f s) = dir_table s"
  by (simp_all add: set_pte_def Let_def dir_table_def table_slot_def fun_eq_iff)

lemma page_tables_set_pte:
  "page_tables (set_pte t i p f s) slot j =
     (if slot = table_slot s t \<and> j = i
      then (page_tables s slot j)\<lparr>pte_present := (f AND PAGE_PRESENT \<noteq> 0), pte_rw := (f AND PAGE_WRITE \<noteq> 0),
             pte_user := (f AND PAGE_USER \<noteq> 0), pte_frame := frame_of p\<rparr>
      else page_tables s slot j)"
  by (simp add: set_pte_def Let_def)

text \<open>\<open>open_table\<close>: the state in which the directory entry for \<open>v\<close> is present.\<close>

definition open_table :: "u32 \<Rightarrow> u32 \<Rightarrow> paging \<Rightarrow> paging" where
  "open_table v flags s =
     (if pde_present (dir_entries s (PAGE_DIR_INDEX v)) then s
      else let s1 = snd (alloc_page_table s)
           in s1\<lparr>dir_entries := (dir_entries s1)(PAGE_DIR_INDEX v :=
                (dir_entries s1 (PAGE_DIR_INDEX v))\<lparr>pde_present := True, pde_rw := True,
                   pde_user := (flags AND PAGE_USER \<noteq> 0),
                   pde_frame := frame_of (table_ptr s (next_table_index s))\<rparr>)\<rparr>)"

lemma table_ptr_nonnull:
  assumes "paging_inv s" and "unat i < 256"
  shows "table_ptr s i \<noteq> 0"
proof
  assume "table_ptr s i = 0"
  with table_ptr_unat [OF assms] assms(1) show False by (simp add: paging_inv_def)
qed

lemma map_page_open:
  assumes "paging_inv s" and "can_map s v"
  shows "paging_map_page v p f s
     = set_pte (addr_of_frame (pde_frame (dir_entries (open_table v f s) (PAGE_DIR_INDEX v))))
         (PAGE_TABLE_INDEX v) p f (open_table v f s)"
proof (cases "pde_present (dir_entries s (PAGE_DIR_INDEX v))")
  case True
  then show ?thesis by (simp add: paging_map_page_def open_table_def)
next
  case False
  with assms(2) have n: "unat (next_table_index s) < 256" by (simp add: can_map_def)
  then have lt: "\<not> 256 \<le> next_table_index s" by (simp add: word_le_nat_alt)
  let ?t = "table_ptr s (next_table_index s)" and ?o = "open_table v f s"
  have "table_slot ?o (addr_of_frame (frame_of ?t)) = table_slot s (addr_of_frame (frame_of ?t))"
    using False lt by (simp add: open_table_def alloc_page_table_def Let_def table_slot_def)
  moreover have "table_slot s (addr_of_frame (frame_of ?t)) = table_slot s ?t"
    using table_slot_frame [OF assms(1) n] n
    by (simp add: table_slot_def table_ptr_def unat_div unat_word_ariths)
  moreover have "table_slot ?o ?t = table_slot s ?t"
    using False lt by (simp add: open_table_def alloc_page_table_def Let_def table_slot_def)
  moreover have "paging_map_page v p f s = set_pte ?t (PAGE_TABLE_INDEX v) p f ?o"
    using False lt table_ptr_nonnull [OF assms(1) n]
    by (simp add: paging_map_page_def open_table_def alloc_page_table_def Let_def)
  ultimately show ?thesis
    using False lt by (simp add: set_pte_def open_table_def alloc_page_table_def Let_def)
qed

lemma open_table_fresh:
  fixes f :: u32
  assumes inv: "paging_inv s" and absent: "\<not> pde_present (dir_entries s (PAGE_DIR_INDEX v))"
    and room: "unat (next_table_index s) < 256"
  defines "o' \<equiv> open_table v f s"
  shows "next_table_index o' = next_table_index s + 1"
    and "page_tables_addr o' = page_tables_addr s" and "kernel_directory o' = kernel_directory s"
    and "pde_present (dir_entries o' d) \<longleftrightarrow> d = PAGE_DIR_INDEX v \<or> pde_present (dir_entries s d)"
    and "dir_table o' d = (if d = PAGE_DIR_INDEX v then unat (next_table_index s) else dir_table s d)"
    and "slot \<noteq> unat (next_table_index s) \<Longrightarrow> page_tables o' slot = page_tables s slot"
    and "j < 1024 \<Longrightarrow> \<not> pte_present (page_tables o' (unat (next_table_index s)) j)"
proof -
  from room have lt: "\<not> 256 \<le> next_table_index s" by (simp add: word_le_nat_alt)
  note expand = o'_def open_table_def alloc_page_table_def Let_def
  show "next_table_index o' = next_table_index s + 1" "page_tables_addr o' = page_tables_addr s"
    "kernel_directory o' = kernel_directory s"
    "pde_present (dir_entries o' d) \<longleftrightarrow> d = PAGE_DIR_INDEX v \<or> pde_present (dir_entries s d)"
    "slot \<noteq> unat (next_table_index s) \<Longrightarrow> page_tables o' slot = page_tables s slot"
    "j < 1024 \<Longrightarrow> \<not> pte_present (page_tables o' (unat (next_table_index s)) j)"
    using absent lt by (simp_all add: expand)
  have "table_slot o' a = table_slot s a" for a
    using absent lt by (simp add: expand table_slot_def)
  then show "dir_table o' d = (if d = PAGE_DIR_INDEX v then unat (next_table_index s) else dir_table s d)"
    using absent lt table_slot_frame [OF inv room] by (simp add: dir_table_def expand table_slot_def)
qed

lemma open_table_inv:
  assumes inv: "paging_inv s" and ok: "can_map s v"
  shows "paging_inv (open_table v f s)"
proof (cases "pde_present (dir_entries s (PAGE_DIR_INDEX v))")
  case True
  with inv show ?thesis by (simp add: open_table_def)
next
  case False
  with ok have room: "unat (next_table_index s) < 256" by (simp add: can_map_def)
  note fresh = open_table_fresh [where f = f, OF inv False room]
  let ?o = "open_table v f s" and ?n = "unat (next_table_index s)"
  have next': "unat (next_table_index ?o) = Suc ?n"
    using room by (simp add: fresh(1) unat_plus32)
  have old: "dir_table s d < ?n" if "d \<in> present_dirs s" for d
    using inv that by (simp add: paging_inv_def)
  have P: "present_dirs ?o = insert (PAGE_DIR_INDEX v) (present_dirs s)"
    using PAGE_DIR_INDEX_less [of v] by (auto simp: fresh(4))
  have "inj_on (dir_table ?o) (present_dirs ?o)"
  proof (rule inj_onI)
    fix d e
    assume d: "d \<in> present_dirs ?o" and e: "e \<in> present_dirs ?o" and eq: "dir_table ?o d = dir_table ?o e"
    show "d = e"
    proof (cases "d = PAGE_DIR_INDEX v \<or> e = PAGE_DIR_INDEX v")
      case True
      with d e eq old P show ?thesis by (force simp: fresh(5) split: if_splits)
    next
      case False
      with d e eq P inv show ?thesis
        by (auto simp: fresh(5) paging_inv_def dest: inj_onD)
    qed
  qed
  moreover have "\<forall>d \<in> present_dirs ?o. dir_table ?o d < unat (next_table_index ?o)"
    unfolding P next' using old by (auto simp: fresh(5) less_SucI)
  ultimately show ?thesis
    using inv room by (simp add: paging_inv_def fresh(2) next')
qed

lemma open_table_translate:
  assumes inv: "paging_inv s" and ok: "can_map s v"
  shows "translate (open_table v f s) w = translate s w"
proof (cases "pde_present (dir_entries s (PAGE_DIR_INDEX v))")
  case True
  then show ?thesis by (simp add: open_table_def)
next
  case False
  with ok have room: "unat (next_table_index s) < 256" by (simp add: can_map_def)
  note fresh = open_table_fresh [where f = f, OF inv False room]
  show ?thesis
  proof (cases "pde_present (dir_entries s (PAGE_DIR_INDEX w))")
    case True
    with False have ne: "PAGE_DIR_INDEX w \<noteq> PAGE_DIR_INDEX v" by auto
    have "dir_table s (PAGE_DIR_INDEX w) < unat (next_table_index s)"
      using inv True PAGE_DIR_INDEX_less [of w] by (simp add: paging_inv_def)
    then show ?thesis using True ne by (simp add: translate_def fresh(4,5,6))
  next
    case False
    then show ?thesis
      using PAGE_TABLE_INDEX_less [of w] fresh(7) by (simp add: translate_def fresh(4,5) Let_def)
  qed
qed

lemma open_table_present:
  assumes "paging_inv s" and "can_map s v"
  shows "pde_present (dir_entries (open_table v f s) d) \<longleftrightarrow> d = PAGE_DIR_INDEX v \<or> pde_present (dir_entries s d)"
proof (cases "pde_present (dir_entries s (PAGE_DIR_INDEX v))")
  case True
  then show ?thesis by (auto simp: open_table_def)
next
  case False
  with assms show ?thesis by (intro open_table_fresh(4)) (auto simp: can_map_def)
qed

lemma paging_inv_set_pte: "paging_inv (set_pte t i p f s) \<longleftrightarrow> paging_inv s"
  by (simp add: paging_inv_def frame_simps)

lemma paging_map_page_inv [inv_intros]:
  "paging_inv s \<Longrightarrow> can_map s v \<Longrightarrow> paging_inv (paging_map_page v p f s)"
  by (simp add: map_page_open paging_inv_set_pte open_table_inv)

lemma paging_map_page_full:
  "\<not> can_map s v \<Longrightarrow> paging_map_page v p f s = s"
  by (simp add: paging_map_page_def can_map_def alloc_page_table_def word_le_nat_alt)

lemma paging_map_page_present:
  "paging_inv s \<Longrightarrow> can_map s v \<Longrightarrow> pde_present (dir_entries (paging_map_page v p f s) d)
     \<longleftrightarrow> d = PAGE_DIR_INDEX v \<or> pde_present (dir_entries s d)"
  by (simp add: map_page_open open_table_present frame_simps)

lemma dir_table_inj:
  assumes "paging_inv s" "pde_present (dir_entries s (PAGE_DIR_INDEX v))"
    "pde_present (dir_entries s (PAGE_DIR_INDEX w))"
  shows "dir_table s (PAGE_DIR_INDEX v) = dir_table s (PAGE_DIR_INDEX w)
    \<longleftrightarrow> PAGE_DIR_INDEX v = PAGE_DIR_INDEX w"
  by (rule inj_on_eq_iff [of "dir_table s" "present_dirs s"])
    (use assms PAGE_DIR_INDEX_less in \<open>simp_all add: paging_inv_def\<close>)

lemma paging_map_page_translate:
  assumes inv: "paging_inv s" and ok: "can_map s v"
  shows "translate (paging_map_page v p f s) w =
     (if page_of w = page_of v
      then if f AND PAGE_PRESENT \<noteq> 0 then Some ((p AND NOT 4095) OR (w AND 0xFFF)) else None
      else translate s w)"
proof -
  let ?o = "open_table v f s"
  let ?m = "paging_map_page v p f s"
  have inv': "paging_inv ?o" using assms by (rule open_table_inv)
  have pv: "pde_present (dir_entries ?o (PAGE_DIR_INDEX v))" using assms by (simp add: open_table_present)
  have m: "?m = set_pte (addr_of_frame (pde_frame (dir_entries ?o (PAGE_DIR_INDEX v)))) (PAGE_TABLE_INDEX v) p f ?o"
    using assms by (rule map_page_open)
  have tabs: "page_tables ?m slot j =
     (if slot = dir_table ?o (PAGE_DIR_INDEX v) \<and> j = PAGE_TABLE_INDEX v
      then (page_tables ?o slot j)\<lparr>pte_present := (f AND PAGE_PRESENT \<noteq> 0), pte_rw := (f AND PAGE_WRITE \<noteq> 0),
             pte_user := (f AND PAGE_USER \<noteq> 0), pte_frame := frame_of p\<rparr>
      else page_tables ?o slot j)" for slot j
    by (simp add: m page_tables_set_pte dir_table_def)
  have dirs: "dir_entries ?m = dir_entries ?o" "dir_table ?m = dir_table ?o"
    by (simp_all add: m frame_simps)
  show ?thesis
  proof (cases "page_of w = page_of v")
    case True
    then have "PAGE_DIR_INDEX w = PAGE_DIR_INDEX v" "PAGE_TABLE_INDEX w = PAGE_TABLE_INDEX v"
      using same_page_iff [of w v] by auto
    then show ?thesis
      using pv True by (simp add: translate_def dirs tabs addr_of_frame_of)
  next
    case False
    have "translate ?m w = translate ?o w"
    proof (cases "pde_present (dir_entries ?o (PAGE_DIR_INDEX w))")
      case True
      have "\<not> (dir_table ?o (PAGE_DIR_INDEX w) = dir_table ?o (PAGE_DIR_INDEX v) \<and> PAGE_TABLE_INDEX w = PAGE_TABLE_INDEX v)"
        using dir_table_inj [OF inv' True pv] False same_page_iff [of w v] by blast
      then have "page_tables ?m (dir_table ?o (PAGE_DIR_INDEX w)) (PAGE_TABLE_INDEX w)
          = page_tables ?o (dir_table ?o (PAGE_DIR_INDEX w)) (PAGE_TABLE_INDEX w)"
        unfolding tabs by (rule if_not_P)
      then show ?thesis by (simp add: translate_def dirs)
    qed (simp add: translate_def dirs)
    with False show ?thesis using open_table_translate [OF assms] by simp
  qed
qed

lemma paging_unmap_page_facts:
  assumes "paging_inv s"
  shows "paging_inv (paging_unmap_page v s)"
    and "translate (paging_unmap_page v s) w = (if page_of w = page_of v then None else translate s w)"
proof -
  let ?u = "paging_unmap_page v s"
  have dirs: "dir_entries ?u = dir_entries s" "dir_table ?u = dir_table s"
    "next_table_index ?u = next_table_index s" "page_tables_addr ?u = page_tables_addr s"
    by (simp_all add: paging_unmap_page_def Let_def dir_table_def table_slot_def fun_eq_iff)
  then show "paging_inv ?u" using assms by (simp add: paging_inv_def)
  show "translate ?u w = (if page_of w = page_of v then None else translate s w)"
  proof (cases "pde_present (dir_entries s (PAGE_DIR_INDEX v))")
    case False
    then have "?u = s" by (simp add: paging_unmap_page_def)
    moreover have "translate s w = None" if "page_of w = page_of v"
      using that False same_page_iff [of w v] by (auto simp: translate_def)
    ultimately show ?thesis by simp
  next
    case pv: True
    have tabs: "page_tables ?u slot j =
       (if slot = dir_table s (PAGE_DIR_INDEX v) \<and> j = PAGE_TABLE_INDEX v
        then (page_tables s slot j)\<lparr>pte_present := False\<rparr> else page_tables s slot j)" for slot j
      using pv by (simp add: paging_unmap_page_def Let_def dir_table_def)
    show ?thesis
    proof (cases "page_of w = page_of v")
      case True
      then have "PAGE_DIR_INDEX w = PAGE_DIR_INDEX v" "PAGE_TABLE_INDEX w = PAGE_TABLE_INDEX v"
        using same_page_iff [of w v] by auto
      with True show ?thesis by (simp add: translate_def dirs tabs)
    next
      case ne: False
      show ?thesis
      proof (cases "pde_present (dir_entries s (PAGE_DIR_INDEX w))")
        case True
        have "\<not> (dir_table s (PAGE_DIR_INDEX w) = dir_table s (PAGE_DIR_INDEX v) \<and> PAGE_TABLE_INDEX w = PAGE_TABLE_INDEX v)"
          using dir_table_inj [OF assms True pv] ne same_page_iff [of w v] by blast
        then have "page_tables ?u (dir_table s (PAGE_DIR_INDEX w)) (PAGE_TABLE_INDEX w)
            = page_tables s (dir_table s (PAGE_DIR_INDEX w)) (PAGE_TABLE_INDEX w)"
          unfolding tabs by (rule if_not_P)
        with ne show ?thesis by (simp add: translate_def dirs)
      qed (simp add: translate_def dirs ne)
    qed
  qed
qed

section \<open>The identity map of the first 16 MiB\<close>

text \<open>What holds when the loop of \<open>paging_init\<close> is about to map the page at \<open>i\<close>.\<close>

definition identity_upto :: "nat \<Rightarrow> paging \<Rightarrow> bool" where
  "identity_upto i s \<longleftrightarrow> paging_inv s \<and> present_dirs s \<subseteq> {..<4}
     \<and> unat (next_table_index s) = card (present_dirs s)
     \<and> (\<forall>w. translate s w = (if unat w < i then Some w else None))"

lemma can_map_low:
  assumes "identity_upto i s"
  shows "can_map s v"
proof -
  have "card (present_dirs s) \<le> card {..<4 :: nat}"
    using assms by (intro card_mono) (auto simp: identity_upto_def)
  with assms show ?thesis by (simp add: can_map_def identity_upto_def)
qed

lemma next_after_map:
  assumes "paging_inv s" and "can_map s v" and "unat (next_table_index s) = card (present_dirs s)"
  shows "unat (next_table_index (paging_map_page v p f s)) = card (present_dirs (paging_map_page v p f s))"
proof -
  let ?m = "paging_map_page v p f s"
  have P: "present_dirs ?m = insert (PAGE_DIR_INDEX v) (present_dirs s)"
    using PAGE_DIR_INDEX_less [of v] by (auto simp: paging_map_page_present [OF assms(1,2)])
  have n: "next_table_index ?m = next_table_index (open_table v f s)"
    by (simp add: map_page_open [OF assms(1,2)] frame_simps)
  show ?thesis
  proof (cases "pde_present (dir_entries s (PAGE_DIR_INDEX v))")
    case True
    then have "present_dirs ?m = present_dirs s" using P PAGE_DIR_INDEX_less [of v] by auto
    with True assms(3) n show ?thesis by (simp add: open_table_def)
  next
    case False
    with assms(2) have room: "unat (next_table_index s) < 256" by (simp add: can_map_def)
    have "finite (present_dirs s)" by (rule finite_subset [of _ "{..<1024}"]) auto
    with False room assms(3) show ?thesis
      unfolding P n open_table_fresh(1) [OF assms(1) False room] by (simp add: unat_plus32)
  qed
qed

lemma page_step:
  assumes "unat i mod 4096 = 0"
  shows "page_of w = page_of i \<longleftrightarrow> unat i \<le> unat w \<and> unat w < unat i + 4096"
proof -
  define c q r where "c = page_of i" and "q = page_of w" and "r = unat w mod 4096"
  have i: "unat i = c * 4096" using assms unfolding c_def page_of_def
    by (metis add.right_neutral div_mult_mod_eq)
  have w: "unat w = q * 4096 + r" and r: "r < 4096"
    unfolding q_def r_def page_of_def by (simp_all add: div_mult_mod_eq)
  show ?thesis
    unfolding c_def [symmetric] q_def [symmetric] i w using r
    by (cases q c rule: linorder_cases) linarith+
qed

lemma identity_step:
  assumes id: "identity_upto (unat i) s" and i: "unat i mod 4096 = 0" "unat i < 16777216"
  shows "identity_upto (unat i + 4096) (paging_map_page i i (PAGE_PRESENT OR PAGE_WRITE) s)"
proof -
  let ?m = "paging_map_page i i (PAGE_PRESENT OR PAGE_WRITE) s"
  from id have inv: "paging_inv s" and pd: "present_dirs s \<subseteq> {..<4}"
    and tr: "\<And>w. translate s w = (if unat w < unat i then Some w else None)"
    and nx: "unat (next_table_index s) = card (present_dirs s)"
    by (simp_all add: identity_upto_def)
  have ok: "can_map s i" using id by (rule can_map_low)
  have "PAGE_DIR_INDEX i < 4" using i(2) by (simp add: PAGE_DIR_INDEX_nat less_mult_imp_div_less)
  with pd have "present_dirs ?m \<subseteq> {..<4}"
    by (auto simp: paging_map_page_present [OF inv ok])
  moreover have "translate ?m w = (if unat w < unat i + 4096 then Some w else None)" for w
  proof (cases "page_of w = page_of i")
    case True
    then have "i AND NOT 4095 = w AND NOT 4095"
      by (intro word_unat_eq_iff [THEN iffD2]) (simp only: page_align_unat page_of_def)
    moreover have "unat w < unat i + 4096" using True page_step [OF i(1)] by simp
    moreover have "(PAGE_PRESENT OR PAGE_WRITE) AND PAGE_PRESENT \<noteq> 0"
      by (simp add: PAGE_PRESENT_def PAGE_WRITE_def)
    ultimately show ?thesis
      using True page_offset_restore [of w] by (simp add: paging_map_page_translate [OF inv ok])
  next
    case False
    then show ?thesis using page_step [OF i(1), of w]
      by (auto simp: paging_map_page_translate [OF inv ok] tr)
  qed
  ultimately show ?thesis
    unfolding identity_upto_def
    using paging_map_page_inv [OF inv ok] next_after_map [OF inv ok nx] by blast
qed

lemma identity_loop:
  "identity_upto (unat i) s \<Longrightarrow> unat i mod 4096 = 0 \<Longrightarrow> unat i \<le> 16777216 \<Longrightarrow>
     identity_upto 16777216 (paging_identity_map i s)"
proof (induction i s rule: paging_identity_map.induct)
  case (1 i s)
  show ?case
  proof (cases "i < 0x1000000")
    case True
    then have lt: "unat i < 16777216" by (simp add: word_less_nat_alt)
    then have i': "unat (i + PAGE_SIZE) = unat i + 4096" by (subst unat_plus32) simp_all
    have "unat i + 4096 \<le> 16777216"
    proof -
      from "1.prems"(2) obtain c where "unat i = c * 4096" by (metis add.right_neutral div_mult_mod_eq)
      moreover from this lt have "c < 4096" by simp
      ultimately show ?thesis by linarith
    qed
    then have "identity_upto 16777216
        (paging_identity_map (i + PAGE_SIZE) (paging_map_page i i (PAGE_PRESENT OR PAGE_WRITE) s))"
      using identity_step [OF "1.prems"(1,2) lt] "1.prems"(2) by (intro "1.IH" [OF True]) (simp_all add: i')
    with True show ?thesis by (subst paging_identity_map.simps) simp
  next
    case False
    with "1.prems" have "unat i = 16777216" by (simp add: word_less_nat_alt)
    with False "1.prems"(1) show ?thesis by (subst paging_identity_map.simps) simp
  qed
qed

lemma identity_start:
  assumes "0 < unat (page_tables_addr s)" "unat (page_tables_addr s) mod 4096 = 0"
    and "unat (page_tables_addr s) + 256 * 4096 \<le> 4294967296" and "next_table_index s = 0"
  shows "identity_upto 0 (clear_directory s)"
proof -
  have none: "present_dirs (clear_directory s) = {}" by (auto simp: clear_directory_def)
  have "translate (clear_directory s) w = None" for w
    using PAGE_DIR_INDEX_less [of w] by (simp add: translate_def clear_directory_def)
  moreover have "paging_inv (clear_directory s)"
    using assms none by (simp add: paging_inv_def) (simp add: clear_directory_def)
  ultimately show ?thesis
    using assms(4) none by (simp add: identity_upto_def) (simp add: clear_directory_def)
qed

lemma boot_flags_frame [frame_simps]:
  fixes s :: paging and a e :: bool and b c :: ptr
  defines "t \<equiv> s\<lparr>page_fault_registered := a, current_directory := b, cr3_loaded := c, paging_enabled := e\<rparr>"
  shows "dir_table t = dir_table s" and "translate t = translate s" and "paging_inv t = paging_inv s"
proof -
  show dt: "dir_table t = dir_table s" by (simp add: t_def dir_table_def table_slot_def fun_eq_iff)
  show "translate t = translate s" "paging_inv t = paging_inv s"
    by (simp_all add: translate_def paging_inv_def dt fun_eq_iff) (simp_all add: t_def)
qed

lemma paging_init_identity:
  assumes "pmm_alloc_page p = (dir, p1)" and "dir \<noteq> 0"
    and "0 < unat (page_tables_addr s)" "unat (page_tables_addr s) mod 4096 = 0"
    and "unat (page_tables_addr s) + 256 * 4096 \<le> 4294967296" and "next_table_index s = 0"
  shows "identity_upto 16777216 (snd (paging_init p s))"
proof -
  let ?s1 = "s\<lparr>kernel_directory := dir\<rparr>"
  let ?s2 = "paging_identity_map 0 (clear_directory ?s1)"
  have "identity_upto 16777216 ?s2"
    by (rule identity_loop) (use assms identity_start [of ?s1] in simp_all)
  then have "identity_upto 16777216 (?s2\<lparr>page_fault_registered := True, current_directory := dir,
      cr3_loaded := dir, paging_enabled := True\<rparr>)"
    by (simp add: identity_upto_def frame_simps)
  then show ?thesis using assms(1,2) by (simp add: paging_init_def Let_def)
qed

section \<open>Properties\<close>

definition paging_zero :: paging where
  "paging_zero = \<lparr>kernel_directory = 0, current_directory = 0,
     dir_entries = (\<lambda>_. \<lparr>pde_present = False, pde_rw = False, pde_user = False, pde_pwt = False,
        pde_pcd = False, pde_accessed = False, pde_reserved = False, pde_page_size = False,
        pde_global = False, pde_available = 0, pde_frame = 0\<rparr>),
     page_tables_addr = 0x110000,
     page_tables = (\<lambda>_ _. \<lparr>pte_present = False, pte_rw = False, pte_user = False, pte_pwt = False,
        pte_pcd = False, pte_accessed = False, pte_dirty = False, pte_pat = False,
        pte_global = False, pte_available = 0, pte_frame = 0\<rparr>),
     next_table_index = 0, cr3_loaded = 0, paging_enabled = False, page_fault_registered = False,
     tlb_flushed = []\<rparr>"

definition paging_demo :: paging where
  "paging_demo = snd (paging_init pmm_demo paging_zero)"

lemma pmm_demo_alloc_pair: "pmm_alloc_page pmm_demo = (frame_ptr 320, snd (pmm_alloc_page pmm_demo))"
  by (rule prod_eqI) (simp_all add: pmm_demo_alloc)

lemma paging_demo_identity: "identity_upto 16777216 paging_demo"
  unfolding paging_demo_def
  by (rule paging_init_identity [OF pmm_demo_alloc_pair]) (simp_all add: frame_ptr_0_iff paging_zero_def)

lemma paging_demo_inv: "paging_inv paging_demo" "can_map paging_demo v"
  using paging_demo_identity can_map_low by (auto simp: identity_upto_def)

text \<open>
  Remark. \<open>paging_init\<close> identity-maps exactly the first 16 MiB: afterwards a virtual
  address below \<open>0x1000000\<close> translates to itself and every other address is unmapped, the
  four page tables used come from the pool, and the directory is loaded and current.
\<close>

theorem paging_init_identity_map:
  assumes "pmm_alloc_page p = (dir, p1)" and "dir \<noteq> 0"
    and "0 < unat (page_tables_addr s)" "unat (page_tables_addr s) mod 4096 = 0"
    and "unat (page_tables_addr s) + 256 * 4096 \<le> 4294967296" and "next_table_index s = 0"
  defines "t \<equiv> snd (paging_init p s)"
  shows "(\<forall>v. translate t v = (if unat v < 16777216 then Some v else None)) \<and> paging_inv t
     \<and> unat (next_table_index t) \<le> 4 \<and> cr3_loaded t = dir \<and> current_directory t = dir
     \<and> paging_enabled t \<and> page_fault_registered t"
proof -
  have id: "identity_upto 16777216 t"
    unfolding t_def by (rule paging_init_identity) (use assms in simp_all)
  have "card (present_dirs t) \<le> card {..<4 :: nat}"
    using id by (intro card_mono) (auto simp: identity_upto_def)
  with id assms(1,2) show ?thesis
    by (simp add: identity_upto_def) (simp add: t_def paging_init_def Let_def)
qed

theorem paging_init_identity_map_witness:
  "(\<forall>v. translate paging_demo v = (if unat v < 16777216 then Some v else None)) \<and> paging_inv paging_demo
     \<and> unat (next_table_index paging_demo) \<le> 4 \<and> cr3_loaded paging_demo = frame_ptr 320
     \<and> current_directory paging_demo = frame_ptr 320
     \<and> paging_enabled paging_demo \<and> page_fault_registered paging_demo"
  unfolding paging_demo_def
  by (rule paging_init_identity_map [OF pmm_demo_alloc_pair])
    (simp_all add: frame_ptr_0_iff paging_zero_def)

text \<open>
  Property C7. Mapping a page, when its directory entry exists or a table is left, makes
  every address of that page translate into the given frame at the same offset (or to
  nothing if the present flag is not given), changes no other translation, and keeps the
  invariant that every present directory entry owns a table of its own.
\<close>

theorem paging_map_page_correct:
  assumes "paging_inv s" and "can_map s v"
  shows "paging_inv (paging_map_page v p f s)
     \<and> (\<forall>w. translate (paging_map_page v p f s) w =
          (if page_of w = page_of v
           then if f AND PAGE_PRESENT \<noteq> 0 then Some ((p AND NOT 4095) OR (w AND 0xFFF)) else None
           else translate s w))"
  using paging_map_page_inv [OF assms] paging_map_page_translate [OF assms] by blast

theorem paging_map_page_correct_witness:
  "paging_inv (paging_map_page 0x40000000 0x800000 3 paging_demo)
     \<and> (\<forall>w. translate (paging_map_page 0x40000000 0x800000 3 paging_demo) w =
          (if page_of w = page_of 0x40000000
           then if (3 :: u32) AND PAGE_PRESENT \<noteq> 0 then Some ((0x800000 AND NOT 4095) OR (w AND 0xFFF)) else None
           else translate paging_demo w))"
  by (rule paging_map_page_correct [OF paging_demo_inv])

text \<open>
  Remark. When the pool of 256 page tables is used up and the directory entry is
  absent, \<open>paging_map_page\<close> reports nothing to its caller and changes nothing; the address
  stays unmapped.
\<close>

theorem paging_map_page_exhausted:
  "\<not> can_map s v \<Longrightarrow> paging_map_page v p f s = s \<and> paging_get_physical v (paging_map_page v p f s) = 0"
  by (simp add: paging_map_page_full paging_get_physical_def can_map_def)

theorem paging_map_page_exhausted_witness:
  "paging_map_page 0 0 3 (paging_zero\<lparr>next_table_index := 256\<rparr>) = paging_zero\<lparr>next_table_index := 256\<rparr>
   \<and> paging_get_physical 0 (paging_map_page 0 0 3 (paging_zero\<lparr>next_table_index := 256\<rparr>)) = 0"
  by (rule paging_map_page_exhausted) (simp add: can_map_def paging_zero_def)

text \<open>
  Property C8. Unmapping removes exactly one page from the translation and keeps the
  invariant; when a page that was unmapped is mapped, a page table being available, and then
  unmapped, every translation is as before.
\<close>

theorem paging_unmap_page_correct:
  assumes "paging_inv s"
  shows "paging_inv (paging_unmap_page v s)
     \<and> (\<forall>w. translate (paging_unmap_page v s) w = (if page_of w = page_of v then None else translate s w))
     \<and> (can_map s v \<longrightarrow> (\<forall>w. page_of w = page_of v \<longrightarrow> translate s w = None) \<longrightarrow>
          translate (paging_unmap_page v (paging_map_page v p f s)) = translate s)"
  using paging_unmap_page_facts [OF assms, of v]
    paging_unmap_page_facts(2) [OF paging_map_page_inv [OF assms], of v v p f]
    paging_map_page_translate [OF assms, of v p f]
  by (auto simp: fun_eq_iff)

theorem paging_unmap_page_correct_witness:
  "translate (paging_unmap_page 0x5000 paging_demo) 0x5FFC = None
     \<and> translate (paging_unmap_page 0x5000 paging_demo) 0x6000 = Some 0x6000
     \<and> translate (paging_unmap_page 0x40000000 (paging_map_page 0x40000000 0x800000 3 paging_demo))
         = translate paging_demo"
proof -
  have id: "translate paging_demo w = (if unat w < 16777216 then Some w else None)" for w
    using paging_demo_identity by (simp add: identity_upto_def)
  have "translate paging_demo w = None" if "page_of w = page_of 0x40000000" for w
    using that by (simp add: id page_of_def)
  then show ?thesis
    using paging_unmap_page_correct [OF paging_demo_inv(1), of "0x5000"]
      paging_unmap_page_correct [OF paging_demo_inv(1), of "0x40000000" "0x800000" 3] paging_demo_inv(2)
    by (simp add: id page_of_def)
qed

definition user_accessible :: "paging \<Rightarrow> u32 \<Rightarrow> bool" where
  "user_accessible s v \<longleftrightarrow> translate s v \<noteq> None \<and> pde_user (dir_entries s (PAGE_DIR_INDEX v))
     \<and> pte_user (page_tables s (dir_table s (PAGE_DIR_INDEX v)) (PAGE_TABLE_INDEX v))"

text \<open>
  Remark. The user bit of a directory entry is set only when its table is created: a
  later user mapping in the same 4 MiB region sets the user bit of the page-table entry and
  leaves the directory entry as it was, so after a kernel mapping the page stays
  inaccessible from user mode, where the processor requires both bits.
\<close>

theorem paging_map_user_ineffective:
  assumes "pde_present (dir_entries s (PAGE_DIR_INDEX v))"
    and "\<not> pde_user (dir_entries s (PAGE_DIR_INDEX v))"
  shows "\<not> user_accessible (paging_map_page v p (PAGE_PRESENT OR PAGE_WRITE OR PAGE_USER) s) v"
  using assms by (simp add: user_accessible_def paging_map_page_def Let_def frame_simps)

theorem paging_map_user_ineffective_witness:
  "\<not> user_accessible (paging_map_page 0x401000 0x9000 (PAGE_PRESENT OR PAGE_WRITE OR PAGE_USER)
       (paging_map_page 0x400000 0x400000 3 paging_zero)) 0x401000"
  by (rule paging_map_user_ineffective)
    (simp_all add: paging_map_page_def Let_def frame_simps alloc_page_table_def table_ptr_def paging_zero_def
      PAGE_USER_def PAGE_DIR_INDEX_nat)

lemma get_physical_identity:
  "identity_upto 16777216 s \<Longrightarrow> unat v < 16777216 \<Longrightarrow> paging_get_physical v s = v"
  by (simp add: paging_get_physical_translate identity_upto_def)

lemma present_identity:
  assumes "identity_upto 16777216 s" and "unat v < 16777216"
  shows "pde_present (dir_entries s (PAGE_DIR_INDEX v))"
proof -
  from assms have "translate s v = Some v" by (simp add: identity_upto_def)
  then show ?thesis by (simp add: translate_def split: if_splits)
qed

text \<open>
  Remark. \<open>paging_test\<close> run after \<open>paging_init\<close> passes its four checks, but it leaves
  its trial mapping in place: virtual page \<open>0x500000\<close>, which lies inside the kernel heap
  region \<open>0x400000..0x7FFFFF\<close>, now refers to frame \<open>0x800000\<close>, and so does \<open>0x800000\<close>.
\<close>

theorem paging_test_leaves_alias:
  assumes "identity_upto 16777216 s"
  shows "fst (paging_test mem s) = [True, True, True, True]
     \<and> translate (snd (snd (paging_test mem s))) 0x500000 = Some 0x800000
     \<and> translate (snd (snd (paging_test mem s))) 0x800000 = Some 0x800000"
proof -
  let ?s1 = "paging_map_page 0x500000 0x800000 (PAGE_PRESENT OR PAGE_WRITE) s"
  have inv: "paging_inv s" using assms by (simp add: identity_upto_def)
  note tr = paging_map_page_translate [OF inv can_map_low [OF assms], of "0x500000" "0x800000" "PAGE_PRESENT OR PAGE_WRITE"]
  have flag: "(PAGE_PRESENT OR PAGE_WRITE) AND PAGE_PRESENT \<noteq> 0"
    by (simp add: PAGE_PRESENT_def PAGE_WRITE_def)
  have "translate ?s1 0x500000 = Some 0x800000"
    by (subst tr) (use flag in simp)
  moreover have "translate ?s1 0x800000 = Some 0x800000"
    using assms by (simp add: tr page_of_def identity_upto_def)
  ultimately show ?thesis
    using get_physical_identity [OF assms, of "0x100000"] present_identity [OF assms, of "0x200000"]
    by (simp add: paging_test_def Let_def paging_get_physical_translate [of "0x500000"])
qed

theorem paging_test_leaves_alias_witness:
  "fst (paging_test (\<lambda>_. 0) paging_demo) = [True, True, True, True]
     \<and> translate (snd (snd (paging_test (\<lambda>_. 0) paging_demo))) 0x500000 = Some 0x800000
     \<and> translate (snd (snd (paging_test (\<lambda>_. 0) paging_demo))) 0x800000 = Some 0x800000"
  by (rule paging_test_leaves_alias [OF paging_demo_identity])

lemma map_page_keeps_page_size:
  "pde_page_size (dir_entries (paging_map_page v p f s) d) = pde_page_size (dir_entries s d)"
  by (simp add: paging_map_page_def Let_def frame_simps alloc_page_table_def)

lemma identity_map_keeps_page_size:
  "pde_page_size (dir_entries (paging_identity_map i s) d) = pde_page_size (dir_entries s d)"
  by (induction i s rule: paging_identity_map.induct)
    (subst paging_identity_map.simps, simp add: map_page_keeps_page_size)

text \<open>
  Remark. \<open>paging_init\<close> builds the directory in a frame it does not zero: the
  page-size bit of every directory entry after initialisation is whatever the memory held,
  and a set bit would make the processor read the entry as a 4 MiB page.
\<close>

theorem paging_init_keeps_stale_bits:
  "pde_page_size (dir_entries (snd (paging_init p s)) d) = pde_page_size (dir_entries s d)"
  by (simp add: paging_init_def Let_def identity_map_keeps_page_size clear_directory_def
      split: prod.splits)

end
