(* ===== verification/LibcString.thy ===== *)
theory LibcString
  imports Prelude
begin

text \<open>
  The string library, \<^verbatim>\<open>lib/libc/string.c\<close>, over a byte-addressed memory whose
  addresses wrap at 4 GiB. A scan for a terminator may run forever (memory without a zero
  byte), so the scanning loops are \<open>partial_function (option)\<close>; the counted loops are total.
  \<open>cstr m p s\<close> says that \<open>p\<close> points to the zero-terminated string \<open>s\<close>, \<open>in_range p n a\<close>
  that \<open>a\<close> is one of the \<open>n\<close> bytes from \<open>p\<close>.
\<close>

section \<open>Memory\<close>

type_synonym mem = "ptr \<Rightarrow> u8"

fun cstr :: "mem \<Rightarrow> ptr \<Rightarrow> u8 list \<Rightarrow> bool" where
  "cstr m p [] \<longleftrightarrow> m p = 0"
| "cstr m p (c # cs) \<longleftrightarrow> c \<noteq> 0 \<and> m p = c \<and> cstr m (p + 1) cs"

definition in_range :: "ptr \<Rightarrow> nat \<Rightarrow> ptr \<Rightarrow> bool" where
  "in_range p n a \<longleftrightarrow> unat (a - p) < n"

section \<open>Scanning\<close>

partial_function (option) strlen_loop :: "mem \<Rightarrow> ptr \<Rightarrow> u32 \<Rightarrow> u32 option" where
  "strlen_loop m str len =
     (if m (str + len) \<noteq> 0 then strlen_loop m str (len + 1) else Some len)"

definition strlen :: "mem \<Rightarrow> ptr \<Rightarrow> u32 option" where
  "strlen m str = strlen_loop m str 0"

partial_function (option) strcmp :: "mem \<Rightarrow> ptr \<Rightarrow> ptr \<Rightarrow> int option" where
  "strcmp m s1 s2 =
     (if m s1 \<noteq> 0 \<and> m s1 = m s2 then strcmp m (s1 + 1) (s2 + 1)
      else Some (uint (m s1) - uint (m s2)))"

partial_function (option) strchr :: "mem \<Rightarrow> ptr \<Rightarrow> int \<Rightarrow> ptr option" where
  "strchr m str c =
     (if m str \<noteq> 0
      then if m str = word_of_int c then Some str else strchr m (str + 1) c
      else Some 0)"

section \<open>Copying strings\<close>

partial_function (option) copy_string :: "mem \<Rightarrow> ptr \<Rightarrow> ptr \<Rightarrow> mem option" where
  "copy_string m dest src =
     (let c = m src; m1 = m(dest := c)
      in if c \<noteq> 0 then copy_string m1 (dest + 1) (src + 1) else Some m1)"

definition strcpy :: "ptr \<Rightarrow> ptr \<Rightarrow> mem \<Rightarrow> (ptr \<times> mem) option" where
  "strcpy dest src m = map_option (\<lambda>m'. (dest, m')) (copy_string m dest src)"

partial_function (option) find_end :: "mem \<Rightarrow> ptr \<Rightarrow> ptr option" where
  "find_end m dest = (if m dest \<noteq> 0 then find_end m (dest + 1) else Some dest)"

definition strcat :: "ptr \<Rightarrow> ptr \<Rightarrow> mem \<Rightarrow> (ptr \<times> mem) option" where
  "strcat dest src m =
     (case find_end m dest of None \<Rightarrow> None
      | Some e \<Rightarrow> map_option (\<lambda>m'. (dest, m')) (copy_string m e src))"

function strncpy_copy :: "ptr \<Rightarrow> ptr \<Rightarrow> u32 \<Rightarrow> u32 \<Rightarrow> mem \<Rightarrow> u32 \<times> mem" where
  "strncpy_copy dest src n i m =
     (if i < n \<and> m (src + i) \<noteq> 0
      then strncpy_copy dest src n (i + 1) (m(dest + i := m (src + i)))
      else (i, m))"
  by pat_completeness auto
termination
  by (relation "measure (\<lambda>(d, s, n, i, m). unat n - unat i)") (auto intro: loop_measure32)

function fill :: "ptr \<Rightarrow> u8 \<Rightarrow> u32 \<Rightarrow> u32 \<Rightarrow> mem \<Rightarrow> mem" where
  "fill p v n i m = (if i < n then fill p v n (i + 1) (m(p + i := v)) else m)"
  by pat_completeness auto
termination
  by (relation "measure (\<lambda>(p, v, n, i, m). unat n - unat i)") (auto intro: loop_measure32)

definition strncpy :: "ptr \<Rightarrow> ptr \<Rightarrow> u32 \<Rightarrow> mem \<Rightarrow> ptr \<times> mem" where
  "strncpy dest src n m =
     (let (i, m1) = strncpy_copy dest src n 0 m in (dest, fill dest 0 n i m1))"

section \<open>Blocks of bytes\<close>

function copy_up :: "ptr \<Rightarrow> ptr \<Rightarrow> u32 \<Rightarrow> u32 \<Rightarrow> mem \<Rightarrow> mem" where
  "copy_up d s n i m = (if i < n then copy_up d s n (i + 1) (m(d + i := m (s + i))) else m)"
  by pat_completeness auto
termination
  by (relation "measure (\<lambda>(d, s, n, i, m). unat n - unat i)") (auto intro: loop_measure32)

lemma unat_pred32: "(i :: u32) > 0 \<Longrightarrow> Suc (unat (i - 1)) = unat i"
  by (simp add: unat_minus32 word_less_nat_alt Suc_leI word_le_nat_alt)

function copy_down :: "ptr \<Rightarrow> ptr \<Rightarrow> u32 \<Rightarrow> mem \<Rightarrow> mem" where
  "copy_down d s i m =
     (if i > 0 then copy_down d s (i - 1) (m(d + (i - 1) := m (s + (i - 1)))) else m)"
  by pat_completeness auto
termination
  by (relation "measure (\<lambda>(d, s, i, m). unat i)") (auto dest: unat_pred32)

definition memcpy :: "ptr \<Rightarrow> ptr \<Rightarrow> u32 \<Rightarrow> mem \<Rightarrow> ptr \<times> mem" where
  "memcpy dest src n m = (dest, copy_up dest src n 0 m)"

definition memmove :: "ptr \<Rightarrow> ptr \<Rightarrow> u32 \<Rightarrow> mem \<Rightarrow> ptr \<times> mem" where
  "memmove dest src n m =
     (dest, if dest < src then copy_up dest src n 0 m else copy_down dest src n m)"

definition memset :: "ptr \<Rightarrow> int \<Rightarrow> u32 \<Rightarrow> mem \<Rightarrow> ptr \<times> mem" where
  "memset p v num m = (p, fill p (word_of_int v) num 0 m)"

function memcmp_from :: "mem \<Rightarrow> ptr \<Rightarrow> ptr \<Rightarrow> u32 \<Rightarrow> u32 \<Rightarrow> int" where
  "memcmp_from m p1 p2 num i =
     (if i < num
      then if m (p1 + i) \<noteq> m (p2 + i) then uint (m (p1 + i)) - uint (m (p2 + i))
           else memcmp_from m p1 p2 num (i + 1)
      else 0)"
  by pat_completeness auto
termination
  by (relation "measure (\<lambda>(m, p, q, n, i). unat n - unat i)") (auto intro: loop_measure32)

definition memcmp :: "mem \<Rightarrow> ptr \<Rightarrow> ptr \<Rightarrow> u32 \<Rightarrow> int" where
  "memcmp m p1 p2 num = memcmp_from m p1 p2 num 0"

declare strncpy_copy.simps [simp del] fill.simps [simp del] copy_up.simps [simp del]
  copy_down.simps [simp del] memcmp_from.simps [simp del]

section \<open>Strings in memory\<close>

lemma cstr_nth: "cstr m p s \<Longrightarrow> i < length s \<Longrightarrow> m (p + of_nat i) = s ! i \<and> s ! i \<noteq> 0"
proof (induction s arbitrary: p i)
  case (Cons c s)
  show ?case
  proof (cases i)
    case 0
    with Cons.prems show ?thesis by simp
  next
    case (Suc j)
    with Cons.prems have "cstr m (p + 1) s" "j < length s" by simp_all
    from Cons.IH [OF this] Suc show ?thesis by (simp add: add.assoc)
  qed
qed simp

lemma cstr_end: "cstr m p s \<Longrightarrow> m (p + of_nat (length s)) = 0"
  by (induction s arbitrary: p) (simp_all add: add.assoc [symmetric])

lemma cstr_length:
  assumes "cstr m p s"
  shows "length s < 4294967296"
proof (rule ccontr)
  assume a: "\<not> length s < 4294967296"
  define i where "i = length s - 4294967296"
  have l: "length s = i + 4294967296" "i < length s" using a by (simp_all add: i_def)
  have "(4294967296 :: u32) = 0" by simp
  then have "(of_nat (length s) :: u32) = of_nat i" unfolding l(1) of_nat_add by simp
  then have "m (p + of_nat i) = 0" using cstr_end [OF assms] by simp
  with cstr_nth [OF assms l(2)] show False by simp
qed

lemma cstr_cong:
  "cstr m p s \<Longrightarrow> (\<And>i. i \<le> length s \<Longrightarrow> m' (p + of_nat i) = m (p + of_nat i)) \<Longrightarrow> cstr m' p s"
proof (induction s arbitrary: p)
  case Nil
  from Nil.prems(2) [of 0] Nil.prems(1) show ?case by simp
next
  case (Cons c s)
  have "m' p = m p" using Cons.prems(2) [of 0] by simp
  moreover have "m' (p + 1 + of_nat i) = m (p + 1 + of_nat i)" if "i \<le> length s" for i
    using Cons.prems(2) [of "Suc i"] that by (simp add: add.assoc)
  ultimately show ?case using Cons by simp
qed

lemma cstr_unique: "cstr m p s \<Longrightarrow> cstr m p t \<Longrightarrow> s = t"
proof (induction s arbitrary: p t)
  case Nil
  then show ?case by (cases t) auto
next
  case (Cons c s)
  then show ?case by (cases t) auto
qed

lemma strlen_loop_cstr:
  "cstr m (str + len) s \<Longrightarrow> strlen_loop m str len = Some (len + of_nat (length s))"
proof (induction s arbitrary: len)
  case Nil
  then show ?case by (subst strlen_loop.simps) simp
next
  case (Cons c s)
  then have "strlen_loop m str (len + 1) = Some (len + 1 + of_nat (length s))"
    by (intro Cons.IH) (simp add: add.assoc)
  with Cons.prems show ?case by (subst strlen_loop.simps) (simp add: add.assoc)
qed

lemma strlen_cstr: "cstr m p s \<Longrightarrow> strlen m p = Some (of_nat (length s))"
  using strlen_loop_cstr [of m p 0 s] by (simp add: strlen_def)

lemma find_end_cstr: "cstr m p s \<Longrightarrow> find_end m p = Some (p + of_nat (length s))"
  by (induction s arbitrary: p) (subst find_end.simps, simp add: add.assoc)+

lemma strchr_cstr:
  "cstr m p s \<Longrightarrow> strchr m p c =
     Some (case find (\<lambda>i. s ! i = word_of_int c) [0..<length s] of
             None \<Rightarrow> 0 | Some i \<Rightarrow> p + of_nat i)"
proof (induction s arbitrary: p)
  case Nil
  then show ?case by (subst strchr.simps) simp
next
  case (Cons d s)
  have f: "find (\<lambda>i. (d # s) ! i = x) (map Suc xs) = map_option Suc (find (\<lambda>i. s ! i = x) xs)" for x xs
    by (induction xs) simp_all
  have u: "[0..<Suc (length s)] = 0 # map Suc [0..<length s]"
    by (simp add: map_Suc_upt upt_conv_Cons del: upt_Suc)
  show ?case
    using Cons.prems Cons.IH [of "p + 1"]
    by (subst strchr.simps) (auto simp: u f add.assoc simp del: upt_Suc split: option.splits)
qed

lemma uint_pos: "(x :: u8) \<noteq> 0 \<Longrightarrow> 0 < uint x"
  using uint_ge_0 [of x] by (metis order_le_imp_less_or_eq unsigned_eq_0_iff)

lemma strcmp_cstr:
  "cstr m p s \<Longrightarrow> cstr m q t \<Longrightarrow>
     \<exists>r. strcmp m p q = Some r \<and> (r = 0 \<longleftrightarrow> s = t) \<and> (r < 0 \<longleftrightarrow> ord_class.lexordp s t)"
proof (induction s arbitrary: p q t)
  case Nil
  then show ?case
    by (subst strcmp.simps) (cases t; auto simp: uint_pos uint_0_iff)
next
  case (Cons c s)
  show ?case
  proof (cases "m p = m q")
    case True
    with Cons.prems obtain t' where t: "t = c # t'" "cstr m (q + 1) t'"
      by (cases t) auto
    from Cons.IH [OF _ this(2)] Cons.prems True t show ?thesis
      by (subst strcmp.simps) simp
  next
    case False
    have "strcmp m p q = Some (uint (m p) - uint (m q))"
      using False by (subst strcmp.simps) simp
    moreover have "uint (m p) \<noteq> uint (m q)" using False by (simp add: word_uint_eq_iff)
    moreover from this have "uint (m p) < uint (m q) \<longleftrightarrow> ord_class.lexordp (c # s) t"
      using False Cons.prems by (cases t) (auto simp: word_less_def uint_0_iff intro: uint_pos)
    moreover have "c # s \<noteq> t" using False Cons.prems by auto
    ultimately show ?thesis using False by simp
  qed
qed

section \<open>Ranges\<close>

lemma in_range_iff: "in_range p n a \<longleftrightarrow> (\<exists>i. i < n \<and> i < 4294967296 \<and> a = p + of_nat i)"
proof
  assume "in_range p n a"
  then show "\<exists>i. i < n \<and> i < 4294967296 \<and> a = p + of_nat i"
    by (intro exI [of _ "unat (a - p)"]) (simp add: in_range_def unat_lt32)
qed (auto simp: in_range_def)

lemma in_rangeI: "i < n \<Longrightarrow> n \<le> 4294967296 \<Longrightarrow> in_range p n (p + of_nat i)"
  by (simp add: in_range_def)

lemma inc_le_iff: "(i :: u32) < n \<Longrightarrow> i + 1 \<le> x \<longleftrightarrow> i < x"
  by (simp add: word_le_nat_alt word_less_nat_alt unat_Suc32 Suc_le_eq)

lemma diff_eq_iff_offset: "a - d = (i :: u32) \<longleftrightarrow> a = d + i"
  by (auto simp: algebra_simps)

section \<open>Block operations\<close>

lemma fill_apply: "fill p v n i m a = (if i \<le> a - p \<and> a - p < n then v else m a)"
proof (induction p v n i m rule: fill.induct)
  case (1 p v n i m)
  show ?case
  proof (cases "i < n")
    case True
    then have "fill p v n i m a = fill p v n (i + 1) (m(p + i := v)) a"
      by (subst fill.simps) simp
    also have "\<dots> = (if i < a - p \<and> a - p < n then v else (m(p + i := v)) a)"
      by (simp only: "1.IH" [OF True] inc_le_iff [OF True])
    also have "\<dots> = (if i \<le> a - p \<and> a - p < n then v else m a)"
      using True by (auto simp: diff_eq_iff_offset [symmetric])
    finally show ?thesis .
  next
    case False
    then show ?thesis by (subst fill.simps) (auto simp: not_less dest: order_trans)
  qed
qed

text \<open>Copying upwards is right if no byte still to be read is overwritten before; same downwards.\<close>

lemma copy_up_apply:
  assumes "\<And>i j. i < j \<Longrightarrow> j < n \<Longrightarrow> d + i \<noteq> s + j"
  shows "copy_up d s n i m a = (if i \<le> a - d \<and> a - d < n then m (s + (a - d)) else m a)"
  using assms
proof (induction d s n i m rule: copy_up.induct)
  case (1 d s n i m)
  show ?case
  proof (cases "i < n")
    case True
    have safe: "i < a - d \<Longrightarrow> a - d < n \<Longrightarrow> s + (a - d) \<noteq> d + i"
      using "1.prems" [of i "a - d"] by auto
    have "copy_up d s n i m a = copy_up d s n (i + 1) (m(d + i := m (s + i))) a"
      using True by (subst copy_up.simps) simp
    also have "\<dots> = (if i < a - d \<and> a - d < n then (m(d + i := m (s + i))) (s + (a - d))
                    else (m(d + i := m (s + i))) a)"
      by (simp only: "1.IH" [OF True "1.prems"] inc_le_iff [OF True])
    also have "\<dots> = (if i \<le> a - d \<and> a - d < n then m (s + (a - d)) else m a)"
      using safe True by (auto simp: diff_eq_iff_offset [symmetric])
    finally show ?thesis .
  next
    case False
    then show ?thesis by (subst copy_up.simps) (auto simp: not_less dest: order_trans)
  qed
qed

lemma less_dec_iff: "(i :: u32) > 0 \<Longrightarrow> x < i \<longleftrightarrow> x < i - 1 \<or> x = i - 1"
  using unat_pred32 [of i] by (auto simp: word_less_nat_alt word_unat_eq_iff)

lemma copy_down_apply:
  assumes "\<And>j k. j < k \<Longrightarrow> k < i \<Longrightarrow> d + k \<noteq> s + j"
  shows "copy_down d s i m a = (if a - d < i then m (s + (a - d)) else m a)"
  using assms
proof (induction d s i m rule: copy_down.induct)
  case (1 d s i m)
  show ?case
  proof (cases "i > 0")
    case True
    let ?m = "m(d + (i - 1) := m (s + (i - 1)))"
    have prems: "j < k \<Longrightarrow> k < i - 1 \<Longrightarrow> d + k \<noteq> s + j" for j k
      using "1.prems" [of j k] less_dec_iff [OF True, of k] by blast
    have safe: "a - d < i - 1 \<Longrightarrow> s + (a - d) \<noteq> d + (i - 1)"
      using "1.prems" [of "a - d" "i - 1"] less_dec_iff [OF True, of "i - 1"] by auto
    have "copy_down d s i m a = copy_down d s (i - 1) ?m a"
      using True by (subst copy_down.simps) simp
    also have "\<dots> = (if a - d < i - 1 then ?m (s + (a - d)) else ?m a)"
      by (rule "1.IH" [OF True prems])
    also have "\<dots> = (if a - d < i then m (s + (a - d)) else m a)"
      using safe less_dec_iff [OF True, of "a - d"]
      by (auto simp: diff_eq_iff_offset [symmetric])
    finally show ?thesis .
  next
    case False
    then have "i = 0" by (simp add: word_greater_zero_iff)
    then show ?thesis by (subst copy_down.simps) simp
  qed
qed

lemma offset_no_wrap:
  assumes "unat p + unat n \<le> 4294967296" and "(i :: u32) < n"
  shows "unat (p + i) = unat p + unat i"
proof -
  from assms have "unat p + unat i < 4294967296" by (simp add: word_less_nat_alt)
  then show ?thesis by (rule unat_plus32)
qed

lemma memmove_apply:
  assumes "unat d + unat n \<le> 4294967296" and "unat s + unat n \<le> 4294967296"
  shows "snd (memmove d s n m) a = (if in_range d (unat n) a then m (s + (a - d)) else m a)"
proof -
  have eqD: "unat d + unat i = unat s + unat j" if "d + i = s + j" "i < n" "j < n" for i j
    using that offset_no_wrap [OF assms(1) that(2)] offset_no_wrap [OF assms(2) that(3)] by simp
  show ?thesis
  proof (cases "d < s")
    case True
    have "d + i \<noteq> s + j" if "i < j" "j < n" for i j
    proof
      assume "d + i = s + j"
      from eqD [OF this order.strict_trans [OF that] that(2)] True that(1)
      show False by (simp add: word_less_nat_alt)
    qed
    from copy_up_apply [where d = d and s = s and n = n and i = 0 and m = m and a = a, OF this] True
    show ?thesis
      by (simp add: memmove_def in_range_def word_less_nat_alt)
  next
    case False
    have "d + k \<noteq> s + j" if "j < k" "k < n" for j k
    proof
      assume "d + k = s + j"
      from eqD [OF this that(2) order.strict_trans [OF that]] False that(1)
      show False by (simp add: word_less_nat_alt)
    qed
    from copy_down_apply [where d = d and s = s and i = n and m = m and a = a, OF this] False
    show ?thesis
      by (simp add: memmove_def in_range_def word_less_nat_alt)
  qed
qed

lemma memcpy_apply:
  assumes "\<And>i j. i < j \<Longrightarrow> j < n \<Longrightarrow> d + i \<noteq> s + j"
  shows "snd (memcpy d s n m) a = (if in_range d (unat n) a then m (s + (a - d)) else m a)"
  using copy_up_apply [where d = d and s = s and n = n and i = 0 and m = m and a = a, OF assms]
  by (simp add: memcpy_def in_range_def word_less_nat_alt)

lemma memset_apply:
  "snd (memset p v n m) a = (if in_range p (unat n) a then word_of_int v else m a)"
  by (simp add: memset_def fill_apply in_range_def word_less_nat_alt)

lemma memcmp_from_zero:
  "memcmp_from m p q n i = 0 \<longleftrightarrow> (\<forall>j. i \<le> j \<and> j < n \<longrightarrow> m (p + j) = m (q + j))"
proof (induction m p q n i rule: memcmp_from.induct)
  case (1 m p q n i)
  show ?case
  proof (cases "i < n")
    case True
    have "memcmp_from m p q n i = 0 \<longleftrightarrow>
        m (p + i) = m (q + i) \<and> memcmp_from m p q n (i + 1) = 0"
      using True by (subst memcmp_from.simps) (simp add: word_uint_eq_iff)
    also have "\<dots> \<longleftrightarrow> m (p + i) = m (q + i) \<and> (\<forall>j. i < j \<and> j < n \<longrightarrow> m (p + j) = m (q + j))"
      using "1.IH" [OF True] True by (auto simp: inc_le_iff)
    also have "\<dots> \<longleftrightarrow> (\<forall>j. i \<le> j \<and> j < n \<longrightarrow> m (p + j) = m (q + j))"
      using True by (auto simp: order_le_less)
    finally show ?thesis .
  next
    case False
    then show ?thesis by (subst memcmp_from.simps) (auto simp: not_less dest: order_trans)
  qed
qed

section \<open>Copied strings\<close>

definition disjoint_ranges :: "ptr \<Rightarrow> nat \<Rightarrow> ptr \<Rightarrow> nat \<Rightarrow> bool" where
  "disjoint_ranges p k q n \<longleftrightarrow> (\<forall>i<k. \<forall>j<n. p + of_nat i \<noteq> q + of_nat j)"

lemma disjoint_rangesI:
  assumes "unat p + k \<le> unat q" and "unat q + n \<le> 4294967296"
  shows "disjoint_ranges p k q n" and "disjoint_ranges q n p k"
proof -
  have "p + of_nat i \<noteq> q + of_nat j" if "i < k" "j < n" for i j
  proof -
    have "unat (of_nat i :: u32) = i" "unat (of_nat j :: u32) = j"
      using assms that unat_lt32 [of q] by (simp_all del: of_nat_eq_0_iff)
    then have "unat (p + of_nat i) = unat p + i" "unat (q + of_nat j) = unat q + j"
      using assms that unat_plus32 [of p "of_nat i"] unat_plus32 [of q "of_nat j"] by simp_all
    with assms(1) that show ?thesis by auto
  qed
  then show "disjoint_ranges p k q n" "disjoint_ranges q n p k"
    unfolding disjoint_ranges_def by metis+
qed

lemma unat_max32: "unat (- 1 :: u32) = 4294967295"
  by (simp add: unsigned_minus_1_eq_mask mask_eq_exp_minus_1)

lemma in_range_Suc:
  assumes "n < 4294967296"
  shows "in_range p (Suc n) a \<longleftrightarrow> a = p \<or> in_range (p + 1) n a"
    and "a \<noteq> p \<Longrightarrow> unat (a - p) = Suc (unat (a - (p + 1)))"
proof -
  have s: "unat (a - p) = Suc (unat (a - (p + 1)))" if "a \<noteq> p"
  proof -
    have "a - p > 0" using that by (simp add: word_greater_zero_iff)
    from unat_pred32 [OF this] show ?thesis by (simp add: diff_diff_eq)
  qed
  then show "a \<noteq> p \<Longrightarrow> unat (a - p) = Suc (unat (a - (p + 1)))" .
  have "unat (p - (p + 1)) = 4294967295" by (simp add: unat_max32)
  then show "in_range p (Suc n) a \<longleftrightarrow> a = p \<or> in_range (p + 1) n a"
    using s by (cases "a = p") (auto simp: in_range_def)
qed

lemma cstrI:
  "(\<And>i. i < length s \<Longrightarrow> m (p + of_nat i) = s ! i) \<Longrightarrow> 0 \<notin> set s \<Longrightarrow>
     m (p + of_nat (length s)) = 0 \<Longrightarrow> cstr m p s"
proof (induction s arbitrary: p)
  case (Cons c s)
  have "m (p + 1 + of_nat i) = s ! i" if "i < length s" for i
    using Cons.prems(1) [of "Suc i"] that by (simp add: add.assoc)
  moreover have "m (p + 1 + of_nat (length s)) = 0" using Cons.prems(3) by (simp add: add.assoc)
  ultimately show ?case using Cons.IH [of "p + 1"] Cons.prems(1) [of 0] Cons.prems(2) by auto
qed simp

lemma cstr_no_zero: "cstr m p s \<Longrightarrow> 0 \<notin> set s"
  by (induction s arbitrary: p) auto

lemma copy_string_cstr:
  assumes "cstr m src s" and "disjoint_ranges dest (Suc (length s)) src (Suc (length s))"
  shows "\<exists>m'. copy_string m dest src = Some m' \<and>
     (\<forall>a. m' a = (if in_range dest (Suc (length s)) a then (s @ [0]) ! unat (a - dest) else m a))"
  using assms
proof (induction s arbitrary: m dest src)
  case Nil
  then show ?case
    by (subst copy_string.simps) (auto simp: in_range_def unat_eq_0)
next
  case (Cons c s)
  let ?m = "m(dest := c)"
  have sep: "dest + of_nat i \<noteq> src + of_nat j" if "i < Suc (Suc (length s))" "j < Suc (Suc (length s))"
    for i j using Cons.prems(2) that by (simp add: disjoint_ranges_def)
  have "cstr ?m (src + 1) s"
  proof (rule cstr_cong)
    show "cstr m (src + 1) s" using Cons.prems by simp
    show "?m (src + 1 + of_nat i) = m (src + 1 + of_nat i)" if "i \<le> length s" for i
      using sep [of 0 "Suc i"] that by (auto simp: add.assoc)
  qed
  moreover have "disjoint_ranges (dest + 1) (Suc (length s)) (src + 1) (Suc (length s))"
    unfolding disjoint_ranges_def
  proof (intro allI impI)
    fix i j assume "i < Suc (length s)" "j < Suc (length s)"
    then show "dest + 1 + of_nat i \<noteq> src + 1 + of_nat j"
      using sep [of "Suc i" "Suc j"] by (simp add: add.assoc)
  qed
  ultimately obtain m' where m': "copy_string ?m (dest + 1) (src + 1) = Some m'"
    "\<forall>a. m' a = (if in_range (dest + 1) (Suc (length s)) a
        then (s @ [0]) ! unat (a - (dest + 1)) else ?m a)"
    using Cons.IH by blast
  have "copy_string m dest src = Some m'"
    using Cons.prems m'(1) by (subst copy_string.simps) (simp add: Let_def)
  moreover have n: "Suc (length s) < 4294967296" using cstr_length [OF Cons.prems(1)] by simp
  have "m' a = (if in_range dest (Suc (length (c # s))) a then ((c # s) @ [0]) ! unat (a - dest)
      else m a)" for a
  proof (cases "a = dest")
    case True
    have "\<not> in_range (dest + 1) (Suc (length s)) dest" using n by (simp add: in_range_def unat_max32)
    then show ?thesis using True m'(2) by (simp add: in_range_def)
  next
    case False
    then show ?thesis
      using in_range_Suc(1) [OF n, of dest a] in_range_Suc(2) [OF n False] m'(2) by simp
  qed
  ultimately show ?case by blast
qed

lemma strncpy_copy_apply:
  assumes "i \<le> len" and "i \<le> n" and "m (src + len) = 0"
    and "\<And>y. y < len \<Longrightarrow> m (src + y) \<noteq> 0"
    and "\<And>x y. x < n \<Longrightarrow> y \<le> len \<Longrightarrow> dest + x \<noteq> src + y"
  shows "strncpy_copy dest src n i m =
     (min n len, \<lambda>a. if i \<le> a - dest \<and> a - dest < min n len then m (src + (a - dest)) else m a)"
  using assms
proof (induction dest src n i m rule: strncpy_copy.induct)
  case (1 dest src n i m)
  show ?case
  proof (cases "i < n \<and> m (src + i) \<noteq> 0")
    case True
    let ?m = "m(dest + i := m (src + i))"
    have il: "i < len" using True "1.prems"(1,3) by (metis order_le_less)
    have le: "i + 1 \<le> len" "i + 1 \<le> n" using il True inc_le_iff by blast+
    have same: "?m (src + y) = m (src + y)" if "y \<le> len" for y
      using "1.prems"(5) [of i y] True that by auto
    have "strncpy_copy dest src n i m = strncpy_copy dest src n (i + 1) ?m"
      using True by (subst strncpy_copy.simps) simp
    also have "\<dots> = (min n len, \<lambda>a. if i + 1 \<le> a - dest \<and> a - dest < min n len
                      then ?m (src + (a - dest)) else ?m a)"
      by (rule "1.IH" [OF True le])
        (use same "1.prems" in \<open>simp_all add: order.strict_implies_order del: fun_upd_apply\<close>)
    also have "\<dots> = (min n len, \<lambda>a. if i \<le> a - dest \<and> a - dest < min n len
                      then m (src + (a - dest)) else m a)"
    proof -
      have "(if i + 1 \<le> a - dest \<and> a - dest < min n len then ?m (src + (a - dest)) else ?m a)
          = (if i \<le> a - dest \<and> a - dest < min n len then m (src + (a - dest)) else m a)" for a
        using same [of "a - dest"] True il inc_le_iff [of i n "a - dest"]
        by (auto simp: diff_eq_iff_offset [symmetric] order_le_less)
      then show ?thesis by simp
    qed
    finally show ?thesis .
  next
    case False
    have "min n len = i"
    proof (cases "i < n")
      case True
      with False "1.prems"(1,4) have "i = len" by (metis order_le_less)
      with True show ?thesis by simp
    next
      case False
      with "1.prems"(1,2) show ?thesis by simp
    qed
    moreover have "strncpy_copy dest src n i m = (i, m)"
      using False by (subst strncpy_copy.simps) auto
    moreover have "\<not> (i \<le> a - dest \<and> a - dest < i)" for a by auto
    ultimately show ?thesis by (simp only: if_False)
  qed
qed

lemma strncpy_cstr:
  assumes s: "cstr m src s" and dis: "disjoint_ranges dest (unat n) src (Suc (length s))"
  shows "snd (strncpy dest src n m) a =
     (if in_range dest (unat n) a
      then if unat (a - dest) < length s then s ! unat (a - dest) else 0 else m a)"
proof -
  define len :: u32 where "len = of_nat (length s)"
  have ul: "unat len = length s" using cstr_length [OF s] by (simp add: len_def)
  have at: "m (src + y) = s ! unat y \<and> m (src + y) \<noteq> 0" if "y < len" for y
    using cstr_nth [OF s, of "unat y"] that by (simp add: word_less_nat_alt ul)
  have z: "m (src + len) = 0" using cstr_end [OF s] by (simp add: len_def)
  have nz: "m (src + y) \<noteq> 0" if "y < len" for y using at [OF that] by blast
  have ne: "dest + x \<noteq> src + y" if "x < n" "y \<le> len" for x y
  proof -
    from that have "unat x < unat n" "unat y < Suc (length s)"
      by (simp_all add: word_less_nat_alt word_le_nat_alt ul)
    with dis have "dest + of_nat (unat x) \<noteq> src + of_nat (unat y)"
      unfolding disjoint_ranges_def by blast
    then show ?thesis by simp
  qed
  note c = strncpy_copy_apply
    [where i = 0 and len = len and n = n and m = m and src = src and dest = dest, OF word_zero_le word_zero_le z nz ne]
  have "snd (strncpy dest src n m) a =
      (if a - dest < n then if a - dest < len then s ! unat (a - dest) else 0 else m a)"
    using at [of "a - dest"] by (auto simp: strncpy_def c fill_apply not_less min_le_iff_disj)
  then show ?thesis by (simp add: in_range_def word_less_nat_alt ul)
qed

section \<open>Properties\<close>

text \<open>A demonstration memory: "Zenix" at \<open>0x1000\<close>, "Zen" at \<open>0x2000\<close>.\<close>

definition zenix_text :: "u8 list" where
  "zenix_text = [0x5A, 0x65, 0x6E, 0x69, 0x78]"

definition mem_demo :: mem where
  "mem_demo = (\<lambda>a. 0)(0x1000 := 0x5A, 0x1001 := 0x65, 0x1002 := 0x6E, 0x1003 := 0x69, 0x1004 := 0x78,
     0x2000 := 0x5A, 0x2001 := 0x65, 0x2002 := 0x6E)"

lemma mem_demo_cstr: "cstr mem_demo 0x1000 zenix_text" "cstr mem_demo 0x2000 [0x5A, 0x65, 0x6E]"
  by (simp_all add: mem_demo_def zenix_text_def)

text \<open>
  Property C24. \<open>memmove\<close> copies \<open>n\<close> bytes correctly however the two areas overlap, as long as
  neither wraps around the address space: each destination byte gets the byte its source held
  before the call, nothing else changes, and the destination is returned.
\<close>

theorem memmove_correct:
  assumes "unat d + unat n \<le> 4294967296" and "unat s + unat n \<le> 4294967296"
  shows "fst (memmove d s n m) = d
     \<and> (\<forall>i<unat n. snd (memmove d s n m) (d + of_nat i) = m (s + of_nat i))
     \<and> (\<forall>a. \<not> in_range d (unat n) a \<longrightarrow> snd (memmove d s n m) a = m a)"
proof -
  have "in_range d (unat n) (d + of_nat i)" if "i < unat n" for i
    using that unat_lt32 [of n] by (intro in_rangeI) simp_all
  then show ?thesis by (simp add: memmove_apply [OF assms]) (simp add: memmove_def)
qed

theorem memmove_correct_witness:
  "snd (memmove 0x1002 0x1000 5 mem_demo) (0x1002 + of_nat 3) = mem_demo (0x1000 + of_nat 3)
     \<and> snd (memmove 0x1002 0x1000 5 mem_demo) 0x1001 = mem_demo 0x1001"
proof -
  have "unat (0x1002 :: u32) + unat (5 :: u32) \<le> 4294967296"
    "unat (0x1000 :: u32) + unat (5 :: u32) \<le> 4294967296" by simp_all
  note c = memmove_correct [OF this, of mem_demo]
  have "(3 :: nat) < unat (5 :: u32)" "\<not> in_range 0x1002 (unat (5 :: u32)) 0x1001"
    by (simp_all add: in_range_def unat_max32)
  with c show ?thesis by blast
qed

text \<open>
  Remark. \<open>strcmp\<close> on two strings returns, and its result is zero exactly for equal
  strings and negative exactly if the first precedes the second in the lexicographic order of
  their bytes read unsigned.
\<close>

theorem strcmp_correct:
  assumes "cstr m p s" and "cstr m q t"
  shows "\<exists>r. strcmp m p q = Some r \<and> (r = 0 \<longleftrightarrow> s = t) \<and> (r < 0 \<longleftrightarrow> ord_class.lexordp s t)"
  using assms by (rule strcmp_cstr)

theorem strcmp_correct_witness:
  "\<exists>r. strcmp mem_demo 0x2000 0x1000 = Some r \<and> r < 0"
  using strcmp_correct [OF mem_demo_cstr(2,1)] by (auto simp: zenix_text_def)

text \<open>
  Remark. \<open>strcpy\<close> between areas that do not overlap returns the destination, which then
  holds the source string, of the length \<open>strlen\<close> reports, and writes no byte behind the
  terminator.
\<close>

theorem strcpy_correct:
  assumes "cstr m src s" and "disjoint_ranges dest (Suc (length s)) src (Suc (length s))"
  shows "\<exists>m'. strcpy dest src m = Some (dest, m') \<and> cstr m' dest s
     \<and> strlen m' dest = Some (of_nat (length s)) \<and> cstr m' src s
     \<and> (\<forall>a. \<not> in_range dest (Suc (length s)) a \<longrightarrow> m' a = m a)"
proof -
  obtain m' where m': "copy_string m dest src = Some m'"
    "\<forall>a. m' a = (if in_range dest (Suc (length s)) a then (s @ [0]) ! unat (a - dest) else m a)"
    using copy_string_cstr [OF assms] by blast
  have n: "length s < 4294967296" by (rule cstr_length [OF assms(1)])
  have r: "in_range dest (Suc (length s)) (dest + of_nat i)" if "i \<le> length s" for i
    using that n by (intro in_rangeI) simp_all
  have at: "m' (dest + of_nat i) = (s @ [0]) ! i" if "i \<le> length s" for i
    using m'(2) r [OF that] that n by simp
  have c: "cstr m' dest s"
    by (rule cstrI) (use at cstr_no_zero [OF assms(1)] in \<open>simp_all add: nth_append\<close>)
  have "m' (src + of_nat i) = m (src + of_nat i)" if "i \<le> length s" for i
  proof -
    have "\<not> in_range dest (Suc (length s)) (src + of_nat i)"
      using assms(2) that unfolding in_range_iff disjoint_ranges_def by (metis less_Suc_eq_le)
    with m'(2) show ?thesis by simp
  qed
  then have "cstr m' src s" using assms(1) by (rule cstr_cong [rotated])
  with c m' show ?thesis by (simp add: strcpy_def strlen_cstr)
qed

theorem strcpy_correct_witness:
  "\<exists>m'. strcpy 0x3000 0x2000 mem_demo = Some (0x3000, m') \<and> cstr m' 0x3000 [0x5A, 0x65, 0x6E]"
proof -
  have "disjoint_ranges 0x3000 (Suc (length [0x5A, 0x65, 0x6E :: u8])) 0x2000 (Suc (length [0x5A, 0x65, 0x6E :: u8]))"
    by (rule disjoint_rangesI(2)) simp_all
  from strcpy_correct [OF mem_demo_cstr(2) this] show ?thesis by blast
qed

text \<open>
  Remark. \<open>strncpy\<close> writes exactly \<open>n\<close> bytes: the source string, cut at \<open>n\<close> or padded
  with zero bytes up to \<open>n\<close>; a source of \<open>n\<close> or more characters leaves no terminator.
\<close>

theorem strncpy_correct:
  assumes "cstr m src s" and "disjoint_ranges dest (unat n) src (Suc (length s))"
  shows "(\<forall>i<unat n. snd (strncpy dest src n m) (dest + of_nat i) = (if i < length s then s ! i else 0))
     \<and> (\<forall>a. \<not> in_range dest (unat n) a \<longrightarrow> snd (strncpy dest src n m) a = m a)"
proof -
  have "in_range dest (unat n) (dest + of_nat i)" "unat (of_nat i :: u32) = i" if "i < unat n" for i
    using that unat_lt32 [of n] by (auto intro: in_rangeI)
  then show ?thesis by (simp add: strncpy_cstr [OF assms])
qed

theorem strncpy_correct_witness:
  "snd (strncpy 0x3000 0x1000 4 mem_demo) (0x3000 + of_nat 3) = 0x69
     \<and> snd (strncpy 0x3000 0x1000 4 mem_demo) 0x3004 = mem_demo 0x3004"
proof -
  have "disjoint_ranges 0x3000 (unat (4 :: u32)) 0x1000 (Suc (length zenix_text))"
    by (rule disjoint_rangesI(2)) (simp_all add: zenix_text_def)
  note c = strncpy_correct [OF mem_demo_cstr(1) this]
  have "(3 :: nat) < unat (4 :: u32)" "\<not> in_range 0x3000 (unat (4 :: u32)) 0x3004"
    "(if 3 < length zenix_text then zenix_text ! 3 else 0) = 0x69"
    by (simp_all add: in_range_def zenix_text_def)
  with c show ?thesis by metis
qed

end
