(* ===== verification/Monitor.thy ===== *)
theory Monitor
  imports Prelude
begin

text \<open>
  The text-mode console, \<^verbatim>\<open>kernel/core/monitor.c\<close>: a video memory of 80 by 25 cells
  of 16 bits at \<open>0xB8000\<close>, a cursor, a colour attribute and a buffer of the first 100 lines
  scrolled out. \<open>video_memory\<close> is the array behind the pointer. Characters are bytes, of
  the signed type \<open>char\<close> where the code widens them. Abstractly the console is its 25 rows
  and the cursor.
\<close>

section \<open>State\<close>

record monitor =
  video_memory :: "nat \<Rightarrow> u16"
  cursor_x :: u8
  cursor_y :: u8
  attribute :: u8
  scrollback_buffer :: "nat \<Rightarrow> nat \<Rightarrow> u8"
  scrollback_count :: int
  scrollback_offset :: int

abbreviation SCROLLBACK_LINES :: int where
  "SCROLLBACK_LINES \<equiv> 100"

text \<open>\<open>(attribute << 8) | c\<close> stored in 16 bits: the signed \<open>char\<close> is extended first.\<close>

definition cell :: "u8 \<Rightarrow> u8 \<Rightarrow> u16" where
  "cell attr c = push_bit 8 (ucast attr) OR scast c"

definition blank :: "monitor \<Rightarrow> u16" where
  "blank s = cell (attribute s) 0x20"

definition cursor_index :: "monitor \<Rightarrow> nat" where
  "cursor_index s = unat (cursor_y s) * 80 + unat (cursor_x s)"

section \<open>Operations\<close>

definition clear_screen :: "monitor \<Rightarrow> monitor" where
  "clear_screen s =
     s\<lparr>video_memory := fold (\<lambda>i v. v(i := blank s)) [0..<80 * 25] (video_memory s),
       cursor_x := 0, cursor_y := 0, scrollback_count := 0, scrollback_offset := 0\<rparr>"

definition save_line_to_scrollback :: "monitor \<Rightarrow> monitor" where
  "save_line_to_scrollback s =
     (if scrollback_count s < SCROLLBACK_LINES
      then let k = nat (scrollback_count s);
               row = fold (\<lambda>i r. r(i := ucast (video_memory s i AND 0xFF))) [0..<80] (scrollback_buffer s k)
           in s\<lparr>scrollback_buffer := (scrollback_buffer s)(k := row),
                scrollback_count := scrollback_count s + 1\<rparr>
      else s)"

definition scroll :: "monitor \<Rightarrow> monitor" where
  "scroll s =
     (if cursor_y s \<ge> 25
      then let s1 = save_line_to_scrollback s;
               v1 = fold (\<lambda>i v. v(i := v (i + 80))) [0..<24 * 80] (video_memory s1);
               v2 = fold (\<lambda>i v. v(i := blank s1)) [24 * 80..<25 * 80] v1
           in s1\<lparr>video_memory := v2, cursor_y := 24\<rparr>
      else s)"

definition wrap_line :: "monitor \<Rightarrow> monitor" where
  "wrap_line s = (if cursor_x s \<ge> 80 then s\<lparr>cursor_x := 0, cursor_y := cursor_y s + 1\<rparr> else s)"

definition put_char :: "u8 \<Rightarrow> monitor \<Rightarrow> monitor" where
  "put_char c s =
     (if c = 0x0A then s\<lparr>cursor_x := 0, cursor_y := cursor_y s + 1\<rparr>
      else if c = 0x08
      then if cursor_x s > 0
           then let s1 = s\<lparr>cursor_x := cursor_x s - 1\<rparr>
                in s1\<lparr>video_memory := (video_memory s1)(cursor_index s1 := blank s1)\<rparr>
           else s
      else if c = 0x09 then s\<lparr>cursor_x := (cursor_x s + 4) AND NOT (4 - 1)\<rparr>
      else s\<lparr>video_memory := (video_memory s)(cursor_index s := cell (attribute s) c),
             cursor_x := cursor_x s + 1\<rparr>)"

definition print_char :: "u8 \<Rightarrow> monitor \<Rightarrow> monitor" where
  "print_char c s = scroll (wrap_line (put_char c s))"

fun print_string :: "u8 list \<Rightarrow> monitor \<Rightarrow> monitor" where
  "print_string [] s = s"
| "print_string (c # str) s = (if c = 0 then s else print_string str (print_char c s))"

text \<open>\<open>print_dec\<close> fills its 32-byte buffer from the last digit and prints it backwards.\<close>

function dec_buffer :: "u32 \<Rightarrow> u8 list" where
  "dec_buffer n = (if n > 0 then (0x30 + ucast (n mod 10)) # dec_buffer (n div 10) else [])"
  by pat_completeness auto
termination
  by (relation "measure unat") (simp_all add: unat_div word_greater_zero_iff unat_eq_0 unat_gt_0)

declare dec_buffer.simps [simp del]

definition print_dec :: "u32 \<Rightarrow> monitor \<Rightarrow> monitor" where
  "print_dec n s =
     (if n = 0 then print_char 0x30 s else fold print_char (rev (dec_buffer n)) s)"

definition hex_digits :: "u8 list" where
  "hex_digits = chars ''0123456789ABCDEF''"

definition print_hex :: "u32 \<Rightarrow> monitor \<Rightarrow> monitor" where
  "print_hex n s =
     fold (\<lambda>i. print_char (hex_digits ! unat (drop_bit i n AND 0xF))) [28, 24, 20, 16, 12, 8, 4, 0] s"

definition set_text_color :: "u8 \<Rightarrow> u8 \<Rightarrow> monitor \<Rightarrow> monitor" where
  "set_text_color foreground background s =
     s\<lparr>attribute := push_bit 4 background OR (foreground AND 0x0F)\<rparr>"

definition scroll_up :: "monitor \<Rightarrow> monitor" where
  "scroll_up s =
     (if scrollback_offset s < scrollback_count s
      then let s1 = s\<lparr>scrollback_offset := scrollback_offset s + 1\<rparr>;
               s2 = print_dec (word_of_int (scrollback_offset s1)) (print_string (chars ''[Scroll up - '') s1);
               s3 = print_string (chars ''/'') s2
           in print_string (chars '']'') (print_dec (word_of_int (scrollback_count s3)) s3)
      else s)"

definition scroll_down :: "monitor \<Rightarrow> monitor" where
  "scroll_down s =
     (if scrollback_offset s > 0
      then print_string (chars ''[Scroll down]'') (s\<lparr>scrollback_offset := scrollback_offset s - 1\<rparr>)
      else s)"

section \<open>Loops over the screen\<close>

declare upt_rec_numeral [simp del]

lemma fold_upd_const: "fold (\<lambda>i v. v(i := f i)) [a..<b] v = (\<lambda>i. if a \<le> i \<and> i < b then f i else v i)"
  by (induction b) (auto simp: fun_eq_iff less_Suc_eq)

lemma fold_shift: "fold (\<lambda>i v. v(i := v (i + k))) [0..<n] v = (\<lambda>i. if i < n then v (i + k) else v i)"
  if "k > 0" using that by (induction n) (auto simp: fun_eq_iff less_Suc_eq)

lemma scroll_video:
  "video_memory (scroll s) i =
     (if cursor_y s \<ge> 25
      then if i < 1920 then video_memory s (i + 80) else if i < 2000 then blank s else video_memory s i
      else video_memory s i)"
  by (simp add: scroll_def Let_def fold_upd_const fold_shift save_line_to_scrollback_def blank_def)

lemma scroll_frames [frame_simps]:
  "cursor_x (scroll s) = cursor_x s" "attribute (scroll s) = attribute s"
  "cursor_y (scroll s) = (if cursor_y s \<ge> 25 then 24 else cursor_y s)"
  "scrollback_offset (scroll s) = scrollback_offset s"
  by (simp_all add: scroll_def Let_def save_line_to_scrollback_def)

lemma scroll_count [frame_simps]:
  "scrollback_count (scroll s) =
     (if cursor_y s \<ge> 25 \<and> scrollback_count s < 100 then scrollback_count s + 1 else scrollback_count s)"
  by (simp add: scroll_def Let_def save_line_to_scrollback_def)

lemma scroll_buffer:
  "scrollback_buffer (scroll s) k i =
     (if cursor_y s \<ge> 25 \<and> scrollback_count s < 100 \<and> k = nat (scrollback_count s) \<and> i < 80
      then ucast (video_memory s i AND 0xFF) else scrollback_buffer s k i)"
  by (auto simp: scroll_def Let_def save_line_to_scrollback_def fold_upd_const)

lemma wrap_line_frames [frame_simps]:
  "video_memory (wrap_line s) = video_memory s" "attribute (wrap_line s) = attribute s"
  "scrollback_offset (wrap_line s) = scrollback_offset s"
  "scrollback_count (wrap_line s) = scrollback_count s"
  "scrollback_buffer (wrap_line s) = scrollback_buffer s"
  by (simp_all add: wrap_line_def)

lemma put_char_frames [frame_simps]:
  "attribute (put_char c s) = attribute s"
  "scrollback_offset (put_char c s) = scrollback_offset s"
  "scrollback_count (put_char c s) = scrollback_count s"
  "scrollback_buffer (put_char c s) = scrollback_buffer s"
  by (simp_all add: put_char_def Let_def)

section \<open>The console invariant\<close>

definition monitor_inv :: "monitor \<Rightarrow> bool" where
  "monitor_inv s \<longleftrightarrow> cursor_x s < 80 \<and> cursor_y s < 25
     \<and> 0 \<le> scrollback_offset s \<and> scrollback_offset s \<le> scrollback_count s \<and> scrollback_count s \<le> 100"

lemma unat_inc8: "unat (x :: u8) < 255 \<Longrightarrow> unat (x + 1) = Suc (unat x)"
  by (simp add: unat_word_ariths)

lemma tab_stop_unat:
  assumes "unat (x :: u8) < 80"
  shows "unat ((x + 4) AND NOT 3) = (unat x + 4) div 4 * 4"
proof -
  have "unat (x + 4) = unat x + 4" using assms by (simp add: unat_word_ariths)
  moreover have "(mask 2 :: u8) = 3" by (simp add: mask_eq_exp_minus_1)
  ultimately show ?thesis using and_not_mask_unat [of "x + 4" 2] by simp
qed

lemma cursor_index_less:
  assumes "cursor_x s < 80" and "cursor_y s < 25"
  shows "cursor_index s < 2000"
proof -
  from assms have "unat (cursor_x s) < 80" "unat (cursor_y s) < 25"
    by (simp_all add: word_less_nat_alt)
  then show ?thesis by (simp add: cursor_index_def)
qed

text \<open>After \<open>put_char\<close> and the line wrap the cursor is at most one row below the screen.\<close>

lemma put_wrap_cursor:
  assumes "cursor_x s < 80" and "cursor_y s < 25"
  shows "cursor_x (wrap_line (put_char c s)) < 80 \<and> unat (cursor_y (wrap_line (put_char c s))) \<le> 25"
proof -
  from assms have xy: "unat (cursor_x s) < 80" "unat (cursor_y s) < 25"
    by (simp_all add: word_less_nat_alt)
  have "unat (cursor_x s - 1) < 80" if "cursor_x s > 0"
  proof -
    from that have "unat (cursor_x s) > 0" by (simp add: word_less_nat_alt)
    then have "unat (cursor_x s - 1) = unat (cursor_x s) - 1"
      by (simp add: unat_sub word_le_nat_alt)
    with xy show ?thesis by simp
  qed
  then have "unat (cursor_x (put_char c s)) \<le> 80" "unat (cursor_y (put_char c s)) \<le> 24
      \<or> unat (cursor_y (put_char c s)) = 25 \<and> cursor_x (put_char c s) = 0"
    using xy tab_stop_unat [of "cursor_x s"] unat_inc8 [of "cursor_x s"] unat_inc8 [of "cursor_y s"]
    by (auto simp: put_char_def Let_def)
  moreover have "unat (cursor_y (put_char c s)) \<le> 24 \<Longrightarrow>
      unat (cursor_y (put_char c s) + 1) = Suc (unat (cursor_y (put_char c s)))"
    by (rule unat_inc8) simp
  ultimately show ?thesis
    by (auto simp: wrap_line_def word_less_nat_alt word_le_nat_alt)
qed

lemma monitor_inv_print_char [inv_intros]:
  assumes "monitor_inv s"
  shows "monitor_inv (print_char c s)"
proof -
  from assms have "cursor_x s < 80" "cursor_y s < 25" by (simp_all add: monitor_inv_def)
  note pw = put_wrap_cursor [OF this, of c]
  from assms pw show ?thesis
    by (auto simp: monitor_inv_def print_char_def frame_simps word_le_nat_alt word_less_nat_alt)
qed

lemma monitor_inv_fold [inv_intros]: "monitor_inv s \<Longrightarrow> monitor_inv (fold print_char cs s)"
  by (induction cs arbitrary: s) (simp_all add: inv_intros)

lemma monitor_inv_print_string [inv_intros]: "monitor_inv s \<Longrightarrow> monitor_inv (print_string cs s)"
  by (induction cs arbitrary: s) (simp_all add: inv_intros)

lemma monitor_inv_print_dec [inv_intros]: "monitor_inv s \<Longrightarrow> monitor_inv (print_dec n s)"
  by (simp add: print_dec_def inv_intros)

lemma print_hex_fold:
  "print_hex n s = fold print_char
     (List.map (\<lambda>i. hex_digits ! unat (drop_bit i n AND 0xF)) [28, 24, 20, 16, 12, 8, 4, 0]) s"
  by (simp add: print_hex_def)

lemma monitor_inv_print_hex [inv_intros]: "monitor_inv s \<Longrightarrow> monitor_inv (print_hex n s)"
  unfolding print_hex_fold by (rule inv_intros)

lemma monitor_inv_clear_screen [inv_intros]: "monitor_inv (clear_screen s)"
  by (simp add: monitor_inv_def clear_screen_def)

lemma monitor_inv_set_text_color [inv_intros]: "monitor_inv s \<Longrightarrow> monitor_inv (set_text_color f b s)"
  by (simp add: monitor_inv_def set_text_color_def)

lemma monitor_inv_scroll_up [inv_intros]: "monitor_inv s \<Longrightarrow> monitor_inv (scroll_up s)"
proof -
  assume "monitor_inv s"
  then have "scrollback_offset s < scrollback_count s \<Longrightarrow>
      monitor_inv (s\<lparr>scrollback_offset := scrollback_offset s + 1\<rparr>)" by (simp add: monitor_inv_def)
  with \<open>monitor_inv s\<close> show ?thesis by (simp add: scroll_up_def Let_def inv_intros)
qed

lemma monitor_inv_scroll_down [inv_intros]: "monitor_inv s \<Longrightarrow> monitor_inv (scroll_down s)"
proof -
  assume "monitor_inv s"
  then have "scrollback_offset s > 0 \<Longrightarrow>
      monitor_inv (s\<lparr>scrollback_offset := scrollback_offset s - 1\<rparr>)" by (simp add: monitor_inv_def)
  with \<open>monitor_inv s\<close> show ?thesis by (simp add: scroll_down_def inv_intros)
qed

text \<open>No character written reaches past the screen or the scrollback buffer.\<close>

definition monitor_frame :: "monitor \<Rightarrow> monitor \<Rightarrow> bool" where
  "monitor_frame s t \<longleftrightarrow> (\<forall>i\<ge>2000. video_memory t i = video_memory s i)
     \<and> (\<forall>k i. k \<ge> 100 \<or> i \<ge> 80 \<longrightarrow> scrollback_buffer t k i = scrollback_buffer s k i)"

lemma monitor_frame_refl: "monitor_frame s s"
  by (simp add: monitor_frame_def)

lemma monitor_frame_trans: "monitor_frame s t \<Longrightarrow> monitor_frame t u \<Longrightarrow> monitor_frame s u"
  by (simp add: monitor_frame_def)

lemma put_char_video:
  assumes "cursor_x s < 80" and "cursor_y s < 25" and "i \<ge> 2000"
  shows "video_memory (put_char c s) i = video_memory s i"
proof -
  have "cursor_index (s\<lparr>cursor_x := cursor_x s - 1\<rparr>) < 2000" if "cursor_x s > 0"
  proof (rule cursor_index_less)
    show "cursor_x (s\<lparr>cursor_x := cursor_x s - 1\<rparr>) < 80"
      using that assms(1) by (simp add: word_less_nat_alt unat_sub word_le_nat_alt)
    show "cursor_y (s\<lparr>cursor_x := cursor_x s - 1\<rparr>) < 25" using assms(2) by simp
  qed
  with assms cursor_index_less [OF assms(1,2)] show ?thesis
    by (auto simp: put_char_def Let_def)
qed

lemma print_char_frame:
  assumes "monitor_inv s"
  shows "monitor_frame s (print_char c s)"
proof -
  from assms have "cursor_x s < 80" "cursor_y s < 25" "scrollback_count s \<ge> 0"
    by (simp_all add: monitor_inv_def)
  then show ?thesis
    by (auto simp: monitor_frame_def print_char_def scroll_video scroll_buffer frame_simps
        put_char_video)
qed

lemma print_fold_frame: "monitor_inv s \<Longrightarrow> monitor_frame s (fold print_char cs s)"
proof (induction cs arbitrary: s)
  case (Cons c cs)
  from Cons.IH [OF monitor_inv_print_char [OF Cons.prems]] print_char_frame [OF Cons.prems]
  show ?case by (auto intro: monitor_frame_trans)
qed (simp add: monitor_frame_refl)

lemma print_string_fold: "print_string cs s = fold print_char (takeWhile (\<lambda>c. c \<noteq> 0) cs) s"
  by (induction cs arbitrary: s) simp_all

section \<open>Cells\<close>

lemma cell_attribute: "drop_bit 8 (cell attr c) = (if c < 0x80 then ucast attr else 0xFF)"
proof -
  have m: "(0xFF :: u16) = mask 8" by (simp add: mask_eq_exp_minus_1)
  have "c < 0x80 \<longleftrightarrow> \<not> bit c 7" by (simp add: bit7_iff not_le)
  moreover have "bit attr n \<Longrightarrow> n < 8" for n using bit_imp_le_length [of attr n] by simp
  ultimately show ?thesis unfolding m
    by (auto intro!: bit_word_eqI simp: cell_def bit_simps)
qed

lemma cell_char: "ucast (cell attr c AND 0xFF) = c"
proof -
  have m: "(0xFF :: u16) = mask 8" by (simp add: mask_eq_exp_minus_1)
  show ?thesis unfolding m
    by (auto intro!: bit_word_eqI simp: cell_def bit_simps)
qed

section \<open>Decimal output\<close>

definition dec_digits :: "u32 \<Rightarrow> u8 list" where
  "dec_digits n = (if n = 0 then [0x30] else rev (dec_buffer n))"

definition dec_value :: "u8 list \<Rightarrow> nat" where
  "dec_value ds = foldl (\<lambda>a d. 10 * a + (unat d - 48)) 0 ds"

lemma print_dec_digits: "print_dec n s = fold print_char (dec_digits n) s"
  by (simp add: print_dec_def dec_digits_def)

lemma dec_digit_unat: "unat (0x30 + ucast (n mod 10 :: u32) :: u8) = 48 + unat n mod 10"
proof -
  have "unat (ucast (n mod 10) :: u8) = unat n mod 10"
    by (simp add: unsigned_ucast_eq unat_mod take_bit_nat_eq_self)
  moreover have "unat (0x30 :: u8) = 48" by simp
  ultimately show ?thesis by (subst unat_word_ariths) simp
qed

lemma dec_buffer_value: "foldr (\<lambda>d a. 10 * a + (unat d - 48)) (dec_buffer n) 0 = unat n"
proof (induction n rule: dec_buffer.induct)
  case (1 n)
  show ?case
  proof (cases "n > 0")
    case True
    from "1.IH" [OF True] True show ?thesis
      by (subst dec_buffer.simps) (simp add: dec_digit_unat unat_div)
  next
    case False
    then show ?thesis by (subst dec_buffer.simps) (simp add: word_greater_zero_iff)
  qed
qed

lemma dec_buffer_digits: "d \<in> set (dec_buffer n) \<Longrightarrow> 48 \<le> unat d \<and> unat d \<le> 57"
proof (induction n rule: dec_buffer.induct)
  case (1 n)
  from "1.prems" have n: "n > 0" by (subst (asm) dec_buffer.simps) (simp split: if_splits)
  with "1.prems" have "d = 0x30 + ucast (n mod 10) \<or> d \<in> set (dec_buffer (n div 10))"
    by (subst (asm) dec_buffer.simps) simp
  then show ?case using "1.IH" [OF n] dec_digit_unat [of n] by auto
qed

lemma dec_buffer_length: "unat n < 10 ^ k \<Longrightarrow> length (dec_buffer n) \<le> k"
proof (induction k arbitrary: n)
  case 0
  then have "n = 0" by (simp add: unat_eq_0)
  then show ?case by (subst dec_buffer.simps) simp
next
  case (Suc k)
  then have "unat (n div 10) < 10 ^ k" by (simp add: unat_div less_mult_imp_div_less mult.commute)
  from Suc.IH [OF this] show ?case by (subst dec_buffer.simps) simp
qed

lemma dec_buffer_last: "n > 0 \<Longrightarrow> dec_buffer n \<noteq> [] \<and> last (dec_buffer n) \<noteq> 0x30"
proof (induction n rule: dec_buffer.induct)
  case (1 n)
  show ?case
  proof (cases "n div 10 > 0")
    case True
    with "1.IH" [OF "1.prems"] "1.prems" show ?thesis by (subst (1 2) dec_buffer.simps) simp
  next
    case False
    then have z: "n div 10 = 0" by (simp add: word_greater_zero_iff)
    have "unat n div 10 = unat (n div 10)" by (simp add: unat_div)
    with z have "unat n div 10 = 0" by simp
    then have "unat n mod 10 \<noteq> 0" using "1.prems" by (auto simp: unat_gt_0 word_greater_zero_iff)
    then have "unat (0x30 + ucast (n mod 10) :: u8) \<noteq> 48" by (simp add: dec_digit_unat)
    then have "(0x30 + ucast (n mod 10) :: u8) \<noteq> 0x30" by auto
    moreover have "dec_buffer (n div 10) = []" by (subst dec_buffer.simps) (simp add: z)
    ultimately show ?thesis using "1.prems" by (subst (1 2) dec_buffer.simps) simp
  qed
qed

section \<open>Hexadecimal output\<close>

definition hex_text :: "u32 \<Rightarrow> u8 list" where
  "hex_text n = List.map (\<lambda>i. hex_digits ! unat (drop_bit i n AND 0xF)) [28, 24, 20, 16, 12, 8, 4, 0]"

definition hex_digit_value :: "u8 \<Rightarrow> nat" where
  "hex_digit_value d = (if unat d < 65 then unat d - 48 else unat d - 55)"

definition hex_value :: "u8 list \<Rightarrow> nat" where
  "hex_value ds = foldl (\<lambda>a d. 16 * a + hex_digit_value d) 0 ds"

lemma hex_digits_list:
  "hex_digits = [48, 49, 50, 51, 52, 53, 54, 55, 56, 57, 65, 66, 67, 68, 69, 70]"
  by (simp add: hex_digits_def chars_def of_char_def)

lemma hex_digit_value_nth:
  assumes "k < 16"
  shows "hex_digit_value (hex_digits ! k) = k"
proof -
  have l: "length hex_digits = 16" by (simp add: hex_digits_list)
  have "List.map hex_digit_value hex_digits = [0..<16]"
    unfolding hex_digits_list hex_digit_value_def by code_simp
  then have "List.map hex_digit_value hex_digits ! k = [0..<16] ! k" by simp
  with assms l show ?thesis by simp
qed

lemma nibble_unat: "unat (drop_bit i n AND 0xF :: u32) = unat n div 2 ^ i mod 16"
proof -
  have m: "(0xF :: u32) = mask 4" by (simp add: mask_eq_exp_minus_1)
  have "unat (take_bit 4 (drop_bit i n)) = unat n div 2 ^ i mod 16"
    by (simp only: unsigned_take_bit_eq unsigned_drop_bit_eq)
      (simp add: take_bit_eq_mod drop_bit_eq_div unat_lt32)
  then show ?thesis by (simp only: m take_bit_eq_mask [symmetric])
qed

lemma nibbles_nat:
  assumes "x < 4294967296"
  shows "16 * (16 * (16 * (16 * (16 * (16 * (16 * (x div 268435456 mod 16) + x div 16777216 mod 16)
     + x div 1048576 mod 16) + x div 65536 mod 16) + x div 4096 mod 16) + x div 256 mod 16)
     + x div 16 mod 16) + x mod 16 = (x :: nat)"
proof -
  have step: "16 * (x div (k * 16)) + x div k mod 16 = x div k" for k
    by (simp add: div_mult2_eq)
  have "x div 268435456 < 16" using assms by (simp add: less_mult_imp_div_less)
  then have top: "x div 268435456 mod 16 = x div 268435456" by simp
  have "16 * (x div 268435456) + x div 16777216 mod 16 = x div 16777216" using step [of 16777216] by simp
  note h16777216 = this
  have "16 * (x div 16777216) + x div 1048576 mod 16 = x div 1048576" using step [of 1048576] by simp
  note h1048576 = this
  have "16 * (x div 1048576) + x div 65536 mod 16 = x div 65536" using step [of 65536] by simp
  note h65536 = this
  have "16 * (x div 65536) + x div 4096 mod 16 = x div 4096" using step [of 4096] by simp
  note h4096 = this
  have "16 * (x div 4096) + x div 256 mod 16 = x div 256" using step [of 256] by simp
  note h256 = this
  have "16 * (x div 256) + x div 16 mod 16 = x div 16" using step [of 16] by simp
  note h16 = this
  have "16 * (x div 16) + x mod 16 = x" by simp
  then show ?thesis by (simp only: top h16777216 h1048576 h65536 h4096 h256 h16)
qed

lemma hex_text_value: "hex_value (hex_text n) = unat n"
proof -
  have d: "hex_digit_value (hex_digits ! unat (drop_bit i n AND 0xF)) = unat n div 2 ^ i mod 16" for i
    unfolding nibble_unat by (rule hex_digit_value_nth) simp
  have "List.map hex_digit_value (hex_text n)
      = List.map (\<lambda>i. unat n div 2 ^ i mod 16) [28, 24, 20, 16, 12, 8, 4, 0]"
    unfolding hex_text_def map_map comp_def d ..
  moreover have "hex_value ds = foldl (\<lambda>a d. 16 * a + d) 0 (List.map hex_digit_value ds)" for ds
    by (simp add: hex_value_def foldl_map)
  ultimately show ?thesis using nibbles_nat [OF unat_lt32 [of n]] by simp
qed

section \<open>Printing within a line\<close>

definition plain :: "u8 \<Rightarrow> bool" where
  "plain c \<longleftrightarrow> 0x20 \<le> c \<and> c < 0x80"

lemma print_plain:
  assumes "monitor_inv s" and "plain c" and "unat (cursor_x s) < 79"
  shows "print_char c s = s\<lparr>video_memory := (video_memory s)(cursor_index s := cell (attribute s) c),
           cursor_x := cursor_x s + 1\<rparr>"
proof -
  from assms(2) have c: "c \<noteq> 0x0A" "c \<noteq> 0x08" "c \<noteq> 0x09"
    by (auto simp: plain_def)
  have "unat (cursor_x s + 1) < 80" using assms(3) by (simp add: unat_inc8)
  then have x: "\<not> 80 \<le> cursor_x s + 1" by (simp add: word_le_nat_alt)
  have y: "\<not> 25 \<le> cursor_y s" using assms(1) by (simp add: monitor_inv_def not_le)
  from c x y show ?thesis by (simp add: print_char_def put_char_def wrap_line_def scroll_def)
qed

lemma print_line:
  assumes "monitor_inv s" and "\<forall>c\<in>set cs. plain c" and "unat (cursor_x s) + length cs < 80"
  shows "let t = fold print_char cs s in
     unat (cursor_x t) = unat (cursor_x s) + length cs \<and> cursor_y t = cursor_y s
     \<and> attribute t = attribute s
     \<and> (\<forall>i. video_memory t i =
         (if cursor_index s \<le> i \<and> i < cursor_index s + length cs
          then cell (attribute s) (cs ! (i - cursor_index s)) else video_memory s i))"
  using assms
proof (induction cs arbitrary: s)
  case Nil
  then show ?case by auto
next
  case (Cons c cs)
  let ?t = "print_char c s"
  have p: "?t = s\<lparr>video_memory := (video_memory s)(cursor_index s := cell (attribute s) c),
      cursor_x := cursor_x s + 1\<rparr>"
    using Cons.prems by (intro print_plain) simp_all
  have x: "unat (cursor_x ?t) = Suc (unat (cursor_x s))" using Cons.prems by (simp add: p unat_inc8)
  have i: "cursor_index ?t = Suc (cursor_index s)" using x by (simp add: cursor_index_def p)
  have f: "cursor_y ?t = cursor_y s" "attribute ?t = attribute s"
    "video_memory ?t = (video_memory s)(cursor_index s := cell (attribute s) c)"
    by (simp_all add: p)
  have "unat (cursor_x ?t) + length cs < 80" using Cons.prems x by simp
  note ih = Cons.IH [OF monitor_inv_print_char [OF Cons.prems(1), of c] _ this, unfolded Let_def]
  have "video_memory (fold print_char cs ?t) j =
      (if cursor_index s \<le> j \<and> j < cursor_index s + length (c # cs)
       then cell (attribute s) ((c # cs) ! (j - cursor_index s)) else video_memory s j)" for j
    using ih Cons.prems(2) by (simp add: i f nth_Cons' not_less Suc_le_eq)
  with ih Cons.prems(2) show ?case by (simp add: x f)
qed

section \<open>Properties\<close>

definition monitor_demo :: monitor where
  "monitor_demo = \<lparr>video_memory = (\<lambda>_. 0x0F20), cursor_x = 0, cursor_y = 0, attribute = 0x0F,
     scrollback_buffer = (\<lambda>_ _. 0), scrollback_count = 0, scrollback_offset = 0\<rparr>"

lemma monitor_demo_inv: "monitor_inv monitor_demo" "monitor_inv (monitor_demo\<lparr>cursor_y := 24\<rparr>)"
  by (simp_all add: monitor_inv_def monitor_demo_def)

text \<open>
  Property C23. Printing any string, number or colour change from a state with the cursor on
  the screen keeps it there, keeps the scrollback counters within their bounds, and writes
  neither past the 2000 cells of the screen nor past the 100 rows of the scrollback buffer.
\<close>

theorem monitor_print_safe:
  assumes "monitor_inv s"
  shows "monitor_inv (print_string cs s) \<and> monitor_frame s (print_string cs s)
     \<and> monitor_inv (print_dec n s) \<and> monitor_frame s (print_dec n s)
     \<and> monitor_inv (print_hex n s) \<and> monitor_frame s (print_hex n s)
     \<and> monitor_inv (scroll_up s) \<and> monitor_inv (scroll_down s)"
  using assms
  by (simp add: inv_intros print_string_fold print_dec_digits print_hex_fold print_fold_frame
      del: list.map)

theorem monitor_print_safe_witness:
  "monitor_inv (print_string (chars ''Zenix'') monitor_demo)
     \<and> monitor_frame monitor_demo (print_dec 4096 monitor_demo)"
  using monitor_print_safe [OF monitor_demo_inv(1)] by blast

text \<open>
  Remark. A string of printable ASCII that fits on the rest of the cursor's row appears
  there character by character in the current colour, the cursor advances by its length and no
  other cell changes.
\<close>

theorem print_string_on_row:
  assumes "monitor_inv s" and "\<forall>c\<in>set cs. plain c" and "unat (cursor_x s) + length cs < 80"
  shows "unat (cursor_x (print_string cs s)) = unat (cursor_x s) + length cs
     \<and> cursor_y (print_string cs s) = cursor_y s
     \<and> (\<forall>i<length cs. ucast (video_memory (print_string cs s) (cursor_index s + i) AND 0xFF) = cs ! i
          \<and> drop_bit 8 (video_memory (print_string cs s) (cursor_index s + i)) = ucast (attribute s))
     \<and> (\<forall>i. i < cursor_index s \<or> cursor_index s + length cs \<le> i \<longrightarrow>
          video_memory (print_string cs s) i = video_memory s i)"
proof -
  have nz: "c \<noteq> 0 \<and> c < 0x80" if "c \<in> set cs" for c using assms(2) that by (auto simp: plain_def)
  then have tw: "takeWhile (\<lambda>c. c \<noteq> 0) cs = cs" by (simp add: takeWhile_eq_all_conv)
  have p: "print_string cs s = fold print_char cs s" unfolding print_string_fold tw ..
  show ?thesis
    unfolding p using print_line [OF assms] nz
    by (simp add: Let_def cell_char cell_attribute)
qed

theorem print_string_on_row_witness:
  "ucast (video_memory (print_string [0x4F, 0x4B] monitor_demo) 1 AND 0xFF) = (0x4B :: u8)
     \<and> video_memory (print_string [0x4F, 0x4B] monitor_demo) 2 = 0x0F20"
proof -
  have "\<forall>c\<in>set [0x4F, 0x4B]. plain c" "unat (cursor_x monitor_demo) + length [0x4F, 0x4B :: u8] < 80"
    by (simp_all add: plain_def monitor_demo_def)
  note r = print_string_on_row [OF monitor_demo_inv(1) this]
  have "cursor_index monitor_demo = 0" by (simp add: cursor_index_def monitor_demo_def)
  with r show ?thesis by (auto simp: monitor_demo_def)
qed

text \<open>
  Remark. A newline on the last row moves every row up by one, blanks the last row in the
  current colour and stores the row that left the screen as the next scrollback line; once
  100 lines are stored, later ones are lost.
\<close>

theorem newline_scrolls:
  assumes "monitor_inv s" and "cursor_y s = 24"
  shows "cursor_x (print_char 0x0A s) = 0 \<and> cursor_y (print_char 0x0A s) = 24
     \<and> (\<forall>r<24. \<forall>x<80. video_memory (print_char 0x0A s) (r * 80 + x) = video_memory s (Suc r * 80 + x))
     \<and> (\<forall>x<80. video_memory (print_char 0x0A s) (24 * 80 + x) = blank s)
     \<and> (if scrollback_count s < 100
        then scrollback_count (print_char 0x0A s) = scrollback_count s + 1
          \<and> (\<forall>x<80. scrollback_buffer (print_char 0x0A s) (nat (scrollback_count s)) x
               = ucast (video_memory s x AND 0xFF))
        else scrollback_count (print_char 0x0A s) = scrollback_count s
          \<and> scrollback_buffer (print_char 0x0A s) = scrollback_buffer s)"
proof -
  let ?s1 = "s\<lparr>cursor_x := 0, cursor_y := 25\<rparr>"
  have p: "print_char 0x0A s = scroll ?s1"
    using assms by (simp add: print_char_def put_char_def wrap_line_def)
  have "video_memory (scroll ?s1) (r * 80 + x) = video_memory s (Suc r * 80 + x)" if "r < 24" "x < 80" for r x
  proof -
    from that have "r * 80 + x < 1920" by simp
    then show ?thesis by (simp add: scroll_video add.commute add.left_commute)
  qed
  moreover have "scrollback_buffer (scroll ?s1) = scrollback_buffer s" if "\<not> scrollback_count s < 100"
    using that by (intro ext) (simp add: scroll_buffer)
  ultimately show ?thesis
    unfolding p by (simp add: scroll_video scroll_buffer frame_simps blank_def)
qed

theorem newline_scrolls_witness:
  "cursor_y (print_char 0x0A (monitor_demo\<lparr>cursor_y := 24\<rparr>)) = 24
     \<and> scrollback_count (print_char 0x0A (monitor_demo\<lparr>cursor_y := 24\<rparr>)) = 1"
  using newline_scrolls [OF monitor_demo_inv(2)] by (simp add: monitor_demo_def)

lemma dec_digits_value: "dec_value (dec_digits n) = unat n"
  using dec_buffer_value [of n] by (simp add: dec_digits_def dec_value_def foldl_conv_foldr)

lemma dec_digits_length: "0 < length (dec_digits n) \<and> length (dec_digits n) \<le> 10"
proof -
  have "unat n < 10 ^ 10" using unat_lt32 [of n] by simp
  from dec_buffer_length [OF this] show ?thesis
    using dec_buffer_last [of n] by (auto simp: dec_digits_def word_greater_zero_iff)
qed

lemma dec_digits_set: "d \<in> set (dec_digits n) \<Longrightarrow> 48 \<le> unat d \<and> unat d \<le> 57"
  using dec_buffer_digits by (auto simp: dec_digits_def split: if_splits)

lemma dec_digits_hd: "n \<noteq> 0 \<Longrightarrow> hd (dec_digits n) \<noteq> 0x30"
  using dec_buffer_last [of n] by (simp add: dec_digits_def hd_rev word_greater_zero_iff)

text \<open>
  Remark. \<open>print_dec\<close> prints the decimal numeral of its argument: at most ten digits,
  so its 32-byte buffer suffices, no leading zero except for 0 itself, and reading the digits
  back gives the number; \<open>print_hex\<close> prints eight digits that read back as the number.
\<close>

theorem print_number_roundtrip:
  "(\<exists>ds. print_dec n s = fold print_char ds s \<and> dec_value ds = unat n
       \<and> 0 < length ds \<and> length ds \<le> 10 \<and> (\<forall>d\<in>set ds. 48 \<le> unat d \<and> unat d \<le> 57)
       \<and> (n \<noteq> 0 \<longrightarrow> hd ds \<noteq> 0x30))
     \<and> (\<exists>hs. print_hex n s = fold print_char hs s \<and> hex_value hs = unat n \<and> length hs = 8)"
proof (intro conjI)
  show "\<exists>ds. print_dec n s = fold print_char ds s \<and> dec_value ds = unat n
       \<and> 0 < length ds \<and> length ds \<le> 10 \<and> (\<forall>d\<in>set ds. 48 \<le> unat d \<and> unat d \<le> 57)
       \<and> (n \<noteq> 0 \<longrightarrow> hd ds \<noteq> 0x30)"
    using print_dec_digits [of n s] dec_digits_value [of n] dec_digits_length [of n] dec_digits_set [of _ n]
      dec_digits_hd [of n]
    by (intro exI [of _ "dec_digits n"]) blast
  have "length (hex_text n) = 8" "print_hex n s = fold print_char (hex_text n) s"
    by (simp_all only: hex_text_def print_hex_fold) simp
  with hex_text_value [of n]
  show "\<exists>hs. print_hex n s = fold print_char hs s \<and> hex_value hs = unat n \<and> length hs = 8"
    by blast
qed

theorem print_number_roundtrip_witness:
  "\<exists>ds. print_dec 4096 monitor_demo = fold print_char ds monitor_demo \<and> dec_value ds = 4096 \<and> hd ds \<noteq> 0x30"
  using conjunct1 [OF print_number_roundtrip [of 4096 monitor_demo]] by auto

text \<open>
  Remark. \<open>char\<close> is signed: printing a byte of \<open>0x80\<close> or more (the box-drawing half
  of the code page) sets all eight attribute bits of its cell, so the character blinks white
  on white instead of appearing in the selected colour.
\<close>

theorem print_char_clobbers_attribute:
  assumes "monitor_inv s" and "0x80 \<le> c" and "unat (cursor_x s) < 79"
  shows "drop_bit 8 (video_memory (print_char c s) (cursor_index s)) = 0xFF"
proof -
  have c: "c \<noteq> 0x0A" "c \<noteq> 0x08" "c \<noteq> 0x09" using assms(2) by auto
  have "unat (cursor_x s + 1) < 80" using assms(3) by (simp add: unat_inc8)
  then have x: "\<not> 80 \<le> cursor_x s + 1" by (simp add: word_le_nat_alt)
  have y: "\<not> 25 \<le> cursor_y s" using assms(1) by (simp add: monitor_inv_def not_le)
  have "\<not> c < 0x80" using assms(2) by (simp add: not_less)
  with c x y show ?thesis
    by (simp add: print_char_def put_char_def wrap_line_def scroll_def cell_attribute)
qed

theorem print_char_clobbers_attribute_witness:
  "drop_bit 8 (video_memory (print_char 0xDB monitor_demo) (cursor_index monitor_demo)) = 0xFF"
  by (rule print_char_clobbers_attribute [OF monitor_demo_inv(1)]) (simp_all add: monitor_demo_def)

end
