(* ===== verification/Console.thy ===== *)
theory Console
  imports Monitor
begin

text \<open>
  Sequences of console output. The drivers and handlers print a fixed series of literals,
  strings, numbers and newlines with \<open>print_string\<close>, \<open>print_dec\<close>, \<open>print_hex\<close> and
  \<open>print_char\<close>; such a series is a list of \<open>out\<close> items here, in the order of the calls.
\<close>

datatype out = Str string | Bytes "u8 list" | Dec u32 | Hex u32 | Chr u8 | NL

fun emit :: "out \<Rightarrow> monitor \<Rightarrow> monitor" where
  "emit (Str s) con = print_string (chars s) con"
| "emit (Bytes bs) con = print_string bs con"
| "emit (Dec n) con = print_dec n con"
| "emit (Hex n) con = print_hex n con"
| "emit (Chr c) con = print_char c con"
| "emit NL con = print_string [0x0A] con"

definition print_all :: "out list \<Rightarrow> monitor \<Rightarrow> monitor" where
  "print_all os con = fold emit os con"

lemma print_all_Nil [simp]: "print_all [] con = con"
  by (simp add: print_all_def)

lemma print_all_append [simp]: "print_all (os @ os') con = print_all os' (print_all os con)"
  by (simp add: print_all_def)

lemma emit_inv [inv_intros]: "monitor_inv con \<Longrightarrow> monitor_inv (emit x con)"
  by (cases x) (simp_all add: inv_intros del: print_string.simps)

lemma emit_frame: "monitor_inv con \<Longrightarrow> monitor_frame con (emit x con)"
  by (cases x) (simp_all add: print_string_fold print_dec_digits print_hex_fold print_fold_frame
      print_char_frame del: print_string.simps list.map)

lemma print_all_inv [inv_intros]: "monitor_inv con \<Longrightarrow> monitor_inv (print_all os con)"
  by (induction os arbitrary: con) (simp_all add: print_all_def inv_intros)

lemma print_all_frame: "monitor_inv con \<Longrightarrow> monitor_frame con (print_all os con)"
proof (induction os arbitrary: con)
  case (Cons x os)
  from Cons.IH [OF emit_inv [OF Cons.prems]] emit_frame [OF Cons.prems]
  show ?case by (auto simp: print_all_def intro: monitor_frame_trans)
qed (simp add: print_all_def monitor_frame_refl)

end
