(* ===== verification/Keyboard.thy ===== *)
theory Keyboard
  imports Interfaces
begin

text \<open>
  The keyboard driver, \<^verbatim>\<open>drivers/keyboard/keyboard.c\<close>: the interrupt handler turns the
  scancode read from port \<open>0x60\<close> into a character and puts it into a ring buffer of 256
  bytes, from which \<open>keyboard_getchar\<close> takes it. The byte the port yields is the handler's
  argument. Abstractly the buffer is the list of pending characters, at most 255 of them.
\<close>

section \<open>State and tables\<close>

record keyboard =
  input_buffer :: "nat \<Rightarrow> u8"
  buffer_head :: nat
  buffer_tail :: nat
  shift_pressed :: bool
  caps_lock :: bool

definition scancode_to_ascii :: "u8 list" where
  "scancode_to_ascii =
     [0, 27] @ chars ''1234567890-='' @ [8, 9] @ chars ''qwertyuiop[]'' @ [10, 0]
     @ chars ''asdfghjkl;'' @ [39, 96, 0, 92] @ chars ''zxcvbnm,./'' @ [0, 42, 0, 32]
     @ replicate 16 0 @ [45, 0, 0, 0, 43] @ replicate 49 0"

definition scancode_to_ascii_shift :: "u8 list" where
  "scancode_to_ascii_shift =
     [0, 27] @ chars ''!@#$%^&*()_+'' @ [8, 9] @ chars ''QWERTYUIOP{}'' @ [10, 0]
     @ chars ''ASDFGHJKL:'' @ [34, 126, 0, 124] @ chars ''ZXCVBNM<>?'' @ [0, 42, 0, 32]
     @ replicate 16 0 @ [45, 0, 0, 0, 43] @ replicate 49 0"

section \<open>Operations\<close>

text \<open>The last step of the handler, and \<open>keyboard_getchar\<close> on the same buffer.\<close>

definition push_char :: "u8 \<Rightarrow> keyboard \<Rightarrow> keyboard" where
  "push_char ascii s =
     (if ascii \<noteq> 0
      then let next_head = (buffer_head s + 1) mod 256 in
           if next_head \<noteq> buffer_tail s
           then s\<lparr>input_buffer := (input_buffer s)(buffer_head s := ascii), buffer_head := next_head\<rparr>
           else s
      else s)"

definition keyboard_handler :: "u8 \<Rightarrow> keyboard \<Rightarrow> keyboard" where
  "keyboard_handler scancode s =
     (if scancode = 0x2A \<or> scancode = 0x36 then s\<lparr>shift_pressed := True\<rparr>
      else if scancode = 0xAA \<or> scancode = 0xB6 then s\<lparr>shift_pressed := False\<rparr>
      else if scancode = 0x3A then s\<lparr>caps_lock := \<not> caps_lock s\<rparr>
      else if scancode AND 0x80 \<noteq> 0 then s
      else let ascii = (if shift_pressed s \<or> caps_lock s
                        then scancode_to_ascii_shift ! unat scancode
                        else scancode_to_ascii ! unat scancode)
           in push_char ascii s)"

definition keyboard_init :: "keyboard \<Rightarrow> keyboard" where
  "keyboard_init s =
     s\<lparr>buffer_head := 0, buffer_tail := 0, shift_pressed := False, caps_lock := False\<rparr>"

definition keyboard_getchar :: "keyboard \<Rightarrow> u8 \<times> keyboard" where
  "keyboard_getchar s =
     (if buffer_head s = buffer_tail s then (0, s)
      else (input_buffer s (buffer_tail s), s\<lparr>buffer_tail := (buffer_tail s + 1) mod 256\<rparr>))"

section \<open>The pending characters\<close>

definition kbd_rep :: "keyboard \<Rightarrow> u8 list \<Rightarrow> bool" where
  "kbd_rep s xs \<longleftrightarrow> buffer_tail s < 256 \<and> length xs < 256
     \<and> buffer_head s = (buffer_tail s + length xs) mod 256
     \<and> (\<forall>i<length xs. input_buffer s ((buffer_tail s + i) mod 256) = xs ! i) \<and> 0 \<notin> set xs"

definition kbd_room :: "keyboard \<Rightarrow> u8 list \<Rightarrow> u8 \<Rightarrow> bool" where
  "kbd_room s xs c \<longleftrightarrow> c \<noteq> 0 \<and> length xs < 255"

lemma ring_inj_le:
  assumes "i \<le> j" and "j < 256" and "(t + i) mod 256 = (t + j) mod (256 :: nat)"
  shows "i = j"
proof -
  have "256 dvd (t + j) - (t + i)"
    using assms by (subst mod_eq_dvd_iff_nat [symmetric]) simp_all
  then have "256 dvd j - i" by simp
  moreover have "j - i < 256" using assms by simp
  ultimately have "j - i = 0" by (metis dvd_imp_le not_le neq0_conv)
  with assms show ?thesis by simp
qed

lemma ring_inj:
  assumes "i < 256" and "j < 256" and "(t + i) mod 256 = (t + j) mod (256 :: nat)"
  shows "i = j"
proof (cases "i \<le> j")
  case True
  from ring_inj_le [OF this assms(2,3)] show ?thesis .
next
  case False
  then have "j \<le> i" by simp
  from ring_inj_le [OF this assms(1) assms(3) [symmetric]] show ?thesis by simp
qed

lemma kbd_full_iff:
  assumes "kbd_rep s xs"
  shows "(buffer_head s + 1) mod 256 = buffer_tail s \<longleftrightarrow> length xs = 255"
proof -
  from assms have t: "buffer_tail s < 256" "length xs < 256"
    and h: "buffer_head s = (buffer_tail s + length xs) mod 256" by (simp_all add: kbd_rep_def)
  have "(buffer_head s + 1) mod 256 = (buffer_tail s + Suc (length xs)) mod 256"
    unfolding h by (simp add: mod_Suc_eq)
  moreover have "(buffer_tail s + 256) mod 256 = buffer_tail s" using t by simp
  ultimately show ?thesis
    using t ring_inj [of "Suc (length xs)" 0 "buffer_tail s"] by (cases "length xs = 255") auto
qed

lemma push_char_room:
  assumes "kbd_rep s xs" and "kbd_room s xs c"
  shows "kbd_rep (push_char c s) (xs @ [c])"
proof -
  let ?t = "buffer_tail s" and ?n = "length xs"
  from assms have r: "?t < 256" "?n < 255" "buffer_head s = (?t + ?n) mod 256" "0 \<notin> set xs" "c \<noteq> 0"
    "\<forall>i<?n. input_buffer s ((?t + i) mod 256) = xs ! i"
    by (simp_all add: kbd_rep_def kbd_room_def)
  have p: "push_char c s = s\<lparr>input_buffer := (input_buffer s)(buffer_head s := c),
      buffer_head := (buffer_head s + 1) mod 256\<rparr>"
    using kbd_full_iff [OF assms(1)] r by (simp add: push_char_def Let_def)
  have "(?t + i) mod 256 \<noteq> buffer_head s" if "i < ?n" for i
    using ring_inj [of i ?n ?t] that r by auto
  moreover have "(buffer_head s + 1) mod 256 = (?t + Suc ?n) mod 256"
    unfolding r(3) by (simp add: mod_Suc_eq)
  ultimately show ?thesis
    using r by (auto simp: kbd_rep_def p nth_append less_Suc_eq)
qed

lemma getchar_empty: "kbd_rep s [] \<Longrightarrow> keyboard_getchar s = (0, s)"
  by (simp add: kbd_rep_def keyboard_getchar_def)

lemma getchar_cons:
  assumes "kbd_rep s (x # xs)"
  shows "\<exists>s'. keyboard_getchar s = (x, s') \<and> kbd_rep s' xs"
proof -
  let ?t = "buffer_tail s"
  from assms have r: "?t < 256" "length xs < 255" "buffer_head s = (?t + Suc (length xs)) mod 256"
    "\<forall>i<Suc (length xs). input_buffer s ((?t + i) mod 256) = (x # xs) ! i" "0 \<notin> set xs"
    by (simp_all add: kbd_rep_def)
  have "buffer_head s \<noteq> ?t"
    using ring_inj [of "Suc (length xs)" 0 ?t] r by auto
  moreover have "input_buffer s ?t = x" using r(1,4) by auto
  moreover have "((?t + 1) mod 256 + i) mod 256 = (?t + Suc i) mod 256" for i
    by (simp add: mod_add_left_eq)
  moreover from this have "input_buffer s (((?t + 1) mod 256 + i) mod 256) = xs ! i"
    if "i < length xs" for i using r(4) that by auto
  ultimately show ?thesis
    using r by (simp add: keyboard_getchar_def kbd_rep_def)
qed

interpretation kbd: fifo kbd_rep kbd_room push_char keyboard_getchar 0
  by unfold_locales (simp_all add: push_char_room getchar_empty getchar_cons)

lemma push_char_full:
  "kbd_rep s xs \<Longrightarrow> length xs = 255 \<Longrightarrow> push_char c s = s"
  using kbd_full_iff [of s xs] by (simp add: push_char_def Let_def)

lemma kbd_rep_modifiers [simp]:
  "kbd_rep (s\<lparr>shift_pressed := b\<rparr>) = kbd_rep s" "kbd_rep (s\<lparr>caps_lock := b\<rparr>) = kbd_rep s"
  by (simp_all add: kbd_rep_def fun_eq_iff)

section \<open>What a sequence of key events types\<close>

text \<open>The character a scancode types, 0 for none, and how it changes the modifiers.\<close>

type_synonym modifiers = "bool \<times> bool"

definition key_char :: "modifiers \<Rightarrow> u8 \<Rightarrow> u8" where
  "key_char = (\<lambda>(shift, caps) k.
     if k \<in> {0x2A, 0x36, 0xAA, 0xB6, 0x3A} \<or> k \<ge> 0x80 then 0
     else (if shift \<or> caps then scancode_to_ascii_shift else scancode_to_ascii) ! unat k)"

definition key_mods :: "modifiers \<Rightarrow> u8 \<Rightarrow> modifiers" where
  "key_mods = (\<lambda>(shift, caps) k.
     (if k \<in> {0x2A, 0x36} then True else if k \<in> {0xAA, 0xB6} then False else shift,
      if k = 0x3A then \<not> caps else caps))"

fun typed :: "modifiers \<Rightarrow> u8 list \<Rightarrow> u8 list" where
  "typed m [] = []"
| "typed m (k # ks) = (if key_char m k = 0 then [] else [key_char m k]) @ typed (key_mods m k) ks"

datatype kbd_event = Scancode u8 | Getchar

fun kbd_run :: "kbd_event list \<Rightarrow> keyboard \<Rightarrow> u8 list \<times> keyboard" where
  "kbd_run [] s = ([], s)"
| "kbd_run (Scancode k # es) s = kbd_run es (keyboard_handler k s)"
| "kbd_run (Getchar # es) s =
     (let (c, s1) = keyboard_getchar s; (cs, s2) = kbd_run es s1 in (if c = 0 then cs else c # cs, s2))"

fun scancodes :: "kbd_event list \<Rightarrow> u8 list" where
  "scancodes [] = []"
| "scancodes (Scancode k # es) = k # scancodes es"
| "scancodes (Getchar # es) = scancodes es"

abbreviation modifiers_of :: "keyboard \<Rightarrow> modifiers" where
  "modifiers_of s \<equiv> (shift_pressed s, caps_lock s)"

definition set_modifiers :: "modifiers \<Rightarrow> keyboard \<Rightarrow> keyboard" where
  "set_modifiers m s = s\<lparr>shift_pressed := fst m, caps_lock := snd m\<rparr>"

lemma push_char_0: "push_char 0 s = s"
  by (simp add: push_char_def)

lemma modifiers_id:
  "s\<lparr>shift_pressed := shift_pressed s, caps_lock := caps_lock s\<rparr> = s"
  "s\<lparr>shift_pressed := b, caps_lock := caps_lock s\<rparr> = s\<lparr>shift_pressed := b\<rparr>"
  "s\<lparr>shift_pressed := shift_pressed s, caps_lock := b\<rparr> = s\<lparr>caps_lock := b\<rparr>"
  by (cases s, simp)+

lemma handler_step:
  "keyboard_handler k s =
     push_char (key_char (modifiers_of s) k) (set_modifiers (key_mods (modifiers_of s) k) s)"
  by (auto simp: keyboard_handler_def key_char_def key_mods_def set_modifiers_def push_char_0
      modifiers_id and_128_iff not_less)

lemma push_char_modifiers [simp]: "modifiers_of (push_char c s) = modifiers_of s"
  by (simp add: push_char_def Let_def)

lemma set_modifiers_simps [simp]:
  "modifiers_of (set_modifiers m s) = m" "kbd_rep (set_modifiers m s) = kbd_rep s"
  by (simp_all add: set_modifiers_def)

lemma getchar_modifiers: "keyboard_getchar s = (c, s') \<Longrightarrow> modifiers_of s' = modifiers_of s"
  by (auto simp: keyboard_getchar_def split: if_splits)

lemma handler_rep:
  assumes "kbd_rep s xs" and "length xs < 255 \<or> key_char (modifiers_of s) k = 0"
  shows "kbd_rep (keyboard_handler k s)
     (xs @ (if key_char (modifiers_of s) k = 0 then [] else [key_char (modifiers_of s) k]))"
proof (cases "key_char (modifiers_of s) k = 0")
  case True
  with assms show ?thesis by (simp add: handler_step push_char_def)
next
  case False
  with assms have "kbd_room (set_modifiers (key_mods (modifiers_of s) k) s) xs (key_char (modifiers_of s) k)"
    by (simp add: kbd_room_def)
  with assms(1) False show ?thesis
    unfolding handler_step by (simp add: kbd.put_room)
qed

lemma handler_modifiers:
  "modifiers_of (keyboard_handler k s) = key_mods (modifiers_of s) k"
  unfolding handler_step by (simp only: push_char_modifiers set_modifiers_simps)

lemma kbd_run_lossless:
  assumes "kbd_rep s xs" and "length xs + length (typed (modifiers_of s) (scancodes evs)) \<le> 255"
    and "kbd_run evs s = (out, s')"
  shows "\<exists>ys. kbd_rep s' ys \<and> out @ ys = xs @ typed (modifiers_of s) (scancodes evs)"
  using assms
proof (induction evs s arbitrary: xs out rule: kbd_run.induct)
  case (1 s)
  then show ?case by simp
next
  case (2 k es s)
  let ?c = "key_char (modifiers_of s) k"
  let ?cs = "if ?c = 0 then [] else [?c]"
  have room: "length xs < 255 \<or> ?c = 0" using "2.prems"(2) by (auto simp del: key_char_def)
  have "kbd_rep (keyboard_handler k s) (xs @ ?cs)"
    by (rule handler_rep [OF "2.prems"(1) room])
  moreover have "length (xs @ ?cs) + length (typed (modifiers_of (keyboard_handler k s)) (scancodes es)) \<le> 255"
    using "2.prems"(2) unfolding handler_modifiers by simp
  moreover have "kbd_run es (keyboard_handler k s) = (out, s')" using "2.prems"(3) by simp
  ultimately have "\<exists>ys. kbd_rep s' ys \<and>
      out @ ys = (xs @ ?cs) @ typed (modifiers_of (keyboard_handler k s)) (scancodes es)"
    by (rule "2.IH")
  then show ?case unfolding handler_modifiers by simp
next
  case (3 es s)
  obtain c s1 where g: "keyboard_getchar s = (c, s1)" by force
  obtain cs s2 where r: "kbd_run es s1 = (cs, s2)" by force
  from "3.prems"(3) g r have o: "out = (if c = 0 then cs else c # cs)" "s' = s2"
    by (auto split: if_splits)
  show ?case
  proof (cases xs)
    case Nil
    with "3.prems"(1) g have "c = 0" "s1 = s" by (simp_all add: kbd.get_empty)
    from \<open>s1 = s\<close> "3.prems"(1) have "kbd_rep s1 xs" by simp
    from "3.IH" [OF g [symmetric] refl this] \<open>c = 0\<close> \<open>s1 = s\<close> "3.prems"(2) r o
    show ?thesis by simp
  next
    case (Cons x xs')
    with kbd.get_cons [of s x xs'] "3.prems"(1) g have c: "c = x" "kbd_rep s1 xs'" by simp_all
    from "3.prems"(1) Cons have "x \<noteq> 0" by (auto simp: kbd_rep_def)
    have m: "modifiers_of s1 = modifiers_of s" by (rule getchar_modifiers [OF g])
    have "length xs' + length (typed (modifiers_of s1) (scancodes es)) \<le> 255"
      using "3.prems"(2) Cons m by simp
    from "3.IH" [OF g [symmetric] refl c(2) this] r o(2)
    have "\<exists>ys. kbd_rep s2 ys \<and> cs @ ys = xs' @ typed (modifiers_of s1) (scancodes es)" by simp
    with o c(1) \<open>x \<noteq> 0\<close> Cons m show ?thesis by auto
  qed
qed

section \<open>Properties\<close>

lemma keyboard_init_rep: "kbd_rep (keyboard_init s) []"
  by (simp add: kbd_rep_def keyboard_init_def)

text \<open>
  Property C14. Interrupts and reads may interleave in any order: as long as no more than 255
  characters are typed, what the reads return followed by what is still pending is exactly
  what was pending before followed by what the scancodes type, in order, with shift and caps
  lock applied; nothing is lost, duplicated or reordered.
\<close>

theorem keyboard_lossless:
  assumes "kbd_rep s xs" and "length xs + length (typed (modifiers_of s) (scancodes evs)) \<le> 255"
  shows "\<exists>ys. kbd_rep (snd (kbd_run evs s)) ys
     \<and> fst (kbd_run evs s) @ ys = xs @ typed (modifiers_of s) (scancodes evs)"
  using kbd_run_lossless [OF assms] by (metis prod.collapse)

theorem keyboard_lossless_witness:
  "\<forall>s. \<exists>ys. fst (kbd_run [Scancode 0x2A, Scancode 0x1E, Getchar, Scancode 0xAA, Scancode 0x30] (keyboard_init s)) @ ys
     = chars ''Ab''"
proof
  fix s
  have m: "modifiers_of (keyboard_init s) = (False, False)" by (simp add: keyboard_init_def)
  have t: "typed (False, False) (scancodes [Scancode 0x2A, Scancode 0x1E, Getchar, Scancode 0xAA, Scancode 0x30])
      = chars ''Ab''"
    by (simp add: key_char_def key_mods_def scancode_to_ascii_def scancode_to_ascii_shift_def chars_def
        of_char_def)
  from keyboard_lossless [OF keyboard_init_rep, of s "[Scancode 0x2A, Scancode 0x1E, Getchar, Scancode 0xAA, Scancode 0x30]"]
  show "\<exists>ys. fst (kbd_run [Scancode 0x2A, Scancode 0x1E, Getchar, Scancode 0xAA, Scancode 0x30] (keyboard_init s)) @ ys
      = chars ''Ab''"
    unfolding m t by (auto simp: chars_def)
qed

text \<open>
  Remark. When 255 characters are pending, a further key press changes at most the shift
  and caps-lock state: the pending characters stay as they are and the new one is dropped.
\<close>

theorem keyboard_full_drops:
  assumes "kbd_rep s xs" and "length xs = 255"
  shows "keyboard_handler k s = set_modifiers (key_mods (modifiers_of s) k) s
     \<and> kbd_rep (keyboard_handler k s) xs"
proof -
  have "keyboard_handler k s = set_modifiers (key_mods (modifiers_of s) k) s"
    unfolding handler_step by (rule push_char_full [of _ xs]) (simp_all add: assms)
  with assms(1) show ?thesis by simp
qed

text \<open>A buffer filled by holding down one key.\<close>

definition kbd_full :: keyboard where
  "kbd_full = \<lparr>input_buffer = (\<lambda>_. 0x61), buffer_head = 255, buffer_tail = 0,
     shift_pressed = False, caps_lock = False\<rparr>"

theorem keyboard_full_drops_witness:
  "kbd_rep (keyboard_handler 0x30 kbd_full) (replicate 255 0x61)"
  by (rule conjunct2 [OF keyboard_full_drops])
    (simp_all add: kbd_rep_def kbd_full_def)

text \<open>
  Remark. Caps lock selects the whole shifted table: with caps lock on and shift up the
  digit keys type punctuation, and pressing shift as well does not undo it for the letters.
\<close>

theorem caps_lock_shifts_all:
  "key_char (False, True) k = key_char (True, False) k
     \<and> key_char (True, True) k = key_char (True, False) k
     \<and> key_char (False, True) 0x02 = 0x21 \<and> key_char (False, False) 0x02 = 0x31"
  by (simp add: key_char_def scancode_to_ascii_def scancode_to_ascii_shift_def chars_def of_char_def)

end
