(* ===== verification/Ports.thy ===== *)
theory Ports
  imports Prelude
begin

text \<open>
  Port input and output (\<^verbatim>\<open>include/io.h\<close>, \<^verbatim>\<open>hal/io.c\<close>) as a trace of
  events, and the interrupt controller driver on it (\<^verbatim>\<open>hal/pic.c\<close>). What a device
  answers is a parameter: a function of the trace so far and the port, so it may depend on
  everything the kernel wrote and read before.
\<close>

section \<open>Ports\<close>

datatype io_event = Out u16 u8 | In u16 u8 | OutW u16 u16 | InW u16 u16

type_synonym io_trace = "io_event list"
type_synonym device = "io_trace \<Rightarrow> u16 \<Rightarrow> u8"

definition outb :: "u16 \<Rightarrow> u8 \<Rightarrow> io_trace \<Rightarrow> io_trace" where
  "outb port val io = io @ [Out port val]"

definition inb :: "device \<Rightarrow> u16 \<Rightarrow> io_trace \<Rightarrow> u8 \<times> io_trace" where
  "inb dev port io = (let ret = dev io port in (ret, io @ [In port ret]))"

text \<open>The word accesses, which no driver uses; a device that answers words is its own parameter.\<close>

definition outw :: "u16 \<Rightarrow> u16 \<Rightarrow> io_trace \<Rightarrow> io_trace" where
  "outw port val io = io @ [OutW port val]"

definition inw :: "(io_trace \<Rightarrow> u16 \<Rightarrow> u16) \<Rightarrow> u16 \<Rightarrow> io_trace \<Rightarrow> u16 \<times> io_trace" where
  "inw dev port io = (let ret = dev io port in (ret, io @ [InW port ret]))"

definition io_wait :: "io_trace \<Rightarrow> io_trace" where
  "io_wait io = outb 0x80 0 io"

text \<open>The bytes written to one port.\<close>

fun written :: "u16 \<Rightarrow> io_trace \<Rightarrow> u8 list" where
  "written p [] = []"
| "written p (Out q v # io) = (if q = p then v # written p io else written p io)"
| "written p (In q v # io) = written p io"
| "written p (OutW q v # io) = written p io"
| "written p (InW q v # io) = written p io"

lemma written_append [simp]: "written p (io @ io') = written p io @ written p io'"
  by (induction p io rule: written.induct) simp_all

lemma written_outb [simp]: "written p (outb q v io) = written p io @ (if q = p then [v] else [])"
  by (simp add: outb_def)

lemma written_inb [simp]: "written p (snd (inb dev q io)) = written p io"
  by (simp add: inb_def Let_def)

lemma written_io_wait [simp]: "written p (io_wait io) = written p io @ (if p = 0x80 then [0] else [])"
  by (simp add: io_wait_def)

section \<open>The interrupt controllers\<close>

abbreviation PIC1_COMMAND :: u16 where "PIC1_COMMAND \<equiv> 0x20"
abbreviation PIC1_DATA :: u16 where "PIC1_DATA \<equiv> 0x21"
abbreviation PIC2_COMMAND :: u16 where "PIC2_COMMAND \<equiv> 0xA0"
abbreviation PIC2_DATA :: u16 where "PIC2_DATA \<equiv> 0xA1"
abbreviation PIC_EOI :: u8 where "PIC_EOI \<equiv> 0x20"
abbreviation PIC_READ_ISR :: u8 where "PIC_READ_ISR \<equiv> 0x0B"

abbreviation ICW1_ICW4 :: u8 where "ICW1_ICW4 \<equiv> 0x01"
abbreviation ICW1_INIT :: u8 where "ICW1_INIT \<equiv> 0x10"
abbreviation ICW4_8086 :: u8 where "ICW4_8086 \<equiv> 0x01"

definition pic_remap :: "device \<Rightarrow> u8 \<Rightarrow> u8 \<Rightarrow> io_trace \<Rightarrow> io_trace" where
  "pic_remap dev offset1 offset2 io =
     (let (mask1, io) = inb dev PIC1_DATA io;
          (mask2, io) = inb dev PIC2_DATA io;
          io = io_wait (outb PIC1_COMMAND (ICW1_INIT OR ICW1_ICW4) io);
          io = io_wait (outb PIC2_COMMAND (ICW1_INIT OR ICW1_ICW4) io);
          io = io_wait (outb PIC1_DATA offset1 io);
          io = io_wait (outb PIC2_DATA offset2 io);
          io = io_wait (outb PIC1_DATA 0x04 io);
          io = io_wait (outb PIC2_DATA 0x02 io);
          io = io_wait (outb PIC1_DATA ICW4_8086 io);
          io = io_wait (outb PIC2_DATA ICW4_8086 io)
      in outb PIC2_DATA mask2 (outb PIC1_DATA mask1 io))"

definition pic_send_eoi :: "u8 \<Rightarrow> io_trace \<Rightarrow> io_trace" where
  "pic_send_eoi irq io =
     outb PIC1_COMMAND PIC_EOI (if irq \<ge> 8 then outb PIC2_COMMAND PIC_EOI io else io)"

definition pic_set_mask :: "u8 \<Rightarrow> u8 \<Rightarrow> io_trace \<Rightarrow> io_trace" where
  "pic_set_mask mask1 mask2 io = outb PIC2_DATA mask2 (outb PIC1_DATA mask1 io)"

definition pic_disable :: "io_trace \<Rightarrow> io_trace" where
  "pic_disable io = outb PIC2_DATA 0xFF (outb PIC1_DATA 0xFF io)"

definition pic_get_isr :: "device \<Rightarrow> u8 \<Rightarrow> io_trace \<Rightarrow> bool \<times> io_trace" where
  "pic_get_isr dev irq io =
     (if irq < 8
      then let (v, io) = inb dev PIC1_COMMAND (outb PIC1_COMMAND PIC_READ_ISR io)
           in (v AND push_bit (unat irq) 1 \<noteq> 0, io)
      else let (v, io) = inb dev PIC2_COMMAND (outb PIC2_COMMAND PIC_READ_ISR io)
           in (v AND push_bit (unat (irq - 8)) 1 \<noteq> 0, io))"

text \<open>The end-of-interrupt commands in a trace, for the master and for the slave.\<close>

definition master_eois :: "io_trace \<Rightarrow> nat" where
  "master_eois io = count_list (written PIC1_COMMAND io) PIC_EOI"

definition slave_eois :: "io_trace \<Rightarrow> nat" where
  "slave_eois io = count_list (written PIC2_COMMAND io) PIC_EOI"

lemma eois_append:
  "master_eois (io @ io') = master_eois io + master_eois io'"
  "slave_eois (io @ io') = slave_eois io + slave_eois io'"
  by (simp_all add: master_eois_def slave_eois_def)

lemma pic_send_eoi_eois:
  "master_eois (pic_send_eoi irq io) = Suc (master_eois io)"
  "slave_eois (pic_send_eoi irq io) = slave_eois io + (if irq \<ge> 8 then 1 else 0)"
  by (simp_all add: pic_send_eoi_def master_eois_def slave_eois_def)

lemma pic_get_isr_eois:
  "master_eois (snd (pic_get_isr dev irq io)) = master_eois io"
  "slave_eois (snd (pic_get_isr dev irq io)) = slave_eois io"
  by (auto simp: pic_get_isr_def master_eois_def slave_eois_def inb_def Let_def)

end
