(* ===== verification/Interrupts.thy ===== *)
theory Interrupts
  imports Ports Monitor
begin

text \<open>
  Interrupt dispatch: the descriptor table (\<^verbatim>\<open>hal/idt.c\<close>), exceptions
  (\<^verbatim>\<open>hal/isr.c\<close>) and hardware interrupts (\<^verbatim>\<open>hal/irq.c\<close>). Handlers are values
  of a type \<open>'h\<close> that names the C functions; \<open>run\<close> says what calling one does to the rest
  of the kernel. The addresses of the assembly stubs are a parameter.
\<close>

section \<open>Saved registers\<close>

record registers =
  r_ds :: u32
  r_edi :: u32
  r_esi :: u32
  r_ebp :: u32
  r_esp :: u32
  r_ebx :: u32
  r_edx :: u32
  r_ecx :: u32
  r_eax :: u32
  int_no :: u32
  err_code :: u32
  r_eip :: u32
  r_cs :: u32
  r_eflags :: u32
  useresp :: u32
  r_ss :: u32

section \<open>The descriptor table\<close>

record idt_entry =
  base_low :: u16
  selector :: u16
  always0 :: u8
  idt_flags :: u8
  base_high :: u16

record idt =
  idt_entries :: "nat \<Rightarrow> idt_entry"
  idt_limit :: u16
  idt_base :: u32
  idt_loaded :: bool

definition idt_set_gate :: "u8 \<Rightarrow> u32 \<Rightarrow> u16 \<Rightarrow> u8 \<Rightarrow> idt \<Rightarrow> idt" where
  "idt_set_gate num base sel flags t =
     t\<lparr>idt_entries := (idt_entries t)(unat num :=
        \<lparr>base_low = ucast (base AND 0xFFFF), selector = sel, always0 = 0, idt_flags = flags,
         base_high = ucast (drop_bit 16 base AND 0xFFFF)\<rparr>)\<rparr>"

definition idt_init :: "u32 \<Rightarrow> idt \<Rightarrow> idt" where
  "idt_init entries_addr t =
     (let t = t\<lparr>idt_limit := 8 * 256 - 1, idt_base := entries_addr\<rparr>;
          t = fold (\<lambda>i. idt_set_gate (of_nat i) 0 0 0) [0..<256] t
      in t\<lparr>idt_loaded := True\<rparr>)"

definition isr_install :: "(nat \<Rightarrow> u32) \<Rightarrow> idt \<Rightarrow> idt" where
  "isr_install isr_stub t =
     fold (\<lambda>i. idt_set_gate (of_nat i) (isr_stub i) 0x08 0x8E) [0..<32] t"

text \<open>The last component is the processor's interrupt flag, which the closing \<open>sti\<close> sets.\<close>

definition irq_install :: "device \<Rightarrow> (nat \<Rightarrow> u32) \<Rightarrow> idt \<times> io_trace \<Rightarrow> idt \<times> io_trace \<times> bool" where
  "irq_install dev irq_stub = (\<lambda>(t, io).
     (let io = pic_remap dev 0x20 0x28 io;
          t = fold (\<lambda>i. idt_set_gate (of_nat (32 + i)) (irq_stub i) 0x08 0x8E) [0..<16] t
      in (t, pic_set_mask 0x00 0x00 io, True)))"

text \<open>What the processor reads from a gate.\<close>

definition gate_base :: "idt_entry \<Rightarrow> u32" where
  "gate_base e = ucast (base_low e) OR push_bit 16 (ucast (base_high e))"

definition gate_present :: "idt_entry \<Rightarrow> bool" where
  "gate_present e \<longleftrightarrow> bit (idt_flags e) 7"

definition gate_dpl :: "idt_entry \<Rightarrow> u8" where
  "gate_dpl e = drop_bit 5 (idt_flags e) AND 3"

lemma split_halves: "(ucast (ucast (base AND 0xFFFF :: u32) :: u16) :: u32)
     OR push_bit 16 (ucast (ucast (drop_bit 16 base AND 0xFFFF) :: u16)) = base"
proof -
  have m: "(0xFFFF :: u32) = mask 16" by (simp add: mask_eq_exp_minus_1)
  show ?thesis unfolding m by (rule bit_word_eqI) (auto simp: bit_simps)
qed

lemma idt_set_gate_entries:
  "idt_entries (idt_set_gate num base sel flags t) i =
     (if i = unat num
      then \<lparr>base_low = ucast (base AND 0xFFFF), selector = sel, always0 = 0, idt_flags = flags,
            base_high = ucast (drop_bit 16 base AND 0xFFFF)\<rparr>
      else idt_entries t i)"
  by (simp add: idt_set_gate_def)

text \<open>A gate as the processor sees it: handler, selector, flags.\<close>

definition gate :: "idt \<Rightarrow> nat \<Rightarrow> u32 \<times> u16 \<times> u8" where
  "gate t i = (gate_base (idt_entries t i), selector (idt_entries t i), idt_flags (idt_entries t i))"

lemma gate_set [simp]:
  "gate (idt_set_gate num base sel flags t) i = (if i = unat num then (base, sel, flags) else gate t i)"
  by (simp add: gate_def idt_set_gate_entries gate_base_def split_halves)

lemma gate_fold_set:
  "a + n \<le> 256 \<Longrightarrow> gate (fold (\<lambda>i. idt_set_gate (of_nat (a + i)) (f i) sel flags) [0..<n] t) i =
     (if a \<le> i \<and> i < a + n then (f (i - a), sel, flags) else gate t i)"
proof (induction n)
  case (Suc n)
  have "unat (of_nat (a + n) :: u8) = a + n" using Suc.prems
    by (simp add: unat_of_nat take_bit_nat_eq_self del: of_nat_add)
  with Suc show ?case by auto
qed auto

lemma gate_idt_init: "gate (idt_init addr t) i = (if i < 256 then (0, 0, 0) else gate t i)"
proof -
  have g: "gate (t\<lparr>idt_loaded := b\<rparr>) = gate t" "gate (t\<lparr>idt_limit := l, idt_base := b'\<rparr>) = gate t"
    for b l b' t by (simp_all add: gate_def fun_eq_iff)
  show ?thesis
    using gate_fold_set [where a = 0 and n = 256 and f = "\<lambda>_. 0" and sel = 0 and flags = 0
        and t = "t\<lparr>idt_limit := 8 * 256 - 1, idt_base := addr\<rparr>" and i = i]
    by (simp add: idt_init_def Let_def g)
qed

lemma gate_isr_install:
  "gate (isr_install f t) i = (if i < 32 then (f i, 0x08, 0x8E) else gate t i)"
  using gate_fold_set [where a = 0 and n = 32 and f = f and sel = "0x08" and flags = "0x8E" and t = t and i = i] by (simp add: isr_install_def)

lemma gate_irq_install:
  "gate (fst (irq_install dev f (t, io))) i =
     (if 32 \<le> i \<and> i < 48 then (f (i - 32), 0x08, 0x8E) else gate t i)"
  using gate_fold_set [where a = 32 and n = 16 and f = f and sel = "0x08" and flags = "0x8E" and t = t and i = i] by (simp add: irq_install_def Let_def)

section \<open>Handler tables\<close>

type_synonym 'h handlers = "nat \<Rightarrow> 'h option"

definition isr_register_handler :: "u8 \<Rightarrow> 'h \<Rightarrow> 'h handlers \<Rightarrow> 'h handlers" where
  "isr_register_handler n h tbl = tbl(unat n \<mapsto> h)"

definition irq_register_handler :: "u8 \<Rightarrow> 'h \<Rightarrow> 'h handlers \<Rightarrow> 'h handlers" where
  "irq_register_handler irq h tbl = (if irq < 16 then tbl(unat irq \<mapsto> h) else tbl)"

section \<open>Exceptions\<close>

definition exception_messages :: "string list" where
  "exception_messages =
     [''Division By Zero'', ''Debug'', ''Non Maskable Interrupt'', ''Breakpoint'', ''Overflow'',
      ''Bound Range Exceeded'', ''Invalid Opcode'', ''Device Not Available'', ''Double Fault'',
      ''Coprocessor Segment Overrun'', ''Invalid TSS'', ''Segment Not Present'',
      ''Stack-Segment Fault'', ''General Protection Fault'', ''Page Fault'', ''Reserved'',
      ''x87 Floating-Point Exception'', ''Alignment Check'', ''Machine Check'',
      ''SIMD Floating-Point Exception'', ''Virtualization Exception'', ''Reserved'', ''Reserved'',
      ''Reserved'', ''Reserved'', ''Reserved'', ''Reserved'', ''Reserved'', ''Reserved'',
      ''Reserved'', ''Security Exception'', ''Reserved'']"

text \<open>A handler returns to the interrupted code, or the machine stops for good.\<close>

datatype 's outcome = Returned 's | Halted 's

definition newline :: "u8 list" where
  "newline = [0x0A]"

definition print_exception :: "registers \<Rightarrow> monitor \<Rightarrow> monitor" where
  "print_exception regs con =
     (let con = print_string (newline @ chars ''!!! EXCEPTION: '') con;
          con = print_string (chars (if int_no regs < 32 then exception_messages ! unat (int_no regs)
                                     else ''Unknown'')) con;
          con = print_string (chars '' !!!'' @ newline) con;
          con = print_string newline (print_dec (int_no regs) (print_string (chars ''Exception Number: '') con));
          con = print_string newline (print_hex (err_code regs) (print_string (chars ''Error Code: 0x'') con));
          con = print_string newline (print_hex (r_eip regs) (print_string (chars ''EIP: 0x'') con));
          con = print_string newline (print_hex (r_cs regs) (print_string (chars ''CS: 0x'') con));
          con = print_string newline (print_hex (r_eflags regs) (print_string (chars ''EFLAGS: 0x'') con))
      in print_string (newline @ chars ''System halted.'' @ newline) con)"

definition isr_handler ::
  "('h \<Rightarrow> registers \<Rightarrow> 's \<times> monitor \<Rightarrow> ('s \<times> monitor) outcome) \<Rightarrow> 'h handlers \<Rightarrow> registers
     \<Rightarrow> 's \<times> monitor \<Rightarrow> ('s \<times> monitor) outcome" where
  "isr_handler run tbl regs = (\<lambda>(s, con).
     (case tbl (unat (int_no regs)) of
        Some h \<Rightarrow> run h regs (s, con)
      | None \<Rightarrow> Halted (s, print_exception regs con)))"

section \<open>Hardware interrupts\<close>

definition irq_dispatch ::
  "('h \<Rightarrow> registers \<Rightarrow> 's \<times> io_trace \<Rightarrow> 's \<times> io_trace) \<Rightarrow> 'h handlers \<Rightarrow> registers
     \<Rightarrow> 's \<times> io_trace \<Rightarrow> 's \<times> io_trace" where
  "irq_dispatch run tbl regs st =
     (let irq_num = (ucast (int_no regs - 32) :: u8);
          (s, io) = (if irq_num < 16
                     then (case tbl (unat irq_num) of Some h \<Rightarrow> run h regs st | None \<Rightarrow> st)
                     else st)
      in (s, pic_send_eoi irq_num io))"

definition irq_handler ::
  "device \<Rightarrow> ('h \<Rightarrow> registers \<Rightarrow> 's \<times> io_trace \<Rightarrow> 's \<times> io_trace) \<Rightarrow> 'h handlers \<Rightarrow> registers
     \<Rightarrow> 's \<times> io_trace \<Rightarrow> 's \<times> io_trace" where
  "irq_handler dev run tbl regs = (\<lambda>(s, io).
     if int_no regs = 39
     then (let (in_service, io) = pic_get_isr dev 7 io in
           if \<not> in_service then (s, io) else irq_dispatch run tbl regs (s, io))
     else if int_no regs = 47
     then (let (in_service, io) = pic_get_isr dev 15 io in
           if \<not> in_service then (s, pic_send_eoi 2 io) else irq_dispatch run tbl regs (s, io))
     else irq_dispatch run tbl regs (s, io))"

section \<open>Properties\<close>

definition spurious :: "device \<Rightarrow> registers \<Rightarrow> io_trace \<Rightarrow> bool" where
  "spurious dev regs io \<longleftrightarrow> int_no regs = 39 \<and> \<not> fst (pic_get_isr dev 7 io)
     \<or> int_no regs = 47 \<and> \<not> fst (pic_get_isr dev 15 io)"

text \<open>The line an interrupt vector stands for.\<close>

definition line_of :: "registers \<Rightarrow> nat" where
  "line_of regs = unat (int_no regs) - 32"

lemma irq_num_line:
  assumes "32 \<le> int_no regs" and "int_no regs < 48"
  shows "unat (ucast (int_no regs - 32) :: u8) = line_of regs" and "line_of regs < 16"
proof -
  have u: "unat (int_no regs - 32) = unat (int_no regs) - 32" "32 \<le> unat (int_no regs)"
      "unat (int_no regs) < 48"
    using assms by (simp_all add: unat_sub word_le_nat_alt word_less_nat_alt)
  then show "line_of regs < 16" by (simp add: line_of_def)
  have "unat (ucast (int_no regs - 32) :: u8) = unat (int_no regs - 32) mod 256"
    by (simp add: unsigned_ucast_eq take_bit_eq_mod)
  with u show "unat (ucast (int_no regs - 32) :: u8) = line_of regs" by (simp add: line_of_def)
qed

lemma irq_dispatch_apply:
  assumes "32 \<le> int_no regs" and "int_no regs < 48"
  shows "irq_dispatch run tbl regs st =
     (let (s, io) = (case tbl (line_of regs) of Some h \<Rightarrow> run h regs st | None \<Rightarrow> st)
      in (s, pic_send_eoi (of_nat (line_of regs)) io))"
proof -
  define n where "n = (ucast (int_no regs - 32) :: u8)"
  note l = irq_num_line [OF assms, folded n_def]
  have "n < 16" using l by (simp add: word_less_nat_alt)
  moreover have "of_nat (unat n) = n" by simp
  then have "n = of_nat (line_of regs)" unfolding l(1) by (rule sym)
  ultimately show ?thesis
    using l(1) unfolding irq_dispatch_def n_def [symmetric] by (simp add: Let_def)
qed

lemma eois_outcome:
  assumes "\<And>h st. master_eois (snd (run h regs st)) = master_eois (snd st)
     \<and> slave_eois (snd (run h regs st)) = slave_eois (snd st)"
  shows "master_eois (snd (case tbl n of None \<Rightarrow> st | Some h \<Rightarrow> run h regs st)) = master_eois (snd st)"
    and "slave_eois (snd (case tbl n of None \<Rightarrow> st | Some h \<Rightarrow> run h regs st)) = slave_eois (snd st)"
  using assms by (simp_all split: option.split)

lemma line_ge_8: "n < 16 \<Longrightarrow> (of_nat n :: u8) \<ge> 8 \<longleftrightarrow> n \<ge> 8"
  by (simp add: word_le_nat_alt unat_of_nat take_bit_nat_eq_self)

text \<open>The trace after the in-service check of the two lines that can be spurious.\<close>

definition irq_checked :: "device \<Rightarrow> registers \<Rightarrow> io_trace \<Rightarrow> io_trace" where
  "irq_checked dev regs io =
     (if int_no regs = 39 then snd (pic_get_isr dev 7 io)
      else if int_no regs = 47 then snd (pic_get_isr dev 15 io) else io)"

lemma irq_checked_eois:
  "master_eois (irq_checked dev regs io) = master_eois io"
  "slave_eois (irq_checked dev regs io) = slave_eois io"
  by (simp_all add: irq_checked_def pic_get_isr_eois)

lemma irq_handler_genuine:
  "\<not> spurious dev regs io \<Longrightarrow>
     irq_handler dev run tbl regs (s, io) = irq_dispatch run tbl regs (s, irq_checked dev regs io)"
  by (auto simp: irq_handler_def spurious_def irq_checked_def split: prod.splits)

text \<open>
  Property C25. A genuine hardware interrupt on line \<open>n\<close> runs exactly the handler registered
  for \<open>n\<close>, once, and then acknowledges it: the master controller gets one end-of-interrupt
  command, and the slave one exactly for the lines 8 to 15, provided the handlers send none
  themselves.
\<close>

theorem irq_handler_acknowledges:
  assumes "32 \<le> int_no regs" and "int_no regs < 48" and "\<not> spurious dev regs io"
    and quiet: "\<And>h st. master_eois (snd (run h regs st)) = master_eois (snd st)
       \<and> slave_eois (snd (run h regs st)) = slave_eois (snd st)"
  shows "fst (irq_handler dev run tbl regs (s, io)) =
      (case tbl (line_of regs) of None \<Rightarrow> s | Some h \<Rightarrow> fst (run h regs (s, irq_checked dev regs io)))
    \<and> master_eois (snd (irq_handler dev run tbl regs (s, io))) = Suc (master_eois io)
    \<and> slave_eois (snd (irq_handler dev run tbl regs (s, io)))
        = slave_eois io + (if line_of regs \<ge> 8 then 1 else 0)"
proof -
  let ?st = "(s, irq_checked dev regs io)"
  let ?r = "case tbl (line_of regs) of None \<Rightarrow> ?st | Some h \<Rightarrow> run h regs ?st"
  have h: "irq_handler dev run tbl regs (s, io) = (fst ?r, pic_send_eoi (of_nat (line_of regs)) (snd ?r))"
    unfolding irq_handler_genuine [OF assms(3)] irq_dispatch_apply [OF assms(1,2)]
    by (simp add: case_prod_beta)
  have "master_eois (snd ?r) = master_eois io" "slave_eois (snd ?r) = slave_eois io"
    using eois_outcome [where run = run and regs = regs, OF quiet] irq_checked_eois by (metis snd_conv)+
  moreover have "fst ?r = (case tbl (line_of regs) of None \<Rightarrow> s | Some h \<Rightarrow> fst (run h regs ?st))"
    by (simp split: option.split)
  ultimately show ?thesis
    using irq_num_line(2) [OF assms(1,2)] unfolding h by (simp add: pic_send_eoi_eois line_ge_8)
qed

text \<open>A demonstration: the keyboard line with a handler that counts its calls.\<close>

definition regs_zero :: registers where
  "regs_zero = \<lparr>r_ds = 0, r_edi = 0, r_esi = 0, r_ebp = 0, r_esp = 0, r_ebx = 0, r_edx = 0, r_ecx = 0,
     r_eax = 0, int_no = 0, err_code = 0, r_eip = 0, r_cs = 0, r_eflags = 0, useresp = 0, r_ss = 0\<rparr>"

definition run_count :: "unit \<Rightarrow> registers \<Rightarrow> nat \<times> io_trace \<Rightarrow> nat \<times> io_trace" where
  "run_count h regs = (\<lambda>(n, io). (Suc n, snd (inb (\<lambda>_ _. 0x1E) 0x60 io)))"

theorem irq_handler_acknowledges_witness:
  "fst (irq_handler (\<lambda>_ _. 0) run_count [1 \<mapsto> ()] (regs_zero\<lparr>int_no := 33\<rparr>) (0, [])) = 1
     \<and> master_eois (snd (irq_handler (\<lambda>_ _. 0) run_count [1 \<mapsto> ()] (regs_zero\<lparr>int_no := 33\<rparr>) (0, []))) = 1"
proof -
  let ?r = "regs_zero\<lparr>int_no := 33\<rparr>"
  have p: "32 \<le> int_no ?r" "int_no ?r < 48" "\<not> spurious (\<lambda>_ _. 0) ?r []"
    by (simp_all add: spurious_def)
  have q: "master_eois (snd (run_count h ?r st)) = master_eois (snd st)
      \<and> slave_eois (snd (run_count h ?r st)) = slave_eois (snd st)" for h st
    by (cases st) (simp add: run_count_def master_eois_def slave_eois_def)
  have "line_of ?r = 1" by (simp add: line_of_def)
  with irq_handler_acknowledges [where run = run_count and tbl = "[1 \<mapsto> ()]" and s = 0, OF p q]
  show ?thesis by (simp add: run_count_def master_eois_def)
qed

text \<open>
  Remark. A spurious interrupt runs no handler. Spurious line 7 is not acknowledged at
  all; spurious line 15 is acknowledged at the master only, which is what the hardware needs,
  although the comment in the code says the command goes to the slave only.
\<close>

theorem irq_handler_spurious:
  assumes "spurious dev regs io"
  shows "fst (irq_handler dev run tbl regs (s, io)) = s
    \<and> slave_eois (snd (irq_handler dev run tbl regs (s, io))) = slave_eois io
    \<and> master_eois (snd (irq_handler dev run tbl regs (s, io)))
        = master_eois io + (if int_no regs = 47 then 1 else 0)"
proof -
  have "irq_handler dev run tbl regs (s, io) =
      (s, if int_no regs = 47 then pic_send_eoi 2 (irq_checked dev regs io) else irq_checked dev regs io)"
    using assms by (auto simp: spurious_def irq_handler_def irq_checked_def split: prod.splits)
  then show ?thesis by (simp add: pic_send_eoi_eois irq_checked_eois)
qed

theorem irq_handler_spurious_witness:
  "master_eois (snd (irq_handler (\<lambda>_ _. 0) run_count [15 \<mapsto> ()] (regs_zero\<lparr>int_no := 47\<rparr>) (0, []))) = 1"
proof -
  have "spurious (\<lambda>_ _. 0) (regs_zero\<lparr>int_no := 47\<rparr>) []"
    by (simp add: spurious_def pic_get_isr_def inb_def)
  from irq_handler_spurious [OF this, of run_count "[15 \<mapsto> ()]" 0] show ?thesis
    by (simp add: master_eois_def)
qed

text \<open>
  Remark. After \<open>idt_init\<close>, \<open>isr_install\<close> and \<open>irq_install\<close> every one of the 32
  exception vectors and the 16 hardware vectors leads to its own stub through a present,
  ring-0 interrupt gate with the kernel code selector; the base the processor reassembles from
  the two halves is the stub's address, and all other gates are not present.
\<close>

theorem idt_installed:
  "let t = fst (irq_install dev irq_stub (isr_install isr_stub (idt_init addr t0), io)) in
     (\<forall>i<256. gate t i =
        (if i < 32 then (isr_stub i, 0x08, 0x8E)
         else if i < 48 then (irq_stub (i - 32), 0x08, 0x8E) else (0, 0, 0)))
     \<and> (\<forall>i<256. gate_present (idt_entries t i) \<longleftrightarrow> i < 48) \<and> (\<forall>i<48. gate_dpl (idt_entries t i) = 0)"
proof -
  let ?t = "fst (irq_install dev irq_stub (isr_install isr_stub (idt_init addr t0), io))"
  have g: "gate ?t i = (if i < 32 then (isr_stub i, 0x08, 0x8E)
         else if i < 48 then (irq_stub (i - 32), 0x08, 0x8E) else (0, 0, 0))" if "i < 256" for i
    using that by (simp add: gate_irq_install gate_isr_install gate_idt_init)
  have fl: "idt_flags (idt_entries ?t i) = snd (snd (gate ?t i))" for i by (simp add: gate_def)
  have "gate_present (idt_entries ?t i) \<longleftrightarrow> i < 48" if "i < 256" for i
    by (simp add: gate_present_def fl g [OF that] bit7_iff)
  moreover have "gate_dpl (idt_entries ?t i) = 0" if "i < 48" for i
    using that by (simp add: gate_dpl_def fl g)
  ultimately show ?thesis by (simp add: Let_def g)
qed

end
