(* ===== verification/Gdt.thy ===== *)
theory Gdt
  imports Prelude
begin

text \<open>
  The segment descriptor table and the task state segment, \<^verbatim>\<open>hal/gdt.c\<close>. The link
  addresses of the table and of the task state segment are parameters. \<open>segment\<close> is what
  the processor reads from a descriptor: base, limit, access byte and flags.
\<close>

section \<open>State\<close>

record gdt_entry =
  limit_low :: u16
  base_low :: u16
  base_middle :: u8
  access :: u8
  granularity :: u8
  base_high :: u8

record tss_entry =
  prev_tss :: u32
  esp0 :: u32
  ss0 :: u32
  esp1 :: u32
  ss1 :: u32
  esp2 :: u32
  ss2 :: u32
  tss_cr3 :: u32
  tss_eip :: u32
  tss_eflags :: u32
  tss_eax :: u32
  tss_ecx :: u32
  tss_edx :: u32
  tss_ebx :: u32
  tss_esp :: u32
  tss_ebp :: u32
  tss_esi :: u32
  tss_edi :: u32
  tss_es :: u32
  tss_cs :: u32
  tss_ss :: u32
  tss_ds :: u32
  tss_fs :: u32
  tss_gs :: u32
  tss_ldt :: u32
  tss_trap :: u16
  iomap_base :: u16

record gdt =
  gdt_entries :: "nat \<Rightarrow> gdt_entry"
  gdt_limit :: u16
  gdt_base :: u32
  tss :: tss_entry
  gdt_flushed :: bool
  task_register :: u16

text \<open>\<open>sizeof(tss)\<close>: 25 double words and two words.\<close>

abbreviation sizeof_tss :: u32 where
  "sizeof_tss \<equiv> 104"

definition tss_zero :: tss_entry where
  "tss_zero = \<lparr>prev_tss = 0, esp0 = 0, ss0 = 0, esp1 = 0, ss1 = 0, esp2 = 0, ss2 = 0, tss_cr3 = 0,
     tss_eip = 0, tss_eflags = 0, tss_eax = 0, tss_ecx = 0, tss_edx = 0, tss_ebx = 0, tss_esp = 0,
     tss_ebp = 0, tss_esi = 0, tss_edi = 0, tss_es = 0, tss_cs = 0, tss_ss = 0, tss_ds = 0,
     tss_fs = 0, tss_gs = 0, tss_ldt = 0, tss_trap = 0, iomap_base = 0\<rparr>"

section \<open>Operations\<close>

definition gdt_set_gate :: "nat \<Rightarrow> u32 \<Rightarrow> u32 \<Rightarrow> u8 \<Rightarrow> u8 \<Rightarrow> gdt \<Rightarrow> gdt" where
  "gdt_set_gate num base lim acc gran g =
     (let e = gdt_entries g num;
          e = e\<lparr>base_low := ucast (base AND 0xFFFF),
                base_middle := ucast (drop_bit 16 base AND 0xFF),
                base_high := ucast (drop_bit 24 base AND 0xFF)\<rparr>;
          e = e\<lparr>limit_low := ucast (lim AND 0xFFFF),
                granularity := ucast (drop_bit 16 lim AND 0x0F)\<rparr>;
          e = e\<lparr>granularity := granularity e OR (gran AND 0xF0), access := acc\<rparr>
      in g\<lparr>gdt_entries := (gdt_entries g)(num := e)\<rparr>)"

definition write_tss :: "u32 \<Rightarrow> nat \<Rightarrow> u16 \<Rightarrow> u32 \<Rightarrow> gdt \<Rightarrow> gdt" where
  "write_tss tss_addr num s0 e0 g =
     (let t = tss_zero\<lparr>ss0 := ucast s0, esp0 := e0\<rparr>;
          t = t\<lparr>tss_cs := 0x0b, tss_ss := 0x13, tss_ds := 0x13, tss_es := 0x13, tss_fs := 0x13,
                tss_gs := 0x13\<rparr>
      in gdt_set_gate num tss_addr sizeof_tss 0xE9 0x00 (g\<lparr>tss := t\<rparr>))"

definition gdt_init :: "u32 \<Rightarrow> u32 \<Rightarrow> gdt \<Rightarrow> gdt" where
  "gdt_init entries_addr tss_addr g =
     (let g = g\<lparr>gdt_limit := 8 * 6 - 1, gdt_base := entries_addr\<rparr>;
          g = gdt_set_gate 0 0 0 0 0 g;
          g = gdt_set_gate 1 0 0xFFFFFFFF 0x9A 0xCF g;
          g = gdt_set_gate 2 0 0xFFFFFFFF 0x92 0xCF g;
          g = gdt_set_gate 3 0 0xFFFFFFFF 0xFA 0xCF g;
          g = gdt_set_gate 4 0 0xFFFFFFFF 0xF2 0xCF g;
          g = write_tss tss_addr 5 0x10 0x0 g
      in g\<lparr>gdt_flushed := True, task_register := 0x28\<rparr>)"

definition set_kernel_stack :: "u32 \<Rightarrow> gdt \<Rightarrow> gdt" where
  "set_kernel_stack stack g = g\<lparr>tss := (tss g)\<lparr>esp0 := stack\<rparr>\<rparr>"

section \<open>What the processor reads\<close>

record segment =
  seg_base :: u32
  seg_limit :: u32
  seg_access :: u8
  seg_flags :: u8

definition seg_decode :: "gdt_entry \<Rightarrow> segment" where
  "seg_decode e =
     \<lparr>seg_base = ucast (base_low e) OR push_bit 16 (ucast (base_middle e)) OR push_bit 24 (ucast (base_high e)),
      seg_limit = ucast (limit_low e) OR push_bit 16 (ucast (granularity e AND 0x0F)),
      seg_access = access e, seg_flags = granularity e AND 0xF0\<rparr>"

definition seg_dpl :: "segment \<Rightarrow> u8" where
  "seg_dpl s = drop_bit 5 (seg_access s) AND 3"

definition seg_present :: "segment \<Rightarrow> bool" where
  "seg_present s \<longleftrightarrow> bit (seg_access s) 7"

text \<open>The last byte a segment reaches: the limit counts pages when the granularity bit is set.\<close>

definition seg_top :: "segment \<Rightarrow> nat" where
  "seg_top s = unat (seg_base s) + (if bit (seg_flags s) 7 then unat (seg_limit s) * 4096 + 4095
                                    else unat (seg_limit s))"

lemma gdt_masks: "(0xFFFF :: u32) = mask 16" "(0xFF :: u32) = mask 8" "(0x0F :: u32) = mask 4"
  "(0xF0 :: u8) = NOT (mask 4)" "(0x0F :: u8) = mask 4"
  by (simp_all add: mask_eq_exp_minus_1)

lemma seg_decode_set_gate:
  "seg_decode (gdt_entries (gdt_set_gate num base lim acc gran g) num) =
     \<lparr>seg_base = base, seg_limit = take_bit 20 lim, seg_access = acc, seg_flags = gran AND 0xF0\<rparr>"
proof -
  let ?e = "gdt_entries (gdt_set_gate num base lim acc gran g) num"
  have "seg_base (seg_decode ?e) = base"
  proof (rule bit_word_eqI)
    fix n assume "n < LENGTH(32)"
    then show "bit (seg_base (seg_decode ?e)) n \<longleftrightarrow> bit base n"
      by (cases "n < 24"; cases "n < 16")
        (auto simp: seg_decode_def gdt_set_gate_def Let_def gdt_masks bit_simps)
  qed
  moreover have "seg_limit (seg_decode ?e) = take_bit 20 lim"
    by (rule bit_word_eqI) (auto simp: seg_decode_def gdt_set_gate_def Let_def gdt_masks bit_simps)
  moreover have "seg_flags (seg_decode ?e) = gran AND 0xF0"
    by (rule bit_word_eqI) (auto simp: seg_decode_def gdt_set_gate_def Let_def gdt_masks bit_simps)
  moreover have "seg_access (seg_decode ?e) = acc"
    by (simp add: seg_decode_def gdt_set_gate_def Let_def)
  ultimately show ?thesis by simp
qed

lemma gdt_set_gate_other:
  "i \<noteq> num \<Longrightarrow> gdt_entries (gdt_set_gate num base lim acc gran g) i = gdt_entries g i"
  by (simp add: gdt_set_gate_def Let_def)

lemma gdt_set_gate_frames [frame_simps]:
  "tss (gdt_set_gate num base lim acc gran g) = tss g"
  "gdt_limit (gdt_set_gate num base lim acc gran g) = gdt_limit g"
  "gdt_base (gdt_set_gate num base lim acc gran g) = gdt_base g"
  by (simp_all add: gdt_set_gate_def Let_def)

text \<open>
  Remark. Storing a segment in a descriptor splits its base over three fields and its
  limit over two; the processor reassembles exactly the base, the low 20 bits of the limit,
  the access byte and the flags given, and no other descriptor changes.
\<close>

theorem gdt_gate_roundtrip:
  "seg_decode (gdt_entries (gdt_set_gate num base lim acc gran g) num) =
      \<lparr>seg_base = base, seg_limit = take_bit 20 lim, seg_access = acc, seg_flags = gran AND 0xF0\<rparr>
   \<and> (\<forall>i. i \<noteq> num \<longrightarrow> gdt_entries (gdt_set_gate num base lim acc gran g) i = gdt_entries g i)"
  by (simp add: seg_decode_set_gate gdt_set_gate_other)

theorem gdt_gate_roundtrip_witness:
  "\<forall>g. seg_base (seg_decode (gdt_entries (gdt_set_gate 5 0x12345678 104 0xE9 0 g) 5)) = 0x12345678"
  by (simp add: gdt_gate_roundtrip)

text \<open>
  Remark. \<open>gdt_init\<close> leaves flat segments over all 4 GiB, the kernel's in ring 0 and the
  user's in ring 3, and a present task state segment whose ring-0 stack is in the kernel data
  segment. Two details differ from what the code says or intends: the comment gives the TSS
  descriptor privilege level 0, but the access byte \<open>0xE9\<close> has level 3; and the TSS limit is
  the size of the structure, one more than the offset of its last byte.
\<close>

theorem gdt_init_segments:
  "let g' = gdt_init entries_addr tss_addr g; seg = (\<lambda>i. seg_decode (gdt_entries g' i)) in
     (\<forall>i\<in>{1, 2, 3, 4}. seg_present (seg i) \<and> seg_base (seg i) = 0 \<and> seg_top (seg i) = 2 ^ 32 - 1)
     \<and> seg_dpl (seg 1) = 0 \<and> seg_dpl (seg 2) = 0 \<and> seg_dpl (seg 3) = 3 \<and> seg_dpl (seg 4) = 3
     \<and> \<not> seg_present (seg 0)
     \<and> seg_base (seg 5) = tss_addr \<and> seg_dpl (seg 5) = 3 \<and> seg_limit (seg 5) = sizeof_tss
     \<and> ss0 (tss g') = 0x10 \<and> esp0 (tss (set_kernel_stack k g')) = k"
proof -
  let ?g = "gdt_init entries_addr tss_addr g"
  have e: "gdt_entries (g\<lparr>gdt_flushed := b, task_register := r\<rparr>) = gdt_entries g"
    "gdt_entries (g\<lparr>tss := t\<rparr>) = gdt_entries g" for g b r t by simp_all
  have top: "unat (take_bit 20 (0xFFFFFFFF :: u32)) = 1048575" by (simp add: take_bit_eq_mask mask_eq_exp_minus_1)
  have s0: "seg_decode (gdt_entries ?g 0) = \<lparr>seg_base = 0, seg_limit = 0, seg_access = 0, seg_flags = 0\<rparr>"
    by (simp add: gdt_init_def write_tss_def Let_def gdt_set_gate_other seg_decode_set_gate)
  have s: "seg_decode (gdt_entries ?g 1) = \<lparr>seg_base = 0, seg_limit = take_bit 20 0xFFFFFFFF, seg_access = 0x9A, seg_flags = 0xC0\<rparr>"
    "seg_decode (gdt_entries ?g 2) = \<lparr>seg_base = 0, seg_limit = take_bit 20 0xFFFFFFFF, seg_access = 0x92, seg_flags = 0xC0\<rparr>"
    "seg_decode (gdt_entries ?g 3) = \<lparr>seg_base = 0, seg_limit = take_bit 20 0xFFFFFFFF, seg_access = 0xFA, seg_flags = 0xC0\<rparr>"
    "seg_decode (gdt_entries ?g 4) = \<lparr>seg_base = 0, seg_limit = take_bit 20 0xFFFFFFFF, seg_access = 0xF2, seg_flags = 0xC0\<rparr>"
    "seg_decode (gdt_entries ?g 5) = \<lparr>seg_base = tss_addr, seg_limit = take_bit 20 sizeof_tss, seg_access = 0xE9, seg_flags = 0\<rparr>"
    by (simp_all add: gdt_init_def write_tss_def Let_def gdt_set_gate_other seg_decode_set_gate)
  have "ss0 (tss ?g) = 0x10"
    by (simp add: gdt_init_def write_tss_def Let_def frame_simps)
  then show ?thesis
    unfolding Let_def
    by (simp add: s [unfolded One_nat_def] s0 top seg_present_def seg_dpl_def seg_top_def bit7_iff set_kernel_stack_def drop_bit_eq_div)
qed

end
