(* ===== verification/Faults.thy ===== *)
theory Faults
  imports Console Interrupts
begin

text \<open>
  Fatal faults: the panic screen of \<^verbatim>\<open>core/panic.c\<close> with its register dump and stack
  trace, and the page fault handler of \<^verbatim>\<open>mm/paging.c\<close>. \<open>mem\<close> reads a 32-bit word of
  memory; it is total, while the walk admits addresses up to 256 MiB, of which only 16 MiB are
  mapped, so the results hold for stacks in mapped memory: elsewhere the read itself faults.
  \<open>ebp\<close> and \<open>cr2\<close> stand for the machine registers the code reads, \<open>file\<close> for the
  compiler's \<open>__FILE__\<close>. All of them end in an endless \<open>hlt\<close> loop, the outcome \<open>Halted\<close>.
\<close>

section \<open>The panic screen\<close>

definition trace_heading :: "out list" where
  "trace_heading = [NL, Str ''Stack Trace:'', NL, Str ''------------'', NL]"

definition trace_line :: "u32 \<Rightarrow> u32 \<Rightarrow> out list" where
  "trace_line frame eip = [Str ''  ['', Dec frame, Str ''] 0x'', Hex eip, NL]"

fun trace_loop :: "(ptr \<Rightarrow> u32) \<Rightarrow> ptr \<Rightarrow> u32 \<Rightarrow> nat \<Rightarrow> monitor \<Rightarrow> monitor" where
  "trace_loop mem ebp frame 0 con = con"
| "trace_loop mem ebp frame (Suc left) con =
     (if ebp = 0 then con
      else let eip = mem (ebp + 4) in
        if eip = 0 then con
        else let con = print_all (trace_line frame eip) con;
                 ebp' = mem ebp
             in if ebp' < 0x1000 \<or> ebp' > 0x10000000 then con
                else trace_loop mem ebp' (frame + 1) left con)"

definition print_stack_trace :: "(ptr \<Rightarrow> u32) \<Rightarrow> ptr \<Rightarrow> int \<Rightarrow> monitor \<Rightarrow> monitor" where
  "print_stack_trace mem ebp max_frames con =
     trace_loop mem ebp 0 (nat max_frames) (print_all trace_heading con)"

definition dump_registers :: "registers \<Rightarrow> monitor \<Rightarrow> monitor" where
  "dump_registers regs = print_all
     [NL, Str ''Register Dump:'', NL, Str ''--------------'', NL,
      Str ''EAX=0x'', Hex (r_eax regs), Str '' EBX=0x'', Hex (r_ebx regs),
      Str '' ECX=0x'', Hex (r_ecx regs), Str '' EDX=0x'', Hex (r_edx regs), NL,
      Str ''ESI=0x'', Hex (r_esi regs), Str '' EDI=0x'', Hex (r_edi regs),
      Str '' EBP=0x'', Hex (r_ebp regs), Str '' ESP=0x'', Hex (r_esp regs), NL,
      Str ''EIP=0x'', Hex (r_eip regs), Str '' EFLAGS=0x'', Hex (r_eflags regs), NL,
      Str ''CS=0x'', Hex (r_cs regs), Str '' DS=0x'', Hex (r_ds regs), Str '' SS=0x'', Hex (r_ss regs), NL]"

definition rule_line :: out where
  "rule_line = Str ''=====================================''"

definition kernel_panic ::
  "(ptr \<Rightarrow> u32) \<Rightarrow> ptr \<Rightarrow> string \<Rightarrow> u8 list \<Rightarrow> u32 \<Rightarrow> 's \<times> monitor \<Rightarrow> ('s \<times> monitor) outcome" where
  "kernel_panic mem ebp message file line = (\<lambda>(s, con).
     (let con = print_all
            [NL, NL, rule_line, NL, Str ''!!!   KERNEL PANIC   !!!'', NL, rule_line, NL, NL,
             Str ''Message: '', Str message, NL,
             Str ''Location: '', Bytes file, Str '':'', Dec line, NL] con;
          con = print_stack_trace mem ebp 10 con
      in Halted (s, print_all [NL, rule_line, NL, Str ''System Halted.'', NL, rule_line, NL] con)))"

text \<open>
  The checking macros of \<^verbatim>\<open>core/panic.h\<close> and \<^verbatim>\<open>core/assert.h\<close>: statements that go on when the
  condition holds. \<open>expr\<close> is the text of the condition, which the preprocessor inserts.
\<close>

definition PANIC ::
  "(ptr \<Rightarrow> u32) \<Rightarrow> ptr \<Rightarrow> u8 list \<Rightarrow> u32 \<Rightarrow> string \<Rightarrow> 's \<times> monitor \<Rightarrow> ('s \<times> monitor) outcome" where
  "PANIC mem ebp file line msg st = kernel_panic mem ebp msg file line st"

definition ASSERT ::
  "(ptr \<Rightarrow> u32) \<Rightarrow> ptr \<Rightarrow> u8 list \<Rightarrow> u32 \<Rightarrow> bool \<Rightarrow> string \<Rightarrow> 's \<times> monitor \<Rightarrow> ('s \<times> monitor) outcome" where
  "ASSERT mem ebp file line condition expr st =
     (if \<not> condition then kernel_panic mem ebp (''Assertion failed: '' @ expr) file line st else Returned st)"

definition KASSERT ::
  "(ptr \<Rightarrow> u32) \<Rightarrow> ptr \<Rightarrow> u8 list \<Rightarrow> u32 \<Rightarrow> bool \<Rightarrow> string \<Rightarrow> 's \<times> monitor \<Rightarrow> ('s \<times> monitor) outcome" where
  "KASSERT mem ebp file line condition expr st =
     (if \<not> condition then PANIC mem ebp file line (''Assertion failed: '' @ expr) st else Returned st)"

definition VERIFY ::
  "(ptr \<Rightarrow> u32) \<Rightarrow> ptr \<Rightarrow> u8 list \<Rightarrow> u32 \<Rightarrow> bool \<Rightarrow> string \<Rightarrow> 's \<times> monitor \<Rightarrow> ('s \<times> monitor) outcome" where
  "VERIFY mem ebp file line condition msg st =
     (if \<not> condition then PANIC mem ebp file line msg st else Returned st)"

section \<open>Exception handlers\<close>

record machine =
  mem_word :: "ptr \<Rightarrow> u32"
  panic_ebp :: ptr
  cr2 :: u32
  panic_file :: "u8 list"

definition division_error_handler ::
  "machine \<Rightarrow> registers \<Rightarrow> 's \<times> monitor \<Rightarrow> ('s \<times> monitor) outcome" where
  "division_error_handler m regs = (\<lambda>(s, con).
     (let con = print_all
            [NL, NL, Str ''!!! DIVISION BY ZERO !!!'', NL, Str ''========================='', NL,
             Str ''EIP: 0x'', Hex (r_eip regs), NL] con;
          con = print_stack_trace (mem_word m) (r_ebp regs) 10 (dump_registers regs con)
      in kernel_panic (mem_word m) (panic_ebp m) ''Division by zero exception'' (panic_file m) 107 (s, con)))"

definition general_protection_fault_handler ::
  "machine \<Rightarrow> registers \<Rightarrow> 's \<times> monitor \<Rightarrow> ('s \<times> monitor) outcome" where
  "general_protection_fault_handler m regs = (\<lambda>(s, con).
     (let con = print_all
            [NL, NL, Str ''!!! GENERAL PROTECTION FAULT !!!'', NL,
             Str ''================================='', NL,
             Str ''Error Code: 0x'', Hex (err_code regs), NL, Str ''EIP: 0x'', Hex (r_eip regs), NL] con;
          con = (if err_code regs AND 1 \<noteq> 0 then print_all [Str ''External event'', NL] con else con);
          sel = drop_bit 3 (err_code regs);
          con = print_all [Str ''Selector: 0x'', Hex sel, NL] con;
          con = print_stack_trace (mem_word m) (r_ebp regs) 10 (dump_registers regs con)
      in kernel_panic (mem_word m) (panic_ebp m) ''General protection fault'' (panic_file m) 136 (s, con)))"

definition double_fault_handler ::
  "machine \<Rightarrow> registers \<Rightarrow> 's \<times> monitor \<Rightarrow> ('s \<times> monitor) outcome" where
  "double_fault_handler m regs = (\<lambda>(s, con).
     (let con = print_all
            [NL, NL, Str ''!!! DOUBLE FAULT !!!'', NL, Str ''====================='', NL,
             Str ''This usually means the kernel stack is corrupted.'', NL,
             Str ''Error Code: 0x'', Hex (err_code regs), NL] con
      in kernel_panic (mem_word m) (panic_ebp m) ''Double fault exception'' (panic_file m) 151
           (s, dump_registers regs con)))"

text \<open>The page fault handler decodes the five low bits of the error code.\<close>

text \<open>The error code of a page fault, read through a structure of bit fields.\<close>

record page_fault_error =
  pf_present :: bool
  pf_write :: bool
  pf_user :: bool
  pf_reserved :: bool
  pf_inst_fetch :: bool

definition fault_error :: "u32 \<Rightarrow> page_fault_error" where
  "fault_error code =
     \<lparr>pf_present = bit code 0, pf_write = bit code 1, pf_user = bit code 2, pf_reserved = bit code 3,
      pf_inst_fetch = bit code 4\<rparr>"

definition page_fault_text :: "u32 \<Rightarrow> u32 \<Rightarrow> out list" where
  "page_fault_text error_code faulting_addr =
     (let error = fault_error error_code in
     [NL, NL, Str ''!!! PAGE FAULT !!!'', NL, Str ''Address: 0x'', Hex faulting_addr, NL, Str ''Error: '']
     @ (if \<not> pf_present error then [Str ''Page not present ''] else [])
     @ (if pf_write error then [Str ''Write access ''] else [Str ''Read access ''])
     @ (if pf_user error then [Str ''User mode ''] else [Str ''Supervisor mode ''])
     @ (if pf_reserved error then [Str ''Reserved bit ''] else [])
     @ (if pf_inst_fetch error then [Str ''Instruction fetch ''] else [])
     @ [NL, Str ''System halted.'', NL])"

definition page_fault_handler_internal ::
  "u32 \<Rightarrow> u32 \<Rightarrow> 's \<times> monitor \<Rightarrow> ('s \<times> monitor) outcome" where
  "page_fault_handler_internal error_code faulting_addr = (\<lambda>(s, con).
     Halted (s, print_all (page_fault_text error_code faulting_addr) con))"

definition page_fault_handler ::
  "machine \<Rightarrow> registers \<Rightarrow> 's \<times> monitor \<Rightarrow> ('s \<times> monitor) outcome" where
  "page_fault_handler m regs = (let faulting_addr = cr2 m in page_fault_handler_internal (err_code regs) faulting_addr)"

lemma page_fault_halts [simp]:
  "page_fault_handler m regs (s, con) = Halted (s, print_all (page_fault_text (err_code regs) (cr2 m)) con)"
  by (simp add: page_fault_handler_def page_fault_handler_internal_def)

text \<open>The handlers \<open>kernel_main\<close> and \<open>paging_init\<close> register, by name.\<close>

datatype exception_handler = Division_error | Double_fault | General_protection | Page_fault

fun run_exception ::
  "machine \<Rightarrow> exception_handler \<Rightarrow> registers \<Rightarrow> 's \<times> monitor \<Rightarrow> ('s \<times> monitor) outcome" where
  "run_exception m Division_error regs st = division_error_handler m regs st"
| "run_exception m Double_fault regs st = double_fault_handler m regs st"
| "run_exception m General_protection regs st = general_protection_fault_handler m regs st"
| "run_exception m Page_fault regs st = page_fault_handler m regs st"

definition boot_exceptions :: "exception_handler handlers" where
  "boot_exceptions =
     isr_register_handler 14 Page_fault (isr_register_handler 13 General_protection
       (isr_register_handler 8 Double_fault (isr_register_handler 0 Division_error (\<lambda>_. None))))"

section \<open>The stack walk\<close>

text \<open>A chain of stack frames: each links to the next, the last to an address the walk rejects.\<close>

fun frame_chain :: "(ptr \<Rightarrow> u32) \<Rightarrow> ptr list \<Rightarrow> bool" where
  "frame_chain mem [] = True"
| "frame_chain mem [f] = (f \<noteq> 0 \<and> mem (f + 4) \<noteq> 0 \<and> (mem f < 0x1000 \<or> mem f > 0x10000000))"
| "frame_chain mem (f # g # fs) = (f \<noteq> 0 \<and> mem (f + 4) \<noteq> 0 \<and> mem f = g
     \<and> 0x1000 \<le> g \<and> g \<le> 0x10000000 \<and> frame_chain mem (g # fs))"

fun trace_lines :: "u32 \<Rightarrow> u32 list \<Rightarrow> out list" where
  "trace_lines k [] = []"
| "trace_lines k (eip # eips) = trace_line k eip @ trace_lines (k + 1) eips"

lemma trace_loop_chain:
  "frame_chain mem fs \<Longrightarrow> fs \<noteq> [] \<Longrightarrow>
     trace_loop mem (hd fs) k n con = print_all (trace_lines k (take n (List.map (\<lambda>f. mem (f + 4)) fs))) con"
proof (induction n arbitrary: fs k con)
  case (Suc n)
  then obtain f gs where f: "fs = f # gs" by (cases fs) auto
  show ?case
  proof (cases gs)
    case Nil
    with Suc.prems show ?thesis by (auto simp: f Let_def)
  next
    case (Cons g hs)
    with Suc.prems have "frame_chain mem (g # hs)" "mem f = g" "\<not> g < 0x1000" "\<not> g > 0x10000000"
        "f \<noteq> 0" "mem (f + 4) \<noteq> 0" by (auto simp: f not_less)
    with Suc.IH [of "g # hs"] show ?thesis by (simp add: f Cons Let_def)
  qed
qed simp

lemma trace_loop_lines:
  "\<exists>eips. length eips \<le> n \<and> 0 \<notin> set eips \<and> trace_loop mem ebp k n con = print_all (trace_lines k eips) con"
proof (induction n arbitrary: ebp k con)
  case 0
  show ?case by (rule exI [of _ "[]"]) simp
next
  case (Suc n)
  obtain eips where e: "length eips \<le> n" "0 \<notin> set eips"
      "trace_loop mem (mem ebp) (k + 1) n
         (print_all (trace_line k (mem (ebp + 4))) con) =
       print_all (trace_lines (k + 1) eips)
         (print_all (trace_line k (mem (ebp + 4))) con)"
    using Suc.IH by blast
  consider "ebp = 0 \<or> mem (ebp + 4) = 0"
    | "ebp \<noteq> 0 \<and> mem (ebp + 4) \<noteq> 0 \<and> (mem ebp < 0x1000 \<or> mem ebp > 0x10000000)"
    | "ebp \<noteq> 0 \<and> mem (ebp + 4) \<noteq> 0 \<and> \<not> (mem ebp < 0x1000 \<or> mem ebp > 0x10000000)" by blast
  then show ?case
  proof cases
    case 1
    then show ?thesis by (intro exI [of _ "[]"]) (auto simp: Let_def)
  next
    case 2
    then show ?thesis by (intro exI [of _ "[mem (ebp + 4)]"]) (auto simp: Let_def)
  next
    case 3
    with e show ?thesis by (intro exI [of _ "mem (ebp + 4) # eips"]) (simp add: Let_def)
  qed
qed

lemma print_stack_trace_inv [inv_intros]: "monitor_inv con \<Longrightarrow> monitor_inv (print_stack_trace mem ebp n con)"
  using trace_loop_lines [of "nat n" mem ebp 0] unfolding print_stack_trace_def
  by (metis print_all_inv)

lemma dump_registers_inv [inv_intros]: "monitor_inv con \<Longrightarrow> monitor_inv (dump_registers regs con)"
  unfolding dump_registers_def by (rule inv_intros)

lemma kernel_panic_halts:
  "monitor_inv con \<Longrightarrow>
     \<exists>con'. kernel_panic mem ebp msg file line (s, con) = Halted (s, con') \<and> monitor_inv con'"
  unfolding kernel_panic_def by (auto simp: Let_def intro!: inv_intros)

lemma handler_halts:
  assumes "monitor_inv con"
  shows "\<exists>con'. run_exception m h regs (s, con) = Halted (s, con') \<and> monitor_inv con'"
proof -
  have if_inv: "monitor_inv (if b then print_all os c else c)" if "monitor_inv c" for b os c
    using that by (simp add: inv_intros)
  show ?thesis
  proof (cases h)
    case Page_fault
    with assms show ?thesis by (simp add: inv_intros)
  qed (simp_all only: run_exception.simps division_error_handler_def double_fault_handler_def
      general_protection_fault_handler_def Let_def prod.case,
      (intro kernel_panic_halts inv_intros if_inv assms)+)
qed

section \<open>Properties\<close>

text \<open>
  Property C28. The stack trace of a chain of linked frames prints, under its heading, one
  numbered line per frame with the frame's return address, innermost first, and at most
  \<open>max_frames\<close> of them; on arbitrary memory it still stops after at most \<open>max_frames\<close> lines.
\<close>

theorem stack_trace_correct:
  "(frame_chain mem (f # fs) \<longrightarrow>
      print_stack_trace mem f n con =
        print_all (trace_heading
          @ trace_lines 0 (take (nat n) (List.map (\<lambda>f. mem (f + 4)) (f # fs)))) con)
   \<and> (\<exists>eips. length eips \<le> nat n \<and> 0 \<notin> set eips \<and>
        print_stack_trace mem ebp n con =
          print_all (trace_heading @ trace_lines 0 eips) con)"
  using trace_loop_chain [of mem "f # fs" 0 "nat n"] trace_loop_lines [of "nat n" mem ebp 0]
  unfolding print_stack_trace_def by simp

definition stack_demo :: "ptr \<Rightarrow> u32" where
  "stack_demo = (\<lambda>_. 0)(0x2000 := 0x2040, 0x2004 := 0x100123, 0x2040 := 0, 0x2044 := 0x100456)"

theorem stack_trace_correct_witness:
  "\<forall>con. print_stack_trace stack_demo 0x2000 10 con =
     print_all (trace_heading @ trace_lines 0 [0x100123, 0x100456]) con"
proof
  fix con
  have "frame_chain stack_demo [0x2000, 0x2040]" by (simp add: stack_demo_def)
  with stack_trace_correct [of stack_demo "0x2000" "[0x2040]" 10 con 0]
  show "print_stack_trace stack_demo 0x2000 10 con =
      print_all (trace_heading @ trace_lines 0 [0x100123, 0x100456]) con"
    by (simp add: stack_demo_def)
qed

text \<open>
  Remark. The checking macros do nothing when their condition holds, and otherwise stop the machine
  in a panic whose message names the condition, or is the one given.
\<close>

theorem checks_correct:
  shows "condition \<Longrightarrow> ASSERT mem ebp file line condition expr st = Returned st
       \<and> KASSERT mem ebp file line condition expr st = Returned st
       \<and> VERIFY mem ebp file line condition msg st = Returned st"
    and "\<not> condition \<Longrightarrow> monitor_inv (snd st) \<Longrightarrow>
       \<exists>con. monitor_inv con \<and> VERIFY mem ebp file line condition (''Assertion failed: '' @ expr) st = Halted (fst st, con)
         \<and> ASSERT mem ebp file line condition expr st = Halted (fst st, con)
         \<and> KASSERT mem ebp file line condition expr st = Halted (fst st, con)"
  by (auto simp: ASSERT_def KASSERT_def VERIFY_def PANIC_def) (metis kernel_panic_halts prod.collapse)

theorem checks_correct_witness:
  "ASSERT stack_demo 0x2000 [] 1 (1 = (1 :: nat)) ''1 == 1'' ((), monitor_demo) = Returned ((), monitor_demo)"
  by (rule conjunct1 [OF checks_correct(1)]) simp

text \<open>
  Remark. No processor exception ever returns to the code that raised it: with the
  handlers the kernel registers, every vector ends in a halt, with the rest of the state
  untouched and the console invariant intact.
\<close>

theorem exceptions_halt:
  assumes "monitor_inv con"
  shows "\<exists>con'. isr_handler (run_exception m) boot_exceptions regs (s, con) = Halted (s, con')
     \<and> monitor_inv con'"
proof (cases "boot_exceptions (unat (int_no regs))")
  case None
  have "monitor_inv (print_exception regs con)"
    unfolding print_exception_def Let_def by (intro inv_intros assms)
  with None show ?thesis by (simp add: isr_handler_def)
next
  case (Some h)
  with handler_halts [OF assms] show ?thesis by (simp add: isr_handler_def)
qed

theorem exceptions_halt_witness:
  "\<exists>con'. isr_handler (run_exception \<lparr>mem_word = stack_demo, panic_ebp = 0x2000, cr2 = 0, panic_file = []\<rparr>)
       boot_exceptions (regs_zero\<lparr>int_no := 13\<rparr>) ((), monitor_demo) = Halted ((), con')"
  using exceptions_halt [OF monitor_demo_inv(1), of _ _ "()"] by blast

end
