(* ===== verification/Process.thy ===== *)
theory Process
  imports Heap Interrupts
begin

text \<open>
  Processes, \<^verbatim>\<open>proc/process.c\<close> and \<^verbatim>\<open>process.h\<close>: a table of 64 pointers to process
  records on the kernel heap. \<open>procs\<close> is the store behind those pointers; \<open>kmalloc\<close> and
  \<open>kfree\<close> are the heap component's. The heap loops may diverge on a broken heap, so the
  operations return an option. Live processes and their stacks occupy distinct heap blocks
  (\<open>proc_inv\<close>).
\<close>

section \<open>State\<close>

datatype process_state = PROCESS_READY | PROCESS_RUNNING | PROCESS_BLOCKED | PROCESS_TERMINATED

record process =
  pid :: u32
  proc_name :: "u8 list"
  proc_state :: process_state
  proc_regs :: registers
  kernel_stack :: u32
  created_at :: u32
  cpu_time :: u32
  proc_next :: ptr

record kernel =
  kheap :: heap
  con :: monitor
  procs :: "ptr \<Rightarrow> process"
  process_table :: "nat \<Rightarrow> ptr"
  next_pid :: u32
  current_process :: ptr
  system_ticks :: u32
  ready_queue_head :: ptr
  ready_queue_tail :: ptr
  slice_ticks :: u32
  switches :: "(ptr \<times> ptr) list"

abbreviation MAX_PROCESSES :: nat where
  "MAX_PROCESSES \<equiv> 64"

abbreviation KERNEL_STACK_SIZE :: u32 where
  "KERNEL_STACK_SIZE \<equiv> 4096"

text \<open>
  \<open>sizeof(process_t)\<close>: pid, 32 bytes of name, state, 16 registers, and four more words.
\<close>

abbreviation sizeof_process :: u32 where
  "sizeof_process \<equiv> 120"

text \<open>The record after \<open>memset(proc, 0, sizeof(process_t))\<close>.\<close>

definition process_zero :: process where
  "process_zero = \<lparr>pid = 0, proc_name = replicate 32 0, proc_state = PROCESS_READY,
     proc_regs = regs_zero, kernel_stack = 0, created_at = 0, cpu_time = 0, proc_next = 0\<rparr>"

definition set_proc :: "ptr \<Rightarrow> process \<Rightarrow> kernel \<Rightarrow> kernel" where
  "set_proc p r s = s\<lparr>procs := (procs s)(p := r)\<rparr>"

definition say :: "u8 list \<Rightarrow> kernel \<Rightarrow> kernel" where
  "say msg s = s\<lparr>con := print_string msg (con s)\<rparr>"

definition say_dec :: "u32 \<Rightarrow> kernel \<Rightarrow> kernel" where
  "say_dec n s = s\<lparr>con := print_dec n (con s)\<rparr>"

definition timer_get_ticks :: "kernel \<Rightarrow> u32" where
  "timer_get_ticks s = system_ticks s"

text \<open>
  The 32-byte name field after \<open>strncpy(name, s, 31); name[31] = 0\<close>, which copies the string
  up to its terminator and pads with zeros.
\<close>

definition name_field :: "u8 list \<Rightarrow> u8 list" where
  "name_field nm = take 31 (takeWhile (\<lambda>c. c \<noteq> 0) nm @ replicate 31 0) @ [0]"

section \<open>Operations\<close>

definition process_init :: "kernel \<Rightarrow> kernel option" where
  "process_init s =
     (let s = s\<lparr>process_table := (\<lambda>i. if i < MAX_PROCESSES then 0 else process_table s i)\<rparr> in
      (case kmalloc sizeof_process (kheap s) of
         None \<Rightarrow> None
       | Some (p, h) \<Rightarrow>
           (let s = s\<lparr>kheap := h, current_process := p\<rparr>;
                r = process_zero\<lparr>pid := next_pid s\<rparr>;
                s = s\<lparr>next_pid := next_pid s + 1\<rparr>;
                r = r\<lparr>proc_name := name_field (chars ''idle''), proc_state := PROCESS_RUNNING,
                      created_at := timer_get_ticks s, cpu_time := 0, proc_next := 0\<rparr>;
                s = set_proc p r s
            in Some (s\<lparr>process_table := (process_table s)(0 := p)\<rparr>))))"

text \<open>The first free slot of the table, as the loop at the end of \<open>process_create\<close> finds it.\<close>

fun insert_slot :: "ptr \<Rightarrow> nat list \<Rightarrow> (nat \<Rightarrow> ptr) \<Rightarrow> (nat \<Rightarrow> ptr)" where
  "insert_slot p [] tbl = tbl"
| "insert_slot p (i # is) tbl = (if tbl i = 0 then tbl(i := p) else insert_slot p is tbl)"

fun clear_slot :: "ptr \<Rightarrow> nat list \<Rightarrow> (nat \<Rightarrow> ptr) \<Rightarrow> (nat \<Rightarrow> ptr)" where
  "clear_slot p [] tbl = tbl"
| "clear_slot p (i # is) tbl = (if tbl i = p then tbl(i := 0) else clear_slot p is tbl)"

definition new_process :: "u8 list \<Rightarrow> u32 \<Rightarrow> ptr \<Rightarrow> kernel \<Rightarrow> process" where
  "new_process nm entry_point stack s =
     (let r = process_zero\<lparr>pid := next_pid s, proc_name := name_field nm,
                proc_state := PROCESS_READY, created_at := timer_get_ticks s, cpu_time := 0,
                kernel_stack := stack + KERNEL_STACK_SIZE\<rparr>
      in r\<lparr>proc_regs := regs_zero\<lparr>r_eip := entry_point, r_cs := 0x08, r_ds := 0x10,
              r_eflags := 0x202, useresp := kernel_stack r, r_ss := 0x10\<rparr>, proc_next := 0\<rparr>)"

definition announce :: "string \<Rightarrow> process \<Rightarrow> kernel \<Rightarrow> kernel" where
  "announce what r s =
     say (chars '')'' @ newline) (say_dec (pid r) (say (chars '' (PID '') (say (proc_name r) (say (chars what) s))))"

definition process_create :: "u8 list \<Rightarrow> u32 \<Rightarrow> kernel \<Rightarrow> (ptr \<times> kernel) option" where
  "process_create nm entry_point s =
     (if next_pid s \<ge> of_nat MAX_PROCESSES
      then Some (0, say (chars ''[PROC] Error: Process table full'' @ newline) s)
      else (case kmalloc sizeof_process (kheap s) of
         None \<Rightarrow> None
       | Some (p, h1) \<Rightarrow>
           (if p = 0
            then Some (0, say (chars ''[PROC] Error: Failed to allocate process'' @ newline) (s\<lparr>kheap := h1\<rparr>))
            else let s1 = set_proc p process_zero (s\<lparr>kheap := h1\<rparr>) in
              (case kmalloc KERNEL_STACK_SIZE (kheap s1) of
                 None \<Rightarrow> None
               | Some (stack, h2) \<Rightarrow>
                   (if stack = 0
                    then map_option (\<lambda>h3. (0, say (chars ''[PROC] Error: Failed to allocate stack'' @ newline)
                                                  (s1\<lparr>kheap := h3\<rparr>))) (kfree p h2)
                    else let r = new_process nm entry_point stack s1;
                             s2 = set_proc p r (s1\<lparr>kheap := h2, next_pid := next_pid s1 + 1\<rparr>);
                             s3 = s2\<lparr>process_table := insert_slot p [0..<MAX_PROCESSES] (process_table s2)\<rparr>
                         in Some (p, announce ''[PROC] Created process: '' r s3))))))"

definition process_terminate :: "ptr \<Rightarrow> kernel \<Rightarrow> kernel option" where
  "process_terminate p s =
     (if p = 0 then Some s
      else let r = (procs s p)\<lparr>proc_state := PROCESS_TERMINATED\<rparr>;
               s1 = announce ''[PROC] Process terminated: '' r (set_proc p r s);
               s2 = s1\<lparr>process_table := clear_slot p [0..<MAX_PROCESSES] (process_table s1)\<rparr>
           in (case (if kernel_stack r \<noteq> 0 then kfree (kernel_stack r - KERNEL_STACK_SIZE) (kheap s2)
                     else Some (kheap s2)) of
                 None \<Rightarrow> None
               | Some h \<Rightarrow> map_option (\<lambda>h'. s2\<lparr>kheap := h'\<rparr>) (kfree p h)))"

definition process_get_current :: "kernel \<Rightarrow> ptr" where
  "process_get_current s = current_process s"

definition state_label :: "process_state \<Rightarrow> string" where
  "state_label st = (case st of PROCESS_READY \<Rightarrow> ''READY   '' | PROCESS_RUNNING \<Rightarrow> ''RUNNING ''
     | PROCESS_BLOCKED \<Rightarrow> ''BLOCKED '' | PROCESS_TERMINATED \<Rightarrow> ''DEAD    '')"

text \<open>\<open>process_list\<close> prints one line per process; the name is padded to 18 columns.\<close>

definition list_line :: "process \<Rightarrow> kernel \<Rightarrow> kernel" where
  "list_line r s =
     (let s = (if pid r < 10 then say (chars '' '') s else s);
          s = say (proc_name r) (say (chars ''  '') (say_dec (pid r) s));
          s = say (replicate (18 - length (takeWhile (\<lambda>c. c \<noteq> 0) (proc_name r))) 0x20) s;
          s = say (chars (state_label (proc_state r))) s
      in say (chars '' ticks'' @ newline) (say_dec (cpu_time r) s))"

definition process_list :: "kernel \<Rightarrow> kernel" where
  "process_list s =
     fold (\<lambda>i s. if process_table s i \<noteq> 0 then list_line (procs s (process_table s i)) s else s)
       [0..<MAX_PROCESSES] s"

section \<open>Frames\<close>

lemma say_frames [frame_simps]:
  "kheap (say m s) = kheap s" "procs (say m s) = procs s" "process_table (say m s) = process_table s"
  "next_pid (say m s) = next_pid s" "current_process (say m s) = current_process s"
  "system_ticks (say m s) = system_ticks s" "ready_queue_head (say m s) = ready_queue_head s"
  "ready_queue_tail (say m s) = ready_queue_tail s" "slice_ticks (say m s) = slice_ticks s"
  "switches (say m s) = switches s"
  "kheap (say_dec n s) = kheap s" "procs (say_dec n s) = procs s"
  "process_table (say_dec n s) = process_table s"
  "next_pid (say_dec n s) = next_pid s" "current_process (say_dec n s) = current_process s"
  "system_ticks (say_dec n s) = system_ticks s" "ready_queue_head (say_dec n s) = ready_queue_head s"
  "ready_queue_tail (say_dec n s) = ready_queue_tail s" "slice_ticks (say_dec n s) = slice_ticks s"
  "switches (say_dec n s) = switches s"
  by (simp_all add: say_def say_dec_def)

lemma announce_frames [frame_simps]:
  "kheap (announce w r s) = kheap s" "procs (announce w r s) = procs s"
  "process_table (announce w r s) = process_table s" "next_pid (announce w r s) = next_pid s"
  "current_process (announce w r s) = current_process s" "system_ticks (announce w r s) = system_ticks s"
  "ready_queue_head (announce w r s) = ready_queue_head s"
  "ready_queue_tail (announce w r s) = ready_queue_tail s" "slice_ticks (announce w r s) = slice_ticks s"
  "switches (announce w r s) = switches s"
  by (simp_all add: announce_def frame_simps)

lemma set_proc_frames [frame_simps]:
  "kheap (set_proc p r s) = kheap s" "process_table (set_proc p r s) = process_table s"
  "next_pid (set_proc p r s) = next_pid s" "current_process (set_proc p r s) = current_process s"
  "system_ticks (set_proc p r s) = system_ticks s" "ready_queue_head (set_proc p r s) = ready_queue_head s"
  "ready_queue_tail (set_proc p r s) = ready_queue_tail s" "slice_ticks (set_proc p r s) = slice_ticks s"
  "switches (set_proc p r s) = switches s" "procs (set_proc p r s) = (procs s)(p := r)"
  by (simp_all add: set_proc_def)

section \<open>The process invariant\<close>

definition slots :: "kernel \<Rightarrow> nat set" where
  "slots s = {i. i < MAX_PROCESSES \<and> process_table s i \<noteq> 0}"

abbreviation slot_proc :: "kernel \<Rightarrow> nat \<Rightarrow> process" where
  "slot_proc s i \<equiv> procs s (process_table s i)"

text \<open>The heap blocks a process occupies: its record, and its stack unless it is the idle process.\<close>

definition proc_blocks :: "ptr \<Rightarrow> process \<Rightarrow> ptr set" where
  "proc_blocks p r = insert p (if kernel_stack r = 0 then {} else {kernel_stack r - KERNEL_STACK_SIZE})"

abbreviation slot_blocks :: "kernel \<Rightarrow> nat \<Rightarrow> ptr set" where
  "slot_blocks s i \<equiv> proc_blocks (process_table s i) (slot_proc s i)"

definition proc_inv :: "kernel \<Rightarrow> bool" where
  "proc_inv s \<longleftrightarrow> heap_inv (kheap s) \<and> unat (next_pid s) \<le> MAX_PROCESSES
     \<and> (\<forall>i\<in>slots s. slot_blocks s i \<subseteq> heap_live (kheap s) \<and> pid (slot_proc s i) < next_pid s
          \<and> (kernel_stack (slot_proc s i) \<noteq> 0 \<longrightarrow> process_table s i \<noteq> kernel_stack (slot_proc s i) - KERNEL_STACK_SIZE)
          \<and> proc_state (slot_proc s i) \<noteq> PROCESS_TERMINATED)
     \<and> (\<forall>i\<in>slots s. \<forall>j\<in>slots s. i \<noteq> j \<longrightarrow> slot_blocks s i \<inter> slot_blocks s j = {}
          \<and> pid (slot_proc s i) \<noteq> pid (slot_proc s j))"

lemma proc_invD:
  assumes "proc_inv s" and "i \<in> slots s"
  shows "slot_blocks s i \<subseteq> heap_live (kheap s)" and "pid (slot_proc s i) < next_pid s"
    and "kernel_stack (slot_proc s i) \<noteq> 0 \<Longrightarrow>
      process_table s i \<noteq> kernel_stack (slot_proc s i) - KERNEL_STACK_SIZE"
    and "proc_state (slot_proc s i) \<noteq> PROCESS_TERMINATED"
  using assms unfolding proc_inv_def by blast+

lemma proc_inv_distinct:
  assumes "proc_inv s" and "i \<in> slots s" and "j \<in> slots s" and "i \<noteq> j"
  shows "slot_blocks s i \<inter> slot_blocks s j = {}" and "pid (slot_proc s i) \<noteq> pid (slot_proc s j)"
  using assms unfolding proc_inv_def by blast+

lemma slot_live: "proc_inv s \<Longrightarrow> i \<in> slots s \<Longrightarrow> process_table s i \<in> heap_live (kheap s)"
  using proc_invD(1) by (fastforce simp: proc_blocks_def)

lemma slot_inj:
  assumes "proc_inv s" and "i \<in> slots s" and "j \<in> slots s" and "process_table s i = process_table s j"
  shows "i = j"
  using proc_inv_distinct(1) [OF assms(1-3)] assms(4) by (fastforce simp: proc_blocks_def)

lemma slots_finite: "finite (slots s)"
  by (rule finite_subset [of _ "{..<64}"]) (auto simp: slots_def)

text \<open>There is a free slot as long as fewer than 64 pids have been given out.\<close>

lemma free_slot:
  assumes inv: "proc_inv s" and "next_pid s < 64"
  shows "\<exists>i<64. process_table s i = 0"
proof (rule ccontr)
  assume "\<not> (\<exists>i<64. process_table s i = 0)"
  then have all: "slots s = {..<64}" by (auto simp: slots_def)
  have "inj_on (\<lambda>i. unat (pid (slot_proc s i))) (slots s)"
    by (rule inj_onI, rule ccontr) (metis inv proc_inv_distinct(2) unsigned_word_eqI)
  moreover have "(\<lambda>i. unat (pid (slot_proc s i))) ` slots s \<subseteq> {..<unat (next_pid s)}"
    using proc_invD(2) [OF inv] by (auto simp: word_less_nat_alt)
  ultimately have "card (slots s) \<le> card {..<unat (next_pid s)}"
    by (intro card_inj_on_le) auto
  with all assms(2) show False by (simp add: word_less_nat_alt)
qed

lemma insert_slot_find:
  "insert_slot p is tbl = (case find (\<lambda>i. tbl i = 0) is of None \<Rightarrow> tbl | Some k \<Rightarrow> tbl(k := p))"
  by (induction "is") auto

lemma clear_slot_find:
  "clear_slot p is tbl = (case find (\<lambda>i. tbl i = p) is of None \<Rightarrow> tbl | Some k \<Rightarrow> tbl(k := 0))"
  by (induction "is") auto

lemma find_upt_Some: "find P [0..<n] = Some k \<longleftrightarrow> k < n \<and> P k \<and> (\<forall>i<k. \<not> P i)"
  by (auto simp: find_Some_iff)

lemma insert_slot_first:
  assumes "proc_inv s" and "next_pid s < 64"
  obtains k where "k < 64" "process_table s k = 0" "\<forall>i<k. process_table s i \<noteq> 0"
    "insert_slot p [0..<64] (process_table s) = (process_table s)(k := p)"
proof -
  from free_slot [OF assms] obtain i where "i < 64" "process_table s i = 0" by blast
  then have "find (\<lambda>i. process_table s i = 0) [0..<64] \<noteq> None" by (auto simp: find_None_iff)
  then obtain k where "find (\<lambda>i. process_table s i = 0) [0..<64] = Some k" by blast
  with that [of k] show thesis by (simp add: insert_slot_find find_upt_Some)
qed

lemma clear_slot_unique:
  assumes "proc_inv s" and "i \<in> slots s"
  shows "clear_slot (process_table s i) [0..<64] (process_table s) = (process_table s)(i := 0)"
proof -
  have i: "i < 64" "process_table s i \<noteq> 0" using assms(2) by (auto simp: slots_def)
  have "process_table s j \<noteq> process_table s i" if "j < i" for j
  proof
    assume e: "process_table s j = process_table s i"
    with i that have "j \<in> slots s" by (simp add: slots_def)
    from slot_inj [OF assms(1) this assms(2) e] that show False by simp
  qed
  with i have "find (\<lambda>j. process_table s j = process_table s i) [0..<64] = Some i"
    by (simp add: find_upt_Some)
  then show ?thesis by (simp add: clear_slot_find)
qed

lemma heap_live_range: "p \<in> heap_live h \<Longrightarrow> 4194304 < unat p \<and> unat p \<le> 8388608"
proof -
  assume "p \<in> heap_live h"
  then obtain bs x where r: "heap_rep h bs" "x \<in> payloads 4194304 bs" "p = of_nat x"
    by (auto simp: heap_live_def)
  then have "4194304 < x \<and> x \<le> 8388608"
    using payloads_bounds [of x 4194304 bs] by (auto simp: heap_rep_def)
  with r(3) show ?thesis by simp
qed

lemma stack_top:
  assumes "q \<in> heap_live h"
  shows "q + KERNEL_STACK_SIZE \<noteq> 0" and "q + KERNEL_STACK_SIZE - KERNEL_STACK_SIZE = q"
proof -
  have "unat (q + 4096) = unat q + 4096"
    using heap_live_range [OF assms] by (subst unat_plus32) simp_all
  then show "q + KERNEL_STACK_SIZE \<noteq> 0" by auto
qed simp

section \<open>Creation\<close>

lemma new_process_simps [simp]:
  "pid (new_process nm e q s) = next_pid s" "kernel_stack (new_process nm e q s) = q + 4096"
  "proc_state (new_process nm e q s) = PROCESS_READY" "proc_next (new_process nm e q s) = 0"
  "proc_name (new_process nm e q s) = name_field nm"
  by (simp_all add: new_process_def Let_def)

definition created :: "u8 list \<Rightarrow> u32 \<Rightarrow> ptr \<Rightarrow> ptr \<Rightarrow> kernel \<Rightarrow> kernel \<Rightarrow> bool" where
  "created nm e p q s s' \<longleftrightarrow>
     (\<exists>k<64. process_table s k = 0 \<and> (\<forall>i<k. process_table s i \<noteq> 0)
        \<and> process_table s' = (process_table s)(k := p))
     \<and> procs s' = (procs s)(p := new_process nm e q s) \<and> next_pid s' = next_pid s + 1
     \<and> heap_live (kheap s') = heap_live (kheap s) \<union> {p, q}
     \<and> current_process s' = current_process s \<and> ready_queue_head s' = ready_queue_head s
     \<and> ready_queue_tail s' = ready_queue_tail s \<and> switches s' = switches s"

lemma created_inv:
  assumes inv: "proc_inv s" and c: "created nm e p q s s'" and np: "next_pid s < 64"
    and fresh: "p \<noteq> 0" "p \<notin> heap_live (kheap s)" "q \<notin> heap_live (kheap s)" "p \<noteq> q"
    and h: "heap_inv (kheap s')"
  shows "proc_inv s'"
proof -
  from c obtain k where k: "k < 64" "process_table s k = 0" "process_table s' = (process_table s)(k := p)"
    and f: "procs s' = (procs s)(p := new_process nm e q s)" "next_pid s' = next_pid s + 1"
      "heap_live (kheap s') = heap_live (kheap s) \<union> {p, q}"
    by (auto simp: created_def)
  have np': "unat (next_pid s + 1) = Suc (unat (next_pid s))"
    by (rule unat_Suc32 [of _ 64]) (rule np)
  have sl: "slots s' = insert k (slots s)" using k fresh(1) by (auto simp: slots_def)
  have old: "i \<noteq> k \<and> process_table s' i = process_table s i \<and> procs s' (process_table s i) = slot_proc s i" if "i \<in> slots s" for i
  proof -
    have "i \<noteq> k" using that k(2) by (auto simp: slots_def)
    moreover have "process_table s i \<noteq> p" using slot_live [OF inv that] fresh(2) by auto
    ultimately show ?thesis by (simp add: k(3) f(1))
  qed
  have new: "process_table s' k = p" "procs s' p = new_process nm e q s" by (simp_all add: k(3) f(1))
  have q: "q + 4096 \<noteq> 0" using stack_top(1) [of q "kheap s'"] f(3) by simp
  have nb: "proc_blocks p (new_process nm e q s) = {p, q}" using q by (simp add: proc_blocks_def)
  have ob: "slot_blocks s' i \<subseteq> heap_live (kheap s)" if "i \<in> slots s" for i
    using old [OF that] proc_invD(1) [OF inv that] by simp
  have lt: "pid (slot_proc s i) < next_pid s + 1" "pid (slot_proc s i) \<noteq> next_pid s" if "i \<in> slots s" for i
    using proc_invD(2) [OF inv that] np' by (auto simp: word_less_nat_alt)
  have "unat (next_pid s') \<le> 64" using np np' f(2) by (simp add: word_less_nat_alt)
  moreover have "slot_blocks s' i \<subseteq> heap_live (kheap s') \<and> pid (slot_proc s' i) < next_pid s'
      \<and> (kernel_stack (slot_proc s' i) \<noteq> 0 \<longrightarrow> process_table s' i \<noteq> kernel_stack (slot_proc s' i) - 4096)
      \<and> proc_state (slot_proc s' i) \<noteq> PROCESS_TERMINATED" if "i \<in> slots s'" for i
  proof (cases "i = k")
    case True
    show ?thesis
      unfolding True new nb using fresh(4) np' by (simp add: f word_less_nat_alt)
  next
    case False
    with that sl have i: "i \<in> slots s" by simp
    show ?thesis
      using ob [OF i] lt(1) [OF i] old [OF i] proc_invD(3,4) [OF inv i] by (auto simp: f)
  qed
  moreover have "slot_blocks s' i \<inter> slot_blocks s' j = {} \<and> pid (slot_proc s' i) \<noteq> pid (slot_proc s' j)"
    if "i \<in> slots s'" "j \<in> slots s'" "i \<noteq> j" for i j
  proof (cases "i = k")
    case True
    with that sl have j: "j \<in> slots s" by simp
    show ?thesis
      using ob [OF j] lt(2) [OF j] fresh(2,3) old [OF j] unfolding True new nb by auto
  next
    case ik: False
    with that sl have i: "i \<in> slots s" by simp
    show ?thesis
    proof (cases "j = k")
      case True
      show ?thesis
        using ob [OF i] lt(2) [OF i] fresh(2,3) old [OF i] unfolding True new nb by auto
    next
      case False
      with that sl have j: "j \<in> slots s" by simp
      show ?thesis
        using proc_inv_distinct [OF inv i j that(3)] old [OF i] old [OF j] by simp
    qed
  qed
  ultimately show ?thesis using h unfolding proc_inv_def by blast
qed

lemma process_create_ok:
  assumes inv: "proc_inv s" and np: "next_pid s < 64"
    and m1: "kmalloc sizeof_process (kheap s) = Some (p, h1)" "p \<noteq> 0"
    and m2: "kmalloc KERNEL_STACK_SIZE h1 = Some (q, h2)" "q \<noteq> 0"
  shows "\<exists>s'. process_create nm e s = Some (p, s') \<and> proc_inv s' \<and> created nm e p q s s'"
proof -
  have h: "heap_inv (kheap s)" using inv by (simp add: proc_inv_def)
  note f1 = kheap.alloc_fresh [OF h m1] and i1 = kheap.alloc_inv [OF h m1(1)]
  note f2 = kheap.alloc_fresh [OF i1 m2] and i2 = kheap.alloc_inv [OF i1 m2(1)]
  from insert_slot_first [OF inv np, of p] obtain k where
    k: "k < 64" "process_table s k = 0" "\<forall>i<k. process_table s i \<noteq> 0"
      "insert_slot p [0..<64] (process_table s) = (process_table s)(k := p)" .
  let ?s1 = "set_proc p process_zero (s\<lparr>kheap := h1\<rparr>)"
  let ?r = "new_process nm e q ?s1"
  let ?s2 = "set_proc p ?r (?s1\<lparr>kheap := h2, next_pid := next_pid ?s1 + 1\<rparr>)"
  let ?s' = "announce ''[PROC] Created process: '' ?r
      (?s2\<lparr>process_table := insert_slot p [0..<64] (process_table ?s2)\<rparr>)"
  have r: "?r = new_process nm e q s"
    by (simp add: new_process_def set_proc_def timer_get_ticks_def Let_def)
  have c: "process_create nm e s = Some (p, ?s')"
    using np m1 m2 by (simp add: process_create_def Let_def frame_simps)
  have "created nm e p q s ?s'"
    unfolding created_def r using k f1 f2 by (auto simp: frame_simps)
  moreover have "proc_inv ?s'"
    by (rule created_inv [OF inv calculation np m1(2)]) (use f1 f2 i2 in \<open>auto simp: frame_simps\<close>)
  ultimately show ?thesis using c by blast
qed

text \<open>When a request for memory fails, whatever was taken before is given back.\<close>

definition rolled_back :: "kernel \<Rightarrow> kernel \<Rightarrow> bool" where
  "rolled_back s s' \<longleftrightarrow> heap_inv (kheap s') \<and> heap_live (kheap s') = heap_live (kheap s)
     \<and> process_table s' = process_table s \<and> next_pid s' = next_pid s
     \<and> (\<forall>a\<in>heap_live (kheap s). procs s' a = procs s a)
     \<and> current_process s' = current_process s \<and> ready_queue_head s' = ready_queue_head s
     \<and> ready_queue_tail s' = ready_queue_tail s \<and> switches s' = switches s"

lemma rolled_back_inv:
  assumes inv: "proc_inv s" and r: "rolled_back s s'"
  shows "proc_inv s'"
proof -
  have "slots s' = slots s" using r by (simp add: slots_def rolled_back_def)
  moreover have "slot_proc s' i = slot_proc s i" if "i \<in> slots s" for i
    using slot_live [OF inv that] r by (simp add: rolled_back_def)
  ultimately show ?thesis
    using inv r unfolding proc_inv_def rolled_back_def by simp
qed

lemma process_create_fails:
  assumes inv: "proc_inv s"
    and no: "next_pid s \<ge> 64 \<or> kmalloc sizeof_process (kheap s) = Some (0, h1)
      \<or> kmalloc sizeof_process (kheap s) = Some (p, h1) \<and> p \<noteq> 0 \<and> kmalloc KERNEL_STACK_SIZE h1 = Some (0, h2)"
  shows "\<exists>s'. process_create nm e s = Some (0, s') \<and> rolled_back s s'"
proof -
  have h: "heap_inv (kheap s)" using inv by (simp add: proc_inv_def)
  consider (full) "next_pid s \<ge> 64"
    | (one) "\<not> next_pid s \<ge> 64" "kmalloc sizeof_process (kheap s) = Some (0, h1)"
    | (two) "\<not> next_pid s \<ge> 64" "kmalloc sizeof_process (kheap s) = Some (p, h1)" "p \<noteq> 0"
        "kmalloc KERNEL_STACK_SIZE h1 = Some (0, h2)"
    using no by blast
  then show ?thesis
  proof cases
    case full
    then show ?thesis using h by (simp add: process_create_def rolled_back_def frame_simps)
  next
    case one
    from kheap.alloc_null [OF h one(2)] one h show ?thesis
      by (simp add: process_create_def rolled_back_def frame_simps)
  next
    case two
    note i1 = kheap.alloc_inv [OF h two(2)] and f1 = kheap.alloc_fresh [OF h two(2,3)]
    from kheap.alloc_null [OF i1 two(4)] have "h2 = h1" .
    moreover from kheap.release_ok [OF i1, of p] f1 obtain h3 where
      "kfree p h1 = Some h3" "heap_inv h3" "heap_live h3 = heap_live h1 - {p}" by auto
    ultimately show ?thesis
      using two f1 by (auto simp: process_create_def Let_def rolled_back_def frame_simps)
  qed
qed

text \<open>Creation always returns, in one of the two ways.\<close>

lemma process_create_cases:
  assumes inv: "proc_inv s"
  obtains (failed) s' where "process_create nm e s = Some (0, s')" "rolled_back s s'" "proc_inv s'"
    | (made) p q s' where "process_create nm e s = Some (p, s')" "created nm e p q s s'" "proc_inv s'"
        "p \<noteq> 0" "p \<notin> heap_live (kheap s)" "next_pid s < 64"
proof -
  have h: "heap_inv (kheap s)" using inv by (simp add: proc_inv_def)
  from kheap.alloc_total [OF h] obtain p h1 where m1: "kmalloc sizeof_process (kheap s) = Some (p, h1)" by blast
  from kheap.alloc_total [OF kheap.alloc_inv [OF h m1]] obtain q h2 where
    m2: "kmalloc KERNEL_STACK_SIZE h1 = Some (q, h2)" by blast
  show thesis
  proof (cases "next_pid s \<ge> 64 \<or> p = 0 \<or> q = 0")
    case True
    with m1 m2 have "next_pid s \<ge> 64 \<or> kmalloc sizeof_process (kheap s) = Some (0, h1)
      \<or> kmalloc sizeof_process (kheap s) = Some (p, h1) \<and> p \<noteq> 0 \<and> kmalloc KERNEL_STACK_SIZE h1 = Some (0, h2)"
      by auto
    from process_create_fails [OF inv this] rolled_back_inv [OF inv] show thesis
      using failed by blast
  next
    case False
    then have c: "next_pid s < 64" "p \<noteq> 0" "q \<noteq> 0" by (auto simp: not_le)
    from process_create_ok [OF inv c(1) m1 c(2) m2 c(3)] kheap.alloc_fresh [OF h m1 c(2)] c show thesis
      using made by blast
  qed
qed

section \<open>Termination\<close>

definition removed :: "nat \<Rightarrow> kernel \<Rightarrow> kernel \<Rightarrow> bool" where
  "removed i s s' \<longleftrightarrow>
     process_table s' = (process_table s)(i := 0)
     \<and> procs s' = (procs s)(process_table s i := (slot_proc s i)\<lparr>proc_state := PROCESS_TERMINATED\<rparr>)
     \<and> next_pid s' = next_pid s \<and> heap_live (kheap s') = heap_live (kheap s) - slot_blocks s i
     \<and> current_process s' = current_process s \<and> ready_queue_head s' = ready_queue_head s
     \<and> ready_queue_tail s' = ready_queue_tail s \<and> switches s' = switches s"

lemma removed_inv:
  assumes inv: "proc_inv s" and i: "i \<in> slots s" and r: "removed i s s'" and h: "heap_inv (kheap s')"
  shows "proc_inv s'"
proof -
  have sl: "slots s' = slots s - {i}" using r by (auto simp: slots_def removed_def)
  have old: "process_table s' j = process_table s j \<and> procs s' (process_table s j) = slot_proc s j" if "j \<in> slots s'" for j
  proof -
    from that sl have j: "j \<in> slots s" "j \<noteq> i" by auto
    then have "process_table s j \<noteq> process_table s i" using slot_inj [OF inv j(1) i] by blast
    with j(2) r show ?thesis by (simp add: removed_def)
  qed
  have "slot_blocks s' j \<subseteq> heap_live (kheap s')" if "j \<in> slots s'" for j
    using proc_invD(1) [OF inv, of j] proc_inv_distinct(1) [OF inv i, of j] old [OF that] that sl r
    by (auto simp: removed_def)
  moreover have "next_pid s' = next_pid s" "unat (next_pid s) \<le> 64"
    using r inv by (simp_all add: removed_def proc_inv_def)
  ultimately show ?thesis
    using h old sl proc_invD(2-4) [OF inv] proc_inv_distinct [OF inv]
    unfolding proc_inv_def by (auto simp del: Int_insert_left)
qed

lemma process_terminate_ok:
  assumes inv: "proc_inv s" and i: "i \<in> slots s"
  shows "\<exists>s'. process_terminate (process_table s i) s = Some s' \<and> removed i s s' \<and> heap_inv (kheap s')"
proof -
  let ?p = "process_table s i" and ?r = "(slot_proc s i)\<lparr>proc_state := PROCESS_TERMINATED\<rparr>"
  let ?q = "kernel_stack (slot_proc s i) - KERNEL_STACK_SIZE"
  have h: "heap_inv (kheap s)" using inv by (simp add: proc_inv_def)
  have p: "?p \<noteq> 0" using i by (simp add: slots_def)
  have live: "?p \<in> heap_live (kheap s)" by (rule slot_live [OF inv i])
  let ?s2 = "announce ''[PROC] Process terminated: '' ?r (set_proc ?p ?r s)"
  let ?s3 = "?s2\<lparr>process_table := clear_slot ?p [0..<64] (process_table ?s2)\<rparr>"
  have "\<exists>h1 h2. (if kernel_stack ?r \<noteq> 0 then kfree ?q (kheap s) else Some (kheap s)) = Some h1
      \<and> kfree ?p h1 = Some h2 \<and> heap_inv h2 \<and> heap_live h2 = heap_live (kheap s) - slot_blocks s i"
  proof (cases "kernel_stack (slot_proc s i) = 0")
    case True
    from kheap.release_ok [OF h live] True show ?thesis by (auto simp: proc_blocks_def)
  next
    case False
    with proc_invD(1,3) [OF inv i] have q: "?q \<in> heap_live (kheap s)" "?p \<noteq> ?q"
      by (auto simp: proc_blocks_def)
    from kheap.release_ok [OF h q(1)] obtain h1 where
      h1: "kfree ?q (kheap s) = Some h1" "heap_inv h1" "heap_live h1 = heap_live (kheap s) - {?q}" by auto
    with live q(2) have "?p \<in> heap_live h1" by simp
    from kheap.release_ok [OF h1(2) this] h1 False show ?thesis by (auto simp: proc_blocks_def)
  qed
  then obtain h1 h2 where
    k: "(if kernel_stack ?r \<noteq> 0 then kfree ?q (kheap s) else Some (kheap s)) = Some h1"
      "kfree ?p h1 = Some h2" "heap_inv h2" "heap_live h2 = heap_live (kheap s) - slot_blocks s i" by blast
  have "process_terminate ?p s = Some (?s3\<lparr>kheap := h2\<rparr>)"
    using p k(1,2)
    by (cases "kernel_stack (slot_proc s i) = 0") (simp_all add: process_terminate_def Let_def frame_simps)
  moreover have "removed i s (?s3\<lparr>kheap := h2\<rparr>)"
    using k(4) clear_slot_unique [OF inv i] by (simp add: removed_def frame_simps)
  ultimately show ?thesis using k(3) by auto
qed

section \<open>The idle process\<close>

lemma process_init_ok:
  assumes h: "heap_inv (kheap s)" and np: "next_pid s = 0"
    and m: "kmalloc sizeof_process (kheap s) = Some (p, h1)" "p \<noteq> 0"
  shows "\<exists>s'. process_init s = Some s' \<and> proc_inv s' \<and> slots s' = {0} \<and> process_table s' 0 = p
     \<and> current_process s' = p \<and> pid (procs s' p) = 0 \<and> proc_state (procs s' p) = PROCESS_RUNNING
     \<and> next_pid s' = 1 \<and> kheap s' = h1 \<and> switches s' = switches s"
proof -
  from m obtain s' where s': "process_init s = Some s'" by (simp add: process_init_def Let_def)
  note f = kheap.alloc_fresh [OF h m] and i = kheap.alloc_inv [OF h m(1)]
  have p: "kheap s' = h1" "current_process s' = p" "process_table s' 0 = p" "next_pid s' = 1"
      "\<forall>i<64. i \<noteq> 0 \<longrightarrow> process_table s' i = 0" "pid (procs s' p) = 0" "kernel_stack (procs s' p) = 0"
      "proc_state (procs s' p) = PROCESS_RUNNING" "switches s' = switches s"
    using s' m np by (auto simp: process_init_def Let_def frame_simps process_zero_def)
  have "slots s' = {0}" using p(3,5) m(2) by (auto simp: slots_def)
  moreover from this have "proc_inv s'"
    unfolding proc_inv_def using p f i by (auto simp: proc_blocks_def)
  ultimately show ?thesis using s' p by blast
qed

section \<open>Properties\<close>

definition kernel_zero :: kernel where
  "kernel_zero = \<lparr>kheap = heap_init heap_zero, con = monitor_demo, procs = (\<lambda>_. process_zero),
     process_table = (\<lambda>_. 0), next_pid = 0, current_process = 0, system_ticks = 0,
     ready_queue_head = 0, ready_queue_tail = 0, slice_ticks = 0, switches = []\<rparr>"

definition proc_demo :: kernel where
  "proc_demo = the (process_init kernel_zero)"

lemma kernel_zero_kmalloc:
  "\<exists>h. kmalloc sizeof_process (kheap kernel_zero) = Some (4194316, h) \<and> heap_rep h [(120, True), (4194160, False)]"
proof -
  have "blocks_alloc (unat (round4 120)) 4194304 [(4194292, False)] = Some (4194316, 120, [(120, True), (4194160, False)])"
    using round4_unat [of 120] by (simp add: split_block_def)
  from kmalloc_Some [OF heap_demo_rep _ this] show ?thesis by (auto simp: kernel_zero_def)
qed

lemma heap_inv_demo: "heap_inv (heap_init heap_zero)"
  using heap_demo_rep by (auto simp: heap_inv_def)

lemma proc_demo_facts:
  "process_init kernel_zero = Some proc_demo" "proc_inv proc_demo" "slots proc_demo = {0}"
  "next_pid proc_demo = 1" "heap_rep (kheap proc_demo) [(120, True), (4194160, False)]"
  "process_table proc_demo 0 = 4194316"
proof -
  from kernel_zero_kmalloc obtain h where
    k: "kmalloc sizeof_process (kheap kernel_zero) = Some (4194316, h)" "heap_rep h [(120, True), (4194160, False)]"
    by blast
  have "heap_inv (kheap kernel_zero)" "next_pid kernel_zero = 0"
    by (simp_all add: kernel_zero_def heap_inv_demo)
  from process_init_ok [OF this k(1)] obtain s' where
    s': "process_init kernel_zero = Some s'" "proc_inv s'" "slots s' = {0}" "next_pid s' = 1" "kheap s' = h"
      "process_table s' 0 = 4194316" by auto
  then have "proc_demo = s'" by (simp add: proc_demo_def)
  with s' k(2) show "process_init kernel_zero = Some proc_demo" "proc_inv proc_demo" "slots proc_demo = {0}"
    "next_pid proc_demo = 1" "heap_rep (kheap proc_demo) [(120, True), (4194160, False)]"
    "process_table proc_demo 0 = 4194316" by simp_all
qed

lemma proc_demo_kmalloc:
  "\<exists>h1 h2. kmalloc sizeof_process (kheap proc_demo) = Some (4194448, h1) \<and>
     kmalloc KERNEL_STACK_SIZE h1 = Some (4194580, h2)"
proof -
  have "blocks_alloc (unat (round4 120)) 4194304 [(120, True), (4194160, False)]
      = Some (4194448, 120, [(120, True), (120, True), (4194028, False)])"
    using round4_unat [of 120] by (simp add: split_block_def)
  from kmalloc_Some [OF proc_demo_facts(5) _ this] obtain h1 where
    h1: "kmalloc sizeof_process (kheap proc_demo) = Some (4194448, h1)"
      "heap_rep h1 [(120, True), (120, True), (4194028, False)]" by auto
  have "blocks_alloc (unat (round4 4096)) 4194304 [(120, True), (120, True), (4194028, False)]
      = Some (4194580, 4096, [(120, True), (120, True), (4096, True), (4189920, False)])"
    using round4_unat [of 4096] by (simp add: split_block_def)
  from kmalloc_Some [OF h1(2) _ this] h1(1) show ?thesis by auto
qed

text \<open>
  Property C11. With a pid left and memory for the record and the stack, \<open>process_create\<close>
  returns a fresh record in the first free table slot, ready to run, with a pid no other
  process has and the name cut to 31 bytes; its stack pointer is the top of a fresh 4 KiB
  stack, the other processes are untouched and all records and stacks stay disjoint.
\<close>

theorem process_create_correct:
  assumes inv: "proc_inv s" and np: "next_pid s < 64"
    and m1: "kmalloc sizeof_process (kheap s) = Some (p, h1)" "p \<noteq> 0"
    and m2: "kmalloc KERNEL_STACK_SIZE h1 = Some (q, h2)" "q \<noteq> 0"
  shows "\<exists>s' k. process_create nm entry s = Some (p, s') \<and> proc_inv s'
     \<and> k < MAX_PROCESSES \<and> process_table s k = 0 \<and> (\<forall>i<k. process_table s i \<noteq> 0)
     \<and> process_table s' = (process_table s)(k := p)
     \<and> pid (procs s' p) = next_pid s \<and> next_pid s' = next_pid s + 1
     \<and> (\<forall>i\<in>slots s. pid (slot_proc s i) \<noteq> pid (procs s' p))
     \<and> proc_state (procs s' p) = PROCESS_READY \<and> proc_name (procs s' p) = name_field nm
     \<and> r_eip (proc_regs (procs s' p)) = entry \<and> useresp (proc_regs (procs s' p)) = q + KERNEL_STACK_SIZE
     \<and> heap_live (kheap s') = heap_live (kheap s) \<union> {p, q}
     \<and> (\<forall>i\<in>slots s. slot_proc s' i = slot_proc s i)"
proof -
  from process_create_ok [OF inv np m1 m2] obtain s' where
    c: "process_create nm entry s = Some (p, s')" "proc_inv s'" "created nm entry p q s s'" by blast
  from c(3) obtain k where k: "k < 64" "process_table s k = 0" "\<forall>i<k. process_table s i \<noteq> 0"
      "process_table s' = (process_table s)(k := p)" by (auto simp: created_def)
  have h: "heap_inv (kheap s)" using inv by (simp add: proc_inv_def)
  have "slot_proc s' i = slot_proc s i \<and> pid (slot_proc s i) \<noteq> next_pid s" if i: "i \<in> slots s" for i
  proof -
    have "i \<noteq> k" using i k(2) by (auto simp: slots_def)
    moreover have "process_table s i \<noteq> p"
      using slot_live [OF inv i] kheap.alloc_fresh [OF h m1] by auto
    ultimately show ?thesis
      using c(3) k(4) proc_invD(2) [OF inv i] by (auto simp: created_def)
  qed
  with c k show ?thesis
    by (auto simp: created_def new_process_def Let_def intro!: exI [of _ s'] exI [of _ k])
qed

theorem process_create_correct_witness:
  "\<exists>s'. process_create (chars ''shell'') 0x100000 proc_demo = Some (4194448, s')
     \<and> pid (procs s' 4194448) = 1 \<and> next_pid s' = 2"
proof -
  from proc_demo_kmalloc obtain h1 h2 where
    m: "kmalloc sizeof_process (kheap proc_demo) = Some (4194448, h1)"
      "kmalloc KERNEL_STACK_SIZE h1 = Some (4194580, h2)" by blast
  have "next_pid proc_demo < 64" by (simp add: proc_demo_facts)
  from process_create_correct [OF proc_demo_facts(2) this m(1) _ m(2), of "chars ''shell''" "0x100000"]
  show ?thesis by (auto simp: proc_demo_facts)
qed

text \<open>
  Property C12. When the table of pids is used up or either allocation fails,
  \<open>process_create\<close> returns null, and nothing is leaked: the live heap blocks, the table, the
  pid counter and every live record are what they were.
\<close>

theorem process_create_rollback:
  assumes "proc_inv s"
    and "next_pid s \<ge> 64 \<or> kmalloc sizeof_process (kheap s) = Some (0, h1)
      \<or> kmalloc sizeof_process (kheap s) = Some (p, h1) \<and> p \<noteq> 0 \<and> kmalloc KERNEL_STACK_SIZE h1 = Some (0, h2)"
  shows "\<exists>s'. process_create nm entry s = Some (0, s') \<and> proc_inv s'
     \<and> heap_live (kheap s') = heap_live (kheap s) \<and> process_table s' = process_table s
     \<and> next_pid s' = next_pid s \<and> (\<forall>i\<in>slots s. slot_proc s' i = slot_proc s i)"
proof -
  from process_create_fails [OF assms] obtain s' where
    s': "process_create nm entry s = Some (0, s')" "rolled_back s s'" by blast
  from rolled_back_inv [OF assms(1) s'(2)] slot_live [OF assms(1)] s' show ?thesis
    by (auto simp: rolled_back_def intro!: exI [of _ s'])
qed

theorem process_create_rollback_witness:
  "\<exists>s'. process_create [] 0 (proc_demo\<lparr>next_pid := 64\<rparr>) = Some (0, s') \<and> next_pid s' = 64"
proof -
  have "pid (slot_proc proc_demo 0) < 1" using proc_invD(2) [OF proc_demo_facts(2), of 0] proc_demo_facts by simp
  then have "pid (slot_proc proc_demo 0) < 64" by (rule order.strict_trans) simp
  then have "proc_inv (proc_demo\<lparr>next_pid := 64\<rparr>)"
    using proc_demo_facts(2,3) by (auto simp: proc_inv_def slots_def)
  moreover have "next_pid (proc_demo\<lparr>next_pid := 64\<rparr>) \<ge> 64" by simp
  ultimately show ?thesis
    using process_create_rollback [of "proc_demo\<lparr>next_pid := 64\<rparr>" undefined 0 undefined "[]" 0] by auto
qed

text \<open>
  Property C13. Terminating a process just created gives back both of its heap blocks and its
  table slot and leaves the other processes as they were; its pid is not reused.
\<close>

theorem process_create_terminate:
  assumes inv: "proc_inv s" and np: "next_pid s < 64"
    and m1: "kmalloc sizeof_process (kheap s) = Some (p, h1)" "p \<noteq> 0"
    and m2: "kmalloc KERNEL_STACK_SIZE h1 = Some (q, h2)" "q \<noteq> 0"
  shows "\<exists>s' s''. process_create nm entry s = Some (p, s') \<and> process_terminate p s' = Some s''
     \<and> proc_inv s'' \<and> heap_live (kheap s'') = heap_live (kheap s) \<and> process_table s'' = process_table s
     \<and> (\<forall>i\<in>slots s. slot_proc s'' i = slot_proc s i) \<and> next_pid s'' = next_pid s + 1"
proof -
  from process_create_ok [OF inv np m1 m2] obtain s' where
    c: "process_create nm entry s = Some (p, s')" "proc_inv s'" "created nm entry p q s s'" by blast
  from c(3) obtain k where k: "k < 64" "process_table s k = 0" "process_table s' = (process_table s)(k := p)"
    by (auto simp: created_def)
  have sl: "k \<in> slots s'" "process_table s' k = p" using k m1(2) by (simp_all add: slots_def)
  from process_terminate_ok [OF c(2) sl(1)] obtain s'' where
    t: "process_terminate p s' = Some s''" "removed k s' s''" "heap_inv (kheap s'')" unfolding sl(2) by blast
  have h: "heap_inv (kheap s)" using inv by (simp add: proc_inv_def)
  note f1 = kheap.alloc_fresh [OF h m1] and f2 = kheap.alloc_fresh [OF kheap.alloc_inv [OF h m1(1)] m2]
  have q: "q + 4096 \<noteq> 0" using stack_top(1) [of q "kheap s'"] c(3) by (simp add: created_def)
  have pr: "procs s' p = new_process nm entry q s" using c(3) by (simp add: created_def)
  have "slot_blocks s' k = {p, q}" using q by (simp add: sl(2) pr proc_blocks_def)
  then have "heap_live (kheap s'') = heap_live (kheap s)"
    using t(2) c(3) f1 f2 by (auto simp: removed_def created_def)
  moreover have "process_table s'' = process_table s"
    using t(2) k by (simp add: removed_def fun_upd_idem)
  moreover have "slot_proc s'' i = slot_proc s i" if "i \<in> slots s" for i
  proof -
    have "process_table s i \<noteq> p" using slot_live [OF inv that] f1 by auto
    then show ?thesis using t(2) c(3) k by (simp add: removed_def created_def sl(2) fun_upd_idem)
  qed
  ultimately show ?thesis
    using c t removed_inv [OF c(2) sl(1) t(2,3)] by (auto simp: removed_def created_def)
qed

theorem process_create_terminate_witness:
  "\<exists>s' s''. process_create (chars ''job'') 0x100000 proc_demo = Some (4194448, s')
     \<and> process_terminate 4194448 s' = Some s'' \<and> next_pid s'' = 2
     \<and> heap_live (kheap s'') = heap_live (kheap proc_demo)"
proof -
  from proc_demo_kmalloc obtain h1 h2 where
    m: "kmalloc sizeof_process (kheap proc_demo) = Some (4194448, h1)"
      "kmalloc KERNEL_STACK_SIZE h1 = Some (4194580, h2)" by blast
  have "next_pid proc_demo < 64" by (simp add: proc_demo_facts)
  from process_create_terminate [OF proc_demo_facts(2) this m(1) _ m(2), of "chars ''job''" "0x100000"]
  show ?thesis by (auto simp: proc_demo_facts)
qed

end
