(* ===== verification/Scheduler.thy ===== *)
theory Scheduler
  imports Process
begin

text \<open>
  The scheduler, \<^verbatim>\<open>proc/scheduler.c\<close>, and the timer that drives it,
  \<^verbatim>\<open>drivers/timer/pit.c\<close>: a ready queue linked through the \<open>next\<close> field of the process
  records, round-robin choice, and the tick counter. Where \<open>schedule\<close> calls the assembly
  \<open>switch_context\<close>, \<open>switch_to\<close> records the pair of processes in \<open>switches\<close>; what the call does
  to the processor is followed in \<open>Stubs\<close>. Abstractly the scheduler is the ring of runnable
  processes, headed by the running one.
\<close>

section \<open>The ready queue\<close>

definition set_next :: "ptr \<Rightarrow> ptr \<Rightarrow> kernel \<Rightarrow> kernel" where
  "set_next p q s = set_proc p ((procs s p)\<lparr>proc_next := q\<rparr>) s"

definition set_state :: "ptr \<Rightarrow> process_state \<Rightarrow> kernel \<Rightarrow> kernel" where
  "set_state p st s = set_proc p ((procs s p)\<lparr>proc_state := st\<rparr>) s"

definition enqueue_process :: "ptr \<Rightarrow> kernel \<Rightarrow> kernel" where
  "enqueue_process p s =
     (if p = 0 then s
      else let s = set_next p 0 s in
           if ready_queue_head s = 0
           then s\<lparr>ready_queue_head := p, ready_queue_tail := p\<rparr>
           else (set_next (ready_queue_tail s) p s)\<lparr>ready_queue_tail := p\<rparr>)"

definition dequeue_process :: "kernel \<Rightarrow> ptr \<times> kernel" where
  "dequeue_process s =
     (if ready_queue_head s = 0 then (0, s)
      else let p = ready_queue_head s;
               s = s\<lparr>ready_queue_head := proc_next (procs s (ready_queue_head s))\<rparr>;
               s = (if ready_queue_head s = 0 then s\<lparr>ready_queue_tail := 0\<rparr> else s)
           in (p, set_next p 0 s))"

definition find_idle :: "kernel \<Rightarrow> ptr" where
  "find_idle s =
     (case find (\<lambda>i. process_table s i \<noteq> 0 \<and> pid (slot_proc s i) = 0) [0..<MAX_PROCESSES] of
        None \<Rightarrow> 0 | Some i \<Rightarrow> process_table s i)"

definition switch_to :: "ptr \<Rightarrow> kernel \<Rightarrow> kernel" where
  "switch_to nxt s =
     (let s1 = set_state nxt PROCESS_RUNNING s; prev = current_process s1;
          s2 = s1\<lparr>current_process := nxt\<rparr>
      in if prev \<noteq> nxt then s2\<lparr>switches := switches s2 @ [(prev, nxt)]\<rparr> else s2)"

definition schedule :: "kernel \<Rightarrow> kernel" where
  "schedule s =
     (if current_process s = 0 then s
      else let s1 = (if proc_state (procs s (current_process s)) = PROCESS_RUNNING
                     then enqueue_process (current_process s) (set_state (current_process s) PROCESS_READY s)
                     else s);
               idle = find_idle s1;
               (nxt, s2) = dequeue_process s1;
               nxt = (if nxt = 0 then idle else nxt)
           in if nxt = 0 then s2 else switch_to nxt s2)"

abbreviation time_slice :: u32 where
  "time_slice \<equiv> 10"

definition scheduler_tick :: "registers \<Rightarrow> kernel \<Rightarrow> kernel" where
  "scheduler_tick regs s =
     (if current_process s = 0 then s
      else let c = current_process s;
               s = set_proc c ((procs s c)\<lparr>cpu_time := cpu_time (procs s c) + 1\<rparr>) s;
               s = s\<lparr>slice_ticks := slice_ticks s + 1\<rparr>
           in if slice_ticks s \<ge> time_slice
              then let s = s\<lparr>slice_ticks := 0\<rparr>;
                       s = set_proc c ((procs s c)\<lparr>proc_regs := regs\<rparr>) s
                   in schedule s
              else s)"

text \<open>The registration of \<open>scheduler_tick\<close> for interrupt 0 that ends the C function changes the table of
  handlers; it is made where that table is in the state, in \<open>boot_services\<close> of \<open>Boot\<close>.\<close>

definition scheduler_init :: "kernel \<Rightarrow> kernel" where
  "scheduler_init s = s\<lparr>ready_queue_head := 0, ready_queue_tail := 0\<rparr>"

section \<open>The timer\<close>

definition timer_callback :: "kernel \<Rightarrow> kernel" where
  "timer_callback s =
     (let s = s\<lparr>system_ticks := system_ticks s + 1\<rparr> in
      if system_ticks s mod 10 = 0 then schedule s else s)"

definition timer_program :: "u32 \<Rightarrow> io_trace \<Rightarrow> io_trace" where
  "timer_program frequency io =
     (let divisor = 1193180 div frequency;
          io = outb 0x43 0x36 io;
          io = outb 0x40 (ucast (divisor AND 0xFF)) io
      in outb 0x40 (ucast (drop_bit 8 divisor AND 0xFF)) io)"

text \<open>\<open>timer_wait\<close>; \<open>wake\<close> is what happens between a \<open>hlt\<close> and the next test.\<close>

partial_function (option) timer_wait_loop :: "(kernel \<Rightarrow> kernel) \<Rightarrow> u32 \<Rightarrow> kernel \<Rightarrow> kernel option" where
  "timer_wait_loop wake end_tick s =
     (if system_ticks s < end_tick then timer_wait_loop wake end_tick (wake s) else Some s)"

definition timer_wait :: "(kernel \<Rightarrow> kernel) \<Rightarrow> u32 \<Rightarrow> kernel \<Rightarrow> kernel option" where
  "timer_wait wake ticks s = timer_wait_loop wake (system_ticks s + ticks) s"

section \<open>The queue as a list\<close>

fun chain :: "(ptr \<Rightarrow> process) \<Rightarrow> ptr \<Rightarrow> ptr list \<Rightarrow> bool" where
  "chain m h [] \<longleftrightarrow> h = 0"
| "chain m h (x # xs) \<longleftrightarrow> h = x \<and> x \<noteq> 0 \<and> chain m (proc_next (m x)) xs"

definition queue_rep :: "kernel \<Rightarrow> ptr list \<Rightarrow> bool" where
  "queue_rep s xs \<longleftrightarrow> chain (procs s) (ready_queue_head s) xs \<and> distinct xs
     \<and> ready_queue_tail s = (if xs = [] then 0 else last xs)"

definition queue_room :: "kernel \<Rightarrow> ptr list \<Rightarrow> ptr \<Rightarrow> bool" where
  "queue_room s xs x \<longleftrightarrow> x \<noteq> 0 \<and> x \<notin> set xs"

lemma chain_cong:
  "(\<And>x. x \<in> set xs \<Longrightarrow> proc_next (m' x) = proc_next (m x)) \<Longrightarrow> chain m' h xs = chain m h xs"
  by (induction xs arbitrary: h) simp_all

lemma chain_nonzero: "chain m h xs \<Longrightarrow> 0 \<notin> set xs"
  by (induction xs arbitrary: h) auto

lemma chain_snoc:
  "chain m h xs \<Longrightarrow> xs \<noteq> [] \<Longrightarrow> x \<noteq> 0 \<Longrightarrow> x \<notin> set xs \<Longrightarrow> distinct xs \<Longrightarrow> proc_next (m x) = 0 \<Longrightarrow>
     chain (m(last xs := (m (last xs))\<lparr>proc_next := x\<rparr>)) h (xs @ [x])"
proof (induction xs arbitrary: h)
  case (Cons y ys)
  show ?case
  proof (cases "ys = []")
    case True
    with Cons.prems show ?thesis by simp
  next
    case False
    with Cons.prems have "chain (m(last ys := (m (last ys))\<lparr>proc_next := x\<rparr>)) (proc_next (m y)) (ys @ [x])"
      by (intro Cons.IH) simp_all
    moreover have "last ys \<noteq> y" using Cons.prems(5) False by auto
    moreover have "last (y # ys) = last ys" using False by simp
    ultimately show ?thesis
      using Cons.prems False by (simp only: append_Cons chain.simps fun_upd_other [OF \<open>last ys \<noteq> y\<close> [symmetric]]) simp
  qed
qed simp

lemma set_next_frames [frame_simps]:
  "procs (set_next p q s) = (procs s)(p := (procs s p)\<lparr>proc_next := q\<rparr>)"
  "process_table (set_next p q s) = process_table s" "current_process (set_next p q s) = current_process s"
  "ready_queue_head (set_next p q s) = ready_queue_head s" "kheap (set_next p q s) = kheap s"
  "ready_queue_tail (set_next p q s) = ready_queue_tail s" "switches (set_next p q s) = switches s"
  "next_pid (set_next p q s) = next_pid s" "system_ticks (set_next p q s) = system_ticks s"
  by (simp_all add: set_next_def frame_simps)

lemma set_state_frames [frame_simps]:
  "procs (set_state p st s) = (procs s)(p := (procs s p)\<lparr>proc_state := st\<rparr>)"
  "process_table (set_state p st s) = process_table s" "current_process (set_state p st s) = current_process s"
  "ready_queue_head (set_state p st s) = ready_queue_head s" "kheap (set_state p st s) = kheap s"
  "ready_queue_tail (set_state p st s) = ready_queue_tail s" "switches (set_state p st s) = switches s"
  "next_pid (set_state p st s) = next_pid s" "system_ticks (set_state p st s) = system_ticks s"
  by (simp_all add: set_state_def frame_simps)

lemma enqueue_rep:
  assumes "queue_rep s xs" and "queue_room s xs x"
  shows "queue_rep (enqueue_process x s) (xs @ [x])"
proof (cases "xs = []")
  case True
  with assms show ?thesis
    by (simp add: queue_rep_def queue_room_def enqueue_process_def Let_def frame_simps)
next
  case False
  let ?m = "(procs s)(x := (procs s x)\<lparr>proc_next := 0\<rparr>)"
  from assms have x: "x \<noteq> 0" "x \<notin> set xs" and q: "chain (procs s) (ready_queue_head s) xs" "distinct xs"
      "ready_queue_tail s = last xs"
    using False by (simp_all add: queue_rep_def queue_room_def)
  have "chain ?m (ready_queue_head s) xs"
    using q(1) x(2) by (subst chain_cong [of _ _ "procs s"]) auto
  from chain_snoc [OF this False x q(2)]
  have c: "chain (?m(last xs := (?m (last xs))\<lparr>proc_next := x\<rparr>)) (ready_queue_head s) (xs @ [x])" by simp
  have "ready_queue_head s \<noteq> 0" using q(1) False by (cases xs) auto
  with x q c show ?thesis
    by (simp add: queue_rep_def enqueue_process_def Let_def frame_simps)
qed

lemma dequeue_empty: "queue_rep s [] \<Longrightarrow> dequeue_process s = (0, s)"
  by (simp add: queue_rep_def dequeue_process_def)

lemma dequeue_cons:
  assumes "queue_rep s (x # xs)"
  shows "\<exists>s'. dequeue_process s = (x, s') \<and> queue_rep s' xs"
proof -
  from assms have q: "ready_queue_head s = x" "x \<noteq> 0" "chain (procs s) (proc_next (procs s x)) xs"
      "x \<notin> set xs" "distinct xs" "ready_queue_tail s = (if xs = [] then x else last xs)"
    by (simp_all add: queue_rep_def)
  have c: "chain ((procs s)(x := (procs s x)\<lparr>proc_next := 0\<rparr>)) (proc_next (procs s x)) xs"
    using q(3,4) by (subst chain_cong [of _ _ "procs s"]) auto
  show ?thesis
  proof (cases xs)
    case Nil
    with q show ?thesis
      by (simp add: dequeue_process_def queue_rep_def Let_def frame_simps)
  next
    case (Cons y ys)
    then have "proc_next (procs s x) \<noteq> 0" using q(3) by simp
    with q c Cons show ?thesis
      by (simp add: dequeue_process_def queue_rep_def Let_def frame_simps)
  qed
qed

interpretation ready: fifo queue_rep queue_room enqueue_process dequeue_process 0
  by unfold_locales (simp_all add: enqueue_rep dequeue_empty dequeue_cons)

section \<open>What scheduling leaves alone\<close>

text \<open>All fields of all processes except the queue link and the run state.\<close>

definition same_processes :: "kernel \<Rightarrow> kernel \<Rightarrow> bool" where
  "same_processes s t \<longleftrightarrow> process_table t = process_table s \<and> kheap t = kheap s \<and> next_pid t = next_pid s
     \<and> (\<forall>a. pid (procs t a) = pid (procs s a) \<and> kernel_stack (procs t a) = kernel_stack (procs s a)
          \<and> (proc_state (procs s a) \<noteq> PROCESS_TERMINATED \<longrightarrow> proc_state (procs t a) \<noteq> PROCESS_TERMINATED))"

lemma same_refl: "same_processes s s"
  by (simp add: same_processes_def)

lemma same_trans: "same_processes s t \<Longrightarrow> same_processes t u \<Longrightarrow> same_processes s u"
  by (simp add: same_processes_def)

lemma same_enqueue: "same_processes s (enqueue_process p s)"
  by (auto simp: same_processes_def enqueue_process_def Let_def frame_simps)

lemma same_dequeue: "same_processes s (snd (dequeue_process s))"
  by (auto simp: same_processes_def dequeue_process_def Let_def frame_simps)

lemma same_set_state: "st \<noteq> PROCESS_TERMINATED \<Longrightarrow> same_processes s (set_state p st s)"
  by (auto simp: same_processes_def frame_simps)

lemma same_switch_to: "same_processes s (switch_to p s)"
  using same_set_state [of PROCESS_RUNNING s p]
  by (simp add: switch_to_def Let_def same_processes_def)

lemma same_schedule: "same_processes s (schedule s)"
proof -
  let ?c = "current_process s"
  let ?s1 = "if proc_state (procs s ?c) = PROCESS_RUNNING
             then enqueue_process ?c (set_state ?c PROCESS_READY s) else s"
  have "same_processes s ?s1"
    using same_trans [OF same_set_state same_enqueue] same_refl by auto
  then have "same_processes s (snd (dequeue_process ?s1))" by (rule same_trans [OF _ same_dequeue])
  moreover from this have "same_processes s (switch_to p (snd (dequeue_process ?s1)))" for p
    by (rule same_trans [OF _ same_switch_to])
  ultimately show ?thesis
    by (simp add: schedule_def Let_def case_prod_beta same_refl)
qed

lemma proc_inv_same:
  assumes "proc_inv s" and "same_processes s t"
  shows "proc_inv t"
proof -
  from assms(2) have t: "process_table t = process_table s" "kheap t = kheap s" "next_pid t = next_pid s"
    "\<And>a. pid (procs t a) = pid (procs s a)" "\<And>a. kernel_stack (procs t a) = kernel_stack (procs s a)"
    "\<And>a. proc_state (procs s a) \<noteq> PROCESS_TERMINATED \<Longrightarrow> proc_state (procs t a) \<noteq> PROCESS_TERMINATED"
    by (simp_all add: same_processes_def)
  have "slots t = slots s" by (simp add: slots_def t)
  moreover have "slot_blocks t i = slot_blocks s i" for i by (simp add: proc_blocks_def t)
  ultimately show ?thesis using assms(1) t(6) unfolding proc_inv_def by (simp add: t)
qed

section \<open>The ring of runnable processes\<close>

definition sched_ring :: "kernel \<Rightarrow> ptr list \<Rightarrow> bool" where
  "sched_ring s ys \<longleftrightarrow> ys \<noteq> [] \<and> current_process s = hd ys \<and> queue_rep s (tl ys) \<and> distinct ys \<and> 0 \<notin> set ys
     \<and> proc_state (procs s (hd ys)) = PROCESS_RUNNING"

lemma queue_rep_cong:
  assumes "queue_rep s xs" and "\<And>a. proc_next (procs t a) = proc_next (procs s a)"
    and "ready_queue_head t = ready_queue_head s" and "ready_queue_tail t = ready_queue_tail s"
  shows "queue_rep t xs"
  using assms chain_cong [of xs "procs t" "procs s"] by (simp add: queue_rep_def)

lemma switch_to_rep: "queue_rep s xs \<Longrightarrow> queue_rep (switch_to p s) xs"
  by (erule queue_rep_cong) (simp_all add: switch_to_def Let_def frame_simps)

lemma switch_to_simps [frame_simps]:
  "current_process (switch_to p s) = p"
  "proc_state (procs (switch_to p s) p) = PROCESS_RUNNING"
  "switches (switch_to p s) = switches s @ (if current_process s = p then [] else [(current_process s, p)])"
  "system_ticks (switch_to p s) = system_ticks s"
  by (simp_all add: switch_to_def Let_def frame_simps)

lemma queue_op_frames [frame_simps]:
  "current_process (enqueue_process p s) = current_process s" "switches (enqueue_process p s) = switches s"
  "current_process (snd (dequeue_process s)) = current_process s"
  "switches (snd (dequeue_process s)) = switches s"
  "system_ticks (enqueue_process p s) = system_ticks s"
  "system_ticks (snd (dequeue_process s)) = system_ticks s"
  by (simp_all add: enqueue_process_def dequeue_process_def Let_def frame_simps)

lemma schedule_rotate:
  assumes "sched_ring s ys"
  shows "sched_ring (schedule s) (rotate1 ys)
     \<and> switches (schedule s) = switches s @ (if length ys = 1 then [] else [(hd ys, hd (rotate1 ys))])"
proof -
  from assms obtain c xs where ys: "ys = c # xs" by (auto simp: sched_ring_def neq_Nil_conv)
  with assms have r: "current_process s = c" "queue_rep s xs" "c \<notin> set xs" "distinct xs" "c \<noteq> 0"
    "0 \<notin> set xs" "proc_state (procs s c) = PROCESS_RUNNING"
    by (auto simp: sched_ring_def)
  let ?s0 = "set_state c PROCESS_READY s"
  have "queue_rep ?s0 xs" using r(2) by (rule queue_rep_cong) (simp_all add: frame_simps)
  moreover have "queue_room ?s0 xs c" using r by (simp add: queue_room_def)
  ultimately obtain s2 where
    d: "dequeue_process (enqueue_process c ?s0) = (hd (xs @ [c]), s2)" and q: "queue_rep s2 (tl (xs @ [c]))"
    using ready.put_then_get by blast
  have n0: "hd (xs @ [c]) \<noteq> 0" using r(5,6) by (cases xs) auto
  have s2: "s2 = snd (dequeue_process (enqueue_process c ?s0))" by (simp add: d)
  have f: "current_process s2 = c" "switches s2 = switches s"
    unfolding s2 using r(1) by (simp_all add: frame_simps)
  have sch: "schedule s = switch_to (hd (xs @ [c])) s2"
    using r d n0 by (simp add: schedule_def Let_def)
  have "sched_ring (schedule s) (xs @ [c])"
    unfolding sch sched_ring_def using switch_to_rep [OF q] r by (auto simp: frame_simps)
  moreover have "(c = hd (xs @ [c])) \<longleftrightarrow> xs = []" using r(3) by (cases xs) auto
  ultimately show ?thesis
    unfolding ys by (simp add: sch f frame_simps)
qed

lemma schedule_rotate_many: "sched_ring s ys \<Longrightarrow> sched_ring ((schedule ^^ n) s) (rotate n ys)"
proof (induction n)
  case (Suc n)
  then have "sched_ring (schedule ((schedule ^^ n) s)) (rotate1 (rotate n ys))"
    using schedule_rotate by blast
  then show ?case by (simp add: rotate_def)
qed simp

text \<open>With one process in the ring, scheduling chooses it again and switches nothing.\<close>

lemma schedule_alone:
  assumes "sched_ring s [c]"
  shows "sched_ring (schedule s) [c] \<and> switches (schedule s) = switches s"
  using schedule_rotate [OF assms] by simp

lemma timer_callback_alone:
  assumes "sched_ring s [c]"
  shows "sched_ring (timer_callback s) [c] \<and> switches (timer_callback s) = switches s"
proof -
  have "sched_ring (s\<lparr>system_ticks := t\<rparr>) [c]" for t
    using assms by (simp add: sched_ring_def queue_rep_def)
  from schedule_alone [OF this] this show ?thesis by (simp add: timer_callback_def Let_def)
qed

lemma same_timer_callback: "same_processes s (timer_callback s)"
proof -
  have "same_processes s (s\<lparr>system_ticks := t\<rparr>)" for t by (simp add: same_processes_def)
  from this same_trans [OF this same_schedule] show ?thesis by (simp add: timer_callback_def Let_def)
qed

lemma schedule_ticks [frame_simps]: "system_ticks (schedule s) = system_ticks s"
  by (simp add: schedule_def Let_def case_prod_beta frame_simps)

lemma timer_callback_ticks [frame_simps]: "system_ticks (timer_callback s) = system_ticks s + 1"
  by (simp add: timer_callback_def Let_def frame_simps)

text \<open>The accounting of \<open>scheduler_tick\<close>, which changes no link and no run state.\<close>

definition accounted :: "kernel \<Rightarrow> kernel \<Rightarrow> bool" where
  "accounted s t \<longleftrightarrow> same_processes s t \<and> (\<forall>a. proc_next (procs t a) = proc_next (procs s a)
     \<and> proc_state (procs t a) = proc_state (procs s a)) \<and> ready_queue_head t = ready_queue_head s
     \<and> ready_queue_tail t = ready_queue_tail s \<and> current_process t = current_process s \<and> switches t = switches s
     \<and> con t = con s \<and> system_ticks t = system_ticks s"

lemma accounted_steps:
  "accounted s s" "accounted s t \<Longrightarrow> accounted s (t\<lparr>slice_ticks := k\<rparr>)"
  "accounted s t \<Longrightarrow> accounted s (set_proc c ((procs t c)\<lparr>cpu_time := n\<rparr>) t)"
  "accounted s t \<Longrightarrow> accounted s (set_proc c ((procs t c)\<lparr>proc_regs := r\<rparr>) t)"
  by (auto simp: accounted_def same_processes_def set_proc_def)

lemma scheduler_tick_accounts: "\<exists>t. accounted s t \<and> (scheduler_tick regs s = t \<or> scheduler_tick regs s = schedule t)"
proof -
  let ?a = "set_proc (current_process s) ((procs s (current_process s))\<lparr>cpu_time := cpu_time (procs s (current_process s)) + 1\<rparr>) s"
  let ?b = "?a\<lparr>slice_ticks := slice_ticks ?a + 1\<rparr>"
  have b: "accounted s ?b" by (intro accounted_steps)
  let ?c = "?b\<lparr>slice_ticks := 0\<rparr>"
  let ?d = "set_proc (current_process s) ((procs ?c (current_process s))\<lparr>proc_regs := regs\<rparr>) ?c"
  have d: "accounted s ?d" by (intro accounted_steps b)
  have "scheduler_tick regs s = (if current_process s = 0 then s else if slice_ticks ?b \<ge> time_slice then schedule ?d else ?b)"
    unfolding scheduler_tick_def Let_def by (rule refl)
  then show ?thesis using accounted_steps(1) [of s] b d by (metis (full_types))
qed

lemma same_scheduler_tick: "same_processes s (scheduler_tick regs s)"
proof -
  obtain t where "accounted s t" "scheduler_tick regs s = t \<or> scheduler_tick regs s = schedule t"
    using scheduler_tick_accounts by blast
  then show ?thesis using same_trans [OF _ same_schedule] by (auto simp: accounted_def)
qed

lemma scheduler_tick_alone:
  assumes "sched_ring s [c]"
  shows "sched_ring (scheduler_tick regs s) [c] \<and> switches (scheduler_tick regs s) = switches s"
proof -
  obtain t where t: "accounted s t" "scheduler_tick regs s = t \<or> scheduler_tick regs s = schedule t"
    using scheduler_tick_accounts by blast
  then have "sched_ring t [c]" using assms by (simp add: accounted_def sched_ring_def queue_rep_def)
  with schedule_alone [OF this] t show ?thesis by (auto simp: accounted_def)
qed

lemma queue_con [frame_simps]:
  "con (set_proc p r k) = con k" "con (set_state p st k) = con k" "con (set_next p q k) = con k"
  by (simp_all add: set_proc_def set_state_def set_next_def)

lemma schedule_con [frame_simps]:
  "con (enqueue_process p k) = con k" "con (snd (dequeue_process k)) = con k" "con (switch_to p k) = con k"
  "con (schedule k) = con k" "con (timer_callback k) = con k"
proof -
  show q: "con (enqueue_process p k) = con k" "con (snd (dequeue_process k)) = con k" "con (switch_to p k) = con k" for p k
    by (simp_all add: enqueue_process_def dequeue_process_def switch_to_def Let_def frame_simps)
  show sc: "con (schedule k) = con k" for k
    by (simp add: schedule_def Let_def case_prod_unfold q frame_simps)
  show "con (timer_callback k) = con k" by (simp add: timer_callback_def Let_def sc)
qed

lemma scheduler_tick_con [frame_simps]:
  "con (scheduler_tick regs k) = con k" "system_ticks (scheduler_tick regs k) = system_ticks k"
  using scheduler_tick_accounts [of k regs] by (auto simp: accounted_def frame_simps)

section \<open>What can happen after boot\<close>

text \<open>
  The steps that change the process structures: creation, termination of a process other than
  the running one, and timer interrupts.
\<close>

inductive kernel_step :: "kernel \<Rightarrow> kernel \<Rightarrow> bool" where
  step_create: "process_create nm entry s = Some (p, s') \<Longrightarrow> kernel_step s s'"
| step_terminate: "i \<in> slots s \<Longrightarrow> process_table s i \<noteq> current_process s \<Longrightarrow>
    process_terminate (process_table s i) s = Some s' \<Longrightarrow> kernel_step s s'"
| step_tick: "kernel_step s (timer_callback s)"

inductive_cases kernel_stepE: "kernel_step s s'"

text \<open>After boot: the running process is the only runnable one.\<close>

definition boot_state :: "kernel \<Rightarrow> bool" where
  "boot_state s \<longleftrightarrow> proc_inv s \<and> sched_ring s [current_process s] \<and> current_process s \<in> process_table s ` slots s"

lemma kernel_step_consider:
  assumes "kernel_step s s'"
  obtains (create) nm e p where "process_create nm e s = Some (p, s')"
    | (terminate) i where "i \<in> slots s" "process_table s i \<noteq> current_process s"
        "process_terminate (process_table s i) s = Some s'"
    | (tick) "s' = timer_callback s"
  using assms by (elim kernel_stepE) blast+

lemma ring_one:
  "sched_ring s [c] \<longleftrightarrow> current_process s = c \<and> ready_queue_head s = 0 \<and> ready_queue_tail s = 0 \<and> c \<noteq> 0
     \<and> proc_state (procs s c) = PROCESS_RUNNING"
  by (auto simp: sched_ring_def queue_rep_def)

lemma boot_state_create:
  assumes b: "boot_state s" and c: "process_create nm e s = Some (p, s')"
  shows "boot_state s' \<and> current_process s' = current_process s \<and> switches s' = switches s"
proof -
  have inv: "proc_inv s" using b by (simp add: boot_state_def)
  from b obtain i where i: "i \<in> slots s" "current_process s = process_table s i"
    by (auto simp: boot_state_def)
  have live: "current_process s \<in> heap_live (kheap s)" unfolding i(2) by (rule slot_live [OF inv i(1)])
  show ?thesis
  proof (cases rule: process_create_cases [OF inv, of nm e])
    case (1 t)
    with c have t: "t = s'" by simp
    have "slots s' = slots s" using 1(2) by (simp add: slots_def rolled_back_def t)
    with 1(2,3) live b show ?thesis
      by (simp add: boot_state_def rolled_back_def ring_one t)
  next
    case (2 p' q t)
    with c have t: "t = s'" "p' = p" by simp_all
    from 2(2) obtain k where k: "process_table s k = 0" "process_table s' = (process_table s)(k := p)"
      by (auto simp: created_def t)
    from i k have "i \<in> slots s'" "process_table s' i = current_process s" by (auto simp: slots_def)
    moreover have "current_process s \<noteq> p" using live 2(5) t by auto
    moreover from calculation have "current_process s \<in> process_table s' ` slots s'" by (metis imageI)
    ultimately show ?thesis
      using 2(2,3) b by (simp add: boot_state_def created_def ring_one t)
  qed
qed

lemma boot_state_step:
  assumes "kernel_step s s'" and b: "boot_state s"
  shows "boot_state s' \<and> current_process s' = current_process s \<and> switches s' = switches s"
  using assms(1)
proof (cases rule: kernel_step_consider)
  case (create nm e p)
  from boot_state_create [OF b create] show ?thesis .
next
  case (terminate i)
  have inv: "proc_inv s" using b by (simp add: boot_state_def)
  from process_terminate_ok [OF inv terminate(1)] terminate(3) have r: "removed i s s'" "heap_inv (kheap s')" by auto
  from b obtain j where j: "j \<in> slots s" "current_process s = process_table s j"
    by (auto simp: boot_state_def)
  with terminate(2) have "j \<noteq> i" by auto
  with j r(1) have "j \<in> slots s'" "process_table s' j = current_process s"
    by (auto simp: slots_def removed_def)
  then have "current_process s \<in> process_table s' ` slots s'" by (metis imageI)
  with removed_inv [OF inv terminate(1) r] r(1) terminate(2) b show ?thesis
    by (simp add: boot_state_def removed_def ring_one)
next
  case tick
  have ring: "sched_ring s [current_process s]" using b by (simp add: boot_state_def)
  note t = timer_callback_alone [OF ring]
  have "current_process s' = current_process s" using t by (simp add: tick ring_one)
  moreover have "proc_inv s'" unfolding tick using b by (auto simp: boot_state_def intro: proc_inv_same same_timer_callback)
  moreover have "slots s' = slots s" "process_table s' = process_table s"
    using same_timer_callback [of s] by (simp_all add: tick same_processes_def slots_def)
  ultimately show ?thesis using t b by (simp add: boot_state_def tick)
qed

lemma boot_state_same:
  assumes "boot_state s" and "same_processes s t" and "sched_ring t [current_process s]"
  shows "boot_state t"
proof -
  have "slots t = slots s" "process_table t = process_table s" "current_process t = current_process s"
    using assms(2,3) by (simp_all add: same_processes_def slots_def ring_one)
  with assms proc_inv_same [OF _ assms(2)] show ?thesis by (simp add: boot_state_def)
qed

lemma boot_state_scheduler_tick:
  assumes "boot_state s"
  shows "boot_state (scheduler_tick regs s)"
proof -
  have "sched_ring s [current_process s]" using assms by (simp add: boot_state_def)
  with boot_state_same [OF assms same_scheduler_tick] scheduler_tick_alone show ?thesis by blast
qed

lemma boot_state_steps:
  "kernel_step\<^sup>*\<^sup>* s s' \<Longrightarrow> boot_state s \<Longrightarrow>
     boot_state s' \<and> current_process s' = current_process s \<and> switches s' = switches s"
  by (induction rule: rtranclp_induct) (use boot_state_step in fastforce)+

lemma process_init_boot:
  assumes "heap_inv (kheap s)" and "next_pid s = 0"
    and "kmalloc sizeof_process (kheap s) = Some (p, h1)" "p \<noteq> 0"
  shows "\<exists>s'. process_init s = Some s' \<and> boot_state (scheduler_init s') \<and> kheap s' = h1 \<and> next_pid s' = 1"
proof -
  from process_init_ok [OF assms] obtain s' where
    s': "process_init s = Some s'" "proc_inv s'" "slots s' = {0}" "process_table s' 0 = p"
      "current_process s' = p" "proc_state (procs s' p) = PROCESS_RUNNING" "kheap s' = h1" "next_pid s' = 1" by blast
  have "proc_inv (scheduler_init s')"
    by (rule proc_inv_same [OF s'(2)]) (simp add: same_processes_def scheduler_init_def)
  with s' assms(4) show ?thesis
    by (auto simp: boot_state_def ring_one scheduler_init_def slots_def)
qed

text \<open>Pids are never given back.\<close>

lemma kernel_step_pid:
  assumes "kernel_step s s'" and "proc_inv s"
  shows "proc_inv s' \<and> (next_pid s \<ge> 64 \<longrightarrow> next_pid s' \<ge> 64)"
  using assms(1)
proof (cases rule: kernel_step_consider)
  case (create nm e p)
  show ?thesis
    by (cases rule: process_create_cases [OF assms(2), of nm e])
      (use create in \<open>auto simp: rolled_back_def created_def not_less\<close>)
next
  case (terminate i)
  from process_terminate_ok [OF assms(2) terminate(1)] terminate(3) have r: "removed i s s'" "heap_inv (kheap s')" by auto
  from removed_inv [OF assms(2) terminate(1) r] r(1) show ?thesis by (simp add: removed_def)
next
  case tick
  from proc_inv_same [OF assms(2) same_timer_callback] same_timer_callback [of s] show ?thesis
    by (simp add: tick same_processes_def)
qed

lemma kernel_steps_pid:
  "kernel_step\<^sup>*\<^sup>* s s' \<Longrightarrow> proc_inv s \<Longrightarrow> proc_inv s' \<and> (next_pid s \<ge> 64 \<longrightarrow> next_pid s' \<ge> 64)"
  by (induction rule: rtranclp_induct) (use kernel_step_pid in blast)+

section \<open>Waiting\<close>

lemma timer_wait_loop_returns:
  "unat (system_ticks s) + n = unat e \<Longrightarrow>
     \<exists>s'. timer_wait_loop timer_callback e s = Some s' \<and> system_ticks s' = e"
proof (induction n arbitrary: s)
  case 0
  then have "system_ticks s = e" by (simp add: word_unat_eq_iff)
  then show ?case by (subst timer_wait_loop.simps) simp
next
  case (Suc n)
  then have lt: "system_ticks s < e" by (simp add: word_less_nat_alt)
  have "unat (system_ticks (timer_callback s)) + n = unat e"
    using Suc.prems unat_Suc32 [OF lt] by (simp add: frame_simps)
  from Suc.IH [OF this] lt show ?case by (subst timer_wait_loop.simps) simp
qed

section \<open>Properties\<close>

definition sched_demo :: kernel where
  "sched_demo = scheduler_init proc_demo"

lemma sched_demo_boot: "boot_state sched_demo" "next_pid sched_demo = 1"
proof -
  have m: "heap_inv (kheap kernel_zero)" "next_pid kernel_zero = 0"
    by (simp_all add: kernel_zero_def heap_inv_demo)
  from kernel_zero_kmalloc obtain h where
    k: "kmalloc sizeof_process (kheap kernel_zero) = Some (4194316, h)" by blast
  from process_init_boot [OF m k] proc_demo_facts(1) show "boot_state sched_demo" "next_pid sched_demo = 1"
    by (auto simp: sched_demo_def scheduler_init_def)
qed

text \<open>
  Remark. The ready queue is first in, first out: putting a process that is not queued
  behind the queue and taking one gives the one that waited longest, and emptying a queue
  yields its processes in the order they entered.
\<close>

theorem ready_queue_fifo:
  assumes "queue_rep s xs" and "x \<noteq> 0" and "x \<notin> set xs"
  shows "(\<exists>s'. dequeue_process (enqueue_process x s) = (hd (xs @ [x]), s') \<and> queue_rep s' (tl (xs @ [x])))
    \<and> (\<exists>s'. drain dequeue_process (length xs) s = (xs, s') \<and> queue_rep s' [])"
  using ready.put_then_get [of s xs x] ready.drain_all [of s xs] assms by (simp_all add: queue_room_def)

theorem ready_queue_fifo_witness:
  "\<exists>s'. dequeue_process (enqueue_process 0x2000 kernel_zero) = (0x2000, s')
     \<and> queue_rep s' []"
proof -
  have "queue_rep kernel_zero []" by (simp add: queue_rep_def kernel_zero_def)
  from ready_queue_fifo [OF this, of "0x2000"] show ?thesis by simp
qed

text \<open>
  Remark. The choice of \<open>schedule\<close> is round robin: were there a ring \<open>ys\<close> of the current process and
  queued ones, after \<open>n\<close> calls the process \<open>ys ! (n mod length ys)\<close> would be the current one and the
  others wait in ring order. A ring of more than one process does not arise (C10), and the
  context switch that would follow the choice does not work (C9).
\<close>

theorem round_robin:
  assumes "sched_ring s ys"
  shows "current_process ((schedule ^^ n) s) = ys ! (n mod length ys)
     \<and> queue_rep ((schedule ^^ n) s) (tl (rotate n ys))
     \<and> proc_state (procs ((schedule ^^ n) s) (ys ! (n mod length ys))) = PROCESS_RUNNING"
proof -
  have "ys \<noteq> []" using assms by (simp add: sched_ring_def)
  with schedule_rotate_many [OF assms, of n] show ?thesis
    by (simp add: sched_ring_def hd_rotate_conv_nth)
qed

text \<open>Two processes linked by hand: the one at \<open>0x1000\<close> runs, the one at \<open>0x2000\<close> waits.\<close>

definition ring_demo :: kernel where
  "ring_demo = kernel_zero\<lparr>current_process := 0x1000, ready_queue_head := 0x2000,
     ready_queue_tail := 0x2000,
     procs := (\<lambda>_. process_zero)(0x1000 := process_zero\<lparr>proc_state := PROCESS_RUNNING\<rparr>)\<rparr>"

theorem round_robin_witness: "current_process ((schedule ^^ 3) ring_demo) = 0x2000"
proof -
  have "sched_ring ring_demo [0x1000, 0x2000]"
    by (simp add: sched_ring_def queue_rep_def ring_demo_def process_zero_def)
  moreover have m: "(3 :: nat) mod length [0x1000, 0x2000 :: ptr] = 1" by code_simp
  ultimately show ?thesis using round_robin [of ring_demo "[0x1000, 0x2000]" 3] unfolding m by simp
qed

text \<open>
  Property C10. No created process is ever run. \<open>process_create\<close> does not enter the ready
  queue and no other code does (\<open>scheduler_add\<close> is declared but not defined), so from the
  state after boot, whatever processes are created and terminated and however many timer
  interrupts arrive, the idle process stays the current one and no context switch happens.
\<close>

theorem created_never_run:
  assumes "boot_state s" and "kernel_step\<^sup>*\<^sup>* s s'"
  shows "current_process s' = current_process s \<and> switches s' = switches s"
  using boot_state_steps [OF assms(2,1)] by blast

theorem created_never_run_witness:
  "current_process (timer_callback sched_demo) = current_process sched_demo
     \<and> switches (timer_callback sched_demo) = switches sched_demo"
  by (rule created_never_run [OF sched_demo_boot(1)]) (rule r_into_rtranclp, rule step_tick)

text \<open>
  Remark. Pids are handed out by a counter that is never decreased: once 64 processes
  have been created since boot, \<open>process_create\<close> fails for good, also after all of them
  have terminated and the table is empty.
\<close>

theorem pids_run_out:
  assumes "proc_inv s" and "next_pid s = 64" and "kernel_step\<^sup>*\<^sup>* s s'"
  shows "\<exists>t. process_create nm entry s' = Some (0, t) \<and> slots t = slots s'"
proof -
  from kernel_steps_pid [OF assms(3,1)] assms(2) have "next_pid s' \<ge> 64" by simp
  then show ?thesis by (simp add: process_create_def slots_def frame_simps)
qed

theorem pids_run_out_witness:
  "\<exists>t. process_create [] 0 (timer_callback (sched_demo\<lparr>next_pid := 64\<rparr>)) = Some (0, t)"
proof -
  let ?s = "sched_demo\<lparr>next_pid := 64\<rparr>"
  have b: "proc_inv sched_demo" using sched_demo_boot(1) by (simp add: boot_state_def)
  have "(1 :: u32) \<le> 64" by simp
  then have "pid (slot_proc sched_demo i) < 64" if "i \<in> slots sched_demo" for i
    using proc_invD(2) [OF b that] sched_demo_boot(2) by (simp add: order_less_le_trans)
  with b have "proc_inv ?s" by (auto simp: proc_inv_def slots_def)
  from pids_run_out [OF this _ r_into_rtranclp [of kernel_step, OF step_tick], of "[]" 0]
  show ?thesis by auto
qed

text \<open>
  Remark. \<open>timer_wait n\<close> with timer interrupts arriving returns after exactly \<open>n\<close> ticks
  as long as the tick counter does not wrap meanwhile; when \<open>ticks + n\<close> wraps it returns at
  once without waiting.
\<close>

theorem timer_wait_correct:
  "if unat (system_ticks s) + unat n < 2 ^ 32
   then \<exists>s'. timer_wait timer_callback n s = Some s' \<and> system_ticks s' = system_ticks s + n
   else timer_wait timer_callback n s = Some s"
proof (cases "unat (system_ticks s) + unat n < 2 ^ 32")
  case True
  then have "unat (system_ticks s + n) = unat (system_ticks s) + unat n" by (intro unat_plus32) simp
  then have "\<exists>s'. timer_wait timer_callback n s = Some s' \<and> system_ticks s' = system_ticks s + n"
    unfolding timer_wait_def by (intro timer_wait_loop_returns [of _ "unat n"]) simp
  with True show ?thesis by simp
next
  case False
  then have a: "unat (system_ticks s) + unat n \<ge> 2 ^ 32" by simp
  have "unat (system_ticks s + n) = (unat (system_ticks s) + unat n) mod 2 ^ 32"
    by (simp add: unat_word_ariths)
  also have "\<dots> = unat (system_ticks s) + unat n - 2 ^ 32"
    using a unat_lt32 [of n] unat_lt32 [of "system_ticks s"] by (subst le_mod_geq) simp_all
  finally have "unat (system_ticks s + n) < unat (system_ticks s) \<or> unat (system_ticks s + n) = unat (system_ticks s)"
    using unat_lt32 [of n] by auto
  then have "\<not> system_ticks s < system_ticks s + n" by (auto simp: word_less_nat_alt)
  then have "timer_wait timer_callback n s = Some s"
    unfolding timer_wait_def by (subst timer_wait_loop.simps) simp
  with False show ?thesis by simp
qed

theorem timer_wait_correct_witness:
  "\<exists>s'. timer_wait timer_callback 5 kernel_zero = Some s' \<and> system_ticks s' = 5"
  using timer_wait_correct [of kernel_zero 5] by (simp add: kernel_zero_def)

end
