(* ===== verification/Syscall.thy ===== *)
theory Syscall
  imports Scheduler LibcString
begin

text \<open>
  System calls, \<^verbatim>\<open>syscall/syscall.c\<close>, \<^verbatim>\<open>handlers.c\<close> and
  \<^verbatim>\<open>syscall.h\<close>: a table of 256 handlers indexed by \<open>eax\<close>, reached through the
  interrupt gate \<open>0x80\<close>. \<open>syscall\<close> names the C handlers; \<open>mem\<close> is the memory user
  pointers go to. \<open>wake\<close> is what the machine does during a \<open>hlt\<close>: with interrupts disabled,
  as the gate and the \<open>cli\<close> of the entry stub leave them, that is nothing.
\<close>

section \<open>Handlers\<close>

datatype syscall = Sys_exit | Sys_write | Sys_read | Sys_getpid | Sys_sleep

definition SYS_EXIT :: u32 where "SYS_EXIT = 0"
definition SYS_WRITE :: u32 where "SYS_WRITE = 1"
definition SYS_READ :: u32 where "SYS_READ = 2"
definition SYS_GETPID :: u32 where "SYS_GETPID = 3"
definition SYS_SLEEP :: u32 where "SYS_SLEEP = 4"

definition sys_exit :: "u32 \<Rightarrow> kernel \<Rightarrow> (int \<times> kernel) option" where
  "sys_exit status s =
     (let s1 = say (chars '')'' @ newline) (say_dec status (say (chars ''[SYSCALL] exit('') s));
          current = process_get_current s1
      in if current \<noteq> 0 then map_option (\<lambda>s2. (0, s2)) (process_terminate current s1)
         else Some (0, s1))"

definition sys_write :: "mem \<Rightarrow> u32 \<Rightarrow> ptr \<Rightarrow> u32 \<Rightarrow> kernel \<Rightarrow> (int \<times> kernel) option" where
  "sys_write m fd buf count s =
     (if fd = 1 \<or> fd = 2
      then Some (sint count,
             s\<lparr>con := fold (\<lambda>i. print_char (m (buf + of_nat i))) [0..<unat count] (con s)\<rparr>)
      else Some (- 1, s))"

definition sys_read :: "u32 \<Rightarrow> ptr \<Rightarrow> u32 \<Rightarrow> kernel \<Rightarrow> (int \<times> kernel) option" where
  "sys_read fd buf count s = Some (- 1, s)"

definition sys_getpid :: "kernel \<Rightarrow> (int \<times> kernel) option" where
  "sys_getpid s =
     (let current = process_get_current s
      in Some (if current \<noteq> 0 then sint (pid (procs s current)) else - 1, s))"

partial_function (option) sleep_loop :: "(kernel \<Rightarrow> kernel) \<Rightarrow> u32 \<Rightarrow> u32 \<Rightarrow> kernel \<Rightarrow> kernel option" where
  "sleep_loop wake start ticks_to_wait s =
     (if timer_get_ticks s - start < ticks_to_wait
      then sleep_loop wake start ticks_to_wait (wake s) else Some s)"

definition sys_sleep :: "(kernel \<Rightarrow> kernel) \<Rightarrow> u32 \<Rightarrow> kernel \<Rightarrow> (int \<times> kernel) option" where
  "sys_sleep wake ms s =
     (let start = timer_get_ticks s; ticks_to_wait = ms div 10
      in map_option (\<lambda>s'. (0, s')) (sleep_loop wake start ticks_to_wait s))"

fun run_syscall ::
  "(kernel \<Rightarrow> kernel) \<Rightarrow> mem \<Rightarrow> syscall \<Rightarrow> u32 \<Rightarrow> u32 \<Rightarrow> u32 \<Rightarrow> u32 \<Rightarrow> u32 \<Rightarrow> kernel
     \<Rightarrow> (int \<times> kernel) option" where
  "run_syscall wake m Sys_exit a1 a2 a3 a4 a5 s = sys_exit a1 s"
| "run_syscall wake m Sys_write a1 a2 a3 a4 a5 s = sys_write m a1 a2 a3 s"
| "run_syscall wake m Sys_read a1 a2 a3 a4 a5 s = sys_read a1 a2 a3 s"
| "run_syscall wake m Sys_getpid a1 a2 a3 a4 a5 s = sys_getpid s"
| "run_syscall wake m Sys_sleep a1 a2 a3 a4 a5 s = sys_sleep wake a1 s"

section \<open>Dispatch\<close>

abbreviation MAX_SYSCALLS :: u32 where
  "MAX_SYSCALLS \<equiv> 256"

type_synonym syscall_table = "nat \<Rightarrow> syscall option"

definition syscall_register :: "u32 \<Rightarrow> syscall \<Rightarrow> syscall_table \<Rightarrow> syscall_table" where
  "syscall_register num handler tbl = (if num < MAX_SYSCALLS then tbl(unat num \<mapsto> handler) else tbl)"

definition syscall_init :: "u32 \<Rightarrow> syscall_table \<times> idt \<Rightarrow> syscall_table \<times> idt" where
  "syscall_init syscall_entry = (\<lambda>(tbl, t).
     (fold (\<lambda>i tbl. tbl(i := None)) [0..<256] tbl, idt_set_gate 0x80 syscall_entry 0x08 0xEE t))"

definition syscall_handlers_init :: "syscall_table \<Rightarrow> syscall_table" where
  "syscall_handlers_init tbl =
     (let tbl = syscall_register SYS_EXIT Sys_exit tbl;
          tbl = syscall_register SYS_WRITE Sys_write tbl;
          tbl = syscall_register SYS_READ Sys_read tbl;
          tbl = syscall_register SYS_GETPID Sys_getpid tbl
      in syscall_register SYS_SLEEP Sys_sleep tbl)"

definition syscall_handler ::
  "(kernel \<Rightarrow> kernel) \<Rightarrow> mem \<Rightarrow> syscall_table \<Rightarrow> registers \<Rightarrow> kernel \<Rightarrow> (registers \<times> kernel) option" where
  "syscall_handler wake m tbl regs s =
     (let syscall_num = r_eax regs in
      if syscall_num \<ge> MAX_SYSCALLS \<or> tbl (unat syscall_num) = None
      then Some (regs\<lparr>r_eax := word_of_int (- 1)\<rparr>, s)
      else (case tbl (unat syscall_num) of
              None \<Rightarrow> None
            | Some h \<Rightarrow>
                map_option (\<lambda>(ret, s'). (regs\<lparr>r_eax := word_of_int ret\<rparr>, s'))
                  (run_syscall wake m h (r_ebx regs) (r_ecx regs) (r_edx regs) (r_esi regs) (r_edi regs) s)))"

section \<open>The table after boot\<close>

lemma syscall_init_table: "fst (syscall_init e (tbl, t)) i = (if i < 256 then None else tbl i)"
  by (simp add: syscall_init_def fold_upd_const)

lemma handlers_init_table:
  "syscall_handlers_init tbl =
     tbl(0 \<mapsto> Sys_exit, 1 \<mapsto> Sys_write, 2 \<mapsto> Sys_read, 3 \<mapsto> Sys_getpid, 4 \<mapsto> Sys_sleep)"
  by (simp add: syscall_handlers_init_def syscall_register_def SYS_EXIT_def SYS_WRITE_def SYS_READ_def
      SYS_GETPID_def SYS_SLEEP_def)

section \<open>Sleeping\<close>

lemma sleep_loop_returns:
  "unat (system_ticks s - start) + n = unat w \<Longrightarrow>
     \<exists>s'. sleep_loop timer_callback start w s = Some s' \<and> system_ticks s' = start + w"
proof (induction n arbitrary: s)
  case 0
  then have "system_ticks s - start = w" by (simp add: word_unat_eq_iff)
  then have "\<not> system_ticks s - start < w" "system_ticks s = start + w"
    by (auto simp: diff_eq_iff_offset)
  then show ?case by (subst sleep_loop.simps) (simp add: timer_get_ticks_def)
next
  case (Suc n)
  then have lt: "system_ticks s - start < w" by (simp add: word_less_nat_alt)
  have "system_ticks s + 1 - start = system_ticks s - start + 1" by simp
  then have "unat (system_ticks (timer_callback s) - start) + n = unat w"
    using Suc.prems unat_Suc32 [OF lt] by (simp only: timer_callback_ticks)
  from Suc.IH [OF this] lt show ?case
    by (subst sleep_loop.simps) (simp add: timer_get_ticks_def)
qed

lemma sleep_loop_idle:
  "sleep_loop wake start w s = Some s' \<Longrightarrow> wake = (\<lambda>s. s) \<longrightarrow> \<not> timer_get_ticks s - start < w"
  by (rule sleep_loop.raw_induct [of "\<lambda>wake start w s s'. wake = (\<lambda>s. s) \<longrightarrow> \<not> timer_get_ticks s - start < w"])
    (auto split: if_splits)

lemma sleep_loop_hangs:
  assumes "timer_get_ticks s - start < w"
  shows "sleep_loop (\<lambda>s. s) start w s = None"
proof (rule ccontr)
  assume "sleep_loop (\<lambda>s. s) start w s \<noteq> None"
  then obtain s' where "sleep_loop (\<lambda>s. s) start w s = Some s'" by blast
  from sleep_loop_idle [OF this] assms show False by simp
qed

lemma sleep_loop_done: "\<not> timer_get_ticks s - start < w \<Longrightarrow> sleep_loop wake start w s = Some s"
  by (subst sleep_loop.simps) simp

lemma div10_zero: "(ms :: u32) div 10 = 0 \<longleftrightarrow> ms < 10"
proof -
  have "ms div 10 = 0 \<longleftrightarrow> unat (ms div 10) = 0" by (simp add: unat_eq_0)
  also have "\<dots> \<longleftrightarrow> unat ms < 10" by (simp add: unat_div div_eq_0_iff)
  finally show ?thesis by (simp add: word_less_nat_alt)
qed

text \<open>The bytes behind a user pointer.\<close>

definition bytes_at :: "mem \<Rightarrow> ptr \<Rightarrow> nat \<Rightarrow> u8 list" where
  "bytes_at m p n = List.map (\<lambda>i. m (p + of_nat i)) [0..<n]"

section \<open>Exit\<close>

lemma same_say: "same_processes s (say m s)" "same_processes s (say_dec n s)"
  by (simp_all add: same_processes_def frame_simps)

lemma sys_exit_apply:
  assumes inv: "proc_inv s" and i: "i \<in> slots s" and cur: "current_process s = process_table s i"
  shows "\<exists>s'. sys_exit st s = Some (0, s') \<and> current_process s' = current_process s
     \<and> heap_live (kheap s') = heap_live (kheap s) - slot_blocks s i
     \<and> process_table s' = (process_table s)(i := 0) \<and> pid (procs s' (current_process s)) = pid (slot_proc s i)"
proof -
  let ?s1 = "say (chars '')'' @ newline) (say_dec st (say (chars ''[SYSCALL] exit('') s))"
  have sm: "same_processes s ?s1" by (rule same_trans [OF same_trans]) (rule same_say)+
  have inv1: "proc_inv ?s1" by (rule proc_inv_same [OF inv sm])
  have f: "process_table ?s1 = process_table s" "procs ?s1 = procs s" "kheap ?s1 = kheap s"
    "current_process ?s1 = current_process s" by (simp_all add: frame_simps)
  have i1: "i \<in> slots ?s1" using i by (simp add: slots_def f)
  from process_terminate_ok [OF inv1 i1] obtain s' where
    t: "process_terminate (process_table s i) ?s1 = Some s'" "removed i ?s1 s'" by (auto simp: f)
  have "process_table s i \<noteq> 0" using i by (simp add: slots_def)
  with t(1) cur have "sys_exit st s = Some (0, s')"
    by (simp add: sys_exit_def process_get_current_def f Let_def)
  with t(2) cur show ?thesis by (auto simp: removed_def f)
qed

section \<open>Properties\<close>

text \<open>
  Property C15. After \<open>syscall_init\<close> and \<open>syscall_handlers_init\<close>, interrupt \<open>0x80\<close> may be
  raised from ring 3 and leads to the entry stub; \<open>eax\<close> 0 to 4 runs exit, write, read, getpid
  and sleep on the five argument registers and puts the result into \<open>eax\<close>; any other number
  changes nothing but \<open>eax\<close>, which becomes -1. No number reaches outside the table.
\<close>

theorem syscall_dispatch_correct:
  "let (tbl0, t') = syscall_init syscall_entry (tbl, t); tbl' = syscall_handlers_init tbl0 in
     gate t' 0x80 = (syscall_entry, 0x08, 0xEE) \<and> gate_dpl (idt_entries t' 0x80) = 3
     \<and> syscall_handler wake m tbl' regs s =
        (if unat (r_eax regs) < 5
         then map_option (\<lambda>(ret, s'). (regs\<lparr>r_eax := word_of_int ret\<rparr>, s'))
                (run_syscall wake m ([Sys_exit, Sys_write, Sys_read, Sys_getpid, Sys_sleep] ! unat (r_eax regs))
                  (r_ebx regs) (r_ecx regs) (r_edx regs) (r_esi regs) (r_edi regs) s)
         else Some (regs\<lparr>r_eax := 0xFFFFFFFF\<rparr>, s))"
proof -
  obtain tbl0 t' where si: "syscall_init syscall_entry (tbl, t) = (tbl0, t')" by force
  then have t': "t' = idt_set_gate 0x80 syscall_entry 0x08 0xEE t" by (simp add: syscall_init_def)
  have tb: "tbl0 i = (if i < 256 then None else tbl i)" for i
    using syscall_init_table [of syscall_entry tbl t i] si by simp
  let ?n = "unat (r_eax regs)"
  let ?l = "[Sys_exit, Sys_write, Sys_read, Sys_getpid, Sys_sleep]"
  have le: "r_eax regs \<ge> MAX_SYSCALLS \<longleftrightarrow> 256 \<le> ?n" by (simp add: word_le_nat_alt)
  have low: "syscall_handlers_init tbl0 ?n = Some (?l ! ?n)" if "?n < 5"
  proof -
    from that have "?n = 0 \<or> ?n = 1 \<or> ?n = 2 \<or> ?n = 3 \<or> ?n = 4" by arith
    then show ?thesis unfolding handlers_init_table by (elim disjE) simp_all
  qed
  have high: "syscall_handlers_init tbl0 ?n = None" if "\<not> ?n < 5" "?n < 256"
    using that by (simp add: handlers_init_table tb)
  have "syscall_handler wake m (syscall_handlers_init tbl0) regs s =
        (if ?n < 5
         then map_option (\<lambda>(ret, s'). (regs\<lparr>r_eax := word_of_int ret\<rparr>, s'))
                (run_syscall wake m (?l ! ?n)
                  (r_ebx regs) (r_ecx regs) (r_edx regs) (r_esi regs) (r_edi regs) s)
         else Some (regs\<lparr>r_eax := 0xFFFFFFFF\<rparr>, s))"
    by (cases "unat (r_eax regs) < 5"; cases "unat (r_eax regs) < 256")
      (simp_all add: low high syscall_handler_def le Let_def)
  moreover have "gate t' 0x80 = (syscall_entry, 0x08, 0xEE)" by (simp add: t')
  moreover have "gate_dpl (idt_entries t' 0x80) = 3"
    by (simp add: t' gate_dpl_def idt_set_gate_entries drop_bit_eq_div)
  ultimately show ?thesis by (simp add: si)
qed

text \<open>
  Remark. \<open>exit\<close> frees the record and the stack of the calling process but returns to
  it: \<open>current_process\<close> still points to the freed record, which \<open>getpid\<close> and the next timer
  interrupt go on using.
\<close>

theorem sys_exit_dangling:
  assumes "proc_inv s" and "i \<in> slots s" and "current_process s = process_table s i"
  shows "\<exists>s'. sys_exit status s = Some (0, s') \<and> current_process s' = current_process s
     \<and> current_process s' \<notin> heap_live (kheap s')
     \<and> sys_getpid s' = Some (sint (pid (slot_proc s i)), s')"
proof -
  have "current_process s \<noteq> 0" using assms(2,3) by (simp add: slots_def)
  with sys_exit_apply [OF assms, of status] assms(3) show ?thesis
    by (auto simp: sys_getpid_def process_get_current_def proc_blocks_def)
qed

theorem sys_exit_dangling_witness:
  "\<exists>s'. sys_exit 0 sched_demo = Some (0, s') \<and> current_process s' \<notin> heap_live (kheap s')"
proof -
  from sched_demo_boot(1) obtain i where
    "proc_inv sched_demo" "i \<in> slots sched_demo" "current_process sched_demo = process_table sched_demo i"
    by (auto simp: boot_state_def)
  from sys_exit_dangling [OF this, of 0] show ?thesis by blast
qed

text \<open>
  Remark. \<open>sleep(ms)\<close> waits \<open>ms / 10\<close> ticks, exactly and across a wrap of the tick
  counter, if timer interrupts arrive while it waits; but as it is reached, with interrupts
  disabled, it returns only for \<open>ms < 10\<close> and otherwise halts the machine for good.
\<close>

theorem sys_sleep_correct:
  "(\<exists>s'. sys_sleep timer_callback ms s = Some (0, s') \<and> system_ticks s' = system_ticks s + ms div 10)
   \<and> sys_sleep (\<lambda>s. s) ms s = (if ms < 10 then Some (0, s) else None)"
proof
  show "\<exists>s'. sys_sleep timer_callback ms s = Some (0, s') \<and> system_ticks s' = system_ticks s + ms div 10"
    using sleep_loop_returns [of s "system_ticks s" "unat (ms div 10)" "ms div 10"]
    by (auto simp: sys_sleep_def timer_get_ticks_def Let_def)
  show "sys_sleep (\<lambda>s. s) ms s = (if ms < 10 then Some (0, s) else None)"
  proof (cases "ms < 10")
    case True
    then have "ms div 10 = 0" by (simp add: div10_zero)
    then show ?thesis using True by (simp add: sys_sleep_def Let_def sleep_loop_done)
  next
    case False
    then have "ms div 10 > 0" using div10_zero [of ms] by (simp add: word_greater_zero_iff)
    then show ?thesis using False by (simp add: sys_sleep_def Let_def sleep_loop_hangs)
  qed
qed

text \<open>
  Remark. \<open>write\<close> to descriptor 1 or 2 prints the \<open>count\<close> bytes at the user's pointer,
  whatever it points to, keeps the console within its bounds and returns the count; any other
  descriptor prints nothing and gives -1.
\<close>

theorem sys_write_correct:
  assumes "monitor_inv (con s)"
  shows "\<exists>ret s'. sys_write m fd buf count s = Some (ret, s') \<and> monitor_inv (con s')
     \<and> monitor_frame (con s) (con s') \<and> kheap s' = kheap s \<and> procs s' = procs s
     \<and> (if fd = 1 \<or> fd = 2
        then con s' = fold print_char (bytes_at m buf (unat count)) (con s) \<and> word_of_int ret = count
        else s' = s \<and> ret = - 1)"
proof -
  have "fold (\<lambda>i. print_char (m (buf + of_nat i))) ns c = fold print_char (List.map (\<lambda>i. m (buf + of_nat i)) ns) c"
    for ns c by (induction ns arbitrary: c) simp_all
  then show ?thesis
    using assms by (simp add: sys_write_def bytes_at_def inv_intros print_fold_frame monitor_frame_refl)
qed

theorem sys_write_correct_witness:
  "\<exists>ret s'. sys_write mem_demo 1 0x1000 5 kernel_zero = Some (ret, s')
     \<and> con s' = fold print_char zenix_text (con kernel_zero) \<and> word_of_int ret = (5 :: u32)"
proof -
  have "monitor_inv (con kernel_zero)" by (simp add: kernel_zero_def monitor_demo_inv)
  moreover have "bytes_at mem_demo 0x1000 (unat (5 :: u32)) = zenix_text"
  proof -
    have "[0..<unat (5 :: u32)] = [0, 1, 2, 3, 4]" by code_simp
    then show ?thesis by (simp add: bytes_at_def zenix_text_def mem_demo_def)
  qed
  ultimately show ?thesis using sys_write_correct [of kernel_zero mem_demo 1 "0x1000" 5] by auto
qed

end
