(* ===== verification/VfsComplete.thy ===== *)
theory VfsComplete
  imports Prelude
begin

text \<open>
  The virtual file system, \<^verbatim>\<open>fs/vfs_complete.c\<close> and \<^verbatim>\<open>vfs_complete.h\<close>: path
  resolution, a table of 256 descriptors, and the calls that go through a node's function
  pointers. File systems are not part of this code: a node's operations are optional
  functions over a driver state \<open>'d\<close>, and \<open>node_at\<close> reads the node behind a pointer. Paths
  are the bytes before the terminator. Calls that return \<open>int\<close> return an \<open>int\<close> here.
\<close>

section \<open>State\<close>

record dirent =
  d_name :: "u8 list"
  d_inode :: u32
  d_type :: u8

record 'd fs_node =
  n_name :: "u8 list"
  n_inode :: u32
  n_length :: u32
  n_flags :: u32
  n_uid :: u32
  n_gid :: u32
  n_mask :: u32
  n_read :: "(ptr \<Rightarrow> u32 \<Rightarrow> u32 \<Rightarrow> ptr \<Rightarrow> 'd \<Rightarrow> u32 \<times> 'd) option"
  n_write :: "(ptr \<Rightarrow> u32 \<Rightarrow> u32 \<Rightarrow> ptr \<Rightarrow> 'd \<Rightarrow> u32 \<times> 'd) option"
  n_open :: "(ptr \<Rightarrow> 'd \<Rightarrow> 'd) option"
  n_close :: "(ptr \<Rightarrow> 'd \<Rightarrow> 'd) option"
  n_readdir :: "(ptr \<Rightarrow> u32 \<Rightarrow> 'd \<Rightarrow> dirent option \<times> 'd) option"
  n_finddir :: "(ptr \<Rightarrow> u8 list \<Rightarrow> 'd \<Rightarrow> ptr \<times> 'd) option"
  n_create :: "(ptr \<Rightarrow> u8 list \<Rightarrow> u32 \<Rightarrow> 'd \<Rightarrow> int \<times> 'd) option"
  n_mkdir :: "(ptr \<Rightarrow> u8 list \<Rightarrow> u32 \<Rightarrow> 'd \<Rightarrow> int \<times> 'd) option"
  n_unlink :: "(ptr \<Rightarrow> u8 list \<Rightarrow> 'd \<Rightarrow> int \<times> 'd) option"

type_synonym 'd node_store = "'d \<Rightarrow> ptr \<Rightarrow> 'd fs_node"

record file_descriptor =
  fd_node :: ptr
  fd_offset :: u32
  fd_flags :: u32
  in_use :: bool

record 'd vfs =
  vfs_root :: ptr
  fd_table :: "nat \<Rightarrow> file_descriptor"
  drv :: 'd

abbreviation MAX_FILENAME :: nat where "MAX_FILENAME \<equiv> 128"
abbreviation MAX_PATH :: nat where "MAX_PATH \<equiv> 256"
abbreviation MAX_OPEN_FILES :: nat where "MAX_OPEN_FILES \<equiv> 256"

abbreviation SEEK_SET :: int where "SEEK_SET \<equiv> 0"
abbreviation SEEK_CUR :: int where "SEEK_CUR \<equiv> 1"
abbreviation SEEK_END :: int where "SEEK_END \<equiv> 2"

abbreviation slash :: u8 where "slash \<equiv> 0x2F"

section \<open>Initialisation and the root\<close>

definition vfs_init :: "'d vfs \<Rightarrow> 'd vfs" where
  "vfs_init s =
     s\<lparr>fd_table := fold (\<lambda>i t. t(i := \<lparr>fd_node = 0, fd_offset = 0, fd_flags = 0, in_use = False\<rparr>))
        [0..<MAX_OPEN_FILES] (fd_table s)\<rparr>"

definition vfs_set_root :: "ptr \<Rightarrow> 'd vfs \<Rightarrow> 'd vfs" where
  "vfs_set_root root s = s\<lparr>vfs_root := root\<rparr>"

definition vfs_get_root :: "'d vfs \<Rightarrow> ptr" where
  "vfs_get_root s = vfs_root s"

section \<open>Path resolution\<close>

text \<open>The inner loop: at most \<open>n\<close> characters up to the next slash, and the rest.\<close>

fun take_component :: "nat \<Rightarrow> u8 list \<Rightarrow> u8 list \<times> u8 list" where
  "take_component n [] = ([], [])"
| "take_component n (c # path) =
     (if c \<noteq> slash \<and> n > 0
      then let (component, rest) = take_component (n - 1) path in (c # component, rest)
      else ([], c # path))"

definition skip_slash :: "u8 list \<Rightarrow> u8 list" where
  "skip_slash path = (case path of [] \<Rightarrow> [] | c # cs \<Rightarrow> if c = slash then cs else path)"

lemma take_component_append: "fst (take_component n p) @ snd (take_component n p) = p"
  by (induction n p rule: take_component.induct) (auto simp: case_prod_beta)

lemma take_component_snd:
  "snd (take_component n (c # p)) =
     (if c \<noteq> slash \<and> n > 0 then snd (take_component (n - 1) p) else c # p)"
  by (simp add: case_prod_beta)

lemma take_component_rest: "length (snd (take_component k q)) \<le> length q"
  by (induction k q rule: take_component.induct) (auto simp: case_prod_beta)

lemma skip_slash_length: "length (skip_slash q) \<le> length q"
  by (auto simp: skip_slash_def split: list.split)

lemma take_component_shorter:
  assumes "p \<noteq> []" and "n > 0"
  shows "length (skip_slash (snd (take_component n p))) < length p"
proof -
  obtain c cs where p: "p = c # cs" using assms(1) by (cases p) auto
  show ?thesis
  proof (cases "c = slash")
    case True
    then show ?thesis by (simp add: p skip_slash_def)
  next
    case False
    with assms(2) have "snd (take_component n p) = snd (take_component (n - 1) cs)"
      by (simp add: p take_component_snd del: take_component.simps)
    then show ?thesis
      using order_trans [OF skip_slash_length take_component_rest [of "n - 1" cs]]
      by (simp add: p less_Suc_eq_le)
  qed
qed

function vfs_walk :: "'d node_store \<Rightarrow> ptr \<Rightarrow> u8 list \<Rightarrow> 'd \<Rightarrow> ptr \<times> 'd" where
  "vfs_walk node_at current path d =
     (if path = [] then (current, d)
      else let (component, rest) = take_component (MAX_FILENAME - 1) path;
               path = skip_slash rest
           in (case n_finddir (node_at d current) of
                 None \<Rightarrow> (0, d)
               | Some finddir \<Rightarrow>
                   (let (nxt, d) = finddir current component d
                    in if nxt = 0 then (0, d) else vfs_walk node_at nxt path d)))"
  by pat_completeness auto
termination
proof (relation "measure (\<lambda>(na, c, p, d). length p)", goal_cases)
  case (2 node_at current path d x component rest path' finddir y nxt d')
  from 2(2,3) have "rest = snd (take_component (MAX_FILENAME - 1) path)" by (metis snd_conv)
  moreover have "length (skip_slash (snd (take_component (MAX_FILENAME - 1) path))) < length path"
    using 2(1) by (intro take_component_shorter) simp_all
  ultimately show ?case using 2(4) by simp
qed simp

declare vfs_walk.simps [simp del]

definition vfs_resolve_path :: "'d node_store \<Rightarrow> u8 list \<Rightarrow> 'd vfs \<Rightarrow> ptr \<times> 'd vfs" where
  "vfs_resolve_path node_at path s =
     (if vfs_root s = 0 then (0, s)
      else if path = [slash] then (vfs_root s, s)
      else let (node, d) = vfs_walk node_at (vfs_root s) (skip_slash path) (drv s)
           in (node, s\<lparr>drv := d\<rparr>))"

section \<open>Descriptors\<close>

definition alloc_fd :: "'d vfs \<Rightarrow> int \<times> 'd vfs" where
  "alloc_fd s =
     (case find (\<lambda>i. \<not> in_use (fd_table s i)) [0..<MAX_OPEN_FILES] of
        None \<Rightarrow> (- 1, s)
      | Some i \<Rightarrow> (int i, s\<lparr>fd_table := (fd_table s)(i := (fd_table s i)\<lparr>in_use := True\<rparr>)\<rparr>))"

definition bad_fd :: "int \<Rightarrow> 'd vfs \<Rightarrow> bool" where
  "bad_fd fd s \<longleftrightarrow> fd < 0 \<or> fd \<ge> int MAX_OPEN_FILES \<or> \<not> in_use (fd_table s (nat fd))"

definition vfs_open :: "'d node_store \<Rightarrow> u8 list \<Rightarrow> u32 \<Rightarrow> 'd vfs \<Rightarrow> int \<times> 'd vfs" where
  "vfs_open node_at path flags s =
     (let (node, s) = vfs_resolve_path node_at path s in
      if node = 0 then (- 1, s)
      else let (fd, s) = alloc_fd s in
           if fd < 0 then (- 1, s)
           else let s = s\<lparr>fd_table := (fd_table s)(nat fd :=
                          (fd_table s (nat fd))\<lparr>fd_node := node, fd_offset := 0, fd_flags := flags\<rparr>)\<rparr>
                in (case n_open (node_at (drv s) node) of
                      None \<Rightarrow> (fd, s)
                    | Some open_fn \<Rightarrow> (fd, s\<lparr>drv := open_fn node (drv s)\<rparr>)))"

definition vfs_close :: "'d node_store \<Rightarrow> int \<Rightarrow> 'd vfs \<Rightarrow> 'd vfs" where
  "vfs_close node_at fd s =
     (if bad_fd fd s then s
      else let node = fd_node (fd_table s (nat fd));
               s = (if node = 0 then s
                    else (case n_close (node_at (drv s) node) of
                            None \<Rightarrow> s | Some close_fn \<Rightarrow> s\<lparr>drv := close_fn node (drv s)\<rparr>))
           in s\<lparr>fd_table := (fd_table s)(nat fd := (fd_table s (nat fd))\<lparr>in_use := False, fd_node := 0\<rparr>)\<rparr>)"

definition advance_fd :: "int \<Rightarrow> u32 \<Rightarrow> 'd vfs \<Rightarrow> 'd vfs" where
  "advance_fd fd n s =
     s\<lparr>fd_table := (fd_table s)(nat fd := (fd_table s (nat fd))\<lparr>fd_offset := fd_offset (fd_table s (nat fd)) + n\<rparr>)\<rparr>"

definition vfs_read :: "'d node_store \<Rightarrow> int \<Rightarrow> ptr \<Rightarrow> u32 \<Rightarrow> 'd vfs \<Rightarrow> int \<times> 'd vfs" where
  "vfs_read node_at fd buffer sz s =
     (if bad_fd fd s then (- 1, s)
      else let node = fd_node (fd_table s (nat fd)) in
           if node = 0 then (- 1, s)
           else (case n_read (node_at (drv s) node) of
                   None \<Rightarrow> (- 1, s)
                 | Some read \<Rightarrow>
                     (let (bytes_read, d) = read node (fd_offset (fd_table s (nat fd))) sz buffer (drv s)
                      in (sint bytes_read, advance_fd fd bytes_read (s\<lparr>drv := d\<rparr>)))))"

definition vfs_write :: "'d node_store \<Rightarrow> int \<Rightarrow> ptr \<Rightarrow> u32 \<Rightarrow> 'd vfs \<Rightarrow> int \<times> 'd vfs" where
  "vfs_write node_at fd buffer sz s =
     (if bad_fd fd s then (- 1, s)
      else let node = fd_node (fd_table s (nat fd)) in
           if node = 0 then (- 1, s)
           else (case n_write (node_at (drv s) node) of
                   None \<Rightarrow> (- 1, s)
                 | Some wr \<Rightarrow>
                     (let (bytes_written, d) = wr node (fd_offset (fd_table s (nat fd))) sz buffer (drv s)
                      in (sint bytes_written, advance_fd fd bytes_written (s\<lparr>drv := d\<rparr>)))))"

text \<open>\<open>whence\<close> is 0, 1 or 2 for the start, the current offset or the end.\<close>

definition vfs_seek :: "'d node_store \<Rightarrow> int \<Rightarrow> int \<Rightarrow> int \<Rightarrow> 'd vfs \<Rightarrow> int \<times> 'd vfs" where
  "vfs_seek node_at fd off whence s =
     (if bad_fd fd s then (- 1, s)
      else let node = fd_node (fd_table s (nat fd)) in
           if node = 0 then (- 1, s)
           else let len = n_length (node_at (drv s) node) in
                (case (if whence = SEEK_SET then Some (word_of_int off)
                       else if whence = SEEK_CUR then Some (fd_offset (fd_table s (nat fd)) + word_of_int off)
                       else if whence = SEEK_END then Some (len + word_of_int off)
                       else None) of
                   None \<Rightarrow> (- 1, s)
                 | Some new_offset \<Rightarrow>
                     (let new_offset = (if new_offset > len then len else new_offset)
                      in (sint new_offset,
                          s\<lparr>fd_table := (fd_table s)(nat fd := (fd_table s (nat fd))\<lparr>fd_offset := new_offset\<rparr>)\<rparr>))))"

definition vfs_readdir :: "'d node_store \<Rightarrow> int \<Rightarrow> dirent \<Rightarrow> u32 \<Rightarrow> 'd vfs \<Rightarrow> int \<times> dirent \<times> 'd vfs" where
  "vfs_readdir node_at fd ent index s =
     (if bad_fd fd s then (- 1, ent, s)
      else let node = fd_node (fd_table s (nat fd)) in
           if node = 0 then (- 1, ent, s)
           else (case n_readdir (node_at (drv s) node) of
                   None \<Rightarrow> (- 1, ent, s)
                 | Some readdir \<Rightarrow>
                     (let (dir_entry, d) = readdir node index (drv s); s = s\<lparr>drv := d\<rparr> in
                      case dir_entry of
                        None \<Rightarrow> (- 1, ent, s)
                      | Some e \<Rightarrow> (0, ent\<lparr>d_name := d_name e, d_inode := d_inode e, d_type := d_type e\<rparr>, s))))"

definition vfs_finddir :: "'d node_store \<Rightarrow> ptr \<Rightarrow> u8 list \<Rightarrow> 'd vfs \<Rightarrow> ptr \<times> 'd vfs" where
  "vfs_finddir node_at node name s =
     (if node = 0 then (0, s)
      else (case n_finddir (node_at (drv s) node) of
              None \<Rightarrow> (0, s)
            | Some finddir \<Rightarrow> (let (n, d) = finddir node name (drv s) in (n, s\<lparr>drv := d\<rparr>))))"

definition vfs_stat :: "'d node_store \<Rightarrow> u8 list \<Rightarrow> 'd fs_node \<Rightarrow> 'd vfs \<Rightarrow> int \<times> 'd fs_node \<times> 'd vfs" where
  "vfs_stat node_at path stat_buf s =
     (let (node, s) = vfs_resolve_path node_at path s in
      if node = 0 then (- 1, stat_buf, s)
      else let n = node_at (drv s) node
           in (0, stat_buf\<lparr>n_name := n_name n, n_inode := n_inode n, n_length := n_length n,
                 n_flags := n_flags n, n_uid := n_uid n, n_gid := n_gid n, n_mask := n_mask n\<rparr>, s))"

section \<open>Creating and removing\<close>

text \<open>The position of the last slash, and the directory part as it is copied.\<close>

definition last_slash :: "u8 list \<Rightarrow> nat option" where
  "last_slash path = fold (\<lambda>i acc. if path ! i = slash then Some i else acc) [0..<length path] None"

definition dir_part :: "nat \<Rightarrow> u8 list \<Rightarrow> u8 list" where
  "dir_part dir_len path = take (if dir_len \<ge> MAX_PATH then MAX_PATH - 1 else dir_len) path"

definition vfs_create :: "'d node_store \<Rightarrow> u8 list \<Rightarrow> u32 \<Rightarrow> 'd vfs \<Rightarrow> int \<times> 'd vfs" where
  "vfs_create node_at path flags s =
     (case last_slash path of
        None \<Rightarrow>
          (if vfs_root s \<noteq> 0
           then (case n_create (node_at (drv s) (vfs_root s)) of
                   None \<Rightarrow> (- 1, s)
                 | Some create \<Rightarrow> (let (r, d) = create (vfs_root s) path flags (drv s) in (r, s\<lparr>drv := d\<rparr>)))
           else (- 1, s))
      | Some k \<Rightarrow>
          (let (dir, s) = vfs_resolve_path node_at (dir_part k path) s in
           if dir = 0 then (- 1, s)
           else (case n_create (node_at (drv s) dir) of
                   None \<Rightarrow> (- 1, s)
                 | Some create \<Rightarrow>
                     (let (r, d) = create dir (drop (k + 1) path) flags (drv s) in (r, s\<lparr>drv := d\<rparr>)))))"

definition vfs_mkdir :: "'d node_store \<Rightarrow> u8 list \<Rightarrow> u32 \<Rightarrow> 'd vfs \<Rightarrow> int \<times> 'd vfs" where
  "vfs_mkdir node_at path mode s =
     (case last_slash path of
        None \<Rightarrow>
          (if vfs_root s \<noteq> 0
           then (case n_mkdir (node_at (drv s) (vfs_root s)) of
                   None \<Rightarrow> (- 1, s)
                 | Some mkdir \<Rightarrow> (let (r, d) = mkdir (vfs_root s) path mode (drv s) in (r, s\<lparr>drv := d\<rparr>)))
           else (- 1, s))
      | Some k \<Rightarrow>
          (let (dir, s) = vfs_resolve_path node_at (dir_part k path) s in
           if dir = 0 then (- 1, s)
           else (case n_mkdir (node_at (drv s) dir) of
                   None \<Rightarrow> (- 1, s)
                 | Some mkdir \<Rightarrow>
                     (let (r, d) = mkdir dir (drop (k + 1) path) mode (drv s) in (r, s\<lparr>drv := d\<rparr>)))))"

definition vfs_unlink :: "'d node_store \<Rightarrow> u8 list \<Rightarrow> 'd vfs \<Rightarrow> int \<times> 'd vfs" where
  "vfs_unlink node_at path s =
     (case last_slash path of
        None \<Rightarrow>
          (if vfs_root s \<noteq> 0
           then (case n_unlink (node_at (drv s) (vfs_root s)) of
                   None \<Rightarrow> (- 1, s)
                 | Some unlink \<Rightarrow> (let (r, d) = unlink (vfs_root s) path (drv s) in (r, s\<lparr>drv := d\<rparr>)))
           else (- 1, s))
      | Some k \<Rightarrow>
          (let (dir, s) = vfs_resolve_path node_at (dir_part k path) s in
           if dir = 0 then (- 1, s)
           else (case n_unlink (node_at (drv s) dir) of
                   None \<Rightarrow> (- 1, s)
                 | Some unlink \<Rightarrow>
                     (let (r, d) = unlink dir (drop (k + 1) path) (drv s) in (r, s\<lparr>drv := d\<rparr>)))))"

section \<open>Looking up a list of names\<close>

fun lookup :: "'d node_store \<Rightarrow> ptr \<Rightarrow> u8 list list \<Rightarrow> 'd \<Rightarrow> ptr \<times> 'd" where
  "lookup node_at node [] d = (node, d)"
| "lookup node_at node (c # cs) d =
     (case n_finddir (node_at d node) of
        None \<Rightarrow> (0, d)
      | Some finddir \<Rightarrow> (let (n, d') = finddir node c d in if n = 0 then (0, d') else lookup node_at n cs d'))"

fun join :: "u8 list list \<Rightarrow> u8 list" where
  "join [] = []"
| "join [c] = c"
| "join (c # cs) = c @ slash # join cs"

definition proper_name :: "u8 list \<Rightarrow> bool" where
  "proper_name c \<longleftrightarrow> c \<noteq> [] \<and> slash \<notin> set c \<and> length c < MAX_FILENAME"

lemma take_component_name:
  "slash \<notin> set c \<Longrightarrow> length c \<le> n \<Longrightarrow> rest = [] \<or> hd rest = slash \<Longrightarrow>
     take_component n (c @ rest) = (c, rest)"
proof (induction c arbitrary: n)
  case Nil
  then show ?case by (cases rest) auto
next
  case (Cons x c)
  then have "take_component (n - 1) (c @ rest) = (c, rest)" by (intro Cons.IH) auto
  with Cons.prems show ?case by simp
qed

lemma vfs_walk_step:
  assumes "path \<noteq> []" and "take_component 127 path = (c, rest)"
  shows "vfs_walk node_at node path d =
     (case n_finddir (node_at d node) of
        None \<Rightarrow> (0, d)
      | Some finddir \<Rightarrow>
          (let (n, d') = finddir node c d in if n = 0 then (0, d') else vfs_walk node_at n (skip_slash rest) d'))"
  using assms by (subst vfs_walk.simps) simp

lemma vfs_walk_nil [simp]: "vfs_walk node_at node [] d = (node, d)"
  by (subst vfs_walk.simps) simp

lemma vfs_walk_join:
  "\<forall>c\<in>set cs. proper_name c \<Longrightarrow> vfs_walk node_at node (join cs) d = lookup node_at node cs d"
proof (induction cs arbitrary: node d rule: join.induct)
  case (2 c)
  then have s: "join [c] \<noteq> []" "take_component 127 (join [c]) = (c, [])"
    using take_component_name [of c 127 "[]"] by (auto simp: proper_name_def)
  show ?case unfolding vfs_walk_step [OF s] by (simp add: skip_slash_def split: option.split prod.split)
next
  case (3 c c' cs)
  then have "take_component 127 (c @ slash # join (c' # cs)) = (c, slash # join (c' # cs))"
    by (intro take_component_name) (auto simp: proper_name_def)
  note step = vfs_walk_step [OF _ this]
  have "skip_slash (slash # join (c' # cs)) = join (c' # cs)" by (simp add: skip_slash_def)
  moreover have "vfs_walk node_at n (join (c' # cs)) d' = lookup node_at n (c' # cs) d'" for n d'
    using 3 by simp
  ultimately show ?case
    by (simp add: step split: option.split prod.split)
qed simp

lemma join_not_slash:
  assumes "cs \<noteq> []" and "\<forall>c\<in>set cs. proper_name c"
  shows "join cs \<noteq> []" and "hd (join cs) \<noteq> slash"
proof -
  obtain x c cs' where cs: "cs = (x # c) # cs'" "x \<noteq> slash"
    using assms by (cases cs) (auto simp: proper_name_def neq_Nil_conv)
  then have "\<exists>r. join cs = x # r" by (cases cs') auto
  with cs(2) show "join cs \<noteq> []" "hd (join cs) \<noteq> slash" by auto
qed

lemma resolve_join:
  assumes "vfs_root s \<noteq> 0" and "cs \<noteq> []" and "\<forall>c\<in>set cs. proper_name c"
  shows "vfs_resolve_path node_at (join cs) s =
      (let (n, d) = lookup node_at (vfs_root s) cs (drv s) in (n, s\<lparr>drv := d\<rparr>))"
    and "vfs_resolve_path node_at (slash # join cs) s = vfs_resolve_path node_at (join cs) s"
proof -
  note j = join_not_slash [OF assms(2,3)]
  then obtain x r where r: "join cs = x # r" "x \<noteq> slash" by (cases "join cs") auto
  then have "skip_slash (join cs) = join cs" "skip_slash (slash # join cs) = join cs"
    "join cs \<noteq> [slash]" "slash # join cs \<noteq> [slash]"
    by (auto simp: skip_slash_def)
  with assms(1) show "vfs_resolve_path node_at (join cs) s =
      (let (n, d) = lookup node_at (vfs_root s) cs (drv s) in (n, s\<lparr>drv := d\<rparr>))"
    "vfs_resolve_path node_at (slash # join cs) s = vfs_resolve_path node_at (join cs) s"
    by (simp_all add: vfs_resolve_path_def vfs_walk_join [OF assms(3)])
qed

text \<open>A name of 128 to 254 bytes is taken apart after its 127th byte.\<close>

lemma take_component_long:
  assumes "slash \<notin> set c" and "n \<le> length c"
  shows "take_component n c = (take n c, drop n c)"
  using assms
proof (induction n c rule: take_component.induct)
  case (2 n x c)
  then show ?case by (cases n) simp_all
qed simp

lemma walk_long:
  assumes "slash \<notin> set c" and "127 < length c" and "length c \<le> 254"
  shows "vfs_walk node_at node c d = lookup node_at node [take 127 c, drop 127 c] d"
proof -
  have t: "c \<noteq> []" "take_component 127 c = (take 127 c, drop 127 c)"
    using assms take_component_long [of c 127] by auto
  have "slash \<notin> set (drop 127 c)" using assms(1) by (meson in_set_dropD)
  then have "proper_name (drop 127 c)" using assms(2,3) by (auto simp: proper_name_def)
  then have "vfs_walk node_at n (drop 127 c) d' = lookup node_at n [drop 127 c] d'" for n d'
    using vfs_walk_join [of "[drop 127 c]"] by simp
  moreover have "skip_slash (drop 127 c) = drop 127 c"
    using \<open>slash \<notin> set (drop 127 c)\<close> by (cases "drop 127 c") (auto simp: skip_slash_def)
  ultimately show ?thesis
    unfolding vfs_walk_step [OF t] by (simp split: option.split prod.split)
qed

lemma resolve_keeps_fds: "fd_table (snd (vfs_resolve_path node_at path s)) = fd_table s"
  by (simp add: vfs_resolve_path_def case_prod_beta)

lemma find_fd: "find P [0..<n] = Some k \<longleftrightarrow> k < n \<and> P k \<and> (\<forall>i<k. \<not> P i)"
  by (auto simp: find_Some_iff)

lemma alloc_fd_free:
  assumes "i < 256" and "\<not> in_use (fd_table s i)"
  obtains fd where "fd < 256" "\<not> in_use (fd_table s fd)" "\<forall>j<fd. in_use (fd_table s j)"
    "alloc_fd s = (int fd, s\<lparr>fd_table := (fd_table s)(fd := (fd_table s fd)\<lparr>in_use := True\<rparr>)\<rparr>)"
proof -
  from assms have "find (\<lambda>i. \<not> in_use (fd_table s i)) [0..<256] \<noteq> None" by (auto simp: find_None_iff)
  then obtain fd where "find (\<lambda>i. \<not> in_use (fd_table s i)) [0..<256] = Some fd" by blast
  with that show thesis by (simp add: alloc_fd_def find_fd)
qed

section \<open>Properties\<close>

text \<open>A file system with one directory at 1 holding the file "a" at 2, of 10 bytes.\<close>

definition demo_node :: "unit fs_node" where
  "demo_node = \<lparr>n_name = [], n_inode = 0, n_length = 10, n_flags = 1, n_uid = 0, n_gid = 0, n_mask = 0,
     n_read = None, n_write = None, n_open = None, n_close = None, n_readdir = None, n_finddir = None,
     n_create = None, n_mkdir = None, n_unlink = None\<rparr>"

definition demo_fs :: "unit node_store" where
  "demo_fs d p = (if p = 1 then demo_node\<lparr>n_finddir := Some (\<lambda>_ nm d. (if nm = [0x61] then 2 else 0, d))\<rparr>
                  else demo_node)"

definition vfs_demo :: "unit vfs" where
  "vfs_demo = vfs_init \<lparr>vfs_root = 1,
     fd_table = (\<lambda>_. \<lparr>fd_node = 0, fd_offset = 0, fd_flags = 0, in_use = False\<rparr>), drv = ()\<rparr>"

lemma vfs_init_fds:
  "fd_table (vfs_init s) i =
     (if i < MAX_OPEN_FILES then \<lparr>fd_node = 0, fd_offset = 0, fd_flags = 0, in_use = False\<rparr> else fd_table s i)"
proof -
  have "fold (\<lambda>i t. t(i := v)) [0..<n] t = (\<lambda>i. if i < n then v else t i)" for n v and t :: "nat \<Rightarrow> file_descriptor"
    by (induction n) (auto simp: fun_eq_iff less_Suc_eq)
  then show ?thesis by (simp add: vfs_init_def)
qed

lemma vfs_init_table: "in_use (fd_table (vfs_init s) i) \<longleftrightarrow> i \<ge> 256 \<and> in_use (fd_table s i)"
  by (simp add: vfs_init_fds)

lemma vfs_demo_facts: "vfs_root vfs_demo = 1" "\<not> in_use (fd_table vfs_demo i)"
  unfolding vfs_demo_def by (simp_all add: vfs_init_table) (simp add: vfs_init_def)

text \<open>
  Property C18. A path of names of 1 to 127 bytes, without a slash inside, joined by slashes
  resolves, with or without a leading slash, to the node found by looking up the names one after another from the root, and to
  null as soon as one of them is not found or its parent is not a directory.
\<close>

theorem vfs_resolve_correct:
  assumes "vfs_root s \<noteq> 0" and "cs \<noteq> []" and "\<forall>c\<in>set cs. proper_name c"
  shows "fst (vfs_resolve_path node_at (join cs) s) = fst (lookup node_at (vfs_root s) cs (drv s))
     \<and> vfs_resolve_path node_at (slash # join cs) s = vfs_resolve_path node_at (join cs) s
     \<and> fst (vfs_resolve_path node_at [slash] s) = vfs_root s"
  using resolve_join [OF assms, of node_at] assms(1)
  by (simp add: case_prod_beta vfs_resolve_path_def)

theorem vfs_resolve_correct_witness:
  "fst (vfs_resolve_path demo_fs (join [[0x61]]) vfs_demo) = 2"
proof -
  have "vfs_root vfs_demo \<noteq> 0" "\<forall>c\<in>set [[0x61]]. proper_name c"
    by (simp_all add: vfs_demo_facts proper_name_def)
  from vfs_resolve_correct [OF this(1) _ this(2), of demo_fs] show ?thesis
    by (simp add: vfs_demo_facts demo_fs_def)
qed

text \<open>
  Remark. A name of 128 bytes or more (up to 254) is silently taken for a directory named
  by its first 127 bytes and an entry named by the rest, instead of being rejected.
\<close>

theorem vfs_long_name_split:
  assumes "vfs_root s \<noteq> 0" and "slash \<notin> set c" and "127 < length c" and "length c \<le> 254"
  shows "fst (vfs_resolve_path node_at c s) = fst (lookup node_at (vfs_root s) [take 127 c, drop 127 c] (drv s))"
proof -
  obtain x r where "c = x # r" "x \<noteq> slash" using assms(2,3) by (cases c) auto
  moreover from this have "c \<noteq> [slash]" by auto
  ultimately have "skip_slash c = c" "c \<noteq> [slash]" by (auto simp: skip_slash_def)
  with assms(1) show ?thesis
    by (simp add: vfs_resolve_path_def walk_long [OF assms(2-4)] case_prod_beta del: lookup.simps(2))
qed

theorem vfs_long_name_split_witness:
  "fst (vfs_resolve_path demo_fs (replicate 130 0x61) vfs_demo)
     = fst (lookup demo_fs 1 [replicate 127 0x61, replicate 3 0x61] ())"
  using vfs_long_name_split [of vfs_demo "replicate 130 0x61" demo_fs]
  by (simp add: vfs_demo_facts del: lookup.simps(2) replicate_Suc)

text \<open>
  Remark. Opening an existing file gives the lowest free descriptor, at offset 0, and
  leaves every other descriptor alone; closing it makes it free again, so open and close
  leave the same descriptors in use.
\<close>

theorem vfs_open_close:
  assumes "vfs_resolve_path node_at path s = (node, s1)" and "node \<noteq> 0"
    and "\<exists>i<MAX_OPEN_FILES. \<not> in_use (fd_table s i)"
  shows "\<exists>fd s'. vfs_open node_at path flags s = (int fd, s') \<and> fd < MAX_OPEN_FILES
     \<and> \<not> in_use (fd_table s fd) \<and> (\<forall>i<fd. in_use (fd_table s i))
     \<and> fd_table s' = (fd_table s)(fd := \<lparr>fd_node = node, fd_offset = 0, fd_flags = flags, in_use = True\<rparr>)
     \<and> (\<forall>i. in_use (fd_table (vfs_close node_at (int fd) s') i) \<longleftrightarrow> in_use (fd_table s i))"
proof -
  have t: "fd_table s1 = fd_table s" using resolve_keeps_fds [of node_at path s] assms(1) by simp
  from assms(3) obtain i where "i < 256" "\<not> in_use (fd_table s1 i)" by (auto simp: t)
  from alloc_fd_free [OF this] obtain fd where
    fd: "fd < 256" "\<not> in_use (fd_table s fd)" "\<forall>j<fd. in_use (fd_table s j)"
      "alloc_fd s1 = (int fd, s1\<lparr>fd_table := (fd_table s1)(fd := (fd_table s1 fd)\<lparr>in_use := True\<rparr>)\<rparr>)"
    unfolding t by blast
  let ?s' = "snd (vfs_open node_at path flags s)"
  have o: "fst (vfs_open node_at path flags s) = int fd"
    using assms(1,2) fd(4) by (simp add: vfs_open_def Let_def split: option.split)
  have ft: "fd_table ?s' = (fd_table s)(fd := \<lparr>fd_node = node, fd_offset = 0, fd_flags = flags, in_use = True\<rparr>)"
  proof -
    have rec: "(fd_table s fd)\<lparr>in_use := True, fd_node := node, fd_offset := 0, fd_flags := flags\<rparr>
        = \<lparr>fd_node = node, fd_offset = 0, fd_flags = flags, in_use = True\<rparr>"
      by (cases "fd_table s fd") simp
    from assms(1,2) fd(4) show ?thesis
      by (simp add: vfs_open_def Let_def t rec split: option.split)
  qed
  have "in_use (fd_table (vfs_close node_at (int fd) ?s') i) \<longleftrightarrow> in_use (fd_table s i)" for i
    using fd(1,2) by (simp add: vfs_close_def bad_fd_def ft Let_def split: option.split)
  with o ft fd show ?thesis by (metis prod.collapse)
qed

theorem vfs_open_close_witness:
  "\<exists>fd s'. vfs_open demo_fs [slash] 0 vfs_demo = (int fd, s') \<and> fd = 0 \<and> fd_node (fd_table s' fd) = 1"
proof -
  have "vfs_resolve_path demo_fs [slash] vfs_demo = (1, vfs_demo)"
    by (simp add: vfs_resolve_path_def vfs_demo_facts)
  moreover have "\<exists>i<MAX_OPEN_FILES. \<not> in_use (fd_table vfs_demo i)"
    by (rule exI [of _ 0]) (simp add: vfs_demo_facts)
  ultimately obtain fd s' where
    o: "vfs_open demo_fs [slash] 0 vfs_demo = (int fd, s')" "\<forall>i<fd. in_use (fd_table vfs_demo i)"
      "fd_table s' = (fd_table vfs_demo)(fd := \<lparr>fd_node = 1, fd_offset = 0, fd_flags = 0, in_use = True\<rparr>)"
    using vfs_open_close [of demo_fs "[slash]" vfs_demo 1 vfs_demo 0] by auto
  from o(2) vfs_demo_facts(2) have "fd = 0" by blast
  with o(1,3) show ?thesis by auto
qed

text \<open>
  Remark. A seek relative to the start, the current offset or the end sets the offset to
  the exact position if that lies inside the file. A position behind the end is cut to the
  end; but a position before the start, being read unsigned, also ends up at the end of the
  file instead of failing.
\<close>

theorem vfs_seek_correct:
  assumes "\<not> bad_fd fd s" and "fd_node (fd_table s (nat fd)) \<noteq> 0" and "whence \<in> {0, 1, 2}"
    and len: "len = n_length (node_at (drv s) (fd_node (fd_table s (nat fd))))"
    and base: "base = (if whence = 0 then 0 else if whence = 1 then fd_offset (fd_table s (nat fd)) else len)"
    and range: "- (2 ^ 31) \<le> off" "off < 2 ^ 31" "uint base + off < 2 ^ 32" "uint len < 2 ^ 31"
  shows "fst (vfs_seek node_at fd off whence s)
      = (if 0 \<le> uint base + off \<and> uint base + off \<le> uint len then uint base + off else uint len)
     \<and> uint (fd_offset (fd_table (snd (vfs_seek node_at fd off whence s)) (nat fd)))
      = fst (vfs_seek node_at fd off whence s)"
proof -
  let ?t = "uint base + off"
  let ?new = "if base + word_of_int off > len then len else base + word_of_int off"
  have w: "(if whence = 0 then Some (word_of_int off :: u32)
       else if whence = 1 then Some (fd_offset (fd_table s (nat fd)) + word_of_int off)
       else if whence = 2 then Some (len + word_of_int off) else None) = Some (base + word_of_int off)"
    using assms(3) by (auto simp: base)
  have r: "vfs_seek node_at fd off whence s = (sint ?new,
      s\<lparr>fd_table := (fd_table s)(nat fd := (fd_table s (nat fd))\<lparr>fd_offset := ?new\<rparr>)\<rparr>)"
    using assms(1,2) w by (simp add: vfs_seek_def Let_def len [symmetric])
  have "uint (base + word_of_int off) = ?t mod 2 ^ 32"
    by (simp add: uint_word_ariths uint_word_of_int mod_simps)
  moreover have "?t < 0 \<Longrightarrow> ?t mod 2 ^ 32 = ?t + 2 ^ 32 \<and> uint len < ?t + 2 ^ 32"
  proof -
    assume neg: "?t < 0"
    have p: "(2 :: int) ^ 32 = 4294967296" by simp
    have "0 \<le> ?t + 2 ^ 32" "?t + 2 ^ 32 < 2 ^ 32"
      unfolding p using neg range(1) [simplified] uint_ge_0 [of base] by linarith+
    then have "(?t + 2 ^ 32) mod 2 ^ 32 = ?t + 2 ^ 32" by (rule mod_pos_pos_trivial)
    moreover have "(?t + 2 ^ 32) mod 2 ^ 32 = ?t mod 2 ^ 32" by simp
    moreover have "uint len < ?t + 2 ^ 32"
      unfolding p using range(1,4) [simplified] uint_ge_0 [of base] by linarith
    ultimately show ?thesis by simp
  qed
  moreover have "0 \<le> ?t \<Longrightarrow> ?t mod 2 ^ 32 = ?t" using range(3) by simp
  ultimately have u: "uint ?new = (if 0 \<le> ?t \<and> ?t \<le> uint len then ?t else uint len)"
    by (cases "0 \<le> ?t") (simp_all add: word_less_def)
  define v where "v = ?new"
  have "uint v \<le> uint len" unfolding v_def u by simp
  with range(4) [simplified] have "uint v < 2147483648" by linarith
  then have "int (unat v) < int 2147483648" by simp
  then have "unat v < 2147483648" by (simp only: of_nat_less_iff)
  from sint_small32 [OF this] have sv: "sint v = uint v" by simp
  have "fst (vfs_seek node_at fd off whence s) = sint v"
    "fd_offset (fd_table (snd (vfs_seek node_at fd off whence s)) (nat fd)) = v"
    unfolding r v_def by simp_all
  moreover have "uint v = (if 0 \<le> ?t \<and> ?t \<le> uint len then ?t else uint len)"
    unfolding v_def by (rule u)
  ultimately show ?thesis by (simp only: sv)
qed

theorem vfs_seek_correct_witness:
  "fst (vfs_seek demo_fs 0 (- 1) 0 (snd (vfs_open demo_fs [slash] 0 vfs_demo))) = 10"
proof -
  have "fd_table (snd (vfs_open demo_fs [slash] 0 vfs_demo)) 0 = \<lparr>fd_node = 1, fd_offset = 0, fd_flags = 0, in_use = True\<rparr>"
  proof -
    have "alloc_fd vfs_demo = (0, vfs_demo\<lparr>fd_table := (fd_table vfs_demo)(0 := (fd_table vfs_demo 0)\<lparr>in_use := True\<rparr>)\<rparr>)"
    proof -
      have "find (\<lambda>i. \<not> in_use (fd_table vfs_demo i)) [0..<256] = Some 0"
        by (simp add: find_fd vfs_demo_facts)
      then show ?thesis by (simp add: alloc_fd_def)
    qed
    then show ?thesis
      by (simp add: vfs_open_def vfs_resolve_path_def vfs_demo_facts demo_fs_def demo_node_def)
  qed
  then show ?thesis
    using vfs_seek_correct [of 0 "snd (vfs_open demo_fs [slash] 0 vfs_demo)" 0 10 demo_fs 0 "- 1"]
    by (simp add: bad_fd_def demo_fs_def demo_node_def)
qed

end
