(* ===== verification/VfsTypes.thy ===== *)
theory VfsTypes
  imports VfsComplete
begin

text \<open>
  Typing of the virtual file system (\<^verbatim>\<open>fs/vfs_complete.c\<close>). The code calls through function
  pointers of nodes it got from drivers and keeps in the root variable and in the descriptor
  table. \<open>V d n\<close> says that \<open>n\<close> points to a node in driver state \<open>d\<close>; a typed driver
  returns null or nodes and destroys none. Then every pointer the file system holds is a node
  whenever a descriptor is in use, and null otherwise, after any sequence of calls.
\<close>

section \<open>Typed drivers\<close>

definition keeps :: "('d \<Rightarrow> ptr \<Rightarrow> bool) \<Rightarrow> 'd \<Rightarrow> 'd \<Rightarrow> bool" where
  "keeps V d d' \<longleftrightarrow> (\<forall>n. V d n \<longrightarrow> V d' n)"

definition node_typed :: "('d \<Rightarrow> ptr \<Rightarrow> bool) \<Rightarrow> 'd fs_node \<Rightarrow> ptr \<Rightarrow> 'd \<Rightarrow> bool" where
  "node_typed V nd n d \<longleftrightarrow>
     (\<forall>f nm. n_finddir nd = Some f \<longrightarrow>
        keeps V d (snd (f n nm d)) \<and> (fst (f n nm d) = 0 \<or> V (snd (f n nm d)) (fst (f n nm d))))
   \<and> (\<forall>f off sz b. n_read nd = Some f \<longrightarrow> keeps V d (snd (f n off sz b d)))
   \<and> (\<forall>f off sz b. n_write nd = Some f \<longrightarrow> keeps V d (snd (f n off sz b d)))
   \<and> (\<forall>f. n_open nd = Some f \<longrightarrow> keeps V d (f n d))
   \<and> (\<forall>f. n_close nd = Some f \<longrightarrow> keeps V d (f n d))
   \<and> (\<forall>f i. n_readdir nd = Some f \<longrightarrow> keeps V d (snd (f n i d)))
   \<and> (\<forall>f nm k. n_create nd = Some f \<longrightarrow> keeps V d (snd (f n nm k d)))
   \<and> (\<forall>f nm k. n_mkdir nd = Some f \<longrightarrow> keeps V d (snd (f n nm k d)))
   \<and> (\<forall>f nm. n_unlink nd = Some f \<longrightarrow> keeps V d (snd (f n nm d)))"

definition typed_driver :: "('d \<Rightarrow> ptr \<Rightarrow> bool) \<Rightarrow> 'd node_store \<Rightarrow> bool" where
  "typed_driver V node_at \<longleftrightarrow> (\<forall>d n. V d n \<longrightarrow> node_typed V (node_at d n) n d)"

lemma typed_driverD: "typed_driver V node_at \<Longrightarrow> V d n \<Longrightarrow> node_typed V (node_at d n) n d"
  by (simp add: typed_driver_def)

lemma keeps_refl [simp]: "keeps V d d"
  by (simp add: keeps_def)

lemma keeps_trans: "keeps V d e \<Longrightarrow> keeps V e f \<Longrightarrow> keeps V d f"
  by (simp add: keeps_def)

lemma keepsD: "keeps V d e \<Longrightarrow> V d n \<Longrightarrow> V e n"
  by (simp add: keeps_def)

section \<open>The invariant\<close>

text \<open>A pointer that is null or a node, and what the root and the descriptors hold.\<close>

definition node_or_null :: "('d \<Rightarrow> ptr \<Rightarrow> bool) \<Rightarrow> 'd \<Rightarrow> ptr \<Rightarrow> bool" where
  "node_or_null V d n \<longleftrightarrow> n = 0 \<or> V d n"

definition fd_typed :: "('d \<Rightarrow> ptr \<Rightarrow> bool) \<Rightarrow> 'd \<Rightarrow> file_descriptor \<Rightarrow> bool" where
  "fd_typed V d f \<longleftrightarrow> (if in_use f then fd_node f \<noteq> 0 \<and> V d (fd_node f) else fd_node f = 0)"

definition vfs_typed :: "('d \<Rightarrow> ptr \<Rightarrow> bool) \<Rightarrow> 'd vfs \<Rightarrow> bool" where
  "vfs_typed V s \<longleftrightarrow> node_or_null V (drv s) (vfs_root s) \<and> (\<forall>i<MAX_OPEN_FILES. fd_typed V (drv s) (fd_table s i))"

lemma vfs_typed_keeps:
  "vfs_typed V s \<Longrightarrow> keeps V (drv s) d \<Longrightarrow> vfs_typed V (s\<lparr>drv := d\<rparr>)"
  by (auto simp: vfs_typed_def node_or_null_def fd_typed_def keeps_def)

lemma vfs_typed_fd:
  "vfs_typed V s \<Longrightarrow> fd_typed V (drv s) f \<Longrightarrow> vfs_typed V (s\<lparr>fd_table := (fd_table s)(i := f)\<rparr>)"
  by (simp add: vfs_typed_def)

lemma good_fd:
  assumes "vfs_typed V s" and "\<not> bad_fd fd s"
  shows "fd_node (fd_table s (nat fd)) \<noteq> 0" and "V (drv s) (fd_node (fd_table s (nat fd)))"
    and "in_use (fd_table s (nat fd))" and "nat fd < MAX_OPEN_FILES"
proof -
  from assms(2) show "nat fd < MAX_OPEN_FILES" "in_use (fd_table s (nat fd))" by (auto simp: bad_fd_def)
  with assms(1) show "fd_node (fd_table s (nat fd)) \<noteq> 0" "V (drv s) (fd_node (fd_table s (nat fd)))"
    by (auto simp: vfs_typed_def fd_typed_def)
qed

lemma walk_typed:
  assumes "typed_driver V node_at" and "V d n"
  shows "keeps V d (snd (vfs_walk node_at n path d))
     \<and> node_or_null V (snd (vfs_walk node_at n path d)) (fst (vfs_walk node_at n path d))"
  using assms(2)
proof (induction "length path" arbitrary: path n d rule: less_induct)
  case less
  show ?case
  proof (cases "path = []")
    case True
    with less.prems show ?thesis by (simp add: node_or_null_def)
  next
    case False
    obtain c rest where t: "take_component 127 path = (c, rest)" by force
    have len: "length (skip_slash rest) < length path"
      using take_component_shorter [OF False, of 127] t by simp
    note ty = typed_driverD [OF assms(1) less.prems, unfolded node_typed_def]
    show ?thesis
    proof (cases "n_finddir (node_at d n)")
      case None
      then show ?thesis by (simp add: vfs_walk_step [OF False t] node_or_null_def)
    next
      case (Some f)
      obtain m e where f: "f n c d = (m, e)" by force
      from ty Some f have k: "keeps V d e" "m = 0 \<or> V e m" by (metis fst_conv snd_conv)+
      show ?thesis
      proof (cases "m = 0")
        case True
        with Some f k show ?thesis by (simp add: vfs_walk_step [OF False t] node_or_null_def)
      next
        case nz: False
        with k have "V e m" by simp
        from less.hyps [OF len this] k(1) nz Some f show ?thesis
          by (simp add: vfs_walk_step [OF False t]) (blast intro: keeps_trans)
      qed
    qed
  qed
qed

text \<open>Resolution only changes the driver state, and returns null or a node.\<close>

lemma resolve_typed:
  assumes "typed_driver V node_at" and "vfs_typed V s"
  shows "vfs_typed V (snd (vfs_resolve_path node_at path s))"
    and "node_or_null V (drv (snd (vfs_resolve_path node_at path s))) (fst (vfs_resolve_path node_at path s))"
proof -
  have "vfs_typed V (snd (vfs_resolve_path node_at path s))
     \<and> node_or_null V (drv (snd (vfs_resolve_path node_at path s))) (fst (vfs_resolve_path node_at path s))"
  proof (cases "vfs_root s = 0 \<or> path = [slash]")
    case True
    with assms(2) show ?thesis by (auto simp: vfs_resolve_path_def vfs_typed_def node_or_null_def)
  next
    case False
    with assms(2) have "V (drv s) (vfs_root s)" by (auto simp: vfs_typed_def node_or_null_def)
    from walk_typed [OF assms(1) this, of "skip_slash path"] assms(2) False show ?thesis
      by (simp add: vfs_resolve_path_def case_prod_beta vfs_typed_keeps)
  qed
  then show "vfs_typed V (snd (vfs_resolve_path node_at path s))"
    "node_or_null V (drv (snd (vfs_resolve_path node_at path s))) (fst (vfs_resolve_path node_at path s))" by blast+
qed

section \<open>Every operation preserves it\<close>

lemma open_typed:
  assumes "typed_driver V node_at" and "vfs_typed V s"
  shows "vfs_typed V (snd (vfs_open node_at path flags s))"
proof -
  obtain node s1 where r: "vfs_resolve_path node_at path s = (node, s1)" by force
  from resolve_typed [OF assms, of path] r have s1: "vfs_typed V s1" "node_or_null V (drv s1) node" by simp_all
  show ?thesis
  proof (cases "node = 0 \<or> find (\<lambda>i. \<not> in_use (fd_table s1 i)) [0..<MAX_OPEN_FILES] = None")
    case True
    with s1(1) show ?thesis by (auto simp: vfs_open_def r alloc_fd_def)
  next
    case False
    then obtain i where i: "find (\<lambda>i. \<not> in_use (fd_table s1 i)) [0..<MAX_OPEN_FILES] = Some i" and nz: "node \<noteq> 0"
      by auto
    with s1(2) have V: "V (drv s1) node" by (simp add: node_or_null_def)
    let ?f = "(fd_table s1 i)\<lparr>in_use := True, fd_node := node, fd_offset := 0, fd_flags := flags\<rparr>"
    let ?s = "s1\<lparr>fd_table := (fd_table s1)(i := ?f)\<rparr>"
    have t: "vfs_typed V ?s" by (rule vfs_typed_fd [OF s1(1)]) (simp add: fd_typed_def nz V)
    from typed_driverD [OF assms(1) V] have
      k: "keeps V (drv ?s) (f node (drv s1))" if "n_open (node_at (drv s1) node) = Some f" for f
      using that by (simp add: node_typed_def)
    have "snd (vfs_open node_at path flags s) =
        (case n_open (node_at (drv s1) node) of None \<Rightarrow> ?s | Some f \<Rightarrow> ?s\<lparr>drv := f node (drv s1)\<rparr>)"
      using nz i by (simp add: vfs_open_def r alloc_fd_def split: option.split)
    with t k show ?thesis by (auto intro: vfs_typed_keeps split: option.split)
  qed
qed

lemma close_typed:
  assumes "typed_driver V node_at" and "vfs_typed V s"
  shows "vfs_typed V (vfs_close node_at fd s)"
proof (cases "bad_fd fd s")
  case True
  with assms(2) show ?thesis by (simp add: vfs_close_def)
next
  case False
  note g = good_fd [OF assms(2) False]
  let ?n = "fd_node (fd_table s (nat fd))"
  let ?s = "case n_close (node_at (drv s) ?n) of None \<Rightarrow> s | Some f \<Rightarrow> s\<lparr>drv := f ?n (drv s)\<rparr>"
  have "vfs_typed V ?s"
    using typed_driverD [OF assms(1) g(2)] assms(2) by (auto simp: node_typed_def intro: vfs_typed_keeps split: option.split)
  then have "vfs_typed V (?s\<lparr>fd_table := (fd_table ?s)(nat fd := (fd_table ?s (nat fd))\<lparr>in_use := False, fd_node := 0\<rparr>)\<rparr>)"
    by (rule vfs_typed_fd) (simp add: fd_typed_def)
  with False g(1) show ?thesis by (simp add: vfs_close_def Let_def)
qed

lemma offset_typed:
  assumes "vfs_typed V s" and "\<not> bad_fd fd s" and "keeps V (drv s) d"
  shows "vfs_typed V (s\<lparr>drv := d, fd_table := (fd_table s)(nat fd := (fd_table s (nat fd))\<lparr>fd_offset := n\<rparr>)\<rparr>)"
  using vfs_typed_fd [OF vfs_typed_keeps [OF assms(1,3)], of "(fd_table s (nat fd))\<lparr>fd_offset := n\<rparr>" "nat fd"]
    good_fd [OF assms(1,2)] assms(3)
  by (simp add: fd_typed_def keepsD)

lemma read_write_typed:
  assumes "typed_driver V node_at" and "vfs_typed V s"
  shows "vfs_typed V (snd (vfs_read node_at fd b n s))" and "vfs_typed V (snd (vfs_write node_at fd b n s))"
    and "vfs_typed V (snd (vfs_seek node_at fd off w s))" and "vfs_typed V (snd (snd (vfs_readdir node_at fd ent i s)))"
proof -
  have "vfs_typed V (snd (vfs_read node_at fd b n s)) \<and> vfs_typed V (snd (vfs_write node_at fd b n s))
      \<and> vfs_typed V (snd (vfs_seek node_at fd off w s)) \<and> vfs_typed V (snd (snd (vfs_readdir node_at fd ent i s)))"
  proof (cases "bad_fd fd s")
    case True
    with assms(2) show ?thesis by (simp add: vfs_read_def vfs_write_def vfs_seek_def vfs_readdir_def)
  next
    case False
    note g = good_fd [OF assms(2) False]
    note ty = typed_driverD [OF assms(1) g(2), unfolded node_typed_def]
    note o = offset_typed [OF assms(2) False]
    have sk: "vfs_typed V (s\<lparr>fd_table := (fd_table s)(nat fd := (fd_table s (nat fd))\<lparr>fd_offset := m\<rparr>)\<rparr>)" for m
      using o [OF keeps_refl, of m] by simp
    have "vfs_typed V (snd (vfs_read node_at fd b n s))"
      using False g(1) ty assms(2) o by (auto simp: vfs_read_def advance_fd_def Let_def case_prod_beta split: option.split)
    moreover have "vfs_typed V (snd (vfs_write node_at fd b n s))"
      using False g(1) ty assms(2) o by (auto simp: vfs_write_def advance_fd_def Let_def case_prod_beta split: option.split)
    moreover have "vfs_typed V (snd (vfs_seek node_at fd off w s))"
      using False g(1) assms(2) sk by (auto simp: vfs_seek_def Let_def)
    moreover have "vfs_typed V (snd (snd (vfs_readdir node_at fd ent i s)))"
      using False g(1) ty assms(2)
      by (auto simp: vfs_readdir_def Let_def case_prod_beta intro: vfs_typed_keeps split: option.split)
    ultimately show ?thesis by blast
  qed
  then show "vfs_typed V (snd (vfs_read node_at fd b n s))" "vfs_typed V (snd (vfs_write node_at fd b n s))"
    "vfs_typed V (snd (vfs_seek node_at fd off w s))" "vfs_typed V (snd (snd (vfs_readdir node_at fd ent i s)))"
    by blast+
qed

lemma finddir_stat_typed:
  assumes "typed_driver V node_at" and "vfs_typed V s"
  shows "node_or_null V (drv s) node \<Longrightarrow> vfs_typed V (snd (vfs_finddir node_at node nm s))"
    and "vfs_typed V (snd (snd (vfs_stat node_at path buf s)))"
proof -
  show "node_or_null V (drv s) node \<Longrightarrow> vfs_typed V (snd (vfs_finddir node_at node nm s))"
    using assms typed_driverD [OF assms(1), of "drv s" node]
    by (auto simp: vfs_finddir_def node_or_null_def node_typed_def case_prod_beta intro: vfs_typed_keeps split: option.split)
  show "vfs_typed V (snd (snd (vfs_stat node_at path buf s)))"
    using resolve_typed(1) [OF assms, of path] by (simp add: vfs_stat_def case_prod_beta Let_def)
qed

text \<open>Creation and removal call a method of the directory, at most once.\<close>

lemma directory_call:
  assumes "typed_driver V node_at" and "vfs_typed V s"
    and "\<And>m t. V (drv t) m \<Longrightarrow> vfs_typed V t \<Longrightarrow> vfs_typed V (snd (A m t))"
    and "\<And>k m t. V (drv t) m \<Longrightarrow> vfs_typed V t \<Longrightarrow> vfs_typed V (snd (B k m t))"
  shows "vfs_typed V (snd (case last_slash path of
      None \<Rightarrow> (if vfs_root s \<noteq> 0 then A (vfs_root s) s else (- 1, s))
    | Some k \<Rightarrow> (let (dir, s) = vfs_resolve_path node_at (dir_part k path) s in
                 if dir = 0 then (- 1 :: int, s) else B k dir s)))"
proof (cases "last_slash path")
  case None
  with assms(2,3) show ?thesis by (auto simp: vfs_typed_def [of V s] node_or_null_def)
next
  case (Some k)
  obtain dir t where r: "vfs_resolve_path node_at (dir_part k path) s = (dir, t)" by force
  from resolve_typed [OF assms(1,2), of "dir_part k path"] r assms(4) Some show ?thesis
    by (auto simp: node_or_null_def)
qed

lemma directory_typed:
  assumes "typed_driver V node_at" and "vfs_typed V s"
  shows "vfs_typed V (snd (vfs_create node_at path flags s))" and "vfs_typed V (snd (vfs_mkdir node_at path flags s))"
    and "vfs_typed V (snd (vfs_unlink node_at path s))"
proof -
  have c: "vfs_typed V (snd (case n_create (node_at (drv t) m) of None \<Rightarrow> (- 1 :: int, t)
      | Some f \<Rightarrow> (let (r, d) = f m nm flags (drv t) in (r, t\<lparr>drv := d\<rparr>))))"
    and k: "vfs_typed V (snd (case n_mkdir (node_at (drv t) m) of None \<Rightarrow> (- 1 :: int, t)
      | Some f \<Rightarrow> (let (r, d) = f m nm flags (drv t) in (r, t\<lparr>drv := d\<rparr>))))"
    and u: "vfs_typed V (snd (case n_unlink (node_at (drv t) m) of None \<Rightarrow> (- 1 :: int, t)
      | Some f \<Rightarrow> (let (r, d) = f m nm (drv t) in (r, t\<lparr>drv := d\<rparr>))))"
    if "V (drv t) m" "vfs_typed V t" for m t nm
    using typed_driverD [OF assms(1) that(1)] that(2)
    by (auto simp: node_typed_def case_prod_beta intro: vfs_typed_keeps split: option.split)
  show "vfs_typed V (snd (vfs_create node_at path flags s))"
    unfolding vfs_create_def
    by (rule directory_call [OF assms,
          where A = "\<lambda>m t. case n_create (node_at (drv t) m) of None \<Rightarrow> (- 1, t)
            | Some f \<Rightarrow> (let (r, d) = f m path flags (drv t) in (r, t\<lparr>drv := d\<rparr>))"])
      (simp_all add: c)
  show "vfs_typed V (snd (vfs_mkdir node_at path flags s))"
    unfolding vfs_mkdir_def
    by (rule directory_call [OF assms,
          where A = "\<lambda>m t. case n_mkdir (node_at (drv t) m) of None \<Rightarrow> (- 1, t)
            | Some f \<Rightarrow> (let (r, d) = f m path flags (drv t) in (r, t\<lparr>drv := d\<rparr>))"])
      (simp_all add: k)
  show "vfs_typed V (snd (vfs_unlink node_at path s))"
    unfolding vfs_unlink_def
    by (rule directory_call [OF assms,
          where A = "\<lambda>m t. case n_unlink (node_at (drv t) m) of None \<Rightarrow> (- 1, t)
            | Some f \<Rightarrow> (let (r, d) = f m path (drv t) in (r, t\<lparr>drv := d\<rparr>))"])
      (simp_all add: u)
qed

section \<open>Any sequence of calls\<close>

text \<open>The calls of the interface; nodes a caller passes in are null or nodes it got before.\<close>

inductive vfs_step :: "('d \<Rightarrow> ptr \<Rightarrow> bool) \<Rightarrow> 'd node_store \<Rightarrow> 'd vfs \<Rightarrow> 'd vfs \<Rightarrow> bool"
  for V node_at where
  step_init: "vfs_step V node_at s (vfs_init s)"
| step_root: "node_or_null V (drv s) root \<Longrightarrow> vfs_step V node_at s (vfs_set_root root s)"
| step_open: "vfs_step V node_at s (snd (vfs_open node_at path flags s))"
| step_close: "vfs_step V node_at s (vfs_close node_at fd s)"
| step_read: "vfs_step V node_at s (snd (vfs_read node_at fd b n s))"
| step_write: "vfs_step V node_at s (snd (vfs_write node_at fd b n s))"
| step_seek: "vfs_step V node_at s (snd (vfs_seek node_at fd off w s))"
| step_readdir: "vfs_step V node_at s (snd (snd (vfs_readdir node_at fd ent i s)))"
| step_finddir: "node_or_null V (drv s) node \<Longrightarrow> vfs_step V node_at s (snd (vfs_finddir node_at node nm s))"
| step_stat: "vfs_step V node_at s (snd (snd (vfs_stat node_at path buf s)))"
| step_create: "vfs_step V node_at s (snd (vfs_create node_at path flags s))"
| step_mkdir: "vfs_step V node_at s (snd (vfs_mkdir node_at path flags s))"
| step_unlink: "vfs_step V node_at s (snd (vfs_unlink node_at path s))"

lemma vfs_init_typed:
  "node_or_null V (drv s) (vfs_root s) \<Longrightarrow> vfs_typed V (vfs_init s)"
  by (simp add: vfs_typed_def vfs_init_fds fd_typed_def) (simp add: vfs_init_def)

lemma vfs_step_typed:
  assumes "typed_driver V node_at" and "vfs_step V node_at s t" and "vfs_typed V s"
  shows "vfs_typed V t"
  using assms(2,3)
  by cases (simp_all add: vfs_init_typed vfs_set_root_def open_typed close_typed read_write_typed finddir_stat_typed
      directory_typed assms(1) vfs_typed_def [of V s] vfs_typed_def [of V "s\<lparr>vfs_root := _\<rparr>"])

lemma vfs_steps_typed:
  "(vfs_step V node_at)\<^sup>*\<^sup>* s t \<Longrightarrow> typed_driver V node_at \<Longrightarrow> vfs_typed V s \<Longrightarrow> vfs_typed V t"
  by (induction rule: rtranclp_induct) (auto dest: vfs_step_typed)

text \<open>
  Property C19. Over drivers that return null or nodes and destroy none, whatever sequence of
  calls is made after the initialisation, every function the file system calls through a pointer is
  that of a node: the root is null or a node, a descriptor in use holds a node and a free one null,
  and what path resolution returns is null or a node.
\<close>

theorem vfs_type_safe:
  assumes "typed_driver V node_at" and "vfs_root s = 0"
    and "(vfs_step V node_at)\<^sup>*\<^sup>* (vfs_init s) t"
  shows "node_or_null V (drv t) (vfs_root t)
     \<and> (\<forall>i<MAX_OPEN_FILES. if in_use (fd_table t i) then V (drv t) (fd_node (fd_table t i)) else fd_node (fd_table t i) = 0)
     \<and> (let (node, u) = vfs_resolve_path node_at path t in node_or_null V (drv u) node)"
proof -
  have "vfs_typed V (vfs_init s)" by (rule vfs_init_typed) (simp add: node_or_null_def assms(2))
  with vfs_steps_typed [OF assms(3,1)] have t: "vfs_typed V t" by blast
  with resolve_typed(2) [OF assms(1) t, of path] show ?thesis
    by (auto simp: vfs_typed_def fd_typed_def case_prod_beta)
qed

text \<open>The file system of the other witnesses: the nodes are 1 and 2.\<close>

definition demo_valid :: "unit \<Rightarrow> ptr \<Rightarrow> bool" where
  "demo_valid d n \<longleftrightarrow> n = 1 \<or> n = 2"

lemma demo_typed: "typed_driver demo_valid demo_fs"
  by (auto simp: typed_driver_def node_typed_def demo_valid_def demo_fs_def demo_node_def keeps_def)

theorem vfs_type_safe_witness:
  "\<forall>s. let t = vfs_close demo_fs 0 (snd (vfs_open demo_fs [0x61] 0 (vfs_set_root 1 (vfs_init (s\<lparr>vfs_root := 0\<rparr>)))))
      in (\<forall>i<MAX_OPEN_FILES. if in_use (fd_table t i) then demo_valid (drv t) (fd_node (fd_table t i))
                             else fd_node (fd_table t i) = 0)"
proof
  fix s :: "unit vfs"
  let ?i = "vfs_init (s\<lparr>vfs_root := 0\<rparr>)"
  let ?o = "snd (vfs_open demo_fs [0x61] 0 (vfs_set_root 1 ?i))"
  have "node_or_null demo_valid (drv ?i) 1" by (simp add: node_or_null_def demo_valid_def)
  then have "(vfs_step demo_valid demo_fs)\<^sup>*\<^sup>* ?i (vfs_close demo_fs 0 ?o)"
    by (meson rtranclp.rtrancl_into_rtrancl rtranclp.rtrancl_refl vfs_step.step_root vfs_step.step_open vfs_step.step_close)
  note w = vfs_type_safe [OF demo_typed _ this, of "[slash]"]
  show "let t = vfs_close demo_fs 0 ?o
      in \<forall>i<MAX_OPEN_FILES. if in_use (fd_table t i) then demo_valid (drv t) (fd_node (fd_table t i))
                            else fd_node (fd_table t i) = 0"
    unfolding Let_def by (rule w [THEN conjunct2, THEN conjunct1]) simp
qed

end
