(* ===== verification/Initrd.thy ===== *)
theory Initrd
  imports Heap Monitor LibcString
begin

text \<open>
  The first file system layer and the initial ram disk: \<^verbatim>\<open>fs/vfs.c\<close> (calls through a
  node's function pointers), \<^verbatim>\<open>fs/initrd.c\<close> (the driver) and
  \<^verbatim>\<open>tools/mkinitrd.c\<close> (the host tool that writes the image). Function pointers are
  names of a type \<open>'f\<close>; for the ram disk they are the three functions of the driver. A name
  field holds the characters before its terminator. The nodes the driver allocates are a map of their
  own next to the byte memory \<open>i_mem\<close> with the image: an image that lies in the heap region, where
  writing the nodes would destroy it, is outside the model.
\<close>

section \<open>Nodes\<close>

record 'f fsnode =
  f_name :: "u8 list"
  f_flags :: u32
  f_inode :: u32
  f_length :: u32
  f_impl :: u32
  f_read :: "'f option"
  f_write :: "'f option"
  f_open :: "'f option"
  f_close :: "'f option"
  f_readdir :: "'f option"
  f_finddir :: "'f option"
  f_ptr :: ptr

definition FS_FILE :: u32 where "FS_FILE = 0x01"
definition FS_DIRECTORY :: u32 where "FS_DIRECTORY = 0x02"

definition fs_read ::
  "('f \<Rightarrow> ptr \<Rightarrow> u32 \<Rightarrow> u32 \<Rightarrow> ptr \<Rightarrow> 's \<Rightarrow> u32 \<times> 's) \<Rightarrow> (ptr \<Rightarrow> 'f fsnode) \<Rightarrow> ptr \<Rightarrow> u32 \<Rightarrow> u32 \<Rightarrow> ptr
     \<Rightarrow> 's \<Rightarrow> u32 \<times> 's" where
  "fs_read call nodes node off sz buffer s =
     (case f_read (nodes node) of Some f \<Rightarrow> call f node off sz buffer s | None \<Rightarrow> (0, s))"

definition fs_write ::
  "('f \<Rightarrow> ptr \<Rightarrow> u32 \<Rightarrow> u32 \<Rightarrow> ptr \<Rightarrow> 's \<Rightarrow> u32 \<times> 's) \<Rightarrow> (ptr \<Rightarrow> 'f fsnode) \<Rightarrow> ptr \<Rightarrow> u32 \<Rightarrow> u32 \<Rightarrow> ptr
     \<Rightarrow> 's \<Rightarrow> u32 \<times> 's" where
  "fs_write call nodes node off sz buffer s =
     (case f_write (nodes node) of Some f \<Rightarrow> call f node off sz buffer s | None \<Rightarrow> (0, s))"

definition fs_open :: "('f \<Rightarrow> ptr \<Rightarrow> 's \<Rightarrow> 's) \<Rightarrow> (ptr \<Rightarrow> 'f fsnode) \<Rightarrow> ptr \<Rightarrow> u32 \<Rightarrow> 's \<Rightarrow> 's" where
  "fs_open call nodes node flags s =
     (case f_open (nodes node) of Some f \<Rightarrow> call f node s | None \<Rightarrow> s)"

definition fs_close :: "('f \<Rightarrow> ptr \<Rightarrow> 's \<Rightarrow> 's) \<Rightarrow> (ptr \<Rightarrow> 'f fsnode) \<Rightarrow> ptr \<Rightarrow> 's \<Rightarrow> 's" where
  "fs_close call nodes node s =
     (case f_close (nodes node) of Some f \<Rightarrow> call f node s | None \<Rightarrow> s)"

definition fs_readdir ::
  "('f \<Rightarrow> ptr \<Rightarrow> u32 \<Rightarrow> 's \<Rightarrow> 'e option \<times> 's) \<Rightarrow> (ptr \<Rightarrow> 'f fsnode) \<Rightarrow> ptr \<Rightarrow> u32 \<Rightarrow> 's \<Rightarrow> 'e option \<times> 's" where
  "fs_readdir call nodes node index s =
     (if f_flags (nodes node) AND FS_DIRECTORY \<noteq> 0
      then (case f_readdir (nodes node) of Some f \<Rightarrow> call f node index s | None \<Rightarrow> (None, s))
      else (None, s))"

definition fs_finddir ::
  "('f \<Rightarrow> ptr \<Rightarrow> u8 list \<Rightarrow> 's \<Rightarrow> ptr) \<Rightarrow> (ptr \<Rightarrow> 'f fsnode) \<Rightarrow> ptr \<Rightarrow> u8 list \<Rightarrow> 's \<Rightarrow> ptr" where
  "fs_finddir call nodes node name s =
     (if f_flags (nodes node) AND FS_DIRECTORY \<noteq> 0
      then (case f_finddir (nodes node) of Some f \<Rightarrow> call f node name s | None \<Rightarrow> 0)
      else 0)"

section \<open>The ram disk\<close>

datatype initrd_fun = Initrd_read | Initrd_readdir | Initrd_finddir

record initrd_dirent =
  de_name :: "u8 list"
  de_inode :: u32

record initrd =
  i_heap :: heap
  i_mem :: mem
  i_con :: monitor
  nodes :: "ptr \<Rightarrow> initrd_fun fsnode"
  file_headers :: ptr
  initrd_root :: ptr
  initrd_dev :: ptr
  root_nodes :: ptr
  nroot_nodes :: u32
  dirent_buf :: initrd_dirent

text \<open>Packed size of a file header, and size of a node: 128 bytes of name and 11 words.\<close>

abbreviation sizeof_file_header :: u32 where "sizeof_file_header \<equiv> 73"
abbreviation sizeof_fs_node :: u32 where "sizeof_fs_node \<equiv> 172"

definition le32 :: "mem \<Rightarrow> ptr \<Rightarrow> u32" where
  "le32 m p = ucast (m p) OR push_bit 8 (ucast (m (p + 1))) OR push_bit 16 (ucast (m (p + 2)))
     OR push_bit 24 (ucast (m (p + 3)))"

definition node_zero :: "'f fsnode" where
  "node_zero = \<lparr>f_name = [], f_flags = 0, f_inode = 0, f_length = 0, f_impl = 0, f_read = None,
     f_write = None, f_open = None, f_close = None, f_readdir = None, f_finddir = None, f_ptr = 0\<rparr>"

definition root_node :: "initrd \<Rightarrow> u32 \<Rightarrow> ptr" where
  "root_node s i = root_nodes s + i * sizeof_fs_node"

text \<open>\<open>strncpy(name, fname, 63); name[63] = 0\<close> as the characters of the resulting string.\<close>

definition copied_name :: "mem \<Rightarrow> ptr \<Rightarrow> u8 list" where
  "copied_name m fname = takeWhile (\<lambda>c. c \<noteq> 0) (List.map (\<lambda>i. m (fname + of_nat i)) [0..<63])"

definition initrd_read :: "ptr \<Rightarrow> u32 \<Rightarrow> u32 \<Rightarrow> ptr \<Rightarrow> initrd \<Rightarrow> u32 \<times> initrd" where
  "initrd_read node off sz buffer s =
     (if node = 0 \<or> buffer = 0 then (0, s)
      else if f_inode (nodes s node) \<ge> nroot_nodes s then (0, s)
      else let h = file_headers s + f_inode (nodes s node) * sizeof_file_header;
               h_offset = le32 (i_mem s) (h + 65);
               h_length = le32 (i_mem s) (h + 69)
           in if off > h_length then (0, s)
              else let sz = (if off + sz > h_length then h_length - off else sz)
                   in (sz, s\<lparr>i_mem := snd (memcpy buffer (h_offset + off) sz (i_mem s))\<rparr>))"

definition initrd_readdir :: "ptr \<Rightarrow> u32 \<Rightarrow> initrd \<Rightarrow> initrd_dirent option \<times> initrd" where
  "initrd_readdir node index s =
     (if node = 0 then (None, s)
      else if node = initrd_root s \<and> index = 0
      then let s = s\<lparr>dirent_buf := \<lparr>de_name = chars ''dev'', de_inode = 0\<rparr>\<rparr> in (Some (dirent_buf s), s)
      else let index = (if index = 0 then 1 else index) in
           if index - 1 \<ge> nroot_nodes s then (None, s)
           else let n = nodes s (root_node s (index - 1));
                    s = s\<lparr>dirent_buf := \<lparr>de_name = f_name n, de_inode = f_inode n\<rparr>\<rparr>
                in (Some (dirent_buf s), s))"

function find_node :: "initrd \<Rightarrow> u8 list \<Rightarrow> u32 \<Rightarrow> ptr" where
  "find_node s name i =
     (if i < nroot_nodes s
      then if name = f_name (nodes s (root_node s i)) then root_node s i else find_node s name (i + 1)
      else 0)"
  by pat_completeness auto
termination
  by (relation "measure (\<lambda>(s, name, i). unat (nroot_nodes s) - unat i)") (auto intro: loop_measure32)

declare find_node.simps [simp del]

definition initrd_finddir :: "ptr \<Rightarrow> u8 list \<Rightarrow> initrd \<Rightarrow> ptr" where
  "initrd_finddir node name s =
     (if node = 0 then 0
      else if node = initrd_root s \<and> name = chars ''dev'' then initrd_dev s
      else find_node s name 0)"

section \<open>Initialisation\<close>

definition i_say :: "u8 list \<Rightarrow> initrd \<Rightarrow> initrd" where
  "i_say msg s = s\<lparr>i_con := print_string msg (i_con s)\<rparr>"

definition i_say_dec :: "u32 \<Rightarrow> initrd \<Rightarrow> initrd" where
  "i_say_dec n s = s\<lparr>i_con := print_dec n (i_con s)\<rparr>"

definition dump_bytes :: "ptr \<Rightarrow> initrd \<Rightarrow> initrd" where
  "dump_bytes data s =
     fold (\<lambda>i s. let b = i_mem s (data + of_nat i);
                     s = (if b < 0x10 then i_say (chars ''0'') s else s)
                 in i_say (chars '' '') (s\<lparr>i_con := print_hex (ucast b) (i_con s)\<rparr>)) [0..<16] s"

definition init_file_node :: "u32 \<Rightarrow> nat \<Rightarrow> initrd \<Rightarrow> initrd" where
  "init_file_node location i s =
     (let m = i_mem s; fh = location + 4 + of_nat i * sizeof_file_header;
          foffset = le32 m (fh + 65); flength = le32 m (fh + 69);
          p = root_node s (of_nat i);
          n = (nodes s p)\<lparr>f_name := copied_name m (fh + 1), f_flags := FS_FILE, f_read := Some Initrd_read,
                f_inode := of_nat i, f_length := flength, f_impl := location + foffset\<rparr>
      in s\<lparr>nodes := (nodes s)(p := n)\<rparr>)"

definition zero_nodes :: "nat \<Rightarrow> initrd \<Rightarrow> initrd" where
  "zero_nodes n s = fold (\<lambda>i s. s\<lparr>nodes := (nodes s)(root_node s (of_nat i) := node_zero)\<rparr>) [0..<n] s"

definition initrd_init :: "u32 \<Rightarrow> initrd \<Rightarrow> (ptr \<times> initrd) option" where
  "initrd_init location s =
     (if location < 0x100000 then Some (0, s)
      else let s = dump_bytes location (i_say (chars ''       First 16 bytes: '') s);
               s = i_say [0x0A] s;
               s = s\<lparr>nroot_nodes := le32 (i_mem s) location\<rparr>;
               s = i_say [0x0A] (i_say_dec (nroot_nodes s) (i_say (chars ''       nfiles = '') s))
           in if nroot_nodes s = 0 \<or> nroot_nodes s > 10
              then Some (0, i_say (chars ''       [ERROR] Bad nfiles'' @ [0x0A]) s)
              else
                (case kmalloc sizeof_fs_node (i_heap s) of None \<Rightarrow> None | Some (root, h1) \<Rightarrow>
                 let s = s\<lparr>i_heap := h1, initrd_root := root\<rparr> in
                 if root = 0 then Some (0, s)
                 else let s = s\<lparr>nodes := (nodes s)(root := node_zero\<lparr>f_name := chars ''initrd'',
                                 f_flags := FS_DIRECTORY, f_readdir := Some Initrd_readdir,
                                 f_finddir := Some Initrd_finddir\<rparr>)\<rparr>
                 in (case kmalloc sizeof_fs_node (i_heap s) of None \<Rightarrow> None | Some (dev, h2) \<Rightarrow>
                 let s = s\<lparr>i_heap := h2, initrd_dev := dev\<rparr> in
                 if dev = 0 then map_option (\<lambda>h. (0, s\<lparr>i_heap := h\<rparr>)) (kfree root (i_heap s))
                 else let s = s\<lparr>nodes := (nodes s)(dev := node_zero\<lparr>f_name := chars ''dev'',
                                 f_flags := FS_DIRECTORY\<rparr>)\<rparr>
                 in (case kmalloc (sizeof_fs_node * nroot_nodes s) (i_heap s) of None \<Rightarrow> None | Some (arr, h3) \<Rightarrow>
                 let s = s\<lparr>i_heap := h3, root_nodes := arr\<rparr> in
                 if arr = 0
                 then (case kfree dev (i_heap s) of None \<Rightarrow> None
                       | Some h \<Rightarrow> map_option (\<lambda>h'. (0, s\<lparr>i_heap := h'\<rparr>)) (kfree root h))
                 else let s = zero_nodes (unat (nroot_nodes s)) s;
                          s = fold (init_file_node location) [0..<unat (nroot_nodes s)] s;
                          s = s\<lparr>file_headers := location + 4\<rparr>;
                          s = i_say (chars '' files'' @ [0x0A])
                                (i_say_dec (nroot_nodes s) (i_say (chars ''       [OK] Loaded '') s))
                      in Some (initrd_root s, s)))))"

section \<open>The image\<close>

definition bytes32 :: "u32 \<Rightarrow> u8 list" where
  "bytes32 x = [ucast x, ucast (drop_bit 8 x), ucast (drop_bit 16 x), ucast (drop_bit 24 x)]"

text \<open>
  A file header as a C compiler lays it out: \<open>pad\<close> is what lies between the name and the
  offset. The packed structure of the kernel has none; the structure of \<open>mkinitrd\<close> is not
  packed, so its offset is aligned to four bytes by three bytes of padding.
\<close>

definition header_bytes :: "u8 list \<Rightarrow> u8 list \<Rightarrow> u32 \<Rightarrow> u32 \<Rightarrow> u8 list" where
  "header_bytes pad name off len =
     [0xBF] @ take 63 (name @ replicate 63 0) @ [0] @ pad @ bytes32 off @ bytes32 len"

text \<open>\<open>mkinitrd\<close> on files given as name and contents.\<close>

fun mkinitrd_headers :: "u8 list \<Rightarrow> u32 \<Rightarrow> (u8 list \<times> u8 list) list \<Rightarrow> u8 list" where
  "mkinitrd_headers pad off [] = []"
| "mkinitrd_headers pad off ((name, content) # fs) =
     header_bytes pad name off (of_nat (length content))
     @ mkinitrd_headers pad (off + of_nat (length content)) fs"

definition mkinitrd :: "u8 list \<Rightarrow> (u8 list \<times> u8 list) list \<Rightarrow> u8 list" where
  "mkinitrd pad fs =
     bytes32 (of_nat (length fs))
     @ mkinitrd_headers pad (4 + of_nat (length fs) * of_nat (73 + length pad)) fs
     @ concat (List.map snd fs)"

section \<open>Reading back\<close>

definition stored :: "mem \<Rightarrow> ptr \<Rightarrow> u8 list \<Rightarrow> bool" where
  "stored m p bs \<longleftrightarrow> (\<forall>i<length bs. m (p + of_nat i) = bs ! i)"

lemma stored_append:
  "stored m p (xs @ ys) \<longleftrightarrow> stored m p xs \<and> stored m (p + of_nat (length xs)) ys"
proof -
  have "(\<forall>i<length xs + length ys. m (p + of_nat i) = (xs @ ys) ! i)
      \<longleftrightarrow> (\<forall>i<length xs. m (p + of_nat i) = xs ! i) \<and> (\<forall>j<length ys. m (p + of_nat (length xs + j)) = ys ! j)"
    (is "?l \<longleftrightarrow> ?r1 \<and> ?r2")
  proof (intro iffI conjI allI impI)
    fix j assume a: ?l "j < length ys"
    then have "length xs + j < length xs + length ys" by simp
    with a(1) show "m (p + of_nat (length xs + j)) = ys ! j" by (auto simp del: of_nat_add)
  next
    fix i assume r: "?r1 \<and> ?r2" and i: "i < length xs + length ys"
    show "m (p + of_nat i) = (xs @ ys) ! i"
    proof (cases "i < length xs")
      case True
      with r show ?thesis by (simp add: nth_append)
    next
      case False
      then have "i = length xs + (i - length xs)" "i - length xs < length ys" using i by auto
      with r False show ?thesis by (metis nth_append)
    qed
  qed (auto simp: nth_append)
  then show ?thesis by (simp add: stored_def add.assoc)
qed

lemma stored_Cons: "stored m p (x # xs) \<longleftrightarrow> m p = x \<and> stored m (p + 1) xs"
  using stored_append [of m p "[x]" xs] by (simp add: stored_def)

lemma stored_Nil [simp]: "stored m p []"
  by (simp add: stored_def)

lemma le32_stored:
  assumes "stored m p (bytes32 x)"
  shows "le32 m p = x"
proof -
  from assms have b: "m p = ucast x" "m (p + 1) = ucast (drop_bit 8 x)"
      "m (p + 2) = ucast (drop_bit 16 x)" "m (p + 3) = ucast (drop_bit 24 x)"
    by (simp_all add: bytes32_def stored_Cons add.assoc)
  show ?thesis
  proof (rule bit_word_eqI)
    fix n assume "n < LENGTH(32)"
    then show "bit (le32 m p) n \<longleftrightarrow> bit x n"
      unfolding le32_def b
      by (cases "n < 24"; cases "n < 16"; cases "n < 8") (auto simp: bit_simps)
  qed
qed

lemma bytes32_length [simp]: "length (bytes32 x) = 4"
  by (simp add: bytes32_def)

lemma takeWhile_padded: "0 \<notin> set xs \<Longrightarrow> takeWhile (\<lambda>c. c \<noteq> (0 :: u8)) (take k (xs @ replicate n 0)) = take k xs"
proof (induction xs arbitrary: k)
  case Nil
  then show ?case by (cases "min n k") (auto simp: take_replicate min_def split: if_splits)
next
  case (Cons x xs)
  then show ?case by (cases k) auto
qed

lemma stored_map: "stored m p xs \<Longrightarrow> List.map (\<lambda>i. m (p + of_nat i)) [0..<length xs] = xs"
  by (rule nth_equalityI) (simp_all add: stored_def)

lemma name_bytes_length: "length (take 63 (name @ replicate 63 0)) = 63"
  by simp

lemma header_parse:
  assumes st: "stored m fh (header_bytes [] name off len)" and nz: "0 \<notin> set name"
  shows "m fh = 0xBF" and "copied_name m (fh + 1) = take 63 name"
    and "le32 m (fh + 65) = off" and "le32 m (fh + 69) = len"
proof -
  let ?n = "take 63 (name @ replicate 63 0)"
  have l: "(of_nat (length ?n) :: u32) = 63" unfolding name_bytes_length by simp
  from st have s: "m fh = 0xBF" "stored m (fh + 1) ?n" "stored m (fh + 65) (bytes32 off)"
      "stored m (fh + 69) (bytes32 len)"
    unfolding header_bytes_def by (simp_all add: stored_append stored_Cons l add.assoc del: length_take take_append)
  then show "m fh = 0xBF" by simp
  from stored_map [OF s(2)] have "List.map (\<lambda>i. m (fh + 1 + of_nat i)) [0..<63] = ?n"
    unfolding name_bytes_length .
  then have "copied_name m (fh + 1) = takeWhile (\<lambda>c. c \<noteq> 0) ?n" by (simp add: copied_name_def)
  with takeWhile_padded [OF nz, of 63 63] show "copied_name m (fh + 1) = take 63 name" by simp
  show "le32 m (fh + 65) = off" "le32 m (fh + 69) = len" by (rule le32_stored [OF s(3)], rule le32_stored [OF s(4)])
qed

lemma header_bytes_length [simp]: "length (header_bytes pad name off len) = 73 + length pad"
  by (simp add: header_bytes_def)

text \<open>Where the headers and the contents of an image are.\<close>

definition before :: "(u8 list \<times> u8 list) list \<Rightarrow> nat \<Rightarrow> nat" where
  "before fs i = sum_list (List.map (\<lambda>f. length (snd f)) (take i fs))"

lemma stored_headers:
  "stored m p (mkinitrd_headers pad off fs) \<Longrightarrow> i < length fs \<Longrightarrow>
     stored m (p + of_nat (i * (73 + length pad)))
       (header_bytes pad (fst (fs ! i)) (off + of_nat (before fs i)) (of_nat (length (snd (fs ! i)))))"
proof (induction fs arbitrary: p off i)
  case (Cons f fs)
  obtain name content where f: "f = (name, content)" by force
  from Cons.prems(1) have s: "stored m p (header_bytes pad name off (of_nat (length content)))"
      "stored m (p + of_nat (73 + length pad)) (mkinitrd_headers pad (off + of_nat (length content)) fs)"
    by (simp_all add: f stored_append del: of_nat_add)
  show ?case
  proof (cases i)
    case 0
    with s(1) show ?thesis by (simp add: f before_def)
  next
    case (Suc j)
    with Cons.prems(2) have "j < length fs" by simp
    from Cons.IH [OF s(2) this]
    show ?thesis by (simp add: Suc f before_def add.assoc)
  qed
qed simp

lemma mkinitrd_headers_length:
  "length (mkinitrd_headers pad off fs) = length fs * (73 + length pad)"
  by (induction pad off fs rule: mkinitrd_headers.induct) simp_all

lemma stored_contents:
  "stored m p (concat (List.map snd fs)) \<Longrightarrow> i < length fs \<Longrightarrow> stored m (p + of_nat (before fs i)) (snd (fs ! i))"
proof (induction fs arbitrary: p i)
  case (Cons f fs)
  show ?case
  proof (cases i)
    case 0
    with Cons.prems show ?thesis by (simp add: before_def stored_append)
  next
    case (Suc j)
    with Cons.prems have "stored m (p + of_nat (length (snd f)) + of_nat (before fs j)) (snd (fs ! j))"
      by (intro Cons.IH) (simp_all add: stored_append)
    then show ?thesis by (simp add: Suc before_def add.assoc)
  qed
qed simp

lemma stored_image:
  assumes "stored m p (mkinitrd pad fs)"
  shows "le32 m p = of_nat (length fs)"
    and "i < length fs \<Longrightarrow> stored m (p + 4 + of_nat (i * (73 + length pad)))
       (header_bytes pad (fst (fs ! i)) (4 + of_nat (length fs * (73 + length pad)) + of_nat (before fs i))
          (of_nat (length (snd (fs ! i)))))"
    and "i < length fs \<Longrightarrow>
       stored m (p + (4 + of_nat (length fs * (73 + length pad)) + of_nat (before fs i))) (snd (fs ! i))"
proof -
  from assms have s: "stored m p (bytes32 (of_nat (length fs)))"
      "stored m (p + 4) (mkinitrd_headers pad (4 + of_nat (length fs * (73 + length pad))) fs)"
      "stored m (p + 4 + of_nat (length fs * (73 + length pad))) (concat (List.map snd fs))"
    by (simp_all add: mkinitrd_def stored_append mkinitrd_headers_length add.assoc del: of_nat_add)
  show "le32 m p = of_nat (length fs)" by (rule le32_stored [OF s(1)])
  show "i < length fs \<Longrightarrow> stored m (p + 4 + of_nat (i * (73 + length pad)))
       (header_bytes pad (fst (fs ! i)) (4 + of_nat (length fs * (73 + length pad)) + of_nat (before fs i))
          (of_nat (length (snd (fs ! i)))))"
    by (rule stored_headers [OF s(2)])
  show "i < length fs \<Longrightarrow>
       stored m (p + (4 + of_nat (length fs * (73 + length pad)) + of_nat (before fs i))) (snd (fs ! i))"
    using stored_contents [OF s(3), of i] by (simp only: add.assoc)
qed

section \<open>What initialisation builds\<close>

lemma i_say_frames [frame_simps]:
  "i_mem (i_say t s) = i_mem s" "i_heap (i_say t s) = i_heap s" "nodes (i_say t s) = nodes s"
  "root_nodes (i_say t s) = root_nodes s" "nroot_nodes (i_say t s) = nroot_nodes s"
  "initrd_root (i_say t s) = initrd_root s" "file_headers (i_say t s) = file_headers s"
  "i_mem (i_say_dec n s) = i_mem s" "i_heap (i_say_dec n s) = i_heap s" "nodes (i_say_dec n s) = nodes s"
  "root_nodes (i_say_dec n s) = root_nodes s" "nroot_nodes (i_say_dec n s) = nroot_nodes s"
  "initrd_root (i_say_dec n s) = initrd_root s" "file_headers (i_say_dec n s) = file_headers s"
  by (simp_all add: i_say_def i_say_dec_def)

lemma dump_frames [frame_simps]:
  "i_mem (dump_bytes d s) = i_mem s" "i_heap (dump_bytes d s) = i_heap s"
proof -
  have "i_mem (fold (\<lambda>i s. let b = i_mem s (d + of_nat i);
                     s = (if b < 0x10 then i_say (chars ''0'') s else s)
                 in i_say (chars '' '') (s\<lparr>i_con := print_hex (ucast b) (i_con s)\<rparr>)) xs s) = i_mem s
     \<and> i_heap (fold (\<lambda>i s. let b = i_mem s (d + of_nat i);
                     s = (if b < 0x10 then i_say (chars ''0'') s else s)
                 in i_say (chars '' '') (s\<lparr>i_con := print_hex (ucast b) (i_con s)\<rparr>)) xs s) = i_heap s" for xs
    by (induction xs arbitrary: s) (simp_all add: frame_simps Let_def)
  then show "i_mem (dump_bytes d s) = i_mem s" "i_heap (dump_bytes d s) = i_heap s"
    by (simp_all add: dump_bytes_def)
qed

lemma zero_nodes_frames [frame_simps]:
  "i_mem (zero_nodes n s) = i_mem s" "root_nodes (zero_nodes n s) = root_nodes s"
  "nroot_nodes (zero_nodes n s) = nroot_nodes s" "initrd_root (zero_nodes n s) = initrd_root s"
proof -
  have "i_mem (fold (\<lambda>i s. s\<lparr>nodes := (nodes s)(root_node s (of_nat i) := node_zero)\<rparr>) xs s) = i_mem s
    \<and> root_nodes (fold (\<lambda>i s. s\<lparr>nodes := (nodes s)(root_node s (of_nat i) := node_zero)\<rparr>) xs s) = root_nodes s
    \<and> nroot_nodes (fold (\<lambda>i s. s\<lparr>nodes := (nodes s)(root_node s (of_nat i) := node_zero)\<rparr>) xs s) = nroot_nodes s
    \<and> initrd_root (fold (\<lambda>i s. s\<lparr>nodes := (nodes s)(root_node s (of_nat i) := node_zero)\<rparr>) xs s) = initrd_root s" for xs
    by (induction xs arbitrary: s) simp_all
  then show "i_mem (zero_nodes n s) = i_mem s" "root_nodes (zero_nodes n s) = root_nodes s"
    "nroot_nodes (zero_nodes n s) = nroot_nodes s" "initrd_root (zero_nodes n s) = initrd_root s"
    by (simp_all add: zero_nodes_def)
qed

lemma file_node_frames [frame_simps]:
  "i_mem (init_file_node l i s) = i_mem s" "root_nodes (init_file_node l i s) = root_nodes s"
  "nroot_nodes (init_file_node l i s) = nroot_nodes s" "initrd_root (init_file_node l i s) = initrd_root s"
  by (simp_all add: init_file_node_def Let_def)

lemma file_nodes_frames [frame_simps]:
  "i_mem (fold (init_file_node l) xs s) = i_mem s" "root_nodes (fold (init_file_node l) xs s) = root_nodes s"
  "nroot_nodes (fold (init_file_node l) xs s) = nroot_nodes s"
  "initrd_root (fold (init_file_node l) xs s) = initrd_root s"
  by (induction xs arbitrary: s) (simp_all add: frame_simps)

lemma root_node_inj:
  assumes "i < 1000" and "j < 1000" and "root_node s (of_nat i) = root_node s (of_nat j)"
  shows "i = j"
proof -
  from assms(3) have "(of_nat (i * 172) :: u32) = of_nat (j * 172)" by (simp add: root_node_def)
  with assms(1,2) show ?thesis by (subst (asm) of_nat32_eq_iff) simp_all
qed

text \<open>The node of file \<open>i\<close> as the loop leaves it, for the header at the given place.\<close>

definition file_node_ok :: "u32 \<Rightarrow> nat \<Rightarrow> initrd \<Rightarrow> bool" where
  "file_node_ok location i s \<longleftrightarrow>
     (let fh = location + 4 + of_nat i * sizeof_file_header; n = nodes s (root_node s (of_nat i)) in
      f_name n = copied_name (i_mem s) (fh + 1) \<and> f_flags n = FS_FILE \<and> f_read n = Some Initrd_read
      \<and> f_inode n = of_nat i \<and> f_length n = le32 (i_mem s) (fh + 69)
      \<and> f_impl n = location + le32 (i_mem s) (fh + 65))"

lemma file_nodes_built:
  "n \<le> 1000 \<Longrightarrow> i < n \<Longrightarrow> file_node_ok l i (fold (init_file_node l) [0..<n] s)"
proof (induction n)
  case (Suc n)
  let ?s = "fold (init_file_node l) [0..<n] s"
  have e: "fold (init_file_node l) [0..<Suc n] s = init_file_node l n ?s" by simp
  show ?case
  proof (cases "i = n")
    case True
    show ?thesis
      unfolding e True file_node_ok_def init_file_node_def Let_def by (simp add: root_node_def)
  next
    case False
    with Suc have ok: "file_node_ok l i ?s" by simp
    have "root_node ?s (of_nat i) \<noteq> root_node ?s (of_nat n)"
      using root_node_inj [of i n ?s] False Suc.prems by auto
    with ok show ?thesis
      unfolding e file_node_ok_def init_file_node_def Let_def by (simp add: root_node_def)
  qed
qed simp

text \<open>The three allocations of \<open>initrd_init\<close> succeed.\<close>

definition init_memory :: "u32 \<Rightarrow> heap \<Rightarrow> ptr \<Rightarrow> ptr \<Rightarrow> ptr \<Rightarrow> bool" where
  "init_memory n h root dev arr \<longleftrightarrow> root \<noteq> 0 \<and> dev \<noteq> 0 \<and> arr \<noteq> 0 \<and>
     (\<exists>h1 h2 h3. kmalloc sizeof_fs_node h = Some (root, h1) \<and> kmalloc sizeof_fs_node h1 = Some (dev, h2)
        \<and> kmalloc (sizeof_fs_node * n) h2 = Some (arr, h3))"

lemma initrd_init_ok:
  assumes "0x100000 \<le> location" and n: "n = le32 (i_mem s) location" "n \<noteq> 0" "n \<le> 10"
    and mem: "init_memory n (i_heap s) root dev arr"
  shows "\<exists>s'. initrd_init location s = Some (root, s') \<and> i_mem s' = i_mem s \<and> root_nodes s' = arr
     \<and> nroot_nodes s' = n \<and> file_headers s' = location + 4 \<and> (\<forall>i<unat n. file_node_ok location i s')"
proof -
  from mem obtain h1 h2 h3 where
    m: "kmalloc sizeof_fs_node (i_heap s) = Some (root, h1)" "kmalloc sizeof_fs_node h1 = Some (dev, h2)"
      "kmalloc (sizeof_fs_node * n) h2 = Some (arr, h3)" "root \<noteq> 0" "dev \<noteq> 0" "arr \<noteq> 0"
    by (auto simp: init_memory_def)
  have n10: "unat n \<le> 1000" using n(3) by (simp add: word_le_nat_alt)
  have c: "\<not> location < 0x100000" "\<not> (n = 0 \<or> n > 10)" using assms(1) n(2,3) by (auto simp: not_less)
  let ?loop = "\<lambda>t. (fold (init_file_node location) [0..<unat n] t)\<lparr>file_headers := location + 4\<rparr>"
  have "\<exists>t c. initrd_init location s = Some (root, (?loop t)\<lparr>i_con := c\<rparr>)
      \<and> i_mem t = i_mem s \<and> root_nodes t = arr \<and> nroot_nodes t = n"
  proof -
    have "\<exists>t. (\<exists>x y z. initrd_init location s = Some (root, i_say x (i_say_dec y (i_say z (?loop t)))))
        \<and> i_mem t = i_mem s \<and> root_nodes t = arr \<and> nroot_nodes t = n"
      using c m unfolding initrd_init_def n(1) Let_def
      by (simp add: frame_simps) (intro exI conjI, rule refl, simp_all add: frame_simps)
    then obtain t x y z where t: "initrd_init location s = Some (root, i_say x (i_say_dec y (i_say z (?loop t))))"
        "i_mem t = i_mem s" "root_nodes t = arr" "nroot_nodes t = n" by blast
    have "\<exists>c. i_say x (i_say_dec y (i_say z (?loop t))) = (?loop t)\<lparr>i_con := c\<rparr>"
      by (simp add: i_say_def i_say_dec_def) blast
    with t show ?thesis by auto
  qed
  then obtain t k where t: "initrd_init location s = Some (root, (?loop t)\<lparr>i_con := k\<rparr>)"
      "i_mem t = i_mem s" "root_nodes t = arr" "nroot_nodes t = n" by blast
  have "file_node_ok location i (u\<lparr>file_headers := a\<rparr>\<lparr>i_con := b\<rparr>) = file_node_ok location i u" for i u a b
    by (simp add: file_node_ok_def root_node_def)
  with t file_nodes_built [OF n10, of _ location t] show ?thesis by (auto simp: frame_simps)
qed

section \<open>Properties\<close>

definition load_image :: "ptr \<Rightarrow> u8 list \<Rightarrow> mem" where
  "load_image p bs = (\<lambda>a. if unat (a - p) < length bs then bs ! unat (a - p) else 0)"

lemma stored_load: "length bs < 4294967296 \<Longrightarrow> stored (load_image p bs) p bs"
  by (simp add: stored_def load_image_def)

definition demo_files :: "(u8 list \<times> u8 list) list" where
  "demo_files = [(chars ''motd'', [0x48, 0x69])]"

definition initrd_demo :: "u8 list \<Rightarrow> initrd" where
  "initrd_demo pad = \<lparr>i_heap = heap_init heap_zero, i_mem = load_image 0x200000 (mkinitrd pad demo_files),
     i_con = monitor_demo, nodes = (\<lambda>_. node_zero), file_headers = 0, initrd_root = 0, initrd_dev = 0,
     root_nodes = 0, nroot_nodes = 0, dirent_buf = \<lparr>de_name = [], de_inode = 0\<rparr>\<rparr>"

lemma mkinitrd_length:
  "length (mkinitrd pad fs) = 4 + length fs * (73 + length pad) + sum_list (List.map (\<lambda>f. length (snd f)) fs)"
  by (simp add: mkinitrd_def mkinitrd_headers_length length_concat comp_def)

lemma initrd_demo_stored:
  "length pad \<le> 3 \<Longrightarrow> stored (i_mem (initrd_demo pad)) 0x200000 (mkinitrd pad demo_files)"
  unfolding initrd_demo_def initrd.simps
  by (rule stored_load) (simp add: mkinitrd_length demo_files_def)

lemma initrd_demo_memory: "init_memory 1 (i_heap (initrd_demo pad)) 4194316 4194500 4194684"
proof -
  have r: "unat (round4 172) = 172" using round4_unat [of 172] by simp
  have a: "blocks_alloc (unat (round4 172)) 4194304 [(4194292, False)]
      = Some (4194316, 172, [(172, True), (4194108, False)])"
    "blocks_alloc (unat (round4 172)) 4194304 [(172, True), (4194108, False)]
      = Some (4194500, 172, [(172, True), (172, True), (4193924, False)])"
    "blocks_alloc (unat (round4 172)) 4194304 [(172, True), (172, True), (4193924, False)]
      = Some (4194684, 172, [(172, True), (172, True), (172, True), (4193740, False)])"
    by (simp_all add: r split_block_def)
  from kmalloc_Some [OF heap_demo_rep _ a(1)] obtain h1 where
    h1: "kmalloc 172 (heap_init heap_zero) = Some (4194316, h1)" "heap_rep h1 [(172, True), (4194108, False)]"
    by auto
  from kmalloc_Some [OF h1(2) _ a(2)] obtain h2 where
    h2: "kmalloc 172 h1 = Some (4194500, h2)" "heap_rep h2 [(172, True), (172, True), (4193924, False)]" by auto
  from kmalloc_Some [OF h2(2) _ a(3)] h1(1) h2(1) show ?thesis
    by (auto simp: init_memory_def initrd_demo_def)
qed

text \<open>
  Remark. Were the image written with the packed headers the kernel declares, it would be
  read back exactly: for up to ten files \<open>initrd_init\<close> builds one node per file, in order,
  whose name is the file's (cut to 63 bytes), whose length is its length and whose \<open>impl\<close>
  is the address of its contents in the loaded image.
\<close>

theorem initrd_packed_roundtrip:
  assumes st: "stored (i_mem s) location (mkinitrd [] fs)" and loc: "0x100000 \<le> location"
    and fs: "fs \<noteq> []" "length fs \<le> 10" "\<forall>f\<in>set fs. 0 \<notin> set (fst f) \<and> length (snd f) < 2 ^ 32"
    and mem: "init_memory (of_nat (length fs)) (i_heap s) root dev arr"
  shows "\<exists>s'. initrd_init location s = Some (root, s') \<and> unat (nroot_nodes s') = length fs
     \<and> (\<forall>i<length fs. let n = nodes s' (root_node s' (of_nat i)) in
          f_name n = take 63 (fst (fs ! i)) \<and> unat (f_length n) = length (snd (fs ! i))
          \<and> stored (i_mem s') (f_impl n) (snd (fs ! i)))"
proof -
  note im = stored_image [OF st]
  have u: "unat (of_nat (length fs) :: u32) = length fs" using fs(2) by (intro unat_of_nat32) simp
  have "(of_nat (length fs) :: u32) = le32 (i_mem s) location" by (simp add: im(1))
  moreover have "(of_nat (length fs) :: u32) \<noteq> 0" using fs(1,2) by (simp add: of_nat32_eq_0_iff)
  moreover have "(of_nat (length fs) :: u32) \<le> 10" using fs(2) u by (simp add: word_le_nat_alt)
  ultimately obtain s' where
    s': "initrd_init location s = Some (root, s')" "i_mem s' = i_mem s" "nroot_nodes s' = of_nat (length fs)"
      "\<forall>i<length fs. file_node_ok location i s'"
    using initrd_init_ok [OF loc _ _ _ mem] u by auto
  have "let n = nodes s' (root_node s' (of_nat i)) in
          f_name n = take 63 (fst (fs ! i)) \<and> unat (f_length n) = length (snd (fs ! i))
          \<and> stored (i_mem s') (f_impl n) (snd (fs ! i))" if i: "i < length fs" for i
  proof -
    let ?fh = "location + 4 + of_nat (i * 73)"
    have mem: "fs ! i \<in> set fs" using i by simp
    then have nz: "0 \<notin> set (fst (fs ! i))" "length (snd (fs ! i)) < 4294967296" using fs(3) by auto
    have "stored (i_mem s) ?fh
        (header_bytes [] (fst (fs ! i)) (4 + of_nat (length fs * 73) + of_nat (before fs i)) (of_nat (length (snd (fs ! i)))))"
      using im(2) [OF i] by simp
    note hp = header_parse [OF this nz(1)]
    have fh: "location + 4 + of_nat i * sizeof_file_header = ?fh" by simp
    from s'(4) i have "file_node_ok location i s'" by blast
    then show ?thesis
      using hp(2-4) im(3) [OF i] nz(2) unfolding file_node_ok_def fh s'(2) by (simp add: Let_def)
  qed
  with s' u show ?thesis by auto
qed

theorem initrd_packed_roundtrip_witness:
  "\<exists>s'. initrd_init 0x200000 (initrd_demo []) = Some (4194316, s')
     \<and> f_name (nodes s' (root_node s' 0)) = chars ''motd'' \<and> unat (f_length (nodes s' (root_node s' 0))) = 2"
proof -
  have "demo_files \<noteq> []" "length demo_files \<le> 10" "\<forall>f\<in>set demo_files. 0 \<notin> set (fst f) \<and> length (snd f) < 2 ^ 32"
    by (simp_all add: demo_files_def chars_def of_char_def)
  moreover have "stored (i_mem (initrd_demo [])) 0x200000 (mkinitrd [] demo_files)"
    by (rule initrd_demo_stored) simp
  moreover have "init_memory (of_nat (length demo_files)) (i_heap (initrd_demo [])) 4194316 4194500 4194684"
    using initrd_demo_memory [of "[]"] by (simp add: demo_files_def)
  ultimately obtain s' where
    s': "initrd_init 0x200000 (initrd_demo []) = Some (4194316, s')"
      "\<forall>i<length demo_files. let n = nodes s' (root_node s' (of_nat i)) in
          f_name n = take 63 (fst (demo_files ! i)) \<and> unat (f_length n) = length (snd (demo_files ! i))
          \<and> stored (i_mem s') (f_impl n) (snd (demo_files ! i))"
    using initrd_packed_roundtrip [of "initrd_demo []" "0x200000" demo_files 4194316 4194500 4194684] by auto
  from s'(2) have "f_name (nodes s' (root_node s' 0)) = chars ''motd''"
    "unat (f_length (nodes s' (root_node s' 0))) = 2"
    by (auto simp: demo_files_def Let_def chars_def)
  with s'(1) show ?thesis by blast
qed

text \<open>
  Remark. The header structure of \<open>mkinitrd\<close> is not packed: the compiler puts three bytes
  of padding before the offset, so the kernel reads each number three bytes early. For a real
  image the first node's length is the offset shifted down by a byte, with the low byte of the
  true length on top; a file of 1 to 255 bytes in an image of up to three files is taken to be
  16 MiB times its size.
\<close>

theorem mkinitrd_layout_mismatch:
  assumes st: "stored (i_mem s) location (mkinitrd [p0, p1, p2] fs)" and loc: "0x100000 \<le> location"
    and fs: "fs \<noteq> []" "length fs \<le> 3" "0 < length (snd (fs ! 0))" "length (snd (fs ! 0)) < 256"
    and mem: "init_memory (of_nat (length fs)) (i_heap s) root dev arr"
  shows "\<exists>s'. initrd_init location s = Some (root, s')
     \<and> unat (f_length (nodes s' (root_node s' 0))) = 2 ^ 24 * length (snd (fs ! 0))"
proof -
  note im = stored_image [OF st]
  have u: "unat (of_nat (length fs) :: u32) = length fs" using fs(2) by (intro unat_of_nat32) simp
  have "(of_nat (length fs) :: u32) = le32 (i_mem s) location" by (simp add: im(1))
  moreover have "(of_nat (length fs) :: u32) \<noteq> 0" using fs(1,2) by (simp add: of_nat32_eq_0_iff)
  moreover have "(of_nat (length fs) :: u32) \<le> 10" using fs(2) u by (simp add: word_le_nat_alt)
  ultimately obtain s' where
    s': "initrd_init location s = Some (root, s')" "i_mem s' = i_mem s" "\<forall>i<length fs. file_node_ok location i s'"
    using initrd_init_ok [OF loc _ _ _ mem] u by auto
  let ?fh = "location + 4" and ?len = "of_nat (length (snd (fs ! 0))) :: u32"
  let ?off = "4 + of_nat (length fs * 76) :: u32"
  let ?n = "take 63 (fst (fs ! 0) @ replicate 63 0)"
  have l: "(of_nat (length ?n) :: u32) = 63" unfolding name_bytes_length by simp
  have "stored (i_mem s) ?fh (header_bytes [p0, p1, p2] (fst (fs ! 0)) ?off ?len)"
    using im(2) [of 0] fs(1) by (simp add: before_def)
  then have o: "stored (i_mem s) (?fh + 68) (bytes32 ?off)" and le: "stored (i_mem s) (?fh + 72) (bytes32 ?len)"
    unfolding header_bytes_def
    by (simp_all add: stored_append stored_Cons l add.assoc del: length_take take_append)
  have small: "unat ?off = 4 + length fs * 76"
    using fs(2) by (subst unat_plus32) (simp_all del: of_nat_mult)
  then have "unat (drop_bit 8 ?off) = 0"
    using fs(2) by (simp add: drop_bit_eq_div unat_div del: of_nat_mult)
  then have d8: "drop_bit 8 ?off = 0" by (simp add: unat_eq_0)
  have "drop_bit 16 ?off = drop_bit 8 (drop_bit 8 ?off)" "drop_bit 24 ?off = drop_bit 16 (drop_bit 8 ?off)"
    by (simp_all add: drop_bit_drop_bit)
  with d8 have d: "drop_bit 16 ?off = 0" "drop_bit 24 ?off = 0" by simp_all
  from o le have b: "i_mem s (?fh + 69) = 0" "i_mem s (?fh + 69 + 1) = 0" "i_mem s (?fh + 69 + 2) = 0"
      "i_mem s (?fh + 69 + 3) = ucast ?len"
    unfolding bytes32_def d8 d by (simp_all add: stored_Cons add.assoc)
  have lu: "unat (ucast ?len :: u8) = length (snd (fs ! 0))"
    using fs(4) by (simp add: unsigned_ucast_eq take_bit_nat_eq_self)
  have "le32 (i_mem s) (?fh + 69) = push_bit 24 (ucast (ucast ?len :: u8))"
    unfolding le32_def b by simp
  moreover have "unat (push_bit 24 (ucast x) :: u32) = 2 ^ 24 * unat x" for x :: u8
  proof -
    have "unat x < 256" using unsigned_less [of x, where 'a = nat] by simp
    moreover have "unat (ucast x :: u32) = unat x"
      using calculation by (simp add: unsigned_ucast_eq take_bit_nat_eq_self)
    ultimately show ?thesis by (simp add: push_bit_eq_mult unat_word_ariths)
  qed
  ultimately have "unat (le32 (i_mem s) (?fh + 69)) = 2 ^ 24 * length (snd (fs ! 0))" by (simp add: lu)
  moreover have "file_node_ok location 0 s'" using s'(3) fs(1) by simp
  then have "f_length (nodes s' (root_node s' 0)) = le32 (i_mem s) (?fh + 69)"
    by (simp add: file_node_ok_def Let_def s'(2))
  ultimately show ?thesis using s'(1) by auto
qed

theorem mkinitrd_layout_mismatch_witness:
  "\<exists>s'. initrd_init 0x200000 (initrd_demo [0, 0, 0]) = Some (4194316, s')
     \<and> unat (f_length (nodes s' (root_node s' 0))) = 33554432"
proof -
  have "stored (i_mem (initrd_demo [0, 0, 0])) 0x200000 (mkinitrd [0, 0, 0] demo_files)"
    by (rule initrd_demo_stored) simp
  moreover have "init_memory (of_nat (length demo_files)) (i_heap (initrd_demo [0, 0, 0])) 4194316 4194500 4194684"
    using initrd_demo_memory [of "[0, 0, 0]"] by (simp add: demo_files_def)
  ultimately show ?thesis
    using mkinitrd_layout_mismatch [of "initrd_demo [0, 0, 0]" "0x200000" 0 0 0 demo_files 4194316 4194500 4194684]
    by (auto simp: demo_files_def)
qed

text \<open>
  Remark. A read of a valid node at an offset inside the file copies, from the address in
  the header (not moved by the address the image was loaded at), exactly the bytes asked for
  or those left in the file; but when \<open>offset + size\<close> exceeds 32 bits the sum wraps below the
  length and the full size is copied, far behind the end of the file.
\<close>

theorem initrd_read_bounds:
  assumes "node \<noteq> 0" and "buffer \<noteq> 0" and "f_inode (nodes s node) < nroot_nodes s"
    and h: "h = file_headers s + f_inode (nodes s node) * sizeof_file_header"
    and "off \<le> le32 (i_mem s) (h + 69)"
  shows "\<exists>n. initrd_read node off sz buffer s
       = (n, s\<lparr>i_mem := snd (memcpy buffer (le32 (i_mem s) (h + 65) + off) n (i_mem s))\<rparr>)
     \<and> (if unat off + unat sz < 2 ^ 32
        then unat n = min (unat sz) (unat (le32 (i_mem s) (h + 69)) - unat off)
        else n = sz \<and> unat n > unat (le32 (i_mem s) (h + 69)) - unat off)"
proof -
  let ?len = "le32 (i_mem s) (h + 69)"
  let ?n = "if off + sz > ?len then ?len - off else sz"
  have r: "initrd_read node off sz buffer s
       = (?n, s\<lparr>i_mem := snd (memcpy buffer (le32 (i_mem s) (h + 65) + off) ?n (i_mem s))\<rparr>)"
  proof -
    have c: "\<not> nroot_nodes s \<le> f_inode (nodes s node)" "\<not> off > ?len"
      using assms(3,5) by (simp_all add: not_le not_less)
    show ?thesis
      unfolding initrd_read_def Let_def h [symmetric] using assms(1,2) c by (simp only: if_False) simp
  qed
  have "if unat off + unat sz < 2 ^ 32 then unat ?n = min (unat sz) (unat ?len - unat off)
        else ?n = sz \<and> unat ?n > unat ?len - unat off"
  proof (cases "unat off + unat sz < 2 ^ 32")
    case True
    then have "unat (off + sz) = unat off + unat sz" by (intro unat_plus32) simp
    with True assms(5) show ?thesis
      by (auto simp: word_less_nat_alt word_le_nat_alt unat_minus32 min_def)
  next
    case False
    have "unat (off + sz) = (unat off + unat sz) mod 2 ^ 32" by (simp add: unat_word_ariths)
    also have "\<dots> = unat off + unat sz - 2 ^ 32"
      using False unat_lt32 [of off] unat_lt32 [of sz] by (subst le_mod_geq) simp_all
    finally have "unat (off + sz) < unat off \<or> unat (off + sz) = unat off" using unat_lt32 [of sz] by auto
    with assms(5) have "\<not> off + sz > ?len" by (auto simp: word_less_nat_alt word_le_nat_alt)
    then have "?n = sz" by (rule if_not_P)
    moreover have "unat ?len < unat off + unat sz" "0 < unat sz"
      using False unat_lt32 [of ?len] unat_lt32 [of off] by simp_all
    then have "unat ?len - unat off < unat sz" by arith
    ultimately show ?thesis using False by simp
  qed
  with r show ?thesis by blast
qed

theorem initrd_read_bounds_witness:
  "\<exists>n. fst (initrd_read 0x1000 0 100 0x2000 ((initrd_demo [])\<lparr>file_headers := 0x300000, nroot_nodes := 1\<rparr>)) = n
     \<and> unat n = 0"
proof -
  let ?s = "(initrd_demo [])\<lparr>file_headers := 0x300000, nroot_nodes := 1\<rparr>"
  have z: "le32 (i_mem ?s) (0x300000 + 69) = 0"
    by (simp add: le32_def initrd_demo_def load_image_def mkinitrd_length demo_files_def)
  have p: "(0x1000 :: ptr) \<noteq> 0" "(0x2000 :: ptr) \<noteq> 0" "f_inode (nodes ?s 0x1000) < nroot_nodes ?s"
    "(0x300000 :: ptr) = file_headers ?s + f_inode (nodes ?s 0x1000) * sizeof_file_header"
    "0 \<le> le32 (i_mem ?s) (0x300000 + 69)"
    by (simp_all add: initrd_demo_def node_zero_def)
  from initrd_read_bounds [OF p, of 100] obtain n where
    n: "fst (initrd_read 0x1000 0 100 0x2000 ?s) = n" "unat n = min 100 (unat (le32 (i_mem ?s) (0x300000 + 69)))"
    by auto
  from n(2) have "unat n = 0" unfolding z by simp
  with n(1) show ?thesis by blast
qed

end
