(* ===== verification/Mouse.thy ===== *)
theory Mouse
  imports Ports
begin

text \<open>
  The PS/2 mouse driver, \<^verbatim>\<open>drivers/mouse/mouse.c\<close>: the handshake with the keyboard
  controller through ports \<open>0x60\<close> and \<open>0x64\<close>, and the interrupt handler that collects
  three-byte packets and moves the pointer. Bytes are kept as they arrive and are read as
  \<open>int8_t\<close> where the code does.
\<close>

section \<open>State\<close>

record mouse =
  mouse_x :: int
  mouse_y :: int
  mouse_buttons :: u8
  mouse_cycle :: nat
  mouse_byte :: "nat \<Rightarrow> u8"
  mouse_packet_count :: u32
  mouse_error_count :: u32

abbreviation MOUSE_PORT :: u16 where "MOUSE_PORT \<equiv> 0x60"
abbreviation MOUSE_STATUS :: u16 where "MOUSE_STATUS \<equiv> 0x64"
abbreviation MOUSE_ABIT :: u8 where "MOUSE_ABIT \<equiv> 0x02"
abbreviation MOUSE_BBIT :: u8 where "MOUSE_BBIT \<equiv> 0x01"
abbreviation MOUSE_WRITE :: u8 where "MOUSE_WRITE \<equiv> 0xD4"
abbreviation MOUSE_F_BIT :: u8 where "MOUSE_F_BIT \<equiv> 0x20"

section \<open>Talking to the controller\<close>

fun poll_status :: "device \<Rightarrow> (u8 \<Rightarrow> bool) \<Rightarrow> nat \<Rightarrow> io_trace \<Rightarrow> io_trace" where
  "poll_status dev ready 0 io = io"
| "poll_status dev ready (Suc timeout) io =
     (let (v, io) = inb dev MOUSE_STATUS io in if ready v then io else poll_status dev ready timeout io)"

definition mouse_wait :: "device \<Rightarrow> u8 \<Rightarrow> io_trace \<Rightarrow> io_trace" where
  "mouse_wait dev type io =
     (if type = 0 then poll_status dev (\<lambda>v. v AND MOUSE_BBIT = 1) 100000 io
      else poll_status dev (\<lambda>v. v AND MOUSE_ABIT = 0) 100000 io)"

definition mouse_write :: "device \<Rightarrow> u8 \<Rightarrow> io_trace \<Rightarrow> io_trace" where
  "mouse_write dev data io =
     outb MOUSE_PORT data (mouse_wait dev 1 (outb MOUSE_STATUS MOUSE_WRITE (mouse_wait dev 1 io)))"

definition mouse_read :: "device \<Rightarrow> io_trace \<Rightarrow> u8 \<times> io_trace" where
  "mouse_read dev io = inb dev MOUSE_PORT (mouse_wait dev 0 io)"

definition mouse_init :: "device \<Rightarrow> mouse \<times> io_trace \<Rightarrow> mouse \<times> io_trace" where
  "mouse_init dev = (\<lambda>(s, io).
     (let io = outb MOUSE_STATUS 0xA8 (mouse_wait dev 1 io);
          io = outb MOUSE_STATUS 0x20 (mouse_wait dev 1 io);
          (v, io) = inb dev MOUSE_PORT (mouse_wait dev 0 io);
          status = v OR 2;
          io = outb MOUSE_STATUS 0x60 (mouse_wait dev 1 io);
          io = outb MOUSE_PORT status (mouse_wait dev 1 io);
          io = snd (mouse_read dev (mouse_write dev 0xF6 io));
          io = snd (mouse_read dev (mouse_write dev 0xF4 io));
          io = snd (mouse_read dev (mouse_write dev 0xF3 io));
          io = snd (mouse_read dev (mouse_write dev 100 io))
      in (s\<lparr>mouse_packet_count := 0, mouse_error_count := 0\<rparr>, io)))"

section \<open>Packets\<close>

text \<open>The 32-bit value of a delta byte: sign-extended, then or-ed with the sign flag's mask.\<close>

definition delta :: "bool \<Rightarrow> u8 \<Rightarrow> int" where
  "delta sign b = sint (if sign then scast b OR 0xFFFFFF00 else scast b :: u32)"

definition accelerate :: "int \<Rightarrow> int" where
  "accelerate d = (if d > 5 \<or> d < - 5 then d * 2 else d)"

definition clamp :: "int \<Rightarrow> int \<Rightarrow> int" where
  "clamp n v = (let v = (if v < 0 then 0 else v) in if v \<ge> n then n - 1 else v)"

definition mouse_packet :: "mouse \<Rightarrow> mouse" where
  "mouse_packet s =
     (let b0 = mouse_byte s 0;
          s = s\<lparr>mouse_buttons := b0 AND 0x07\<rparr>;
          dx = delta (b0 AND 0x10 \<noteq> 0) (mouse_byte s 1);
          dy = delta (b0 AND 0x20 \<noteq> 0) (mouse_byte s 2)
      in if b0 AND 0x40 \<noteq> 0 then s
         else if b0 AND 0x80 \<noteq> 0 then s
         else let dx = accelerate dx; dy = accelerate dy
              in s\<lparr>mouse_x := clamp 640 (mouse_x s + dx), mouse_y := clamp 480 (mouse_y s - dy)\<rparr>)"

definition mouse_data :: "u8 \<Rightarrow> mouse \<Rightarrow> mouse" where
  "mouse_data data s =
     (if mouse_cycle s = 0 \<and> data AND 0x08 = 0
      then s\<lparr>mouse_error_count := mouse_error_count s + 1\<rparr>
      else let s = s\<lparr>mouse_byte := (mouse_byte s)(mouse_cycle s := data), mouse_cycle := mouse_cycle s + 1\<rparr>
           in if mouse_cycle s = 3
              then mouse_packet (s\<lparr>mouse_cycle := 0, mouse_packet_count := mouse_packet_count s + 1\<rparr>)
              else s)"

definition mouse_handler :: "device \<Rightarrow> mouse \<times> io_trace \<Rightarrow> mouse \<times> io_trace" where
  "mouse_handler dev = (\<lambda>(s, io).
     (let (status, io) = inb dev MOUSE_STATUS io in
      if status AND MOUSE_BBIT = 0 then (s, io)
      else if status AND MOUSE_F_BIT = 0 then (s, io)
      else let (data, io) = inb dev MOUSE_PORT io in (mouse_data data s, io)))"

definition mouse_initial :: mouse where
  "mouse_initial = \<lparr>mouse_x = 160, mouse_y = 100, mouse_buttons = 0, mouse_cycle = 0,
     mouse_byte = (\<lambda>_. 0), mouse_packet_count = 0, mouse_error_count = 0\<rparr>"

definition mouse_get_state :: "mouse \<Rightarrow> int \<times> int \<times> u8" where
  "mouse_get_state s = (mouse_x s, mouse_y s, mouse_buttons s)"

definition mouse_get_packet_count :: "mouse \<Rightarrow> u32" where
  "mouse_get_packet_count s = mouse_packet_count s"

definition mouse_get_error_count :: "mouse \<Rightarrow> u32" where
  "mouse_get_error_count s = mouse_error_count s"

section \<open>Deltas\<close>

lemma clamp_range: "0 < n \<Longrightarrow> 0 \<le> clamp n v \<and> clamp n v < n"
  by (simp add: clamp_def Let_def)

lemma clamp_id: "0 \<le> v \<Longrightarrow> v < n \<Longrightarrow> clamp n v = v"
  by (simp add: clamp_def)

lemma sint_byte: "sint (b :: u8) = (if b < 0x80 then uint b else uint b - 256)"
proof -
  have u: "uint b < 256" "0 \<le> uint b" using uint_lt2p [of b] by simp_all
  have s: "sint b = signed_take_bit 7 (uint b)" by (simp add: sint_uint)
  show ?thesis
  proof (cases "b < 0x80")
    case True
    then have "uint b < 2 ^ 7" by (simp add: word_less_def)
    moreover have "- (2 ^ 7) \<le> uint b" using u(2) by (rule order_trans [rotated]) simp
    ultimately have "signed_take_bit 7 (uint b) = uint b" by (intro signed_take_bit_int_eq_self)
    with True s show ?thesis by simp
  next
    case False
    then have "uint b \<ge> 128" by (simp add: word_less_def)
    with u have "signed_take_bit 7 (uint b) = uint b - 256"
      using mod_pos_pos_trivial [of "uint b - 128" 256] mod_add_self2 [of "uint b - 128" 256]
      by (simp add: signed_take_bit_eq_take_bit_shift take_bit_eq_mod add.commute)
    with False s show ?thesis by simp
  qed
qed

lemma sint_small_word: "- (2 ^ 31) \<le> k \<Longrightarrow> k < 2 ^ 31 \<Longrightarrow> sint (word_of_int k :: u32) = k"
  by (simp add: sint_sbintrunc' signed_take_bit_int_eq_self)

lemma delta_plain: "delta False b = sint b"
proof -
  have u: "uint b < 256" "0 \<le> uint b" using uint_lt2p [of b] by simp_all
  have "- (2 ^ 31) \<le> sint b" "sint b < 2 ^ 31" unfolding sint_byte using u by (auto intro: order_trans [OF _ u(2)])
  from sint_small_word [OF this] show ?thesis unfolding delta_def if_False scast_eq .
qed

lemma delta_sign: "delta True b = uint b - 256"
proof -
  have u: "uint b < 256" "0 \<le> uint b" using uint_lt2p [of b] by simp_all
  have m: "(0xFFFFFF00 :: u32) = NOT (mask 8)" by (simp add: mask_eq_exp_minus_1)
  have "(scast b OR 0xFFFFFF00 :: u32) = ucast b OR NOT (mask 8)"
    unfolding m by (rule bit_word_eqI) (auto simp: bit_simps)
  also have "\<dots> = ucast b + NOT (mask 8)"
    by (rule disjunctive_add [symmetric]) (auto simp: bit_simps dest: bit_imp_le_length)
  also have "\<dots> = word_of_int (uint b - 256)"
    by (simp add: mask_eq_exp_minus_1 unsigned_of_int)
  finally have "delta True b = sint (word_of_int (uint b - 256) :: u32)" by (simp add: delta_def)
  also have "\<dots> = uint b - 256" using u by (intro sint_small_word) simp_all
  finally show ?thesis .
qed

section \<open>The packet state machine\<close>

definition mouse_ok :: "mouse \<Rightarrow> bool" where
  "mouse_ok s \<longleftrightarrow> 0 \<le> mouse_x s \<and> mouse_x s < 640 \<and> 0 \<le> mouse_y s \<and> mouse_y s < 480 \<and> mouse_cycle s < 3"

lemma mouse_initial_ok: "mouse_ok mouse_initial"
  by (simp add: mouse_ok_def mouse_initial_def)

lemma mouse_packet_ok: "mouse_ok s \<Longrightarrow> mouse_ok (mouse_packet s)"
  by (simp add: mouse_ok_def mouse_packet_def Let_def clamp_range)

lemma mouse_packet_frame:
  "mouse_cycle (mouse_packet s) = mouse_cycle s"
  "mouse_byte (mouse_packet s) = mouse_byte s"
  "mouse_packet_count (mouse_packet s) = mouse_packet_count s"
  "mouse_error_count (mouse_packet s) = mouse_error_count s"
  "mouse_buttons (mouse_packet s) = mouse_byte s 0 AND 0x07"
  by (simp_all add: mouse_packet_def Let_def)

lemma mouse_data_ok: "mouse_ok s \<Longrightarrow> mouse_ok (mouse_data d s)"
  by (auto simp: mouse_data_def Let_def intro!: mouse_packet_ok) (auto simp: mouse_ok_def)

lemma mouse_handler_ok: "mouse_ok s \<Longrightarrow> mouse_ok (fst (mouse_handler dev (s, io)))"
  by (simp add: mouse_handler_def Let_def mouse_data_ok split: prod.split)

lemma mouse_data_list_ok: "mouse_ok s \<Longrightarrow> mouse_ok (fold mouse_data ds s)"
  by (induction ds arbitrary: s) (simp_all add: mouse_data_ok)

lemma mouse_data_three:
  assumes "mouse_cycle s = 0" and "b0 AND 0x08 \<noteq> 0"
  shows "fold mouse_data [b0, b1, b2] s =
    mouse_packet (s\<lparr>mouse_byte := (mouse_byte s)(0 := b0, 1 := b1, 2 := b2),
                    mouse_packet_count := mouse_packet_count s + 1\<rparr>)"
proof -
  have e: "s\<lparr>mouse_byte := m, mouse_cycle := 0, mouse_packet_count := c\<rparr> =
        s\<lparr>mouse_byte := m, mouse_packet_count := c\<rparr>" for m c
    using assms(1) by (cases s) simp
  show ?thesis using assms by (simp add: mouse_data_def Let_def numeral_2_eq_2 e)
qed

section \<open>Properties\<close>

text \<open>Property C27. Whatever the device answers, after any number of mouse interrupts from the
  initial state the pointer is on the 640 by 480 screen and the packet index is below 3, so the
  handler never writes outside the three-byte packet buffer.\<close>

theorem mouse_position_bounds:
  "let s = fst ((mouse_handler dev ^^ n) (mouse_initial, io))
   in 0 \<le> mouse_x s \<and> mouse_x s < 640 \<and> 0 \<le> mouse_y s \<and> mouse_y s < 480 \<and> mouse_cycle s < 3"
proof -
  have "mouse_ok (fst ((mouse_handler dev ^^ n) (mouse_initial, io)))"
  proof (induction n)
    case 0
    show ?case by (simp add: mouse_initial_ok)
  next
    case (Suc n)
    then show ?case
      using mouse_handler_ok [of "fst ((mouse_handler dev ^^ n) (mouse_initial, io))" dev
          "snd ((mouse_handler dev ^^ n) (mouse_initial, io))"] by simp
  qed
  then show ?thesis by (simp add: mouse_ok_def Let_def)
qed

text \<open>Remark. At a packet boundary, a first byte without the marker bit is counted and
  dropped, leaving the driver at the boundary, so a stream that lost bytes resynchronises; a full
  packet takes the three bytes, sets the buttons from the low bits of the first, counts the
  packet, and returns to the boundary. Unless an overflow bit is set, which discards the motion
  but not the buttons, the pointer moves by the accelerated deltas, clamped to the screen, with
  the vertical axis inverted.\<close>

theorem mouse_packet_correct:
  assumes "mouse_cycle s = 0"
  shows "(b AND 0x08 = 0 \<longrightarrow> mouse_data b s = s\<lparr>mouse_error_count := mouse_error_count s + 1\<rparr>) \<and>
    (b0 AND 0x08 \<noteq> 0 \<longrightarrow>
      (let s' = fold mouse_data [b0, b1, b2] s; overflow = (b0 AND 0x40 \<noteq> 0 \<or> b0 AND 0x80 \<noteq> 0);
           dx = accelerate (delta (b0 AND 0x10 \<noteq> 0) b1); dy = accelerate (delta (b0 AND 0x20 \<noteq> 0) b2)
       in mouse_cycle s' = 0 \<and> mouse_buttons s' = b0 AND 0x07 \<and>
          mouse_packet_count s' = mouse_packet_count s + 1 \<and> mouse_error_count s' = mouse_error_count s \<and>
          mouse_x s' = (if overflow then mouse_x s else clamp 640 (mouse_x s + dx)) \<and>
          mouse_y s' = (if overflow then mouse_y s else clamp 480 (mouse_y s - dy))))"
proof (intro conjI impI)
  assume "b AND 0x08 = 0"
  with assms show "mouse_data b s = s\<lparr>mouse_error_count := mouse_error_count s + 1\<rparr>"
    by (simp add: mouse_data_def)
next
  assume m: "b0 AND 0x08 \<noteq> 0"
  show "let s' = fold mouse_data [b0, b1, b2] s; overflow = (b0 AND 0x40 \<noteq> 0 \<or> b0 AND 0x80 \<noteq> 0);
           dx = accelerate (delta (b0 AND 0x10 \<noteq> 0) b1); dy = accelerate (delta (b0 AND 0x20 \<noteq> 0) b2)
       in mouse_cycle s' = 0 \<and> mouse_buttons s' = b0 AND 0x07 \<and>
          mouse_packet_count s' = mouse_packet_count s + 1 \<and> mouse_error_count s' = mouse_error_count s \<and>
          mouse_x s' = (if overflow then mouse_x s else clamp 640 (mouse_x s + dx)) \<and>
          mouse_y s' = (if overflow then mouse_y s else clamp 480 (mouse_y s - dy))"
    unfolding mouse_data_three [OF assms m] using assms by (auto simp: mouse_packet_def Let_def)
qed

theorem mouse_packet_correct_witness:
  "mouse_cycle mouse_initial = 0 \<and> mouse_x (fold mouse_data [0x08, 10, 3] mouse_initial) = 180 \<and>
   mouse_y (fold mouse_data [0x08, 10, 3] mouse_initial) = 97"
  using mouse_packet_correct [of mouse_initial 0 "0x08" 10 3]
  by (simp add: mouse_initial_def Let_def delta_plain sint_byte accelerate_def clamp_def)

text \<open>Remark. Fast motion is reversed: the packet buffer holds signed bytes, so a delta of
  128 or more whose sign flag is clear (a move to the right by that many counts) is read as the
  same negative number as with the sign flag set, and the pointer moves left.\<close>

theorem mouse_fast_motion_reversed:
  assumes "mouse_cycle s = 0" and "0x80 \<le> b" and "0 < mouse_x s" and "mouse_x s < 640"
  shows "delta False b = delta True b \<and>
    mouse_x (fold mouse_data [0x08, b, 0] s) < mouse_x s"
proof -
  have u: "uint b < 256" "128 \<le> uint b" using uint_lt2p [of b] assms(2) by (simp_all add: word_le_def)
  have d: "delta False b = uint b - 256" using assms(2) by (simp add: delta_plain sint_byte not_less)
  have "mouse_x (fold mouse_data [0x08, b, 0] s) = clamp 640 (mouse_x s + accelerate (delta False b))"
    by (subst mouse_data_three [OF assms(1)]) (simp_all add: mouse_packet_def Let_def)
  then show ?thesis using d u assms by (simp add: delta_sign clamp_def accelerate_def Let_def)
qed

theorem mouse_fast_motion_reversed_witness:
  "mouse_x (fold mouse_data [0x08, 0xF0, 0] mouse_initial) < mouse_x mouse_initial"
  using mouse_fast_motion_reversed [of mouse_initial "0xF0"] by (simp add: mouse_initial_def)

end
