(* ===== verification/VgaFont.thy ===== *)
theory VgaFont
  imports Prelude
begin

text \<open>
  The 8 by 8 bitmap font of \<^verbatim>\<open>drivers/vga/vga_font.h\<close>: one row of eight bytes for each
  character, the most significant bit leftmost. Characters 0 to 31 have an empty glyph.
\<close>

definition font_8x8 :: "u8 list list" where
  "font_8x8 =
     replicate 32 [0x00, 0x00, 0x00, 0x00, 0x00, 0x00, 0x00, 0x00] @
     [[0x00, 0x00, 0x00, 0x00, 0x00, 0x00, 0x00, 0x00],
      [0x18, 0x3C, 0x3C, 0x18, 0x18, 0x00, 0x18, 0x00],
      [0x6C, 0x6C, 0x6C, 0x00, 0x00, 0x00, 0x00, 0x00],
      [0x6C, 0x6C, 0xFE, 0x6C, 0xFE, 0x6C, 0x6C, 0x00],
      [0x18, 0x3E, 0x60, 0x3C, 0x06, 0x7C, 0x18, 0x00],
      [0x00, 0x63, 0x66, 0x0C, 0x18, 0x33, 0x63, 0x00],
      [0x1C, 0x36, 0x1C, 0x3B, 0x6E, 0x66, 0x3B, 0x00],
      [0x18, 0x18, 0x18, 0x00, 0x00, 0x00, 0x00, 0x00],
      [0x0C, 0x18, 0x30, 0x30, 0x30, 0x18, 0x0C, 0x00],
      [0x30, 0x18, 0x0C, 0x0C, 0x0C, 0x18, 0x30, 0x00],
      [0x00, 0x66, 0x3C, 0xFF, 0x3C, 0x66, 0x00, 0x00],
      [0x00, 0x18, 0x18, 0x7E, 0x18, 0x18, 0x00, 0x00],
      [0x00, 0x00, 0x00, 0x00, 0x00, 0x18, 0x18, 0x30],
      [0x00, 0x00, 0x00, 0x7E, 0x00, 0x00, 0x00, 0x00],
      [0x00, 0x00, 0x00, 0x00, 0x00, 0x18, 0x18, 0x00],
      [0x03, 0x06, 0x0C, 0x18, 0x30, 0x60, 0x40, 0x00],
      [0x3C, 0x66, 0x6E, 0x7E, 0x76, 0x66, 0x3C, 0x00],
      [0x18, 0x38, 0x18, 0x18, 0x18, 0x18, 0x7E, 0x00],
      [0x3C, 0x66, 0x06, 0x0C, 0x18, 0x30, 0x7E, 0x00],
      [0x3C, 0x66, 0x06, 0x1C, 0x06, 0x66, 0x3C, 0x00],
      [0x0C, 0x1C, 0x3C, 0x6C, 0x7E, 0x0C, 0x0C, 0x00],
      [0x7E, 0x60, 0x7C, 0x06, 0x06, 0x66, 0x3C, 0x00],
      [0x1C, 0x30, 0x60, 0x7C, 0x66, 0x66, 0x3C, 0x00],
      [0x7E, 0x06, 0x0C, 0x18, 0x30, 0x30, 0x30, 0x00],
      [0x3C, 0x66, 0x66, 0x3C, 0x66, 0x66, 0x3C, 0x00],
      [0x3C, 0x66, 0x66, 0x3E, 0x06, 0x0C, 0x38, 0x00],
      [0x00, 0x18, 0x18, 0x00, 0x00, 0x18, 0x18, 0x00],
      [0x00, 0x18, 0x18, 0x00, 0x00, 0x18, 0x18, 0x30],
      [0x06, 0x0C, 0x18, 0x30, 0x18, 0x0C, 0x06, 0x00],
      [0x00, 0x00, 0x7E, 0x00, 0x7E, 0x00, 0x00, 0x00],
      [0x60, 0x30, 0x18, 0x0C, 0x18, 0x30, 0x60, 0x00],
      [0x3C, 0x66, 0x06, 0x0C, 0x18, 0x00, 0x18, 0x00],
      [0x3C, 0x66, 0x6E, 0x6A, 0x6E, 0x60, 0x3C, 0x00],
      [0x18, 0x3C, 0x66, 0x66, 0x7E, 0x66, 0x66, 0x00],
      [0x7C, 0x66, 0x66, 0x7C, 0x66, 0x66, 0x7C, 0x00],
      [0x3C, 0x66, 0x60, 0x60, 0x60, 0x66, 0x3C, 0x00],
      [0x78, 0x6C, 0x66, 0x66, 0x66, 0x6C, 0x78, 0x00],
      [0x7E, 0x60, 0x60, 0x7C, 0x60, 0x60, 0x7E, 0x00],
      [0x7E, 0x60, 0x60, 0x7C, 0x60, 0x60, 0x60, 0x00],
      [0x3C, 0x66, 0x60, 0x6E, 0x66, 0x66, 0x3C, 0x00],
      [0x66, 0x66, 0x66, 0x7E, 0x66, 0x66, 0x66, 0x00],
      [0x7E, 0x18, 0x18, 0x18, 0x18, 0x18, 0x7E, 0x00],
      [0x3E, 0x0C, 0x0C, 0x0C, 0x0C, 0x6C, 0x38, 0x00],
      [0x66, 0x6C, 0x78, 0x70, 0x78, 0x6C, 0x66, 0x00],
      [0x60, 0x60, 0x60, 0x60, 0x60, 0x60, 0x7E, 0x00],
      [0x63, 0x77, 0x7F, 0x6B, 0x6B, 0x63, 0x63, 0x00],
      [0x66, 0x76, 0x7E, 0x7E, 0x6E, 0x66, 0x66, 0x00],
      [0x3C, 0x66, 0x66, 0x66, 0x66, 0x66, 0x3C, 0x00],
      [0x7C, 0x66, 0x66, 0x7C, 0x60, 0x60, 0x60, 0x00],
      [0x3C, 0x66, 0x66, 0x66, 0x6A, 0x6C, 0x36, 0x00],
      [0x7C, 0x66, 0x66, 0x7C, 0x6C, 0x66, 0x66, 0x00],
      [0x3C, 0x66, 0x60, 0x3C, 0x06, 0x66, 0x3C, 0x00],
      [0x7E, 0x18, 0x18, 0x18, 0x18, 0x18, 0x18, 0x00],
      [0x66, 0x66, 0x66, 0x66, 0x66, 0x66, 0x3C, 0x00],
      [0x66, 0x66, 0x66, 0x66, 0x66, 0x3C, 0x18, 0x00],
      [0x63, 0x63, 0x6B, 0x6B, 0x7F, 0x77, 0x63, 0x00],
      [0x66, 0x66, 0x3C, 0x18, 0x3C, 0x66, 0x66, 0x00],
      [0x66, 0x66, 0x66, 0x3C, 0x18, 0x18, 0x18, 0x00],
      [0x7E, 0x06, 0x0C, 0x18, 0x30, 0x60, 0x7E, 0x00],
      [0x3C, 0x30, 0x30, 0x30, 0x30, 0x30, 0x3C, 0x00],
      [0x40, 0x60, 0x30, 0x18, 0x0C, 0x06, 0x03, 0x00],
      [0x3C, 0x0C, 0x0C, 0x0C, 0x0C, 0x0C, 0x3C, 0x00],
      [0x18, 0x3C, 0x66, 0x00, 0x00, 0x00, 0x00, 0x00],
      [0x00, 0x00, 0x00, 0x00, 0x00, 0x00, 0x00, 0xFF],
      [0x30, 0x18, 0x0C, 0x00, 0x00, 0x00, 0x00, 0x00],
      [0x00, 0x00, 0x3C, 0x06, 0x3E, 0x66, 0x3E, 0x00],
      [0x60, 0x60, 0x7C, 0x66, 0x66, 0x66, 0x7C, 0x00],
      [0x00, 0x00, 0x3C, 0x66, 0x60, 0x66, 0x3C, 0x00],
      [0x06, 0x06, 0x3E, 0x66, 0x66, 0x66, 0x3E, 0x00],
      [0x00, 0x00, 0x3C, 0x66, 0x7E, 0x60, 0x3C, 0x00],
      [0x1C, 0x36, 0x30, 0x7C, 0x30, 0x30, 0x30, 0x00],
      [0x00, 0x00, 0x3E, 0x66, 0x66, 0x3E, 0x06, 0x3C],
      [0x60, 0x60, 0x7C, 0x66, 0x66, 0x66, 0x66, 0x00],
      [0x18, 0x00, 0x38, 0x18, 0x18, 0x18, 0x3C, 0x00],
      [0x0C, 0x00, 0x1C, 0x0C, 0x0C, 0x0C, 0x6C, 0x38],
      [0x60, 0x60, 0x66, 0x6C, 0x78, 0x6C, 0x66, 0x00],
      [0x38, 0x18, 0x18, 0x18, 0x18, 0x18, 0x3C, 0x00],
      [0x00, 0x00, 0x66, 0x7F, 0x6B, 0x6B, 0x63, 0x00],
      [0x00, 0x00, 0x7C, 0x66, 0x66, 0x66, 0x66, 0x00],
      [0x00, 0x00, 0x3C, 0x66, 0x66, 0x66, 0x3C, 0x00],
      [0x00, 0x00, 0x7C, 0x66, 0x66, 0x7C, 0x60, 0x60],
      [0x00, 0x00, 0x3E, 0x66, 0x66, 0x3E, 0x06, 0x07],
      [0x00, 0x00, 0x6C, 0x76, 0x60, 0x60, 0x60, 0x00],
      [0x00, 0x00, 0x3E, 0x60, 0x3C, 0x06, 0x7C, 0x00],
      [0x30, 0x30, 0x7C, 0x30, 0x30, 0x36, 0x1C, 0x00],
      [0x00, 0x00, 0x66, 0x66, 0x66, 0x66, 0x3E, 0x00],
      [0x00, 0x00, 0x66, 0x66, 0x66, 0x3C, 0x18, 0x00],
      [0x00, 0x00, 0x63, 0x6B, 0x6B, 0x7F, 0x36, 0x00],
      [0x00, 0x00, 0x66, 0x3C, 0x18, 0x3C, 0x66, 0x00],
      [0x00, 0x00, 0x66, 0x66, 0x66, 0x3E, 0x06, 0x3C],
      [0x00, 0x00, 0x7E, 0x0C, 0x18, 0x30, 0x7E, 0x00],
      [0x0E, 0x18, 0x18, 0x30, 0x18, 0x18, 0x0E, 0x00],
      [0x18, 0x18, 0x18, 0x00, 0x18, 0x18, 0x18, 0x00],
      [0x70, 0x18, 0x18, 0x0C, 0x18, 0x18, 0x70, 0x00],
      [0x31, 0x6B, 0x46, 0x00, 0x00, 0x00, 0x00, 0x00],
      [0x00, 0x00, 0x00, 0x00, 0x00, 0x00, 0x00, 0x00]]"

lemma font_8x8_length: "length font_8x8 = 128"
  by (simp add: font_8x8_def)

lemma font_8x8_rows: "bits \<in> set font_8x8 \<Longrightarrow> length bits = 8"
  by (auto simp: font_8x8_def)

end
