(* ===== verification/Canvas.thy ===== *)
theory Canvas
  imports Prelude
begin

text \<open>
  What a pixel driver promises to the routines that draw with it, as the locale \<open>canvas\<close>:
  setting a pixel changes exactly that pixel of the picture. Drawing loops are folds that set
  pixels; \<open>paint\<close> sets a list of points, and inside the locale the picture after painting
  is known whatever the order. The VESA driver, the framebuffer driver and the two Intel
  drivers interpret it.
\<close>

section \<open>Painting lists of points\<close>

type_synonym 's putpixel = "u32 \<Rightarrow> u32 \<Rightarrow> u32 \<Rightarrow> 's \<Rightarrow> 's"

definition paint :: "'s putpixel \<Rightarrow> (u32 \<times> u32) list \<Rightarrow> u32 \<Rightarrow> 's \<Rightarrow> 's" where
  "paint put pts c s = fold (\<lambda>(px, py). put px py c) pts s"

lemma paint_Nil [simp]: "paint put [] c s = s"
  and paint_Cons: "paint put ((px, py) # pts) c s = paint put pts c (put px py c s)"
  and paint_append: "paint put (pts @ pts') c s = paint put pts' c (paint put pts c s)"
  by (simp_all add: paint_def)

lemma paint_invariant:
  assumes "\<And>x y s. P s \<Longrightarrow> P (put x y c s)" and "P s"
  shows "P (paint put pts c s)"
  using assms(2) by (induction pts arbitrary: s) (auto simp: paint_Cons assms(1))

lemma paint_field:
  assumes "\<And>x y s. f (put x y c s) = f s"
  shows "f (paint put pts c s) = f s"
  by (induction pts arbitrary: s) (auto simp: paint_Cons assms)

text \<open>Nested counted loops that set a pixel paint the points they pass.\<close>

lemma fold_paint:
  "(\<And>i s. i \<in> set is \<Longrightarrow> f i s = paint put (g i) c s) \<Longrightarrow>
     fold f is s = paint put (concat (List.map g is)) c s"
  by (induction "is" arbitrary: s) (simp_all add: paint_append)

lemma fold_points: "fold (\<lambda>i. put (f i) (g i) c) is s = paint put (List.map (\<lambda>i. (f i, g i)) is) c s"
  by (induction "is" arbitrary: s) (simp_all add: paint_Cons)

definition rect_points :: "u32 \<Rightarrow> u32 \<Rightarrow> u32 \<Rightarrow> u32 \<Rightarrow> (u32 \<times> u32) list" where
  "rect_points x y w h =
     concat (List.map (\<lambda>dy. List.map (\<lambda>dx. (x + of_nat dx, y + of_nat dy)) [0..<unat w]) [0..<unat h])"

lemma fill_loop_paint:
  "fold (\<lambda>dy. fold (\<lambda>dx. put (x + of_nat dx) (y + of_nat dy) c) [0..<unat w]) [0..<unat h] s
     = paint put (rect_points x y w h) c s"
  unfolding rect_points_def by (rule fold_paint) (rule fold_points)

lemma offset_range: "(\<exists>i<unat w. px = x + of_nat i) \<longleftrightarrow> px - x < (w :: u32)"
proof
  assume "\<exists>i<unat w. px = x + of_nat i"
  then obtain i where "i < unat w" "px - x = of_nat i" by auto
  moreover from this have "unat (of_nat i :: u32) = i" using unat_lt32 [of w] by simp
  ultimately show "px - x < w" by (simp add: word_less_nat_alt)
next
  assume "px - x < w"
  then show "\<exists>i<unat w. px = x + of_nat i"
    by (intro exI [of _ "unat (px - x)"]) (simp add: word_less_nat_alt)
qed

lemma rect_points_mem: "(px, py) \<in> set (rect_points x y w h) \<longleftrightarrow> px - x < w \<and> py - y < h"
  unfolding offset_range [symmetric] by (fastforce simp: rect_points_def)

section \<open>The interface\<close>

locale canvas =
  fixes put :: "'s putpixel"
    and get :: "'s \<Rightarrow> u32 \<Rightarrow> u32 \<Rightarrow> u32"
    and ok :: "'s \<Rightarrow> bool"
    and visible :: "'s \<Rightarrow> u32 \<Rightarrow> u32 \<Rightarrow> bool"
    and kept :: "'s \<Rightarrow> u32 \<Rightarrow> u32"
  assumes get_put: "ok s \<Longrightarrow> get (put x y c s) px py =
      (if px = x \<and> py = y \<and> visible s x y then kept s c else get s px py)"
    and put_ok: "ok s \<Longrightarrow> ok (put x y c s)"
    and put_visible: "visible (put x y c s) = visible s"
    and put_kept: "kept (put x y c s) = kept s"
begin

lemma paint_frame:
  "visible (paint put pts c s) = visible s" "kept (paint put pts c s) = kept s"
  by (simp_all add: paint_field put_visible put_kept)

lemma paint_ok: "ok s \<Longrightarrow> ok (paint put pts c s)"
  by (rule paint_invariant [of ok]) (simp_all add: put_ok)

lemma get_paint:
  "ok s \<Longrightarrow> get (paint put pts c s) x y =
     (if (x, y) \<in> set pts \<and> visible s x y then kept s c else get s x y)"
proof (induction pts arbitrary: s)
  case (Cons p pts)
  obtain px py where p: "p = (px, py)" by (cases p)
  from Cons show ?case by (auto simp: p paint_Cons get_put put_ok put_visible put_kept)
qed simp

text \<open>The order of the points does not matter.\<close>

lemma paint_order:
  "ok s \<Longrightarrow> set pts = set pts' \<Longrightarrow> get (paint put pts c s) = get (paint put pts' c s)"
  by (simp add: fun_eq_iff get_paint)

lemma get_rect:
  "ok s \<Longrightarrow> get (paint put (rect_points x y w h) c s) px py =
     (if px - x < w \<and> py - y < h \<and> visible s px py then kept s c else get s px py)"
  by (simp add: get_paint rect_points_mem)

end

section \<open>Linear framebuffers of 32-bit pixels\<close>

text \<open>Three drivers address pixel \<open>(x, y)\<close> as word \<open>y * (pitch / 4) + x\<close> from their base.\<close>

definition linear_addr :: "ptr \<Rightarrow> u32 \<Rightarrow> u32 \<Rightarrow> u32 \<Rightarrow> ptr" where
  "linear_addr base pitch x y = base + 4 * (y * (pitch div 4) + x)"

definition linear_ok :: "u32 \<Rightarrow> u32 \<Rightarrow> u32 \<Rightarrow> bool" where
  "linear_ok pitch w h \<longleftrightarrow> unat w \<le> unat pitch div 4 \<and> unat pitch div 4 * unat h \<le> 1073741824"

lemma linear_index:
  assumes "linear_ok pitch w h" and "x < w" and "y < h"
  shows "unat (4 * (y * (pitch div 4) + x)) = 4 * (unat y * (unat pitch div 4) + unat x)
     \<and> unat x < unat pitch div 4
     \<and> unat y * (unat pitch div 4) + unat x < unat pitch div 4 * unat h"
proof -
  let ?p = "unat pitch div 4"
  have x: "unat x < ?p" using assms(1,2) by (simp add: linear_ok_def word_less_nat_alt)
  have "Suc (unat y) * ?p \<le> unat h * ?p" using assms(3) by (intro mult_le_mono1) (simp add: word_less_nat_alt)
  then have b: "unat y * ?p + unat x < ?p * unat h" using x by (simp add: mult.commute)
  also have "\<dots> \<le> 1073741824" using assms(1) by (simp add: linear_ok_def)
  finally have "4 * (unat y * ?p + unat x) < 4 * 1073741824" by (rule mult_strict_left_mono) simp
  then have "4 * (unat y * ?p + unat x) < 4294967296" by simp
  moreover have "unat (4 * (y * (pitch div 4) + x)) = 4 * (unat y * ?p + unat x) mod 4294967296"
    by (simp add: unat_word_ariths mod_simps unat_div)
  ultimately show ?thesis using x b by simp
qed

lemma linear_addr_inject:
  assumes "linear_ok pitch w h" and "x < w" "y < h" "x' < w" "y' < h"
    and "linear_addr base pitch x y = linear_addr base pitch x' y'"
  shows "x = x' \<and> y = y'"
proof -
  let ?p = "unat pitch div 4"
  note i = linear_index [OF assms(1,2,3)] and i' = linear_index [OF assms(1,4,5)]
  have "4 * (y * (pitch div 4) + x) = 4 * (y' * (pitch div 4) + x')"
    using assms(6) by (simp add: linear_addr_def)
  then have "unat (4 * (y * (pitch div 4) + x)) = unat (4 * (y' * (pitch div 4) + x'))"
    by (rule arg_cong)
  with i i' have e: "unat y * ?p + unat x = unat y' * ?p + unat x'" by simp
  have "unat y = (unat y * ?p + unat x) div ?p" using i by simp
  also have "\<dots> = unat y'" unfolding e using i' by simp
  finally have "unat y = unat y'" .
  moreover from this e have "unat x = unat x'" by simp
  ultimately show ?thesis unfolding word_unat_eq_iff by blast
qed

end
