(* ===== verification/Vga.thy ===== *)
theory Vga
  imports VgaFont Canvas Heap
begin

text \<open>
  The VESA framebuffer driver, \<^verbatim>\<open>drivers/vga/vga.c\<close>: pixels of 8, 16, 24 or 32 bits
  stored little-endian in a back buffer that \<open>vga_swap_buffers\<close> copies to the screen.
  \<open>vmem\<close> is the byte memory behind both pointers. A drawing loop is a fold over the loop
  counters in the order of the code. Abstractly the picture is the function \<open>vga_get_pixel\<close>,
  and every drawing routine paints a set of points. \<open>vga_draw_line\<close>, which steps along the
  line with \<open>float\<close> increments, is in \<open>Lines\<close>.
\<close>

section \<open>State\<close>

record vbe_mode_info =
  vbe_width :: u32
  vbe_height :: u32
  vbe_pitch :: u32
  vbe_bpp :: u32
  vbe_framebuffer :: u32

record vga =
  vbe :: vbe_mode_info
  VGA_WIDTH :: u32
  VGA_HEIGHT :: u32
  framebuffer :: ptr
  backbuffer :: ptr
  vga_active :: int
  bytes_per_pixel :: u32
  vmem :: "ptr \<Rightarrow> u8"

section \<open>Words in memory\<close>

definition store16 :: "ptr \<Rightarrow> u16 \<Rightarrow> (ptr \<Rightarrow> u8) \<Rightarrow> (ptr \<Rightarrow> u8)" where
  "store16 a v m = m(a := ucast v, a + 1 := ucast (drop_bit 8 v))"

definition load16 :: "(ptr \<Rightarrow> u8) \<Rightarrow> ptr \<Rightarrow> u16" where
  "load16 m a = ucast (m a) OR push_bit 8 (ucast (m (a + 1)))"

definition store32 :: "ptr \<Rightarrow> u32 \<Rightarrow> (ptr \<Rightarrow> u8) \<Rightarrow> (ptr \<Rightarrow> u8)" where
  "store32 a v m = m(a := ucast v, a + 1 := ucast (drop_bit 8 v),
                     a + 2 := ucast (drop_bit 16 v), a + 3 := ucast (drop_bit 24 v))"

definition load32 :: "(ptr \<Rightarrow> u8) \<Rightarrow> ptr \<Rightarrow> u32" where
  "load32 m a = ucast (m a) OR push_bit 8 (ucast (m (a + 1)))
     OR push_bit 16 (ucast (m (a + 2))) OR push_bit 24 (ucast (m (a + 3)))"

section \<open>Operations\<close>

definition vga_init :: "vga \<times> heap \<Rightarrow> (vga \<times> heap) option" where
  "vga_init = (\<lambda>(s, h).
     (let s = s\<lparr>VGA_WIDTH := vbe_width (vbe s), VGA_HEIGHT := vbe_height (vbe s),
               bytes_per_pixel := vbe_bpp (vbe s) div 8, framebuffer := vbe_framebuffer (vbe s)\<rparr>;
          size = vbe_pitch (vbe s) * vbe_height (vbe s)
      in (case kmalloc size h of
            None \<Rightarrow> None
          | Some (p, h) \<Rightarrow>
              Some (s\<lparr>backbuffer := (if p = 0 then framebuffer s else p), vga_active := 1\<rparr>, h))))"

definition vga_is_active :: "vga \<Rightarrow> int" where "vga_is_active s = vga_active s"
definition vga_get_width :: "vga \<Rightarrow> u32" where "vga_get_width s = VGA_WIDTH s"
definition vga_get_height :: "vga \<Rightarrow> u32" where "vga_get_height s = VGA_HEIGHT s"
definition vga_get_bpp :: "vga \<Rightarrow> u32" where "vga_get_bpp s = vbe_bpp (vbe s)"

definition rgb :: "vga \<Rightarrow> u8 \<Rightarrow> u8 \<Rightarrow> u8 \<Rightarrow> u32" where
  "rgb s r g b =
     (if vbe_bpp (vbe s) = 32 then push_bit 16 (ucast r) OR push_bit 8 (ucast g) OR ucast b
      else if vbe_bpp (vbe s) = 24 then push_bit 16 (ucast r) OR push_bit 8 (ucast g) OR ucast b
      else if vbe_bpp (vbe s) = 16
      then push_bit 11 (drop_bit 3 (ucast r)) OR push_bit 5 (drop_bit 2 (ucast g)) OR drop_bit 3 (ucast b)
      else push_bit 5 (drop_bit 5 (ucast r)) OR push_bit 2 (drop_bit 5 (ucast g)) OR drop_bit 6 (ucast b))"

definition pixel_offset :: "vga \<Rightarrow> u32 \<Rightarrow> u32 \<Rightarrow> u32" where
  "pixel_offset s x y = y * vbe_pitch (vbe s) + x * bytes_per_pixel s"

definition vga_set_pixel :: "u32 \<Rightarrow> u32 \<Rightarrow> u32 \<Rightarrow> vga \<Rightarrow> vga" where
  "vga_set_pixel x y color s =
     (if x \<ge> VGA_WIDTH s \<or> y \<ge> VGA_HEIGHT s then s
      else let a = backbuffer s + pixel_offset s x y in
        if vbe_bpp (vbe s) = 32 then s\<lparr>vmem := store32 a color (vmem s)\<rparr>
        else if vbe_bpp (vbe s) = 24
        then s\<lparr>vmem := (vmem s)(a := ucast (color AND 0xFF),
                 a + 1 := ucast (drop_bit 8 color AND 0xFF),
                 a + 2 := ucast (drop_bit 16 color AND 0xFF))\<rparr>
        else if vbe_bpp (vbe s) = 16 then s\<lparr>vmem := store16 a (ucast color) (vmem s)\<rparr>
        else s\<lparr>vmem := (vmem s)(a := ucast color)\<rparr>)"

definition vga_set_pixel_rgb :: "u32 \<Rightarrow> u32 \<Rightarrow> u8 \<Rightarrow> u8 \<Rightarrow> u8 \<Rightarrow> vga \<Rightarrow> vga" where
  "vga_set_pixel_rgb x y r g b s = vga_set_pixel x y (rgb s r g b) s"

definition vga_get_pixel :: "vga \<Rightarrow> u32 \<Rightarrow> u32 \<Rightarrow> u32" where
  "vga_get_pixel s x y =
     (if x \<ge> VGA_WIDTH s \<or> y \<ge> VGA_HEIGHT s then 0
      else let a = backbuffer s + pixel_offset s x y in
        if vbe_bpp (vbe s) = 32 then load32 (vmem s) a
        else if vbe_bpp (vbe s) = 24
        then ucast (vmem s a) OR push_bit 8 (ucast (vmem s (a + 1))) OR push_bit 16 (ucast (vmem s (a + 2)))
        else if vbe_bpp (vbe s) = 16 then ucast (load16 (vmem s) a)
        else ucast (vmem s a))"

definition vga_fill_rect :: "u32 \<Rightarrow> u32 \<Rightarrow> u32 \<Rightarrow> u32 \<Rightarrow> u32 \<Rightarrow> vga \<Rightarrow> vga" where
  "vga_fill_rect x y w h color s =
     fold (\<lambda>dy. fold (\<lambda>dx. vga_set_pixel (x + of_nat dx) (y + of_nat dy) color) [0..<unat w]) [0..<unat h] s"

definition vga_clear_screen :: "u32 \<Rightarrow> vga \<Rightarrow> vga" where
  "vga_clear_screen color s = vga_fill_rect 0 0 (VGA_WIDTH s) (VGA_HEIGHT s) color s"

definition vga_draw_rect :: "u32 \<Rightarrow> u32 \<Rightarrow> u32 \<Rightarrow> u32 \<Rightarrow> u32 \<Rightarrow> vga \<Rightarrow> vga" where
  "vga_draw_rect x y w h color s =
     (let s = fold (\<lambda>i s. vga_set_pixel (x + of_nat i) (y + h - 1) color
                           (vga_set_pixel (x + of_nat i) y color s)) [0..<unat w] s
      in fold (\<lambda>i s. vga_set_pixel (x + w - 1) (y + of_nat i) color
                      (vga_set_pixel x (y + of_nat i) color s)) [0..<unat h] s)"

text \<open>The midpoint circle; \<open>x\<close>, \<open>y\<close> and \<open>err\<close> are the \<open>int\<close> locals of the loop.\<close>

definition circle_step :: "int \<Rightarrow> int \<Rightarrow> int \<Rightarrow> int \<times> int \<times> int" where
  "circle_step x y err =
     (let y = y + 1; err = err + (1 + 2 * y) in
      if 2 * (err - x) + 1 > 0 then let x = x - 1 in (x, y, err + (1 - 2 * x)) else (x, y, err))"

definition circle_points :: "u32 \<Rightarrow> u32 \<Rightarrow> int \<Rightarrow> int \<Rightarrow> (u32 \<times> u32) list" where
  "circle_points cx cy x y =
     (let X = word_of_int x; Y = word_of_int y in
      [(cx + X, cy + Y), (cx + Y, cy + X), (cx - Y, cy + X), (cx - X, cy + Y),
       (cx - X, cy - Y), (cx - Y, cy - X), (cx + Y, cy - X), (cx + X, cy - Y)])"

function circle_loop :: "u32 \<Rightarrow> u32 \<Rightarrow> u32 \<Rightarrow> int \<Rightarrow> int \<Rightarrow> int \<Rightarrow> vga \<Rightarrow> vga" where
  "circle_loop cx cy color x y err s =
     (if x \<ge> y
      then let s = fold (\<lambda>(px, py). vga_set_pixel px py color) (circle_points cx cy x y) s;
               (x', y', err') = circle_step x y err
           in circle_loop cx cy color x' y' err' s
      else s)"
  by pat_completeness auto
termination
  by (relation "measure (\<lambda>(cx, cy, color, x, y, err, s). nat (x - y + 1))")
    (auto simp: circle_step_def Let_def split: if_splits)

declare circle_loop.simps [simp del]

definition vga_draw_circle :: "u32 \<Rightarrow> u32 \<Rightarrow> u32 \<Rightarrow> u32 \<Rightarrow> vga \<Rightarrow> vga" where
  "vga_draw_circle cx cy radius color s = circle_loop cx cy color (sint radius) 0 0 s"

text \<open>\<open>for (y = 0; y <= r; y++)\<close> never ends for the largest \<open>r\<close>, which is excluded here.\<close>

definition vga_fill_circle :: "u32 \<Rightarrow> u32 \<Rightarrow> u32 \<Rightarrow> u32 \<Rightarrow> vga \<Rightarrow> vga option" where
  "vga_fill_circle cx cy r color s =
     (if r = 0xFFFFFFFF then None
      else Some (fold (\<lambda>j. fold (\<lambda>i s. let x = of_nat i; y = of_nat j in
         if x * x + y * y \<le> r * r
         then vga_set_pixel (cx - x) (cy - y) color (vga_set_pixel (cx + x) (cy - y) color
                (vga_set_pixel (cx - x) (cy + y) color (vga_set_pixel (cx + x) (cy + y) color s)))
         else s) [0..<Suc (unat r)]) [0..<Suc (unat r)] s))"

definition char_scale :: "vga \<Rightarrow> u32" where
  "char_scale s = (if VGA_WIDTH s \<ge> 800 then 2 else 1)"

definition vga_draw_char :: "u32 \<Rightarrow> u32 \<Rightarrow> u8 \<Rightarrow> u32 \<Rightarrow> vga \<Rightarrow> vga" where
  "vga_draw_char x y c color s =
     (if c \<ge> 128 then s
      else let scale = char_scale s in
        fold (\<lambda>row. let bits = font_8x8 ! unat c ! row in
          fold (\<lambda>col s. if bits AND drop_bit col 0x80 \<noteq> 0
            then fold (\<lambda>sy. fold (\<lambda>sx. vga_set_pixel (x + of_nat col * scale + of_nat sx)
                                         (y + of_nat row * scale + of_nat sy) color)
                   [0..<unat scale]) [0..<unat scale] s
            else s) [0..<8]) [0..<8] s)"

fun draw_string_loop :: "u32 \<Rightarrow> u32 \<Rightarrow> u32 \<Rightarrow> u32 \<Rightarrow> u32 \<Rightarrow> u8 list \<Rightarrow> vga \<Rightarrow> vga" where
  "draw_string_loop char_w x y color offset [] s = s"
| "draw_string_loop char_w x y color offset (c # str) s =
     (if c = 0 then s
      else draw_string_loop char_w x y color (offset + char_w) str (vga_draw_char (x + offset) y c color s))"

definition vga_draw_string :: "u32 \<Rightarrow> u32 \<Rightarrow> u8 list \<Rightarrow> u32 \<Rightarrow> vga \<Rightarrow> vga" where
  "vga_draw_string x y str color s =
     draw_string_loop (if VGA_WIDTH s \<ge> 800 then 16 else 8) x y color 0 str s"

definition vga_swap_buffers :: "vga \<Rightarrow> vga" where
  "vga_swap_buffers s =
     (if backbuffer s = framebuffer s then s
      else let size = vbe_pitch (vbe s) * vbe_height (vbe s) in
        s\<lparr>vmem := fold (\<lambda>i m. m(framebuffer s + of_nat i := m (backbuffer s + of_nat i)))
                    [0..<unat size] (vmem s)\<rparr>)"

text \<open>
  Text with a shadow, the inline functions of \<^verbatim>\<open>drivers/vga/vga_font.h\<close>, over the
  \<open>set_pixel\<close> they are given. \<open>glyph_loop\<close> is the loop they run twice, shifted by \<open>d\<close>.
\<close>

definition glyph_loop :: "(u32 \<Rightarrow> u32 \<Rightarrow> u8 \<Rightarrow> 's \<Rightarrow> 's) \<Rightarrow> u32 \<Rightarrow> u32 \<Rightarrow> u32 \<Rightarrow> u8 \<Rightarrow> u8 \<Rightarrow> 's \<Rightarrow> 's" where
  "glyph_loop set_pixel d x y c color =
     fold (\<lambda>row. let bits = font_8x8 ! unat c ! row in
       fold (\<lambda>col s. if bits AND drop_bit col 0x80 \<noteq> 0
         then set_pixel (x + of_nat col + d) (y + of_nat row + d) color s else s) [0..<8]) [0..<8]"

definition vga_draw_char_with_shadow ::
  "(u32 \<Rightarrow> u32 \<Rightarrow> u8 \<Rightarrow> 's \<Rightarrow> 's) \<Rightarrow> u32 \<Rightarrow> u32 \<Rightarrow> u8 \<Rightarrow> u8 \<Rightarrow> u8 \<Rightarrow> 's \<Rightarrow> 's" where
  "vga_draw_char_with_shadow set_pixel x y c color shadow_color s =
     (if c \<ge> 128 then s
      else glyph_loop set_pixel 0 x y c color (glyph_loop set_pixel 1 x y c shadow_color s))"

fun shadow_string_loop ::
  "(u32 \<Rightarrow> u32 \<Rightarrow> u8 \<Rightarrow> 's \<Rightarrow> 's) \<Rightarrow> u32 \<Rightarrow> u32 \<Rightarrow> u8 \<Rightarrow> u8 \<Rightarrow> u32 \<Rightarrow> u8 list \<Rightarrow> 's \<Rightarrow> 's" where
  "shadow_string_loop set_pixel x y color shadow_color offset [] s = s"
| "shadow_string_loop set_pixel x y color shadow_color offset (c # str) s =
     (if c = 0 then s
      else shadow_string_loop set_pixel x y color shadow_color (offset + 8) str
             (vga_draw_char_with_shadow set_pixel (x + offset) y c color shadow_color s))"

definition vga_draw_string_with_shadow ::
  "(u32 \<Rightarrow> u32 \<Rightarrow> u8 \<Rightarrow> 's \<Rightarrow> 's) \<Rightarrow> u32 \<Rightarrow> u32 \<Rightarrow> u8 list \<Rightarrow> u8 \<Rightarrow> u8 \<Rightarrow> 's \<Rightarrow> 's" where
  "vga_draw_string_with_shadow set_pixel x y str color shadow_color s =
     shadow_string_loop set_pixel x y color shadow_color 0 str s"

section \<open>Geometry\<close>

text \<open>A mode the driver supports, with rows that fit their pitch and a buffer below 4 GiB.\<close>

definition vga_ok :: "vga \<Rightarrow> bool" where
  "vga_ok s \<longleftrightarrow> vbe_bpp (vbe s) \<in> {8, 16, 24, 32} \<and> bytes_per_pixel s = vbe_bpp (vbe s) div 8
     \<and> unat (VGA_WIDTH s) * unat (bytes_per_pixel s) \<le> unat (vbe_pitch (vbe s))
     \<and> unat (vbe_pitch (vbe s)) * unat (VGA_HEIGHT s) \<le> 4294967296"

definition on_screen :: "vga \<Rightarrow> u32 \<Rightarrow> u32 \<Rightarrow> bool" where
  "on_screen s x y \<longleftrightarrow> x < VGA_WIDTH s \<and> y < VGA_HEIGHT s"

definition pixel_size :: "vga \<Rightarrow> nat" where
  "pixel_size s = unat (vbe_bpp (vbe s)) div 8"

lemma bytes_pixel_size: "vga_ok s \<Longrightarrow> unat (bytes_per_pixel s) = pixel_size s"
  by (simp add: vga_ok_def pixel_size_def unat_div)

lemma pixel_offset_unat:
  assumes "vga_ok s" and "on_screen s x y"
  shows "unat (pixel_offset s x y) = unat y * unat (vbe_pitch (vbe s)) + unat x * pixel_size s
     \<and> unat x * pixel_size s + pixel_size s \<le> unat (vbe_pitch (vbe s))
     \<and> unat (pixel_offset s x y) + pixel_size s \<le> unat (vbe_pitch (vbe s)) * unat (VGA_HEIGHT s)"
proof -
  let ?p = "unat (vbe_pitch (vbe s))" and ?n = "pixel_size s"
  from assms have xy: "Suc (unat x) \<le> unat (VGA_WIDTH s)" "Suc (unat y) \<le> unat (VGA_HEIGHT s)"
    by (simp_all add: on_screen_def word_less_nat_alt Suc_le_eq)
  have "Suc (unat x) * ?n \<le> unat (VGA_WIDTH s) * ?n" using xy(1) by (rule mult_le_mono1)
  also have "\<dots> \<le> ?p" using assms(1) bytes_pixel_size [OF assms(1)] by (simp add: vga_ok_def)
  finally have row: "unat x * ?n + ?n \<le> ?p" by simp
  have "Suc (unat y) * ?p \<le> unat (VGA_HEIGHT s) * ?p" using xy(2) by (rule mult_le_mono1)
  then have all: "unat y * ?p + ?p \<le> ?p * unat (VGA_HEIGHT s)" by (simp add: mult.commute)
  also have "\<dots> \<le> 4294967296" using assms(1) by (simp add: vga_ok_def)
  finally have lim: "unat y * ?p + ?p \<le> 4294967296" .
  have n: "0 < ?n" using assms(1) by (auto simp: vga_ok_def pixel_size_def)
  with row lim have "unat y * ?p + unat x * ?n < 4294967296" by linarith
  then have "unat (pixel_offset s x y) = unat y * ?p + unat x * ?n"
    by (simp add: pixel_offset_def unat_word_ariths bytes_pixel_size [OF assms(1)] mod_add_eq)
  with row all show ?thesis by linarith
qed

definition pixel_base :: "vga \<Rightarrow> u32 \<Rightarrow> u32 \<Rightarrow> ptr" where
  "pixel_base s x y = backbuffer s + pixel_offset s x y"

text \<open>A byte of one pixel is never a byte of another.\<close>

lemma pixel_bytes_disjoint:
  assumes "vga_ok s" and "on_screen s x y" and "on_screen s x' y'"
    and "k < pixel_size s" and "unat (pixel_base s x' y' + of_nat k - pixel_base s x y) < pixel_size s"
  shows "x' = x \<and> y' = y"
proof -
  let ?p = "unat (vbe_pitch (vbe s))" and ?n = "pixel_size s"
  let ?j = "unat (pixel_base s x' y' + of_nat k - pixel_base s x y)"
  note o = pixel_offset_unat [OF assms(1,2)] and o' = pixel_offset_unat [OF assms(1,3)]
  have lim: "?p * unat (VGA_HEIGHT s) \<le> 4294967296" using assms(1) by (simp add: vga_ok_def)
  have "pixel_offset s x' y' + of_nat k = pixel_offset s x y + of_nat ?j"
    by (simp add: pixel_base_def algebra_simps)
  then have "unat (pixel_offset s x' y' + of_nat k) = unat (pixel_offset s x y + of_nat ?j)"
    by (rule arg_cong)
  moreover have "unat (pixel_offset s x' y' + of_nat k) = unat (pixel_offset s x' y') + k"
    using o' assms(4) lim by (simp add: unat_word_ariths)
  moreover have "unat (pixel_offset s x y + of_nat ?j) = unat (pixel_offset s x y) + ?j"
    using o assms(5) lim by (subst unat_plus32) simp_all
  ultimately have e: "unat y' * ?p + (unat x' * ?n + k) = unat y * ?p + (unat x * ?n + ?j)"
    using o o' by linarith
  have r: "unat x' * ?n + k < ?p" "unat x * ?n + ?j < ?p" using o o' assms(4,5) by linarith+
  have "unat y' = (unat y' * ?p + (unat x' * ?n + k)) div ?p" using r(1) by simp
  also have "\<dots> = unat y" unfolding e using r(2) by simp
  finally have y: "unat y' = unat y" .
  with e have e: "unat x' * ?n + k = unat x * ?n + ?j" by simp
  have "unat x' = (unat x' * ?n + k) div ?n" using assms(4) by simp
  also have "\<dots> = unat x" unfolding e using assms(5) by simp
  finally have "unat x' = unat x" .
  with y show ?thesis unfolding word_unat_eq_iff by blast
qed

section \<open>One pixel\<close>

lemma set_pixel_frame [frame_simps]:
  "vbe (vga_set_pixel x y c s) = vbe s" "VGA_WIDTH (vga_set_pixel x y c s) = VGA_WIDTH s"
  "VGA_HEIGHT (vga_set_pixel x y c s) = VGA_HEIGHT s" "backbuffer (vga_set_pixel x y c s) = backbuffer s"
  "framebuffer (vga_set_pixel x y c s) = framebuffer s"
  "bytes_per_pixel (vga_set_pixel x y c s) = bytes_per_pixel s"
  by (simp_all add: vga_set_pixel_def Let_def)

lemma set_pixel_geometry [frame_simps]:
  "vga_ok (vga_set_pixel x y c s) = vga_ok s" "on_screen (vga_set_pixel x y c s) = on_screen s"
  "pixel_size (vga_set_pixel x y c s) = pixel_size s" "pixel_base (vga_set_pixel x y c s) = pixel_base s"
  by (simp_all add: fun_eq_iff vga_ok_def on_screen_def pixel_size_def pixel_base_def pixel_offset_def frame_simps)

lemma byte_index: "(a :: ptr) = b + of_nat k \<longleftrightarrow> unat (a - b) = k" if "k < 4294967296"
proof
  assume "unat (a - b) = k"
  then have "of_nat k = a - b" by auto
  then show "a = b + of_nat k" by simp
qed (use that in simp)

lemma small_cases: "(n :: nat) < 4 \<longleftrightarrow> n = 0 \<or> n = 1 \<or> n = 2 \<or> n = 3" "n < 3 \<longleftrightarrow> n = 0 \<or> n = 1 \<or> n = 2"
  "n < 2 \<longleftrightarrow> n = 0 \<or> n = 1"
  by linarith+

lemma byte_of_and: "ucast ((c :: u32) AND 0xFF) = (ucast c :: u8)"
proof -
  have m: "(0xFF :: u32) = mask 8" by (simp add: mask_eq_exp_minus_1)
  show ?thesis unfolding m by (rule bit_word_eqI) (simp add: bit_simps)
qed

text \<open>The memory after a pixel is set: its bytes hold the colour, little-endian.\<close>

lemma set_pixel_mem:
  assumes "vga_ok s" and "on_screen s x y"
  shows "vmem (vga_set_pixel x y c s) a =
     (let j = unat (a - pixel_base s x y)
      in if j < pixel_size s then ucast (drop_bit (8 * j) c) else vmem s a)"
proof -
  let ?b = "pixel_base s x y"
  have i: "a = ?b \<longleftrightarrow> unat (a - ?b) = 0" "a = ?b + 1 \<longleftrightarrow> unat (a - ?b) = 1"
    "a = ?b + 2 \<longleftrightarrow> unat (a - ?b) = 2" "a = ?b + 3 \<longleftrightarrow> unat (a - ?b) = 3"
    using byte_index [of 0 a ?b] byte_index [of 1 a ?b] byte_index [of 2 a ?b] byte_index [of 3 a ?b]
    by simp_all
  have u: "ucast (drop_bit 8 (ucast c :: u16)) = (ucast (drop_bit 8 c) :: u8)" "ucast (ucast c :: u16) = (ucast c :: u8)"
    by (auto intro!: bit_word_eqI simp: bit_simps)
  have "vbe_bpp (vbe s) = 8 \<or> vbe_bpp (vbe s) = 16 \<or> vbe_bpp (vbe s) = 24 \<or> vbe_bpp (vbe s) = 32"
    using assms(1) by (auto simp: vga_ok_def)
  moreover have "\<not> (x \<ge> VGA_WIDTH s \<or> y \<ge> VGA_HEIGHT s)" using assms(2) by (simp add: on_screen_def not_le)
  ultimately show ?thesis
    unfolding vga_set_pixel_def Let_def pixel_base_def [symmetric] store32_def store16_def
    by (elim disjE) (auto simp: pixel_size_def small_cases i byte_of_and u)
qed

lemma set_pixel_off: "\<not> on_screen s x y \<Longrightarrow> vga_set_pixel x y c s = s"
  by (auto simp: vga_set_pixel_def on_screen_def not_less)

section \<open>The picture\<close>

text \<open>What a pixel keeps of a colour: as many low bits as the mode stores.\<close>

definition stored_color :: "vga \<Rightarrow> u32 \<Rightarrow> u32" where
  "stored_color s c = take_bit (unat (vbe_bpp (vbe s))) c"

lemma split_shift: "bit (push_bit k (take_bit 8 (drop_bit k c))) n \<longleftrightarrow> k \<le> n \<and> n < k + 8 \<and> bit c n"
  for c :: u32
proof -
  have "bit c n \<Longrightarrow> n < 32" using bit_imp_le_length [of c n] by simp
  then show ?thesis by (auto simp: bit_simps)
qed

lemma join_bytes:
  fixes c :: u32
  shows "ucast (ucast c :: u8) = take_bit 8 c"
    and "ucast (ucast (ucast c :: u8) OR push_bit 8 (ucast (ucast (drop_bit 8 c) :: u8)) :: u16) = take_bit 16 c"
    and "take_bit 8 c OR push_bit 8 (take_bit 8 (drop_bit 8 c)) OR push_bit 16 (take_bit 8 (drop_bit 16 c))
       = take_bit 24 c"
    and "take_bit 8 c OR push_bit 8 (take_bit 8 (drop_bit 8 c)) OR push_bit 16 (take_bit 8 (drop_bit 16 c))
       OR push_bit 24 (take_bit 8 (drop_bit 24 c)) = c"
proof -
  show "ucast (ucast c :: u8) = take_bit 8 c" by (rule bit_word_eqI) (auto simp: bit_simps)
  have l: "bit c n \<Longrightarrow> n < 32" for n using bit_imp_le_length [of c n] by simp
  show "take_bit 8 c OR push_bit 8 (take_bit 8 (drop_bit 8 c)) OR push_bit 16 (take_bit 8 (drop_bit 16 c))
       = take_bit 24 c"
    by (rule bit_word_eqI) (auto simp: split_shift bit_or_iff bit_take_bit_iff)
  show "take_bit 8 c OR push_bit 8 (take_bit 8 (drop_bit 8 c)) OR push_bit 16 (take_bit 8 (drop_bit 16 c))
       OR push_bit 24 (take_bit 8 (drop_bit 24 c)) = c"
    using l by (intro bit_word_eqI) (auto simp: split_shift bit_or_iff bit_take_bit_iff)
  show "ucast (ucast (ucast c :: u8) OR push_bit 8 (ucast (ucast (drop_bit 8 c) :: u8)) :: u16) = take_bit 16 c"
  proof (rule bit_word_eqI)
    fix n :: nat
    consider "n < 8" | "8 \<le> n" "n < 16" | "16 \<le> n" by linarith
    then show "bit (ucast (ucast (ucast c :: u8) OR push_bit 8 (ucast (ucast (drop_bit 8 c) :: u8)) :: u16) :: u32) n
        = bit (take_bit 16 c) n"
      by cases (auto simp: bit_simps)
  qed
qed

lemma get_pixel_bytes:
  assumes "vga_ok s" and "on_screen s x y"
    and "\<And>k. k < pixel_size s \<Longrightarrow> vmem s (pixel_base s x y + of_nat k) = ucast (drop_bit (8 * k) c)"
  shows "vga_get_pixel s x y = stored_color s c"
proof -
  have x: "\<not> (x \<ge> VGA_WIDTH s \<or> y \<ge> VGA_HEIGHT s)" using assms(2) by (simp add: on_screen_def not_le)
  have "vbe_bpp (vbe s) = 8 \<or> vbe_bpp (vbe s) = 16 \<or> vbe_bpp (vbe s) = 24 \<or> vbe_bpp (vbe s) = 32"
    using assms(1) by (auto simp: vga_ok_def)
  then show ?thesis
    using assms(3) [of 0] assms(3) [of 1] assms(3) [of 2] assms(3) [of 3] x
    unfolding vga_get_pixel_def Let_def pixel_base_def [symmetric] load32_def load16_def
    by (elim disjE) (simp_all add: pixel_size_def stored_color_def join_bytes take_bit_word_eq_self)
qed

lemma get_pixel_off: "\<not> on_screen s x y \<Longrightarrow> vga_get_pixel s x y = 0"
  by (auto simp: vga_get_pixel_def on_screen_def not_less)

lemma get_pixel_cong:
  assumes "vbe t = vbe s" "VGA_WIDTH t = VGA_WIDTH s" "VGA_HEIGHT t = VGA_HEIGHT s"
    "backbuffer t = backbuffer s" "bytes_per_pixel t = bytes_per_pixel s"
    and "\<And>k. k < pixel_size s \<Longrightarrow> vmem t (pixel_base s x y + of_nat k) = vmem s (pixel_base s x y + of_nat k)"
    and "vga_ok s"
  shows "vga_get_pixel t x y = vga_get_pixel s x y"
proof -
  have "vbe_bpp (vbe s) = 8 \<or> vbe_bpp (vbe s) = 16 \<or> vbe_bpp (vbe s) = 24 \<or> vbe_bpp (vbe s) = 32"
    using assms(7) by (auto simp: vga_ok_def)
  moreover have "pixel_offset t = pixel_offset s" using assms(1,5) by (simp add: fun_eq_iff pixel_offset_def)
  ultimately show ?thesis
    using assms(1-5) assms(6) [of 0] assms(6) [of 1] assms(6) [of 2] assms(6) [of 3]
    unfolding vga_get_pixel_def Let_def pixel_base_def load32_def load16_def
    by (elim disjE) (simp_all add: pixel_size_def)
qed

lemma get_set_pixel:
  assumes "vga_ok s"
  shows "vga_get_pixel (vga_set_pixel x y c s) x' y' =
     (if x' = x \<and> y' = y \<and> on_screen s x y then stored_color s c else vga_get_pixel s x' y')"
proof (cases "on_screen s x y \<and> on_screen s x' y'")
  case True
  then have o: "on_screen s x y" and o': "on_screen s x' y'" by auto
  note m = set_pixel_mem [OF assms o, of c, unfolded Let_def]
  show ?thesis
  proof (cases "x' = x \<and> y' = y")
    case True
    have "pixel_size s < 4294967296" using unat_lt32 [of "vbe_bpp (vbe s)"] by (simp add: pixel_size_def)
    then have "vga_get_pixel (vga_set_pixel x y c s) x y = stored_color (vga_set_pixel x y c s) c"
      using assms o by (intro get_pixel_bytes) (simp_all add: frame_simps m)
    with True o show ?thesis by (simp add: stored_color_def frame_simps)
  next
    case False
    have "vga_get_pixel (vga_set_pixel x y c s) x' y' = vga_get_pixel s x' y'"
      using pixel_bytes_disjoint [OF assms o o'] False
      by (intro get_pixel_cong) (auto simp: frame_simps m assms)
    with False show ?thesis by auto
  qed
next
  case False
  then show ?thesis
    by (auto simp: set_pixel_off get_pixel_off frame_simps)
qed

text \<open>Bytes outside the back buffer are never written.\<close>

definition outside_buffer :: "vga \<Rightarrow> ptr \<Rightarrow> bool" where
  "outside_buffer s a \<longleftrightarrow> unat (vbe_pitch (vbe s)) * unat (VGA_HEIGHT s) \<le> unat (a - backbuffer s)"

lemma set_pixel_outside:
  assumes "vga_ok s" and "outside_buffer s a"
  shows "vmem (vga_set_pixel x y c s) a = vmem s a"
proof (cases "on_screen s x y")
  case True
  note p = pixel_offset_unat [OF assms(1) True]
  have "\<not> unat (a - pixel_base s x y) < pixel_size s"
  proof
    assume j: "unat (a - pixel_base s x y) < pixel_size s"
    have "a - backbuffer s = pixel_offset s x y + (a - pixel_base s x y)" by (simp add: pixel_base_def)
    then have "unat (a - backbuffer s) = unat (pixel_offset s x y + (a - pixel_base s x y))"
      by (rule arg_cong)
    also have "\<dots> = unat (pixel_offset s x y) + unat (a - pixel_base s x y)"
      using p j assms(1) by (intro unat_plus32) (simp add: vga_ok_def)
    finally show False using p j assms(2) by (simp add: outside_buffer_def)
  qed
  then show ?thesis by (simp add: set_pixel_mem [OF assms(1) True])
qed (simp add: set_pixel_off)

section \<open>The driver as a canvas\<close>

interpretation vga_canvas: canvas vga_set_pixel vga_get_pixel vga_ok on_screen stored_color
  by unfold_locales (auto simp: get_set_pixel frame_simps stored_color_def fun_eq_iff)

lemma paint_outside:
  assumes "vga_ok s" and "outside_buffer s a"
  shows "vmem (paint vga_set_pixel pts c s) a = vmem s a"
proof -
  let ?P = "\<lambda>t. vga_ok t \<and> outside_buffer t a \<and> vmem t a = vmem s a"
  have "?P (vga_set_pixel x y c t)" if "?P t" for x y t
    using that by (simp add: set_pixel_outside frame_simps) (simp add: outside_buffer_def frame_simps)
  then have "?P (paint vga_set_pixel pts c s)" using assms by (intro paint_invariant [of ?P]) auto
  then show ?thesis by blast
qed

lemma fill_rect_paint: "vga_fill_rect x y w h c s = paint vga_set_pixel (rect_points x y w h) c s"
  unfolding vga_fill_rect_def by (rule fill_loop_paint)

section \<open>Characters\<close>

definition glyph_bit :: "u8 \<Rightarrow> nat \<Rightarrow> nat \<Rightarrow> bool" where
  "glyph_bit c row col \<longleftrightarrow> bit (font_8x8 ! unat c ! row) (7 - col)"

lemma glyph_mask: "col < 8 \<Longrightarrow> (bits :: u8) AND drop_bit col 0x80 \<noteq> 0 \<longleftrightarrow> bit bits (7 - col)"
proof -
  assume "col < 8"
  then have "col \<in> {0, 1, 2, 3, 4, 5, 6, 7}" by auto
  then have "drop_bit col 0x80 = (2 ^ (7 - col) :: u8)"
    by (auto simp: drop_bit_eq_div word_div_def)
  then show ?thesis by (simp add: and_exp_eq_0_iff_not_bit)
qed

definition char_points :: "u32 \<Rightarrow> u32 \<Rightarrow> u8 \<Rightarrow> u32 \<Rightarrow> (u32 \<times> u32) list" where
  "char_points x y c scale =
     concat (List.map (\<lambda>row. concat (List.map (\<lambda>col.
       if glyph_bit c row col
       then rect_points (x + of_nat col * scale) (y + of_nat row * scale) scale scale else [])
         [0..<8])) [0..<8])"

lemma draw_char_paint:
  assumes "c < 128"
  shows "vga_draw_char x y c color s = paint vga_set_pixel (char_points x y c (char_scale s)) color s"
proof -
  have "\<not> c \<ge> 128" using assms by (simp add: not_le)
  then show ?thesis
    unfolding vga_draw_char_def char_points_def Let_def if_not_P [OF \<open>\<not> c \<ge> 128\<close>]
    by (intro fold_paint) (simp add: glyph_mask glyph_bit_def fill_loop_paint)
qed

section \<open>Properties\<close>

text \<open>
  Remark. In a supported mode whose rows fit the pitch, the pixels behave like a
  two-dimensional array: after a pixel is set, reading it gives the colour cut to the mode's
  depth, every other pixel reads as before, a pixel off the screen changes nothing, and no byte
  outside the back buffer is written.
\<close>

theorem vga_pixel_roundtrip:
  assumes "vga_ok s"
  shows "(on_screen s x y \<longrightarrow> vga_get_pixel (vga_set_pixel x y c s) x y = take_bit (unat (vbe_bpp (vbe s))) c)
     \<and> ((x', y') \<noteq> (x, y) \<longrightarrow> vga_get_pixel (vga_set_pixel x y c s) x' y' = vga_get_pixel s x' y')
     \<and> (\<not> on_screen s x y \<longrightarrow> vga_set_pixel x y c s = s)
     \<and> (outside_buffer s a \<longrightarrow> vmem (vga_set_pixel x y c s) a = vmem s a)"
  using assms by (auto simp: get_set_pixel stored_color_def set_pixel_off set_pixel_outside)

definition vga_demo :: vga where
  "vga_demo = \<lparr>vbe = \<lparr>vbe_width = 800, vbe_height = 600, vbe_pitch = 2400, vbe_bpp = 24, vbe_framebuffer = 0xE0000000\<rparr>,
     VGA_WIDTH = 800, VGA_HEIGHT = 600, framebuffer = 0xE0000000, backbuffer = 0x500000,
     vga_active = 1, bytes_per_pixel = 3, vmem = (\<lambda>_. 0)\<rparr>"

lemma vga_demo_ok: "vga_ok vga_demo"
  by (simp add: vga_ok_def vga_demo_def)

theorem vga_pixel_roundtrip_witness:
  "vga_get_pixel (vga_set_pixel 10 20 0xFF123456 vga_demo) 10 20 = 0x123456"
  using vga_pixel_roundtrip [OF vga_demo_ok, of 10 20 "0xFF123456" 0 0 0]
  by (simp add: on_screen_def vga_demo_def take_bit_eq_mod)

text \<open>
  Property C22. Filling a rectangle paints exactly the pixels at a distance below \<open>w\<close> and \<open>h\<close>
  from its corner (distances are taken modulo \<open>2^32\<close>, so a rectangle that starts left of the
  screen reappears clipped), leaves every other pixel and every byte outside the back buffer
  alone; clearing the screen makes every pixel the given colour.
\<close>

theorem vga_fill_rect_correct:
  assumes "vga_ok s"
  shows "vga_get_pixel (vga_fill_rect x y w h c s) px py =
       (if px - x < w \<and> py - y < h \<and> on_screen s px py
        then take_bit (unat (vbe_bpp (vbe s))) c else vga_get_pixel s px py)
     \<and> (outside_buffer s a \<longrightarrow> vmem (vga_fill_rect x y w h c s) a = vmem s a)
     \<and> (on_screen s px py \<longrightarrow>
          vga_get_pixel (vga_clear_screen c s) px py = take_bit (unat (vbe_bpp (vbe s))) c)"
  using assms
  by (auto simp: vga_clear_screen_def fill_rect_paint vga_canvas.get_rect stored_color_def
      paint_outside on_screen_def)

theorem vga_fill_rect_correct_witness:
  "vga_get_pixel (vga_fill_rect 100 100 50 20 0x0C vga_demo) 149 119 = 0x0C
     \<and> vga_get_pixel (vga_fill_rect 100 100 50 20 0x0C vga_demo) 150 119 = 0"
  using vga_fill_rect_correct [OF vga_demo_ok, of 100 100 50 20 "0x0C" 149 119 0]
    vga_fill_rect_correct [OF vga_demo_ok, of 100 100 50 20 "0x0C" 150 119 0]
  by (simp add: on_screen_def vga_demo_def take_bit_eq_mod vga_get_pixel_def pixel_offset_def)

section \<open>Text with a shadow\<close>

definition in_glyph :: "u32 \<Rightarrow> u32 \<Rightarrow> u8 \<Rightarrow> u32 \<Rightarrow> u32 \<Rightarrow> bool" where
  "in_glyph x y c px py \<longleftrightarrow> px - x < 8 \<and> py - y < 8 \<and> glyph_bit c (unat (py - y)) (unat (px - x))"

definition glyph_points :: "u32 \<Rightarrow> u32 \<Rightarrow> u32 \<Rightarrow> u8 \<Rightarrow> (u32 \<times> u32) list" where
  "glyph_points d x y c =
     concat (List.map (\<lambda>row. concat (List.map (\<lambda>col.
       if glyph_bit c row col then [(x + of_nat col + d, y + of_nat row + d)] else []) [0..<8])) [0..<8])"

lemma glyph_loop_paint:
  "glyph_loop (\<lambda>x y v. put x y (ucast v)) d x y c color s = paint put (glyph_points d x y c) (ucast color) s"
  unfolding glyph_loop_def glyph_points_def Let_def
  by (intro fold_paint) (simp add: glyph_mask glyph_bit_def paint_Cons)

lemma glyph_points_mem: "(px, py) \<in> set (glyph_points d x y c) \<longleftrightarrow> in_glyph (x + d) (y + d) c px py"
proof
  assume "(px, py) \<in> set (glyph_points d x y c)"
  then obtain row col where rc: "row < 8" "col < 8" "glyph_bit c row col"
    and p: "px - (x + d) = of_nat col" "py - (y + d) = of_nat row"
    by (auto simp: glyph_points_def split: if_splits)
  then have "unat (of_nat col :: u32) = col" "unat (of_nat row :: u32) = row" by (simp_all add: unat_of_nat)
  with rc p show "in_glyph (x + d) (y + d) c px py" by (simp add: in_glyph_def word_less_nat_alt)
next
  assume a: "in_glyph (x + d) (y + d) c px py"
  have "px = x + of_nat (unat (px - (x + d))) + d" "py = y + of_nat (unat (py - (y + d))) + d" by simp_all
  moreover from a have "unat (px - (x + d)) < 8" "unat (py - (y + d)) < 8"
    "glyph_bit c (unat (py - (y + d))) (unat (px - (x + d)))"
    by (simp_all add: in_glyph_def word_less_nat_alt)
  ultimately show "(px, py) \<in> set (glyph_points d x y c)"
    unfolding glyph_points_def by (force simp del: of_nat_unat)
qed

text \<open>
  Remark. A character with a shadow shows its glyph in the first colour and, where the glyph
  leaves it free, the glyph moved one pixel right and down in the second; nothing else changes.
\<close>

theorem char_with_shadow_correct:
  assumes "vga_ok s" and "c < 128"
  shows "vga_get_pixel (vga_draw_char_with_shadow (\<lambda>x y v. vga_set_pixel x y (ucast v)) x y c color shadow s) px py =
     (if \<not> on_screen s px py then vga_get_pixel s px py
      else if in_glyph x y c px py then stored_color s (ucast color)
      else if in_glyph (x + 1) (y + 1) c px py then stored_color s (ucast shadow)
      else vga_get_pixel s px py)"
proof -
  have "\<not> c \<ge> 128" using assms(2) by (simp add: not_le)
  then show ?thesis
    using assms(1)
    by (simp add: vga_draw_char_with_shadow_def glyph_loop_paint vga_canvas.get_paint vga_canvas.paint_ok
        vga_canvas.paint_frame glyph_points_mem)
qed

theorem char_with_shadow_correct_witness:
  "vga_get_pixel (vga_draw_char_with_shadow (\<lambda>x y v. vga_set_pixel x y (ucast v)) 10 10 0x41 0x3F 0x08 vga_demo) 5 5 = 0"
  using char_with_shadow_correct [OF vga_demo_ok, of "0x41" 10 10 "0x3F" "0x08" 5 5]
  by (simp add: in_glyph_def on_screen_def vga_demo_def vga_get_pixel_def pixel_offset_def)

end
