(* ===== verification/Gop.thy ===== *)
theory Gop
  imports Canvas Console Pmm Ports
begin

text \<open>
  Two simple video drivers: the framebuffer handed over by the boot loader,
  \<^verbatim>\<open>drivers/video/gop_fb.c\<close>, and the 320 by 200 palette mode of
  \<^verbatim>\<open>drivers/video/vga_mode13.c\<close>. \<open>fb_mem\<close> is the word memory the framebuffer
  pointer indexes, \<open>m13_mem\<close> the byte memory at \<open>0xA0000\<close>. \<open>gop_draw_line\<close>, which steps
  with \<open>float\<close> increments, is in \<open>Lines\<close>.
\<close>

section \<open>The boot loader's framebuffer\<close>

record framebuffer_info = multiboot_info +
  framebuffer_addr :: "64 word"
  framebuffer_pitch :: u32
  framebuffer_width :: u32
  framebuffer_height :: u32
  framebuffer_bpp :: u8
  framebuffer_type :: u8

definition MULTIBOOT_FLAG_FRAMEBUFFER :: u32 where "MULTIBOOT_FLAG_FRAMEBUFFER = 0x00001000"

record gop_fb =
  gop_framebuffer :: ptr
  gop_width :: u32
  gop_height :: u32
  gop_pitch :: u32
  gop_bpp :: u8
  gop_initialized :: bool
  fb_mem :: "ptr \<Rightarrow> u32"
  gop_con :: monitor

definition gop_say :: "out list \<Rightarrow> gop_fb \<Rightarrow> gop_fb" where
  "gop_say os s = s\<lparr>gop_con := print_all os (gop_con s)\<rparr>"

definition gop_fb_init :: "framebuffer_info \<Rightarrow> gop_fb \<Rightarrow> int \<times> gop_fb" where
  "gop_fb_init mbi s =
     (let s = gop_say [Str ''  Checking for framebuffer...'', NL] s in
      if mbi_flags mbi AND MULTIBOOT_FLAG_FRAMEBUFFER = 0
      then (- 1, gop_say [Str ''  [INFO] No framebuffer flag in multiboot'', NL] s)
      else let s = gop_say [Str ''  Framebuffer flag detected'', NL,
                            Str ''  Type: '', Dec (ucast (framebuffer_type mbi)), NL] s in
        if framebuffer_type mbi \<noteq> 1
        then (- 1, gop_say [Str ''  [INFO] Framebuffer is not RGB mode (type != 1)'', NL] s)
        else let s = s\<lparr>gop_framebuffer := ucast (framebuffer_addr mbi), gop_width := framebuffer_width mbi,
                       gop_height := framebuffer_height mbi, gop_pitch := framebuffer_pitch mbi,
                       gop_bpp := framebuffer_bpp mbi\<rparr>;
                 s = gop_say [Str ''  FB Address: 0x'', Hex (gop_framebuffer s), NL,
                              Str ''  Resolution: '', Dec (gop_width s), Str ''x'', Dec (gop_height s),
                              Str ''x'', Dec (ucast (gop_bpp s)), NL] s in
          if gop_framebuffer s = 0 \<or> gop_width s = 0 \<or> gop_height s = 0
          then (- 1, gop_say [Str ''  [ERROR] Invalid framebuffer parameters'', NL] s)
          else let s = (if gop_framebuffer s < 0x100000
                        then gop_say [Str ''  [WARN] Framebuffer address seems too low'', NL] s else s);
                   s = s\<lparr>gop_initialized := True\<rparr>
               in (0, gop_say [Str ''  [OK] GOP Framebuffer initialized'', NL] s))"

definition gop_clear :: "u32 \<Rightarrow> gop_fb \<Rightarrow> gop_fb" where
  "gop_clear color s =
     (if \<not> gop_initialized s then s
      else let pixels = (gop_pitch s div 4) * gop_height s in
        s\<lparr>fb_mem := fold (\<lambda>i m. m(gop_framebuffer s + 4 * of_nat i := color)) [0..<unat pixels] (fb_mem s)\<rparr>)"

definition gop_putpixel :: "u32 \<Rightarrow> u32 \<Rightarrow> u32 \<Rightarrow> gop_fb \<Rightarrow> gop_fb" where
  "gop_putpixel x y color s =
     (if \<not> gop_initialized s then s
      else if x \<ge> gop_width s \<or> y \<ge> gop_height s then s
      else s\<lparr>fb_mem := (fb_mem s)(gop_framebuffer s + 4 * (y * (gop_pitch s div 4) + x) := color)\<rparr>)"

definition gop_draw_rect :: "u32 \<Rightarrow> u32 \<Rightarrow> u32 \<Rightarrow> u32 \<Rightarrow> u32 \<Rightarrow> gop_fb \<Rightarrow> gop_fb" where
  "gop_draw_rect x y w h color s =
     fold (\<lambda>dy. fold (\<lambda>dx. gop_putpixel (x + of_nat dx) (y + of_nat dy) color) [0..<unat w]) [0..<unat h] s"

definition gop_get_info :: "gop_fb \<Rightarrow> gop_fb option" where
  "gop_get_info s = (if gop_initialized s then Some s else None)"

definition gop_print_info :: "gop_fb \<Rightarrow> gop_fb" where
  "gop_print_info s =
     (if \<not> gop_initialized s then gop_say [Str ''  GOP framebuffer not initialized'', NL] s
      else gop_say [Str ''  Active: '', Dec (gop_width s), Str ''x'', Dec (gop_height s),
                    Str ''x'', Dec (ucast (gop_bpp s)), NL] s)"

section \<open>Palette mode 13h\<close>

record mode13 =
  m13_mem :: "nat \<Rightarrow> u8"
  m13_io :: io_trace

definition vga_mode13_set_palette :: "u8 \<Rightarrow> u8 \<Rightarrow> u8 \<Rightarrow> u8 \<Rightarrow> mode13 \<Rightarrow> mode13" where
  "vga_mode13_set_palette index r g b s =
     s\<lparr>m13_io := outb 0x3C9 b (outb 0x3C9 g (outb 0x3C9 r (outb 0x3C8 index (m13_io s))))\<rparr>"

definition vga_mode13_init :: "mode13 \<Rightarrow> mode13" where
  "vga_mode13_init s =
     (let s = s\<lparr>m13_io := outb 0x3C8 0 (m13_io s)\<rparr>;
          s = vga_mode13_set_palette 0 0 0 0 s;
          s = vga_mode13_set_palette 1 63 0 0 s;
          s = vga_mode13_set_palette 2 0 63 0 s;
          s = vga_mode13_set_palette 3 0 0 63 s;
          s = vga_mode13_set_palette 4 63 63 0 s
      in vga_mode13_set_palette 15 63 63 63 s)"

definition vga_mode13_putpixel :: "u16 \<Rightarrow> u16 \<Rightarrow> u8 \<Rightarrow> mode13 \<Rightarrow> mode13" where
  "vga_mode13_putpixel x y color s =
     (if x \<ge> 320 \<or> y \<ge> 200 then s
      else s\<lparr>m13_mem := (m13_mem s)(unat y * 320 + unat x := color)\<rparr>)"

definition vga_mode13_clear :: "u8 \<Rightarrow> mode13 \<Rightarrow> mode13" where
  "vga_mode13_clear color s =
     s\<lparr>m13_mem := fold (\<lambda>i m. m(i := color)) [0..<320 * 200] (m13_mem s)\<rparr>"

definition vga_mode13_rect :: "u16 \<Rightarrow> u16 \<Rightarrow> u16 \<Rightarrow> u16 \<Rightarrow> u8 \<Rightarrow> mode13 \<Rightarrow> mode13" where
  "vga_mode13_rect x y w h color s =
     fold (\<lambda>dy. fold (\<lambda>dx. vga_mode13_putpixel (x + of_nat dx) (y + of_nat dy) color)
        [0..<unat w]) [0..<unat h] s"

section \<open>The framebuffer as a canvas\<close>

definition gop_ok :: "gop_fb \<Rightarrow> bool" where
  "gop_ok s \<longleftrightarrow> gop_initialized s \<and> linear_ok (gop_pitch s) (gop_width s) (gop_height s)"

definition gop_visible :: "gop_fb \<Rightarrow> u32 \<Rightarrow> u32 \<Rightarrow> bool" where
  "gop_visible s x y \<longleftrightarrow> gop_initialized s \<and> x < gop_width s \<and> y < gop_height s"

definition gop_shown :: "gop_fb \<Rightarrow> u32 \<Rightarrow> u32 \<Rightarrow> u32" where
  "gop_shown s x y =
     (if gop_visible s x y then fb_mem s (linear_addr (gop_framebuffer s) (gop_pitch s) x y) else 0)"

lemma gop_putpixel_frame [frame_simps]:
  "gop_width (gop_putpixel x y c s) = gop_width s" "gop_height (gop_putpixel x y c s) = gop_height s"
  "gop_pitch (gop_putpixel x y c s) = gop_pitch s" "gop_framebuffer (gop_putpixel x y c s) = gop_framebuffer s"
  "gop_initialized (gop_putpixel x y c s) = gop_initialized s"
  by (simp_all add: gop_putpixel_def)

lemma gop_putpixel_visible:
  "gop_putpixel x y c s =
     (if gop_visible s x y
      then s\<lparr>fb_mem := (fb_mem s)(linear_addr (gop_framebuffer s) (gop_pitch s) x y := c)\<rparr> else s)"
  by (auto simp: gop_putpixel_def gop_visible_def linear_addr_def not_less)

lemma gop_get_put:
  assumes "gop_ok s"
  shows "gop_shown (gop_putpixel x y c s) px py =
     (if px = x \<and> py = y \<and> gop_visible s x y then c else gop_shown s px py)"
proof -
  have "px = x \<and> py = y"
    if "gop_visible s x y" "gop_visible s px py"
      "linear_addr (gop_framebuffer s) (gop_pitch s) px py = linear_addr (gop_framebuffer s) (gop_pitch s) x y"
    using that assms linear_addr_inject [of "gop_pitch s" "gop_width s" "gop_height s" px py x y]
    by (simp add: gop_ok_def gop_visible_def)
  then show ?thesis
    by (auto simp: gop_shown_def gop_putpixel_visible) (auto simp: gop_visible_def)
qed

interpretation gop_canvas: canvas gop_putpixel gop_shown gop_ok gop_visible "\<lambda>_ c. c"
  by unfold_locales (auto simp: gop_get_put gop_ok_def gop_visible_def fun_eq_iff frame_simps)

section \<open>Properties\<close>

text \<open>
  Remark. On an initialised 32-bit framebuffer whose rows fit the pitch, a rectangle
  paints exactly its pixels clipped to the screen, and a pixel set is a pixel shown.
\<close>

theorem gop_draw_rect_correct:
  assumes "gop_ok s"
  shows "gop_shown (gop_draw_rect x y w h c s) px py =
     (if px - x < w \<and> py - y < h \<and> px < gop_width s \<and> py < gop_height s then c else gop_shown s px py)"
proof -
  have "gop_draw_rect x y w h c s = paint gop_putpixel (rect_points x y w h) c s"
    unfolding gop_draw_rect_def by (rule fill_loop_paint)
  moreover have "gop_visible s px py \<longleftrightarrow> px < gop_width s \<and> py < gop_height s"
    using assms by (simp add: gop_visible_def gop_ok_def)
  ultimately show ?thesis using assms by (simp add: gop_canvas.get_rect)
qed

definition mbi_gop :: "u32 \<Rightarrow> u8 \<Rightarrow> framebuffer_info" where
  "mbi_gop pitch bpp = multiboot_info.extend (mbi_demo\<lparr>mbi_flags := 0x1000\<rparr>)
     (framebuffer_info.fields 0xE0000000 pitch 1024 768 bpp 1)"

definition gop_zero :: gop_fb where
  "gop_zero = \<lparr>gop_framebuffer = 0, gop_width = 0, gop_height = 0, gop_pitch = 0, gop_bpp = 0,
     gop_initialized = False, fb_mem = (\<lambda>_. 0), gop_con = monitor_demo\<rparr>"

lemma gop_say_frame [frame_simps]:
  "gop_framebuffer (gop_say os s) = gop_framebuffer s" "gop_width (gop_say os s) = gop_width s"
  "gop_height (gop_say os s) = gop_height s" "gop_pitch (gop_say os s) = gop_pitch s"
  "gop_bpp (gop_say os s) = gop_bpp s" "gop_initialized (gop_say os s) = gop_initialized s"
  "fb_mem (gop_say os s) = fb_mem s"
  by (simp_all add: gop_say_def)

text \<open>What \<open>gop_fb_init\<close> returns and records.\<close>

lemma gop_fb_init_result:
  "fst (gop_fb_init mbi s) = 0 \<longleftrightarrow>
     mbi_flags mbi AND MULTIBOOT_FLAG_FRAMEBUFFER \<noteq> 0 \<and> framebuffer_type mbi = 1
     \<and> (ucast (framebuffer_addr mbi) :: ptr) \<noteq> 0 \<and> framebuffer_width mbi \<noteq> 0 \<and> framebuffer_height mbi \<noteq> 0"
  by (simp add: gop_fb_init_def Let_def frame_simps)

lemma gop_fb_init_state:
  assumes "fst (gop_fb_init mbi s) = 0"
  shows "gop_initialized (snd (gop_fb_init mbi s)) \<and> gop_width (snd (gop_fb_init mbi s)) = framebuffer_width mbi
     \<and> gop_height (snd (gop_fb_init mbi s)) = framebuffer_height mbi
     \<and> gop_pitch (snd (gop_fb_init mbi s)) = framebuffer_pitch mbi
     \<and> gop_framebuffer (snd (gop_fb_init mbi s)) = ucast (framebuffer_addr mbi)
     \<and> fb_mem (snd (gop_fb_init mbi s)) = fb_mem s"
  using assms unfolding gop_fb_init_result
  by (simp add: gop_fb_init_def Let_def frame_simps)

theorem gop_draw_rect_correct_witness:
  "gop_shown (gop_draw_rect 50 50 200 100 7 (snd (gop_fb_init (mbi_gop 4096 32) gop_zero))) 249 149 = 7"
proof -
  have r: "fst (gop_fb_init (mbi_gop 4096 32) gop_zero) = 0"
    by (simp add: gop_fb_init_result mbi_gop_def mbi_demo_def multiboot_info.defs framebuffer_info.defs
        MULTIBOOT_FLAG_FRAMEBUFFER_def)
  note s = gop_fb_init_state [OF r]
  have "gop_ok (snd (gop_fb_init (mbi_gop 4096 32) gop_zero))"
    using s by (simp add: gop_ok_def linear_ok_def mbi_gop_def multiboot_info.defs framebuffer_info.defs)
  from gop_draw_rect_correct [OF this, of 50 50 200 100 7 249 149] s
  show ?thesis by (simp add: mbi_gop_def multiboot_info.defs framebuffer_info.defs)
qed

text \<open>
  Remark. The depth is recorded but never checked: a 24-bit framebuffer, whose rows are
  three bytes per pixel, is accepted, and then the pixel \<open>pitch / 4\<close> of a row is stored in the
  word of the first pixel of the next row, so a draw on the right of the screen overwrites the
  left of the row below.
\<close>

theorem gop_24bpp_aliases:
  assumes "mbi_flags mbi AND MULTIBOOT_FLAG_FRAMEBUFFER \<noteq> 0" and "framebuffer_type mbi = 1"
    and "(ucast (framebuffer_addr mbi) :: ptr) \<noteq> 0"
    and "framebuffer_bpp mbi = 24" and "framebuffer_pitch mbi = 3 * framebuffer_width mbi"
    and "4 \<le> framebuffer_width mbi" and "framebuffer_width mbi < 0x40000000" and "2 \<le> framebuffer_height mbi"
  shows "fst (gop_fb_init mbi s) = 0
     \<and> gop_visible (snd (gop_fb_init mbi s)) (3 * framebuffer_width mbi div 4) 0
     \<and> gop_shown (gop_putpixel (3 * framebuffer_width mbi div 4) 0 c (snd (gop_fb_init mbi s))) 0 1 = c"
proof -
  let ?w = "framebuffer_width mbi"
  have z: "?w \<noteq> 0" "framebuffer_height mbi \<noteq> 0" using assms(6,8) by (auto simp: word_le_nat_alt)
  then have r: "fst (gop_fb_init mbi s) = 0" using assms(1-3) by (simp add: gop_fb_init_result)
  note st = gop_fb_init_state [OF r]
  have w: "4 \<le> unat ?w" "unat ?w < 1073741824"
    using assms(6,7) by (simp_all add: word_le_nat_alt word_less_nat_alt)
  have "unat (3 * ?w) = 3 * unat ?w" using w by (simp add: unat_word_ariths)
  then have "unat (3 * ?w div 4) < unat ?w" using w by (simp add: unat_div)
  then have v: "3 * ?w div 4 < ?w" "0 < ?w" by (simp_all add: word_less_nat_alt)
  have h: "0 < framebuffer_height mbi" "1 < framebuffer_height mbi"
    using assms(8) by (simp_all add: word_le_nat_alt word_less_nat_alt)
  show ?thesis
    using r st v h assms(5)
    by (simp add: gop_visible_def gop_shown_def gop_putpixel_visible linear_addr_def)
qed

theorem gop_24bpp_aliases_witness:
  "gop_shown (gop_putpixel 768 0 9 (snd (gop_fb_init (mbi_gop 3072 24) gop_zero))) 0 1 = 9"
  using gop_24bpp_aliases [of "mbi_gop 3072 24" gop_zero 9]
  by (simp add: mbi_gop_def mbi_demo_def multiboot_info.defs framebuffer_info.defs
      MULTIBOOT_FLAG_FRAMEBUFFER_def)

end
