(* ===== verification/Lines.thy ===== *)
theory Lines
  imports Floats Vga Gop
begin

text \<open>
  Straight lines, \<open>vga_draw_line\<close> of \<^verbatim>\<open>drivers/vga/vga.c\<close> and \<open>gop_draw_line\<close> of
  \<^verbatim>\<open>drivers/video/gop_fb.c\<close>. Both step along the line in \<open>float\<close>; \<open>line_loop\<close> is their common
  loop. Under exact arithmetic of small integers the lines along six of the eight
  main directions are exact, and those to the left and upwards are not drawn.
\<close>

section \<open>The two routines\<close>

fun line_loop :: "'f floats \<Rightarrow> (u32 \<Rightarrow> u32 \<Rightarrow> 's \<Rightarrow> 's) \<Rightarrow> 'f \<Rightarrow> 'f \<Rightarrow> nat \<Rightarrow> 'f \<Rightarrow> 'f \<Rightarrow> 's \<Rightarrow> 's" where
  "line_loop F plot xinc yinc 0 x y s = s"
| "line_loop F plot xinc yinc (Suc n) x y s =
     line_loop F plot xinc yinc n (f_add F x xinc) (f_add F y yinc)
       (plot (word_of_int (f_trunc F x)) (word_of_int (f_trunc F y)) s)"

definition vga_draw_line :: "'f floats \<Rightarrow> u32 \<Rightarrow> u32 \<Rightarrow> u32 \<Rightarrow> u32 \<Rightarrow> u32 \<Rightarrow> vga \<Rightarrow> vga" where
  "vga_draw_line F x1 y1 x2 y2 color s =
     (let dx = sint x2 - sint x1; dy = sint y2 - sint y1;
          steps = (if dx > dy then (if dx > 0 then dx else - dx) else (if dy > 0 then dy else - dy));
          xinc = f_div F (f_of_int F dx) (f_of_int F steps);
          yinc = f_div F (f_of_int F dy) (f_of_int F steps)
      in line_loop F (\<lambda>x y. vga_set_pixel x y color) xinc yinc (nat (steps + 1))
           (f_of_int F (uint x1)) (f_of_int F (uint y1)) s)"

definition gop_draw_line :: "'f floats \<Rightarrow> u32 \<Rightarrow> u32 \<Rightarrow> u32 \<Rightarrow> u32 \<Rightarrow> u32 \<Rightarrow> gop_fb \<Rightarrow> gop_fb" where
  "gop_draw_line F x1 y1 x2 y2 color s =
     (let dx = sint (x2 - x1); dy = sint (y2 - y1);
          steps = (if dx > dy then dx else dy);
          steps = (if steps < 0 then - steps else steps);
          steps = (if steps = 0 then 1 else steps);
          x_inc = f_div F (f_of_int F dx) (f_of_int F steps);
          y_inc = f_div F (f_of_int F dy) (f_of_int F steps)
      in line_loop F (\<lambda>x y. gop_putpixel x y color) x_inc y_inc (nat (steps + 1))
           (f_of_int F (uint x1)) (f_of_int F (uint y1)) s)"

section \<open>Points of a line\<close>

definition line_points :: "int \<Rightarrow> int \<Rightarrow> int \<Rightarrow> int \<Rightarrow> nat \<Rightarrow> (u32 \<times> u32) list" where
  "line_points x y ux uy n =
     List.map (\<lambda>k. (word_of_int (x + int k * ux), word_of_int (y + int k * uy))) [0..<n]"

lemma line_points_Suc:
  "line_points x y ux uy (Suc n) = (word_of_int x, word_of_int y) # line_points (x + ux) (y + uy) ux uy n"
  unfolding line_points_def by (subst upt_conv_Cons) (simp_all add: map_Suc_upt [symmetric] algebra_simps del: upt_Suc)

text \<open>A line whose points and steps are small integers is painted point by point.\<close>

lemma line_loop_paint:
  assumes "exact_floats F" and "f_exact ux" "f_exact uy"
    and "\<And>k. k \<le> n \<Longrightarrow> f_exact (x + int k * ux) \<and> f_exact (y + int k * uy)"
  shows "line_loop F (\<lambda>x y. put x y c) (f_of_int F ux) (f_of_int F uy) n (f_of_int F x) (f_of_int F y) s
     = paint put (line_points x y ux uy n) c s"
  using assms(4)
proof (induction n arbitrary: x y s)
  case 0
  show ?case by (simp add: line_points_def)
next
  case (Suc n)
  from Suc.prems [of 0] Suc.prems [of 1] have
    e: "f_exact x" "f_exact y" "f_exact (x + ux)" "f_exact (y + uy)" by simp_all
  have "f_exact (x + ux + int k * ux) \<and> f_exact (y + uy + int k * uy)" if "k \<le> n" for k
    using Suc.prems [of "Suc k"] that by (simp add: algebra_simps)
  note IH = Suc.IH [OF this]
  show ?case
    using e assms(2,3)
    by (simp add: line_points_Suc paint_Cons IH exact_floatsD [OF assms(1)])
qed

lemma word_of_int_uint_eq: "0 \<le> a \<Longrightarrow> a \<le> 16777216 \<Longrightarrow> (p :: u32) = word_of_int a \<longleftrightarrow> uint p = a"
  by (auto simp: word_uint_eq_iff uint_word_of_int)

lemma line_points_mem:
  assumes "\<And>k. k < n \<Longrightarrow> 0 \<le> x + int k * ux \<and> x + int k * ux \<le> 16777216 \<and> 0 \<le> y + int k * uy \<and> y + int k * uy \<le> 16777216"
  shows "(px, py) \<in> set (line_points x y ux uy n)
     \<longleftrightarrow> (\<exists>k<n. uint px = x + int k * ux \<and> uint py = y + int k * uy)"
proof -
  have "(px, py) \<in> set (line_points x y ux uy n)
     \<longleftrightarrow> (\<exists>k<n. px = word_of_int (x + int k * ux) \<and> py = word_of_int (y + int k * uy))"
    by (auto simp: line_points_def)
  also have "\<dots> \<longleftrightarrow> (\<exists>k<n. uint px = x + int k * ux \<and> uint py = y + int k * uy)"
    using assms word_of_int_uint_eq by (metis (no_types, lifting))
  finally show ?thesis .
qed

section \<open>Straight lines\<close>

text \<open>
  A line of \<open>n\<close> steps from \<open>(x, y)\<close> in direction \<open>(ux, uy)\<close>, all of it in the range where
  \<open>float\<close> is exact, and the directions both routines handle.
\<close>

definition in_range :: "int \<Rightarrow> bool" where
  "in_range a \<longleftrightarrow> 0 \<le> a \<and> a < 16777216"

definition straight :: "int \<Rightarrow> int \<Rightarrow> bool" where
  "straight ux uy \<longleftrightarrow> (ux, uy) \<in> {(1, 0), (0, 1), (1, 1), (1, - 1), (- 1, 1), (- 1, - 1)}"

definition on_line :: "u32 \<Rightarrow> u32 \<Rightarrow> int \<Rightarrow> int \<Rightarrow> nat \<Rightarrow> u32 \<Rightarrow> u32 \<Rightarrow> bool" where
  "on_line x y ux uy n px py \<longleftrightarrow> (\<exists>k\<le>n. uint px = uint x + int k * ux \<and> uint py = uint y + int k * uy)"

lemma unit_steps:
  assumes "ux \<in> {- 1, 0, 1}" and "in_range a" "in_range (a + int n * ux)"
  shows "k \<le> Suc n \<Longrightarrow> f_exact (a + int k * ux)" and "k \<le> n \<Longrightarrow> 0 \<le> a + int k * ux \<and> a + int k * ux \<le> 16777216"
    and "f_exact (int n * ux)"
  using assms by (auto simp: in_range_def f_exact_def)

lemma line_loop_line:
  assumes "exact_floats F" and "ux \<in> {- 1, 0, 1}" "uy \<in> {- 1, 0, 1}"
    and "in_range (uint x)" "in_range (uint x + int n * ux)" "in_range (uint y)" "in_range (uint y + int n * uy)"
  obtains pts where "line_loop F (\<lambda>x y. put x y c) (f_of_int F ux) (f_of_int F uy) (Suc n)
      (f_of_int F (uint x)) (f_of_int F (uint y)) s = paint put pts c s"
    "\<And>px py. (px, py) \<in> set pts \<longleftrightarrow> on_line x y ux uy n px py"
proof -
  note ux = unit_steps [OF assms(2,4,5)] and uy = unit_steps [OF assms(3,6,7)]
  have "f_exact ux" "f_exact uy" using assms(2,3) by (auto simp: f_exact_def)
  note paint = line_loop_paint [OF assms(1) this, of "Suc n" "uint x" "uint y" put c s]
  have "(px, py) \<in> set (line_points (uint x) (uint y) ux uy (Suc n)) \<longleftrightarrow> on_line x y ux uy n px py" for px py
    using line_points_mem [of "Suc n" "uint x" ux "uint y" uy px py] ux(2) uy(2)
    by (auto simp: on_line_def less_Suc_eq_le)
  with paint ux(1) uy(1) that show thesis by blast
qed

lemma sint_in_range: "in_range a \<Longrightarrow> sint (word_of_int a :: u32) = a" "in_range (uint x) \<Longrightarrow> sint (x :: u32) = uint x"
  by (simp_all add: in_range_def sint_uint signed_take_bit_eq_take_bit_minus take_bit_eq_mod uint_word_of_int bit_iff_odd)

section \<open>The VESA driver\<close>

text \<open>The end of a straight line, and the differences the routines start from.\<close>

definition line_end :: "u32 \<Rightarrow> int \<Rightarrow> nat \<Rightarrow> u32" where
  "line_end x ux n = word_of_int (uint x + int n * ux)"

lemma line_end_diff:
  assumes "in_range (uint x)" "in_range (uint x + int n * ux)"
  shows "sint (line_end x ux n) - sint x = int n * ux" and "sint (line_end x ux n - x) = int n * ux"
proof -
  show "sint (line_end x ux n) - sint x = int n * ux"
    unfolding line_end_def sint_in_range(1) [OF assms(2)] sint_in_range(2) [OF assms(1)] by simp
  have "line_end x ux n - x = word_of_int (int n * ux)"
    by (simp add: line_end_def wi_hom_syms)
  moreover have "- 2147483648 \<le> int n * ux \<and> int n * ux < 2147483648"
    using assms uint_ge_0 [of x] unfolding in_range_def by linarith
  then have "signed_take_bit 31 (int n * ux) = int n * ux"
    by (simp add: signed_take_bit_int_eq_self_iff)
  ultimately show "sint (line_end x ux n - x) = int n * ux"
    by (simp add: signed_of_int del: of_int_mult)
qed

lemma straight_units: "straight ux uy \<Longrightarrow> ux \<in> {- 1, 0, 1} \<and> uy \<in> {- 1, 0, 1}"
  by (auto simp: straight_def)

lemma unit_increment:
  assumes "exact_floats F" and "f_exact (int n * u)" and "f_exact (int n)" and "0 < n"
  shows "f_div F (f_of_int F (int n * u)) (f_of_int F (int n)) = f_of_int F u"
  using exact_floatsD(4) [OF assms(1-3)] assms(4) by simp

text \<open>A straight line has as many steps as its longer side has pixels.\<close>

lemma line_steps_exact:
  assumes "straight ux uy" and "in_range (uint x)" "in_range (uint x + int n * ux)"
    "in_range (uint y)" "in_range (uint y + int n * uy)"
  shows "f_exact (int n)"
proof -
  from assms(1) have "ux = 1 \<or> ux = - 1 \<or> uy = 1 \<or> uy = - 1" by (auto simp: straight_def)
  moreover have "0 \<le> uint x" "0 \<le> uint y" by (rule uint_ge_0)+
  ultimately have "int n \<le> 16777216" using assms(2-5) unfolding in_range_def by (elim disjE; hypsubst; linarith)
  then show ?thesis by (simp add: f_exact_def)
qed

lemma vga_line_loop:
  assumes "exact_floats F" and "straight ux uy" and "0 < n"
    and "in_range (uint x)" "in_range (uint x + int n * ux)" "in_range (uint y)" "in_range (uint y + int n * uy)"
  shows "vga_draw_line F x y (line_end x ux n) (line_end y uy n) c s
     = line_loop F (\<lambda>x y. vga_set_pixel x y c) (f_of_int F ux) (f_of_int F uy) (Suc n)
         (f_of_int F (uint x)) (f_of_int F (uint y)) s"
proof -
  have steps: "(if int n * ux > int n * uy then (if int n * ux > 0 then int n * ux else - (int n * ux))
      else (if int n * uy > 0 then int n * uy else - (int n * uy))) = int n"
    using assms(2,3) by (auto simp: straight_def)
  have "f_exact (int n)" by (rule line_steps_exact [OF assms(2,4-7)])
  note inc = unit_increment [OF assms(1) _ this assms(3)]
  have "f_exact (int n * ux)" "f_exact (int n * uy)"
    using unit_steps(3) straight_units [OF assms(2)] assms(4-7) by blast+
  then show ?thesis
    unfolding vga_draw_line_def Let_def line_end_diff(1) [OF assms(4,5)] line_end_diff(1) [OF assms(6,7)] steps
    by (simp add: inc nat_add_distrib del: line_loop.simps)
qed

text \<open>
  Remark. Along six of the eight main directions, and under any single-precision
  arithmetic that is exact on small integers, \<open>vga_draw_line\<close> paints exactly the pixels of the line
  with both ends, clipped to the screen, in the colour cut to the mode's depth.
\<close>

theorem vga_line_straight:
  assumes "exact_floats F" and "vga_ok s" and "straight ux uy" and "0 < n"
    and "in_range (uint x)" "in_range (uint x + int n * ux)" "in_range (uint y)" "in_range (uint y + int n * uy)"
  shows "vga_get_pixel (vga_draw_line F x y (line_end x ux n) (line_end y uy n) c s) px py =
     (if on_line x y ux uy n px py \<and> on_screen s px py then stored_color s c else vga_get_pixel s px py)"
proof -
  from straight_units [OF assms(3)] have u: "ux \<in> {- 1, 0, 1}" "uy \<in> {- 1, 0, 1}" by simp_all
  obtain pts where "vga_draw_line F x y (line_end x ux n) (line_end y uy n) c s = paint vga_set_pixel pts c s"
    "\<And>px py. (px, py) \<in> set pts \<longleftrightarrow> on_line x y ux uy n px py"
    using line_loop_line [OF assms(1) u assms(5-8), of vga_set_pixel c s]
    unfolding vga_line_loop [OF assms(1,3-8)] by blast
  then show ?thesis using assms(2) by (simp add: vga_canvas.get_paint)
qed

theorem vga_line_straight_witness:
  "vga_get_pixel (vga_draw_line rat_floats 10 20 (line_end 10 1 6) (line_end 20 1 6) 0x3F vga_demo) 13 23 = 0x3F
     \<and> vga_get_pixel (vga_draw_line rat_floats 10 20 (line_end 10 1 6) (line_end 20 1 6) 0x3F vga_demo) 13 24 = 0"
proof -
  have s: "straight 1 1" "(0::nat) < 6" "in_range (uint (10::u32))" "in_range (uint (10::u32) + int 6 * 1)"
    "in_range (uint (20::u32))" "in_range (uint (20::u32) + int 6 * 1)"
    by (simp_all add: straight_def in_range_def)
  note l = vga_line_straight [OF rat_floats_exact vga_demo_ok s]
  have "on_line 10 20 1 1 6 13 23" "\<not> on_line 10 20 1 1 6 13 24"
    by (auto simp: on_line_def intro: exI [of _ 3])
  with l [of "0x3F" 13 23] l [of "0x3F" 13 24] show ?thesis
    by (simp add: on_screen_def vga_demo_def stored_color_def take_bit_eq_mod vga_get_pixel_def pixel_offset_def)
qed

text \<open>
  Remark. Drawn to the left or upwards, the line has no length: the number of steps is the
  negated smaller difference, which is 0, and only its first pixel is set.
\<close>

theorem vga_line_left_up:
  assumes "exact_floats F" and "(ux, uy) \<in> {(- 1, 0), (0, - 1)}"
    and "in_range (uint x)" "in_range (uint x + int n * ux)" "in_range (uint y)" "in_range (uint y + int n * uy)"
  shows "vga_draw_line F x y (line_end x ux n) (line_end y uy n) c s = vga_set_pixel x y c s"
proof -
  have steps: "(if int n * ux > int n * uy then (if int n * ux > 0 then int n * ux else - (int n * ux))
      else (if int n * uy > 0 then int n * uy else - (int n * uy))) = 0"
    using assms(2) by auto
  have e: "f_exact (uint x)" "f_exact (uint y)" using assms(3,5) by (simp_all add: in_range_def f_exact_def)
  have "f_trunc F (f_of_int F (uint x)) = uint x" "f_trunc F (f_of_int F (uint y)) = uint y"
    using exact_floatsD(6) [OF assms(1) e(1) e(1)] exact_floatsD(6) [OF assms(1) e(2) e(2)] by simp_all
  then show ?thesis
    unfolding vga_draw_line_def Let_def line_end_diff(1) [OF assms(3,4)] line_end_diff(1) [OF assms(5,6)] steps
    by simp
qed

theorem vga_line_left_up_witness:
  "vga_draw_line rat_floats 100 20 (line_end 100 (- 1) 60) (line_end 20 0 60) 0x3F vga_demo
     = vga_set_pixel 100 20 0x3F vga_demo"
  by (rule vga_line_left_up [OF rat_floats_exact]) (simp_all add: in_range_def)

section \<open>The framebuffer driver\<close>

lemma gop_line_loop:
  assumes "exact_floats F" and "straight ux uy" and "0 < n"
    and "in_range (uint x)" "in_range (uint x + int n * ux)" "in_range (uint y)" "in_range (uint y + int n * uy)"
  shows "gop_draw_line F x y (line_end x ux n) (line_end y uy n) c s
     = line_loop F (\<lambda>x y. gop_putpixel x y c) (f_of_int F ux) (f_of_int F uy) (Suc n)
         (f_of_int F (uint x)) (f_of_int F (uint y)) s"
proof -
  let ?m = "if int n * ux > int n * uy then int n * ux else int n * uy"
  let ?a = "if ?m < 0 then - ?m else ?m"
  have steps: "(if ?a = 0 then 1 else ?a) = int n"
    using assms(2,3) by (auto simp: straight_def)
  have "f_exact (int n)" by (rule line_steps_exact [OF assms(2,4-7)])
  note inc = unit_increment [OF assms(1) _ this assms(3)]
  have "f_exact (int n * ux)" "f_exact (int n * uy)"
    using unit_steps(3) straight_units [OF assms(2)] assms(4-7) by blast+
  then show ?thesis
    unfolding gop_draw_line_def Let_def line_end_diff(2) [OF assms(4,5)] line_end_diff(2) [OF assms(6,7)] steps
    by (simp add: inc nat_add_distrib del: line_loop.simps)
qed

text \<open>
  Remark. The framebuffer driver draws the same six directions exactly.
\<close>

theorem gop_line_straight:
  assumes "exact_floats F" and "gop_ok s" and "straight ux uy" and "0 < n"
    and "in_range (uint x)" "in_range (uint x + int n * ux)" "in_range (uint y)" "in_range (uint y + int n * uy)"
  shows "gop_shown (gop_draw_line F x y (line_end x ux n) (line_end y uy n) c s) px py =
     (if on_line x y ux uy n px py \<and> gop_visible s px py then c else gop_shown s px py)"
proof -
  from straight_units [OF assms(3)] have u: "ux \<in> {- 1, 0, 1}" "uy \<in> {- 1, 0, 1}" by simp_all
  obtain pts where "gop_draw_line F x y (line_end x ux n) (line_end y uy n) c s = paint gop_putpixel pts c s"
    "\<And>px py. (px, py) \<in> set pts \<longleftrightarrow> on_line x y ux uy n px py"
    using line_loop_line [OF assms(1) u assms(5-8), of gop_putpixel c s]
    unfolding gop_line_loop [OF assms(1,3-8)] by blast
  then show ?thesis using assms(2) by (simp add: gop_canvas.get_paint)
qed

text \<open>
  Remark. To the left or upwards it takes one step, of the whole length, so that only the two
  ends of the line are set.
\<close>

theorem gop_line_left_up:
  assumes "exact_floats F" and "(ux, uy) \<in> {(- 1, 0), (0, - 1)}" and "0 < n"
    and "in_range (uint x)" "in_range (uint x + int n * ux)" "in_range (uint y)" "in_range (uint y + int n * uy)"
  shows "gop_draw_line F x y (line_end x ux n) (line_end y uy n) c s
     = gop_putpixel (line_end x ux n) (line_end y uy n) c (gop_putpixel x y c s)"
proof -
  let ?m = "if int n * ux > int n * uy then int n * ux else int n * uy"
  let ?a = "if ?m < 0 then - ?m else ?m"
  have steps: "(if ?a = 0 then 1 else ?a) = 1" using assms(2,3) by auto
  have e: "f_exact (uint x)" "f_exact (uint y)" "f_exact 1" "f_exact (int n * ux)" "f_exact (int n * uy)"
    "f_exact (uint x + int n * ux)" "f_exact (uint y + int n * uy)"
    using assms(2,4-7) by (auto simp: in_range_def f_exact_def)
  note F = exact_floatsD [OF assms(1)]
  have t: "f_trunc F (f_of_int F (uint x)) = uint x" "f_trunc F (f_of_int F (uint y)) = uint y"
    "f_trunc F (f_of_int F (uint x + int n * ux)) = uint x + int n * ux"
    "f_trunc F (f_of_int F (uint y + int n * uy)) = uint y + int n * uy"
    using F(6) [OF e(1) e(1)] F(6) [OF e(2) e(2)] F(6) [OF e(6) e(6)] F(6) [OF e(7) e(7)] by simp_all
  show ?thesis
    unfolding gop_draw_line_def Let_def line_end_diff(2) [OF assms(4,5)] line_end_diff(2) [OF assms(6,7)] steps
    by (simp add: numeral_2_eq_2 e F(1,4) t line_end_def)
qed

theorem gop_line_straight_witness:
  "gop_shown (gop_draw_line rat_floats 50 100 (line_end 50 1 400) (line_end 100 0 400) 7
     (snd (gop_fb_init (mbi_gop 4096 32) gop_zero))) 450 100 = 7"
proof -
  have r: "fst (gop_fb_init (mbi_gop 4096 32) gop_zero) = 0"
    by (simp add: gop_fb_init_result mbi_gop_def mbi_demo_def multiboot_info.defs framebuffer_info.defs
        MULTIBOOT_FLAG_FRAMEBUFFER_def)
  note s = gop_fb_init_state [OF r]
  have ok: "gop_ok (snd (gop_fb_init (mbi_gop 4096 32) gop_zero))"
    using s by (simp add: gop_ok_def linear_ok_def mbi_gop_def multiboot_info.defs framebuffer_info.defs)
  have d: "straight 1 0" "(0::nat) < 400" "in_range (uint (50::u32))" "in_range (uint (50::u32) + int 400 * 1)"
    "in_range (uint (100::u32))" "in_range (uint (100::u32) + int 400 * 0)"
    by (simp_all add: straight_def in_range_def)
  have "on_line 50 100 1 0 400 450 100" by (auto simp: on_line_def intro: exI [of _ 400])
  with gop_line_straight [OF rat_floats_exact ok d, of 7 450 100] s show ?thesis
    by (simp add: gop_visible_def mbi_gop_def multiboot_info.defs framebuffer_info.defs)
qed

theorem gop_line_left_up_witness:
  "gop_draw_line rat_floats 100 20 (line_end 100 (- 1) 60) (line_end 20 0 60) 7 gop_zero
     = gop_putpixel (line_end 100 (- 1) 60) (line_end 20 0 60) 7 (gop_putpixel 100 20 7 gop_zero)"
  by (rule gop_line_left_up [OF rat_floats_exact]) (simp_all add: in_range_def)

end
