(* ===== verification/GpuDetect.thy ===== *)
theory GpuDetect
  imports Console
begin

text \<open>
  Finding the graphics card, \<^verbatim>\<open>drivers/gpu/gpu_detect.c\<close>: reads of the PCI
  configuration space through ports \<open>0xCF8\<close> and \<open>0xCFC\<close>, and the scan of every bus, slot and
  function for a VGA-compatible controller. What the hardware answers to a 32-bit port read or
  a read of a device register is a parameter, a function of the trace of accesses so far;
  \<open>pci_host\<close> states the documented behaviour of the host bridge.
\<close>

section \<open>32-bit port and register accesses\<close>

datatype hw_event = Outl u16 u32 | Inl u16 u32 | Mmio_write ptr u32 | Mmio_read ptr u32

type_synonym hw_trace = "hw_event list"

record hardware =
  on_inl :: "hw_trace \<Rightarrow> u16 \<Rightarrow> u32"
  on_mmio :: "hw_trace \<Rightarrow> ptr \<Rightarrow> u32"

definition outl :: "u16 \<Rightarrow> u32 \<Rightarrow> hw_trace \<Rightarrow> hw_trace" where
  "outl port val t = t @ [Outl port val]"

definition inl :: "hardware \<Rightarrow> u16 \<Rightarrow> hw_trace \<Rightarrow> u32 \<times> hw_trace" where
  "inl hw port t = (let ret = on_inl hw t port in (ret, t @ [Inl port ret]))"

abbreviation PCI_CONFIG_ADDRESS :: u16 where "PCI_CONFIG_ADDRESS \<equiv> 0xCF8"
abbreviation PCI_CONFIG_DATA :: u16 where "PCI_CONFIG_DATA \<equiv> 0xCFC"

definition pci_address :: "u8 \<Rightarrow> u8 \<Rightarrow> u8 \<Rightarrow> u8 \<Rightarrow> u32" where
  "pci_address bus slot func offset =
     push_bit 31 1 OR push_bit 16 (ucast bus) OR push_bit 11 (ucast slot) OR push_bit 8 (ucast func)
       OR (ucast offset AND 0xFC)"

definition pci_read_config :: "hardware \<Rightarrow> u8 \<Rightarrow> u8 \<Rightarrow> u8 \<Rightarrow> u8 \<Rightarrow> hw_trace \<Rightarrow> u32 \<times> hw_trace" where
  "pci_read_config hw bus slot func offset t =
     inl hw PCI_CONFIG_DATA (outl PCI_CONFIG_ADDRESS (pci_address bus slot func offset) t)"

section \<open>State\<close>

datatype gpu_type = GPU_TYPE_UNKNOWN | GPU_TYPE_INTEL | GPU_TYPE_AMD | GPU_TYPE_NVIDIA

definition GPU_VENDOR_INTEL :: u16 where "GPU_VENDOR_INTEL = 0x8086"
definition GPU_VENDOR_AMD :: u16 where "GPU_VENDOR_AMD = 0x1002"
definition GPU_VENDOR_NVIDIA :: u16 where "GPU_VENDOR_NVIDIA = 0x10DE"

record gpu_device =
  gpu_bus :: u8
  gpu_slot :: u8
  gpu_func :: u8
  vendor_id :: u16
  device_id :: u16
  bar0 :: u32
  bar1 :: u32
  bar2 :: u32
  gpu_kind :: gpu_type
  vendor_name :: string
  device_name :: string
  detected :: bool

record gpu_state =
  detected_gpu :: gpu_device
  gpu_trace :: hw_trace
  gpu_con :: monitor

section \<open>Operations\<close>

definition get_intel_name :: "u16 \<Rightarrow> string" where
  "get_intel_name d =
     (if d \<ge> 0x0100 \<and> d \<le> 0x01FF then ''Intel HD Graphics (Gen7)''
      else if d \<ge> 0x0400 \<and> d \<le> 0x04FF then ''Intel HD Graphics (Gen8)''
      else if d \<ge> 0x1600 \<and> d \<le> 0x16FF then ''Intel HD Graphics (Gen9)''
      else if d \<ge> 0x5900 \<and> d \<le> 0x59FF then ''Intel UHD Graphics (Gen10)''
      else if d \<ge> 0x9B00 \<and> d \<le> 0x9BFF then ''Intel UHD Graphics (Gen11)''
      else ''Intel Graphics Controller'')"

definition identify :: "gpu_device \<Rightarrow> gpu_device" where
  "identify g =
     (if vendor_id g = GPU_VENDOR_INTEL
      then g\<lparr>gpu_kind := GPU_TYPE_INTEL, vendor_name := ''Intel'', device_name := get_intel_name (device_id g)\<rparr>
      else if vendor_id g = GPU_VENDOR_AMD
      then g\<lparr>gpu_kind := GPU_TYPE_AMD, vendor_name := ''AMD'', device_name := ''AMD Radeon Graphics''\<rparr>
      else if vendor_id g = GPU_VENDOR_NVIDIA
      then g\<lparr>gpu_kind := GPU_TYPE_NVIDIA, vendor_name := ''NVIDIA'', device_name := ''NVIDIA GeForce''\<rparr>
      else g\<lparr>gpu_kind := GPU_TYPE_UNKNOWN, vendor_name := ''Unknown'', device_name := ''Unknown GPU''\<rparr>)"

text \<open>The body of the three loops: \<open>Some\<close> when the function probed is the graphics card.\<close>

definition probe ::
  "hardware \<Rightarrow> u8 \<Rightarrow> u8 \<Rightarrow> u8 \<Rightarrow> gpu_device \<Rightarrow> hw_trace \<Rightarrow> gpu_device option \<times> hw_trace" where
  "probe hw bus slot func g t =
     (let (config, t) = pci_read_config hw bus slot func 0 t;
          vendor = ucast (config AND 0xFFFF); device = ucast (drop_bit 16 config AND 0xFFFF)
      in if vendor = 0xFFFF then (None, t)
         else let (class_reg, t) = pci_read_config hw bus slot func 0x08 t;
                  base_class = (ucast (drop_bit 24 class_reg AND 0xFF) :: u8);
                  sub_class = (ucast (drop_bit 16 class_reg AND 0xFF) :: u8)
           in if base_class = 0x03 \<and> sub_class = 0x00
              then let (b0, t) = pci_read_config hw bus slot func 0x10 t;
                       (b1, t) = pci_read_config hw bus slot func 0x14 t;
                       (b2, t) = pci_read_config hw bus slot func 0x18 t
                   in (Some (identify (g\<lparr>vendor_id := vendor, device_id := device, gpu_bus := bus,
                               gpu_slot := slot, gpu_func := func, bar0 := b0, bar1 := b1, bar2 := b2\<rparr>)
                              \<lparr>detected := True\<rparr>), t)
              else (None, t))"

definition pci_functions :: "(nat \<times> nat \<times> nat) list" where
  "pci_functions = concat (List.map (\<lambda>bus. concat (List.map (\<lambda>slot.
     List.map (\<lambda>func. (bus, slot, func)) [0..<8]) [0..<32])) [0..<256])"

fun gpu_scan :: "hardware \<Rightarrow> (nat \<times> nat \<times> nat) list \<Rightarrow> gpu_device \<Rightarrow> hw_trace \<Rightarrow> gpu_device option \<times> hw_trace" where
  "gpu_scan hw [] g t = (None, t)"
| "gpu_scan hw ((bus, slot, func) # fs) g t =
     (case probe hw (of_nat bus) (of_nat slot) (of_nat func) g t of
        (Some g', t) \<Rightarrow> (Some g', t)
      | (None, t) \<Rightarrow> gpu_scan hw fs g t)"

definition gpu_detect_init :: "hardware \<Rightarrow> gpu_state \<Rightarrow> int \<times> gpu_state" where
  "gpu_detect_init hw s =
     (let s = s\<lparr>gpu_con := print_all [Str ''  Scanning PCI for GPU...'', NL] (gpu_con s),
               detected_gpu := (detected_gpu s)\<lparr>detected := False\<rparr>\<rparr>
      in (case gpu_scan hw pci_functions (detected_gpu s) (gpu_trace s) of
            (Some g, t) \<Rightarrow> (0, s\<lparr>detected_gpu := g, gpu_trace := t\<rparr>)
          | (None, t) \<Rightarrow> (- 1, s\<lparr>gpu_trace := t,
                gpu_con := print_all [Str ''  No GPU detected'', NL] (gpu_con s)\<rparr>)))"

definition gpu_get_detected :: "gpu_state \<Rightarrow> gpu_device option" where
  "gpu_get_detected s = (if detected (detected_gpu s) then Some (detected_gpu s) else None)"

definition gpu_is_detected :: "gpu_state \<Rightarrow> bool" where
  "gpu_is_detected s = detected (detected_gpu s)"

definition gpu_print_info :: "gpu_state \<Rightarrow> gpu_state" where
  "gpu_print_info s =
     (let g = detected_gpu s in
      s\<lparr>gpu_con := print_all
         (if \<not> detected g then [Str ''  No GPU detected'', NL]
          else [Str ''  GPU: '', Str (vendor_name g), Str '' '', Str (device_name g), NL,
                Str ''  Vendor ID: 0x'', Hex (ucast (vendor_id g)), NL,
                Str ''  Device ID: 0x'', Hex (ucast (device_id g)), NL,
                Str ''  Location: Bus '', Dec (ucast (gpu_bus g)), Str '', Slot '', Dec (ucast (gpu_slot g)),
                Str '', Func '', Dec (ucast (gpu_func g)), NL,
                Str ''  BAR0: 0x'', Hex (bar0 g), NL]) (gpu_con s)\<rparr>)"

section \<open>The configuration space\<close>

text \<open>
  The PCI host bridge: a read of the data port returns the configuration word whose address
  was written last.
\<close>

definition pci_host :: "hardware \<Rightarrow> (u32 \<Rightarrow> u32) \<Rightarrow> bool" where
  "pci_host hw cfg \<longleftrightarrow> (\<forall>t a. on_inl hw (t @ [Outl PCI_CONFIG_ADDRESS a]) PCI_CONFIG_DATA = cfg a)"

lemma pci_read_host:
  "pci_host hw cfg \<Longrightarrow> fst (pci_read_config hw bus slot func offset t) = cfg (pci_address bus slot func offset)"
  by (simp add: pci_host_def pci_read_config_def inl_def outl_def Let_def)

definition cfg_vendor :: "u32 \<Rightarrow> u16" where "cfg_vendor w = ucast (w AND 0xFFFF)"
definition cfg_device :: "u32 \<Rightarrow> u16" where "cfg_device w = ucast (drop_bit 16 w AND 0xFFFF)"

text \<open>A function is a VGA-compatible controller: present, class 3, subclass 0.\<close>

definition vga_class :: "u32 \<Rightarrow> bool" where
  "vga_class w \<longleftrightarrow> (ucast (drop_bit 24 w AND 0xFF) :: u8) = 0x03 \<and> (ucast (drop_bit 16 w AND 0xFF) :: u8) = 0x00"

definition is_vga :: "(u32 \<Rightarrow> u32) \<Rightarrow> nat \<times> nat \<times> nat \<Rightarrow> bool" where
  "is_vga cfg = (\<lambda>(bus, slot, func).
     cfg_vendor (cfg (pci_address (of_nat bus) (of_nat slot) (of_nat func) 0)) \<noteq> 0xFFFF
     \<and> vga_class (cfg (pci_address (of_nat bus) (of_nat slot) (of_nat func) 0x08)))"

definition found_gpu :: "(u32 \<Rightarrow> u32) \<Rightarrow> nat \<times> nat \<times> nat \<Rightarrow> gpu_device \<Rightarrow> gpu_device" where
  "found_gpu cfg = (\<lambda>(bus, slot, func) g.
     (let reg = (\<lambda>offset. cfg (pci_address (of_nat bus) (of_nat slot) (of_nat func) offset))
      in identify (g\<lparr>vendor_id := cfg_vendor (reg 0), device_id := cfg_device (reg 0),
           gpu_bus := of_nat bus, gpu_slot := of_nat slot, gpu_func := of_nat func,
           bar0 := reg 0x10, bar1 := reg 0x14, bar2 := reg 0x18\<rparr>)\<lparr>detected := True\<rparr>))"

lemma probe_host:
  assumes "pci_host hw cfg"
  shows "fst (probe hw (of_nat bus) (of_nat slot) (of_nat func) g t) =
     (if is_vga cfg (bus, slot, func) then Some (found_gpu cfg (bus, slot, func) g) else None)"
  using pci_read_host [OF assms]
  by (simp add: probe_def is_vga_def found_gpu_def cfg_vendor_def cfg_device_def vga_class_def Let_def
      split: prod.split) (metis fst_conv)

lemma gpu_scan_host:
  assumes "pci_host hw cfg"
  shows "fst (gpu_scan hw fs g t) = map_option (\<lambda>f. found_gpu cfg f g) (find (is_vga cfg) fs)"
proof (induction fs arbitrary: t)
  case (Cons f fs)
  obtain bus slot func where f: "f = (bus, slot, func)" by (cases f)
  obtain r u where p: "probe hw (of_nat bus) (of_nat slot) (of_nat func) g t = (r, u)" by fastforce
  from probe_host [OF assms, of bus slot func g t] p
  have "r = (if is_vga cfg f then Some (found_gpu cfg f g) else None)" by (simp add: f)
  with Cons p show ?case by (simp add: f split: option.split)
qed simp

text \<open>Different functions of the machine have different configuration addresses.\<close>

lemma pci_functions_mem: "(bus, slot, func) \<in> set pci_functions \<longleftrightarrow> bus < 256 \<and> slot < 32 \<and> func < 8"
  unfolding pci_functions_def by (fastforce simp del: upt_rec_numeral)

lemma small_word_bits: "w < 2 ^ k \<Longrightarrow> bit (w :: u8) n \<Longrightarrow> n < k"
proof -
  assume w: "w < 2 ^ k" and b: "bit w n"
  from w have "take_bit k w = w" unfolding take_bit_eq_mask by (rule less_mask_eq)
  then have "bit (take_bit k w) n = bit w n" by (rule arg_cong)
  with b show "n < k" by (simp add: bit_take_bit_iff)
qed

lemma pci_address_fields:
  assumes "slot < 32" and "func < 8"
  shows "ucast (drop_bit 16 (pci_address bus slot func offset)) = bus"
    and "(ucast (drop_bit 11 (pci_address bus slot func offset)) :: u8) AND 31 = slot"
    and "(ucast (drop_bit 8 (pci_address bus slot func offset)) :: u8) AND 7 = func"
proof -
  have s: "bit slot n \<Longrightarrow> n < 5" and f: "bit func n \<Longrightarrow> n < 3" for n
    using small_word_bits [of slot 5 n] small_word_bits [of func 3 n] assms by simp_all
  have l: "bit (w :: u8) n \<Longrightarrow> n < 8" for w n using bit_imp_le_length [of w n] by simp
  have h: "bit (32768 :: int) n \<longleftrightarrow> n = 15" "bit (1048576 :: int) n \<longleftrightarrow> n = 20"
      "bit (8388608 :: int) n \<longleftrightarrow> n = 23" for n
    using bit_exp_iff [of 15 n, where 'a = int] bit_exp_iff [of 20 n, where 'a = int]
      bit_exp_iff [of 23 n, where 'a = int] by simp_all
  have m: "(0xFC :: u32) = push_bit 2 (mask 6)" "(31 :: u8) = mask 5" "(7 :: u8) = mask 3"
    by (simp_all add: mask_eq_exp_minus_1)
  show "ucast (drop_bit 16 (pci_address bus slot func offset)) = bus"
    unfolding pci_address_def m by (rule bit_word_eqI) (auto simp: bit_simps h dest: s f l)
  show "(ucast (drop_bit 11 (pci_address bus slot func offset)) :: u8) AND 31 = slot"
    unfolding pci_address_def m by (rule bit_word_eqI) (auto simp: bit_simps h dest: s f l)
  show "(ucast (drop_bit 8 (pci_address bus slot func offset)) :: u8) AND 7 = func"
    unfolding pci_address_def m by (rule bit_word_eqI) (auto simp: bit_simps h dest: s f l)
qed

section \<open>Properties\<close>

text \<open>The scan visits the functions in the lexicographic order of bus, slot and function, all of them.\<close>

definition pci_before :: "nat \<times> nat \<times> nat \<Rightarrow> nat \<times> nat \<times> nat \<Rightarrow> bool" where
  "pci_before = (\<lambda>(b, s, f) (b', s', f'). b < b' \<or> b = b' \<and> (s < s' \<or> s = s' \<and> f < f'))"

lemma sorted_wrt_concat_map:
  assumes "\<And>x. x \<in> set xs \<Longrightarrow> sorted_wrt R (h x)"
    and "sorted_wrt (\<lambda>x y. \<forall>a\<in>set (h x). \<forall>b\<in>set (h y). R a b) xs"
  shows "sorted_wrt R (concat (List.map h xs))"
  using assms by (induction xs) (auto simp: sorted_wrt_append)

lemma pci_functions_sorted: "sorted_wrt pci_before pci_functions"
proof -
  have u: "sorted_wrt Q [0..<n]" if "\<And>i j. i < j \<Longrightarrow> Q i j" for Q and n :: nat
    using sorted_wrt_upt [of 0 n] by (rule sorted_wrt_mono_rel [rotated]) (rule that)
  have f: "sorted_wrt pci_before (List.map (\<lambda>func. (bus, slot, func)) [0..<8])" for bus slot
    unfolding sorted_wrt_map by (rule u) (simp add: pci_before_def)
  have s: "sorted_wrt pci_before (concat (List.map (\<lambda>slot. List.map (\<lambda>func. (bus, slot, func)) [0..<8]) [0..<32]))"
    for bus
    by (rule sorted_wrt_concat_map [OF f u]) (auto simp: pci_before_def)
  show ?thesis
    unfolding pci_functions_def by (rule sorted_wrt_concat_map [OF s u]) (auto simp: pci_before_def)
qed

lemma find_first:
  assumes "sorted_wrt R xs" "find P xs = Some x"
  shows "x \<in> set xs \<and> P x \<and> (\<forall>y\<in>set xs. P y \<longrightarrow> y = x \<or> R x y)"
  using assms by (induction xs) (auto split: if_splits)

text \<open>There is a VGA-compatible controller at this place.\<close>

definition vga_at :: "(u32 \<Rightarrow> u32) \<Rightarrow> nat \<Rightarrow> nat \<Rightarrow> nat \<Rightarrow> bool" where
  "vga_at cfg bus slot func \<longleftrightarrow> bus < 256 \<and> slot < 32 \<and> func < 8 \<and> is_vga cfg (bus, slot, func)"

text \<open>
  Property C26. On a machine whose host bridge answers from the configuration space \<open>cfg\<close>: when some
  function 0 to 7 of some slot 0 to 31 of some bus 0 to 255 is a VGA-compatible controller, the scan
  succeeds and reports the first of them by bus, then slot, then function, with its identifiers,
  location and address registers as the space has them and the vendor recognised; when there is
  none it fails and nothing is reported as detected. Distinct functions are probed at distinct
  addresses: bus, slot and function can be read back.
\<close>

theorem gpu_detect_correct:
  assumes "pci_host hw cfg"
  shows "let result = fst (gpu_detect_init hw st); found = gpu_get_detected (snd (gpu_detect_init hw st)) in
     ((\<exists>b s f. vga_at cfg b s f) \<longrightarrow>
        (\<exists>b s f. vga_at cfg b s f
          \<and> (\<forall>b' s' f'. vga_at cfg b' s' f' \<longrightarrow> b < b' \<or> b = b' \<and> (s < s' \<or> s = s' \<and> f \<le> f'))
          \<and> result = 0
          \<and> found = Some (found_gpu cfg (b, s, f) ((detected_gpu st)\<lparr>detected := False\<rparr>))))
     \<and> ((\<nexists>b s f. vga_at cfg b s f) \<longrightarrow> result = - 1 \<and> found = None)
     \<and> (slot < 32 \<longrightarrow> func < 8 \<longrightarrow>
          ucast (drop_bit 16 (pci_address bus slot func offset)) = bus
          \<and> (ucast (drop_bit 11 (pci_address bus slot func offset)) :: u8) AND 31 = slot
          \<and> (ucast (drop_bit 8 (pci_address bus slot func offset)) :: u8) AND 7 = func)"
proof -
  let ?r = "fst (gpu_detect_init hw st)" and ?f = "gpu_get_detected (snd (gpu_detect_init hw st))"
  let ?g = "(detected_gpu st)\<lparr>detected := False\<rparr>"
  obtain r t where r: "gpu_scan hw pci_functions ?g (gpu_trace st) = (r, t)" by fastforce
  from gpu_scan_host [OF assms, of pci_functions ?g "gpu_trace st"] r
  have "r = map_option (\<lambda>f. found_gpu cfg f ?g) (find (is_vga cfg) pci_functions)" by simp
  moreover have "detected (found_gpu cfg f ?g)" for f by (simp add: found_gpu_def Let_def split: prod.split)
  ultimately have d: "case find (is_vga cfg) pci_functions of
       None \<Rightarrow> ?r = - 1 \<and> ?f = None
     | Some f \<Rightarrow> ?r = 0 \<and> ?f = Some (found_gpu cfg f ?g)"
    using r by (simp add: gpu_detect_init_def gpu_get_detected_def Let_def split: option.split)
  have c: "vga_at cfg b s f \<longleftrightarrow> (b, s, f) \<in> set pci_functions \<and> is_vga cfg (b, s, f)" for b s f
    by (auto simp: vga_at_def pci_functions_mem)
  show ?thesis
  proof (cases "find (is_vga cfg) pci_functions")
    case None
    then have "\<nexists>b s f. vga_at cfg b s f" by (auto simp: c find_None_iff)
    with d None show ?thesis unfolding Let_def using pci_address_fields [of slot func bus offset] by auto
  next
    case (Some x)
    obtain b s f where x: "x = (b, s, f)" by (cases x)
    from find_first [OF pci_functions_sorted Some] x have "vga_at cfg b s f"
      and "\<forall>b' s' f'. vga_at cfg b' s' f' \<longrightarrow> b < b' \<or> b = b' \<and> (s < s' \<or> s = s' \<and> f \<le> f')"
      by (auto simp: c pci_before_def)
    with d Some x show ?thesis unfolding Let_def using pci_address_fields [of slot func bus offset] by auto
  qed
qed

text \<open>A machine with an Intel graphics card at bus 0, slot 0, function 1.\<close>

definition pci_machine :: "(u32 \<Rightarrow> u32) \<Rightarrow> hardware" where
  "pci_machine cfg = \<lparr>on_inl = (\<lambda>t p. if t = [] then 0xFFFFFFFF
       else (case last t of Outl q a \<Rightarrow> cfg a | _ \<Rightarrow> 0xFFFFFFFF)), on_mmio = (\<lambda>_ _. 0)\<rparr>"

definition cfg_demo :: "u32 \<Rightarrow> u32" where
  "cfg_demo = (\<lambda>_. 0xFFFFFFFF)(0x80000100 := 0x04128086, 0x80000108 := 0x03000006,
     0x80000110 := 0xF0000004, 0x80000114 := 0, 0x80000118 := 0xE0000008)"

definition gpu_none :: gpu_device where
  "gpu_none = \<lparr>gpu_bus = 0, gpu_slot = 0, gpu_func = 0, vendor_id = 0, device_id = 0, bar0 = 0, bar1 = 0,
     bar2 = 0, gpu_kind = GPU_TYPE_UNKNOWN, vendor_name = [], device_name = [], detected = False\<rparr>"

lemma pci_machine_host: "pci_host (pci_machine cfg) cfg"
  by (simp add: pci_host_def pci_machine_def)

lemma pci_functions_first: "\<exists>fs. pci_functions = (0, 0, 0) # (0, 0, 1) # fs"
proof -
  have u: "[0..<256] = 0 # [1..<256 :: nat]" "[0..<32] = 0 # [1..<32 :: nat]"
    "[0..<8] = 0 # 1 # [2..<8 :: nat]"
    using upt_conv_Cons [of 0 256] upt_conv_Cons [of 0 32] upt_conv_Cons [of 0 8] upt_conv_Cons [of 1 8]
    by (simp_all del: upt_rec_numeral upt_conv_Cons add: numeral_2_eq_2)
  show ?thesis
    unfolding pci_functions_def by (subst u(1)) (subst u(2), subst u(3), simp del: upt_rec_numeral)
qed

theorem gpu_detect_correct_witness:
  "(let g = snd (gpu_detect_init (pci_machine cfg_demo) \<lparr>detected_gpu = gpu_none, gpu_trace = [], gpu_con = monitor_demo\<rparr>)
    in map_option vendor_name (gpu_get_detected g) = Some ''Intel''
       \<and> map_option bar2 (gpu_get_detected g) = Some 0xE0000008)"
proof -
  let ?s = "\<lparr>detected_gpu = gpu_none, gpu_trace = [], gpu_con = monitor_demo\<rparr>"
  have c: "is_vga cfg_demo (0, 0, 1)" and n: "\<not> is_vga cfg_demo (0, 0, 0)"
    by (simp_all add: is_vga_def cfg_vendor_def vga_class_def cfg_demo_def pci_address_def drop_bit_eq_div)
  from c have c: "vga_at cfg_demo 0 0 1" by (simp add: vga_at_def)
  from gpu_detect_correct [OF pci_machine_host, of cfg_demo ?s 0 0 0 0] c obtain b s f where
    g: "vga_at cfg_demo b s f"
      "\<forall>b' s' f'. vga_at cfg_demo b' s' f' \<longrightarrow>
         b < b' \<or> b = b' \<and> (s < s' \<or> s = s' \<and> f \<le> f')"
      "gpu_get_detected (snd (gpu_detect_init (pci_machine cfg_demo) ?s))
        = Some (found_gpu cfg_demo (b, s, f) (gpu_none\<lparr>detected := False\<rparr>))"
    by (auto simp: Let_def)
  from g(2) [rule_format, of 0 0 1] c have "b = 0" "s = 0" "f \<le> 1" by auto
  moreover have "f \<noteq> 0" using g(1) n calculation by (cases f) (auto simp: vga_at_def)
  ultimately have "(b, s, f) = (0, 0, 1)" by simp
  note r = g(3) [unfolded this]
  show ?thesis
    unfolding Let_def r
    by (simp add: found_gpu_def identify_def cfg_vendor_def cfg_device_def cfg_demo_def pci_address_def
        GPU_VENDOR_INTEL_def gpu_none_def Let_def)
qed

end
