(* ===== verification/I915.thy ===== *)
theory I915
  imports GpuDetect Canvas
begin

text \<open>
  The native driver for Intel HD 4600 graphics, \<^verbatim>\<open>drivers/gpu/intel/i915_hd4600.c\<close>:
  device registers reached through \<open>mmio_base\<close>, power-up, mode detection from the pipe the
  firmware left running, plane and pipe set-up, and drawing into the framebuffer at \<open>fb_virt\<close>.
  Register accesses are events of a trace the hardware answers; busy delays leave no trace.
\<close>

section \<open>State\<close>

record i915_device =
  i_bus :: u8
  i_slot :: u8
  i_func :: u8
  i_device_id :: u16
  mmio_base :: u32
  gtt_base :: u32
  mmio_size :: u32
  gtt_size :: u32
  fb_phys :: u32
  fb_virt :: u32
  fb_size :: u32
  i_width :: u32
  i_height :: u32
  i_pitch :: u32
  i_bpp :: u8
  i_initialized :: bool

record i915 =
  dev :: i915_device
  i_trace :: hw_trace
  i_mem :: "ptr \<Rightarrow> u32"
  i_con :: monitor

abbreviation PIPEA_CONF :: u32 where "PIPEA_CONF \<equiv> 0x70008"
abbreviation PIPEA_SRC :: u32 where "PIPEA_SRC \<equiv> 0x6001C"
abbreviation DSPACNTR :: u32 where "DSPACNTR \<equiv> 0x70180"
abbreviation DSPASURF :: u32 where "DSPASURF \<equiv> 0x7019C"
abbreviation DSPASTRIDE :: u32 where "DSPASTRIDE \<equiv> 0x70188"
abbreviation PIPEACONF_ENABLE :: u32 where "PIPEACONF_ENABLE \<equiv> 0x80000000"
abbreviation PLANE_CTL_ENABLE :: u32 where "PLANE_CTL_ENABLE \<equiv> 0x80000000"
abbreviation PLANE_CTL_FORMAT_XRGB8888 :: u32 where "PLANE_CTL_FORMAT_XRGB8888 \<equiv> 0x04000000"
abbreviation PWR_WELL_CTL :: u32 where "PWR_WELL_CTL \<equiv> 0x45400"
abbreviation PWR_WELL_STATE :: u32 where "PWR_WELL_STATE \<equiv> 0x45404"
abbreviation HSW_PWR_WELL_ENABLE :: u32 where "HSW_PWR_WELL_ENABLE \<equiv> 0x80000000"

definition i915_say :: "out list \<Rightarrow> i915 \<Rightarrow> i915" where
  "i915_say os s = s\<lparr>i_con := print_all os (i_con s)\<rparr>"

definition set_dev :: "(i915_device \<Rightarrow> i915_device) \<Rightarrow> i915 \<Rightarrow> i915" where
  "set_dev f s = s\<lparr>dev := f (dev s)\<rparr>"

section \<open>Hardware access\<close>

definition pci_config_read :: "hardware \<Rightarrow> u8 \<Rightarrow> u8 \<Rightarrow> u8 \<Rightarrow> u8 \<Rightarrow> i915 \<Rightarrow> u32 \<times> i915" where
  "pci_config_read hw bus slot func offset s =
     (let (v, t) = pci_read_config hw bus slot func offset (i_trace s) in (v, s\<lparr>i_trace := t\<rparr>))"

definition pci_config_write :: "u8 \<Rightarrow> u8 \<Rightarrow> u8 \<Rightarrow> u8 \<Rightarrow> u32 \<Rightarrow> i915 \<Rightarrow> i915" where
  "pci_config_write bus slot func offset value s =
     s\<lparr>i_trace := outl 0xCFC value (outl 0xCF8 (pci_address bus slot func offset) (i_trace s))\<rparr>"

definition mmio_read32 :: "hardware \<Rightarrow> u32 \<Rightarrow> i915 \<Rightarrow> u32 \<times> i915" where
  "mmio_read32 hw reg s =
     (let a = mmio_base (dev s) + reg; v = on_mmio hw (i_trace s) a
      in (v, s\<lparr>i_trace := i_trace s @ [Mmio_read a v]\<rparr>))"

definition mmio_write32 :: "u32 \<Rightarrow> u32 \<Rightarrow> i915 \<Rightarrow> i915" where
  "mmio_write32 reg value s = s\<lparr>i_trace := i_trace s @ [Mmio_write (mmio_base (dev s) + reg) value]\<rparr>"

fun wait_loop :: "hardware \<Rightarrow> u32 \<Rightarrow> u32 \<Rightarrow> u32 \<Rightarrow> nat \<Rightarrow> i915 \<Rightarrow> int \<times> i915" where
  "wait_loop hw reg bits value 0 s = (- 1, s)"
| "wait_loop hw reg bits value (Suc n) s =
     (let (v, s) = mmio_read32 hw reg s in
      if v AND bits = value then (0, s) else wait_loop hw reg bits value n s)"

definition wait_for :: "hardware \<Rightarrow> u32 \<Rightarrow> u32 \<Rightarrow> u32 \<Rightarrow> nat \<Rightarrow> i915 \<Rightarrow> int \<times> i915" where
  "wait_for hw reg bits value timeout_ms s = wait_loop hw reg bits value (timeout_ms * 1000) s"

section \<open>Initialisation\<close>

definition i915_hd4600_detect :: "gpu_device \<Rightarrow> int" where
  "i915_hd4600_detect gpu =
     (if vendor_id gpu \<noteq> GPU_VENDOR_INTEL then 0
      else if device_id gpu \<in> {0x0412, 0x0416, 0x041E, 0x0A16, 0x0A1E} then 1 else 0)"

definition enable_pci_resources :: "hardware \<Rightarrow> i915 \<Rightarrow> i915" where
  "enable_pci_resources hw s =
     (let d = dev s; (cmd, s) = pci_config_read hw (i_bus d) (i_slot d) (i_func d) 0x04 s
      in pci_config_write (i_bus d) (i_slot d) (i_func d) 0x04 (cmd OR 0x07) s)"

definition init_power :: "hardware \<Rightarrow> i915 \<Rightarrow> int \<times> i915" where
  "init_power hw s =
     (let s = i915_say [Str ''    Enabling display power...'', NL] s;
          (val, s) = mmio_read32 hw PWR_WELL_CTL s;
          s = mmio_write32 PWR_WELL_CTL (val OR HSW_PWR_WELL_ENABLE) s;
          (r, s) = wait_for hw PWR_WELL_STATE 0x40000000 0x40000000 200 s
      in if r \<noteq> 0 then (- 1, i915_say [Str ''    [WARN] Power well timeout'', NL] s)
         else (0, i915_say [Str ''    Power well active'', NL] s))"

definition alloc_framebuffer :: "u32 \<Rightarrow> u32 \<Rightarrow> u8 \<Rightarrow> i915 \<Rightarrow> i915" where
  "alloc_framebuffer w h bpp s =
     (let pitch = (w * ucast (bpp div 8) + 63) AND NOT 63;
          s = set_dev (\<lambda>d. d\<lparr>i_width := w, i_height := h, i_bpp := bpp, i_pitch := pitch,
                fb_size := pitch * h, fb_phys := gtt_base d, fb_virt := gtt_base d\<rparr>) s;
          s = i915_say [Str ''    Framebuffer: '', Dec w, Str ''x'', Dec h, Str ''x'', Dec (ucast bpp),
                Str '' @ 0x'', Hex (fb_phys (dev s)), NL] s
      in i915_say [Str ''    Size: '', Dec (fb_size (dev s) div 1024), Str '' KB, Pitch: '',
           Dec (i_pitch (dev s)), Str '' bytes'', NL] s)"

definition setup_plane :: "i915 \<Rightarrow> i915" where
  "setup_plane s =
     (let s = mmio_write32 DSPASURF 0 (mmio_write32 DSPACNTR 0 s);
          s = mmio_write32 DSPASTRIDE (i_pitch (dev s)) s;
          s = mmio_write32 DSPACNTR (PLANE_CTL_ENABLE OR PLANE_CTL_FORMAT_XRGB8888) s;
          s = mmio_write32 DSPASURF (fb_phys (dev s)) s
      in i915_say [Str ''    Display plane configured'', NL] s)"

definition setup_pipe :: "hardware \<Rightarrow> i915 \<Rightarrow> int \<times> i915" where
  "setup_pipe hw s =
     (let s = i915_say [Str ''    Configuring display pipe...'', NL] s;
          (pipe_conf, s) = mmio_read32 hw PIPEA_CONF s
      in if pipe_conf AND PIPEACONF_ENABLE \<noteq> 0
         then let s = i915_say [Str ''    Pipe already enabled, keeping configuration'', NL] s;
                  src = push_bit 16 (i_width (dev s) - 1) OR (i_height (dev s) - 1)
              in (0, mmio_write32 PIPEA_SRC src s)
         else (- 1, i915_say [Str ''    [WARN] Pipe disabled - full modesetting needed'', NL,
                Str ''    Boot with VESA mode or let BIOS initialize display'', NL] s))"

text \<open>The mode the firmware left in the pipe's registers, or the default.\<close>

definition detect_mode :: "hardware \<Rightarrow> u32 \<Rightarrow> i915 \<Rightarrow> i915" where
  "detect_mode hw pipe_conf s =
     (if pipe_conf AND PIPEACONF_ENABLE \<noteq> 0
      then let (src, s) = mmio_read32 hw PIPEA_SRC s;
               w = (src AND 0xFFFF) + 1; h = (drop_bit 16 src AND 0xFFFF) + 1;
               s = i915_say [Str ''    Detected mode: '', Dec w, Str ''x'', Dec h, NL] s
           in alloc_framebuffer w h 32 s
      else alloc_framebuffer 1024 768 32 (i915_say [Str ''    Using default: 1024x768x32'', NL] s))"

definition store_pci_info :: "gpu_device \<Rightarrow> i915 \<Rightarrow> i915" where
  "store_pci_info gpu = set_dev (\<lambda>d. d\<lparr>i_bus := gpu_bus gpu, i_slot := gpu_slot gpu, i_func := gpu_func gpu,
     i_device_id := device_id gpu, mmio_base := bar0 gpu AND 0xFFFFFFF0, gtt_base := bar2 gpu AND 0xFFFFFFF0\<rparr>)"

text \<open>The three parts of \<open>i915_hd4600_init\<close>: up to the power wells, after them, and together.\<close>

definition map_resources :: "hardware \<Rightarrow> i915 \<Rightarrow> i915" where
  "map_resources hw s =
     (let s = set_dev (\<lambda>d. d\<lparr>mmio_size := 4 * 1024 * 1024, gtt_size := 256 * 1024 * 1024\<rparr>) s;
          s = i915_say [Str ''    MMIO: 0x'', Hex (mmio_base (dev s)), Str '' ('',
                Dec (mmio_size (dev s) div (1024 * 1024)), Str '' MB)'', NL] s;
          s = i915_say [Str ''    GTT:  0x'', Hex (gtt_base (dev s)), Str '' ('',
                Dec (gtt_size (dev s) div (1024 * 1024)), Str '' MB)'', NL] s
      in enable_pci_resources hw s)"

definition bring_up :: "hardware \<Rightarrow> i915 \<Rightarrow> i915" where
  "bring_up hw s =
     (let (pipe_conf, s) = mmio_read32 hw PIPEA_CONF s;
          (plane_ctl, s) = mmio_read32 hw DSPACNTR s;
          s = i915_say [Str ''    Current state: Pipe '',
                if pipe_conf AND PIPEACONF_ENABLE \<noteq> 0 then Str ''ON'' else Str ''OFF'',
                Str '', Plane '',
                if plane_ctl AND PLANE_CTL_ENABLE \<noteq> 0 then Str ''ON'' else Str ''OFF'', NL] s;
          s = detect_mode hw pipe_conf s;
          s = setup_plane s;
          s = snd (setup_pipe hw s);
          s = set_dev (\<lambda>d. d\<lparr>i_initialized := True\<rparr>) s
      in i915_say [Str ''  ==========================='', NL, Str ''  [OK] Driver initialized'', NL, NL] s)"

definition i915_hd4600_init :: "hardware \<Rightarrow> gpu_device \<Rightarrow> i915 \<Rightarrow> int \<times> i915" where
  "i915_hd4600_init hw gpu s =
     (let s = i915_say [NL, Str ''  Intel HD 4600 Native Driver'', NL, Str ''  ==========================='', NL] s;
          s = store_pci_info gpu s
      in if mmio_base (dev s) = 0 \<or> gtt_base (dev s) = 0
         then (- 1, i915_say [Str ''    [ERROR] Invalid BAR addresses'', NL] s)
         else let (r, s) = init_power hw (map_resources hw s)
              in if r \<noteq> 0 then (- 1, i915_say [Str ''    [ERROR] Power initialization failed'', NL] s)
                 else (0, bring_up hw s))"

definition i915_hd4600_cleanup :: "i915 \<Rightarrow> i915" where
  "i915_hd4600_cleanup s =
     (if \<not> i_initialized (dev s) then s
      else set_dev (\<lambda>d. d\<lparr>i_initialized := False\<rparr>) (mmio_write32 DSPASURF 0 (mmio_write32 DSPACNTR 0 s)))"

section \<open>Drawing\<close>

definition i915_clear_screen :: "u32 \<Rightarrow> i915 \<Rightarrow> i915" where
  "i915_clear_screen color s =
     (if \<not> i_initialized (dev s) then s
      else let pixels = (i_pitch (dev s) div 4) * i_height (dev s) in
        s\<lparr>i_mem := fold (\<lambda>i m. m(fb_virt (dev s) + 4 * of_nat i := color)) [0..<unat pixels] (i_mem s)\<rparr>)"

definition i915_putpixel :: "u32 \<Rightarrow> u32 \<Rightarrow> u32 \<Rightarrow> i915 \<Rightarrow> i915" where
  "i915_putpixel x y color s =
     (if \<not> i_initialized (dev s) then s
      else if x \<ge> i_width (dev s) \<or> y \<ge> i_height (dev s) then s
      else s\<lparr>i_mem := (i_mem s)(fb_virt (dev s) + 4 * (y * (i_pitch (dev s) div 4) + x) := color)\<rparr>)"

definition i915_draw_rect :: "u32 \<Rightarrow> u32 \<Rightarrow> u32 \<Rightarrow> u32 \<Rightarrow> u32 \<Rightarrow> i915 \<Rightarrow> i915" where
  "i915_draw_rect x y w h color s =
     fold (\<lambda>dy. fold (\<lambda>dx. i915_putpixel (x + of_nat dx) (y + of_nat dy) color) [0..<unat w]) [0..<unat h] s"

definition i915_get_device :: "i915 \<Rightarrow> i915_device option" where
  "i915_get_device s = (if i_initialized (dev s) then Some (dev s) else None)"

definition i915_print_info :: "i915 \<Rightarrow> i915" where
  "i915_print_info s =
     (if \<not> i_initialized (dev s) then i915_say [Str ''  i915 driver not initialized'', NL] s
      else i915_say [Str ''  Active framebuffer: '', Dec (i_width (dev s)), Str ''x'', Dec (i_height (dev s)),
             Str ''x'', Dec (ucast (i_bpp (dev s))), NL] s)"

section \<open>The framebuffer as a canvas\<close>

definition i915_ok :: "i915 \<Rightarrow> bool" where
  "i915_ok s \<longleftrightarrow> linear_ok (i_pitch (dev s)) (i_width (dev s)) (i_height (dev s))"

definition i915_visible :: "i915 \<Rightarrow> u32 \<Rightarrow> u32 \<Rightarrow> bool" where
  "i915_visible s x y \<longleftrightarrow> i_initialized (dev s) \<and> x < i_width (dev s) \<and> y < i_height (dev s)"

definition i915_shown :: "i915 \<Rightarrow> u32 \<Rightarrow> u32 \<Rightarrow> u32" where
  "i915_shown s x y =
     (if i915_visible s x y then i_mem s (linear_addr (fb_virt (dev s)) (i_pitch (dev s)) x y) else 0)"

lemma i915_putpixel_visible:
  "i915_putpixel x y c s =
     (if i915_visible s x y
      then s\<lparr>i_mem := (i_mem s)(linear_addr (fb_virt (dev s)) (i_pitch (dev s)) x y := c)\<rparr> else s)"
  by (auto simp: i915_putpixel_def i915_visible_def linear_addr_def not_less)

lemma i915_putpixel_dev [frame_simps]: "dev (i915_putpixel x y c s) = dev s"
  by (simp add: i915_putpixel_def)

lemma i915_get_put:
  assumes "i915_ok s"
  shows "i915_shown (i915_putpixel x y c s) px py =
     (if px = x \<and> py = y \<and> i915_visible s x y then c else i915_shown s px py)"
proof -
  have "px = x \<and> py = y"
    if "i915_visible s x y" "i915_visible s px py"
      "linear_addr (fb_virt (dev s)) (i_pitch (dev s)) px py = linear_addr (fb_virt (dev s)) (i_pitch (dev s)) x y"
    using that assms linear_addr_inject [of "i_pitch (dev s)" "i_width (dev s)" "i_height (dev s)" px py x y]
    by (simp add: i915_ok_def i915_visible_def)
  then show ?thesis
    by (auto simp: i915_shown_def i915_putpixel_visible) (auto simp: i915_visible_def)
qed

interpretation i915_canvas: canvas i915_putpixel i915_shown i915_ok i915_visible "\<lambda>_ c. c"
  by unfold_locales (auto simp: i915_get_put i915_ok_def i915_visible_def fun_eq_iff frame_simps)

section \<open>What initialisation leaves\<close>

lemma i915_say_frame [frame_simps]:
  "dev (i915_say os s) = dev s" "i_trace (i915_say os s) = i_trace s" "i_mem (i915_say os s) = i_mem s"
  by (simp_all add: i915_say_def)

lemma set_dev_frame [frame_simps]:
  "dev (set_dev f s) = f (dev s)" "i_trace (set_dev f s) = i_trace s" "i_mem (set_dev f s) = i_mem s"
  by (simp_all add: set_dev_def)

lemma mmio_frame [frame_simps]:
  "dev (snd (mmio_read32 hw reg s)) = dev s" "dev (mmio_write32 reg v s) = dev s"
  "i_mem (snd (mmio_read32 hw reg s)) = i_mem s" "i_mem (mmio_write32 reg v s) = i_mem s"
  "i_trace (mmio_write32 reg v s) = i_trace s @ [Mmio_write (mmio_base (dev s) + reg) v]"
  by (simp_all add: mmio_read32_def mmio_write32_def Let_def)

lemma wait_loop_dev [frame_simps]: "dev (snd (wait_loop hw reg bits value n s)) = dev s"
proof (induction n arbitrary: s)
  case (Suc n)
  then show ?case
    by (simp add: mmio_read32_def Let_def)
qed simp

lemma wait_loop_ready:
  "0 < n \<Longrightarrow> (\<And>t. on_mmio hw t (mmio_base (dev s) + reg) AND bits = value) \<Longrightarrow>
     fst (wait_loop hw reg bits value n s) = 0"
  by (cases n) (simp_all add: mmio_read32_def Let_def)

lemma wait_loop_never:
  "(\<And>t. on_mmio hw t (mmio_base (dev s) + reg) AND bits \<noteq> value) \<Longrightarrow>
     fst (wait_loop hw reg bits value n s) = - 1"
proof (induction n arbitrary: s)
  case (Suc n)
  then show ?case by (simp add: mmio_read32_def Let_def)
qed simp

lemma pci_frame [frame_simps]: "dev (enable_pci_resources hw s) = dev s"
  by (simp add: enable_pci_resources_def pci_config_read_def pci_config_write_def Let_def split: prod.split)

lemma init_power_dev [frame_simps]: "dev (snd (init_power hw s)) = dev s"
proof -
  obtain v t where r: "mmio_read32 hw PWR_WELL_CTL (i915_say [Str ''    Enabling display power...'', NL] s) = (v, t)"
    by fastforce
  have t: "dev t = dev s" using arg_cong [OF r, of "\<lambda>x. dev (snd x)"] by (simp add: frame_simps)
  obtain w u where q: "wait_for hw PWR_WELL_STATE 0x40000000 0x40000000 200
      (mmio_write32 PWR_WELL_CTL (v OR HSW_PWR_WELL_ENABLE) t) = (w, u)" by fastforce
  have "dev u = dev s" using arg_cong [OF q, of "\<lambda>x. dev (snd x)"] t by (simp add: wait_for_def frame_simps)
  then show ?thesis by (simp add: init_power_def r q Let_def frame_simps)
qed

text \<open>Whether the power well ever reports ready decides the outcome of \<open>init_power\<close>.\<close>

definition power_ready :: "hardware \<Rightarrow> u32 \<Rightarrow> bool" where
  "power_ready hw base \<longleftrightarrow> (\<forall>t. on_mmio hw t (base + PWR_WELL_STATE) AND 0x40000000 = 0x40000000)"

definition power_dead :: "hardware \<Rightarrow> u32 \<Rightarrow> bool" where
  "power_dead hw base \<longleftrightarrow> (\<forall>t. on_mmio hw t (base + PWR_WELL_STATE) AND 0x40000000 \<noteq> 0x40000000)"

lemma init_power_result:
  "power_ready hw (mmio_base (dev s)) \<Longrightarrow> fst (init_power hw s) = 0"
  "power_dead hw (mmio_base (dev s)) \<Longrightarrow> fst (init_power hw s) = - 1"
proof -
  obtain v t where r: "mmio_read32 hw PWR_WELL_CTL (i915_say [Str ''    Enabling display power...'', NL] s) = (v, t)"
    by fastforce
  have t: "dev t = dev s" using arg_cong [OF r, of "\<lambda>x. dev (snd x)"] by (simp add: frame_simps)
  obtain w u where q: "wait_for hw PWR_WELL_STATE 0x40000000 0x40000000 200
      (mmio_write32 PWR_WELL_CTL (v OR HSW_PWR_WELL_ENABLE) t) = (w, u)" by fastforce
  have w: "w = fst (wait_loop hw PWR_WELL_STATE 0x40000000 0x40000000 200000
      (mmio_write32 PWR_WELL_CTL (v OR HSW_PWR_WELL_ENABLE) t))"
    using arg_cong [OF q, of fst] by (simp add: wait_for_def)
  have i: "fst (init_power hw s) = (if w = 0 then 0 else - 1)"
    by (simp add: init_power_def r q Let_def)
  show "power_ready hw (mmio_base (dev s)) \<Longrightarrow> fst (init_power hw s) = 0"
    unfolding i w by (subst wait_loop_ready) (simp_all add: frame_simps t power_ready_def)
  show "power_dead hw (mmio_base (dev s)) \<Longrightarrow> fst (init_power hw s) = - 1"
    unfolding i w by (subst wait_loop_never) (simp_all add: frame_simps t power_dead_def)
qed

text \<open>A pipe the firmware left running with \<open>src\<close> in its source size register.\<close>

definition pipe_running :: "hardware \<Rightarrow> u32 \<Rightarrow> u32 \<Rightarrow> bool" where
  "pipe_running hw base src \<longleftrightarrow> (\<forall>t. on_mmio hw t (base + PIPEA_CONF) AND PIPEACONF_ENABLE \<noteq> 0
     \<and> on_mmio hw t (base + PIPEA_SRC) = src)"

lemma alloc_framebuffer_dev:
  "dev (alloc_framebuffer w h bpp s) = (dev s)\<lparr>i_width := w, i_height := h, i_bpp := bpp,
     i_pitch := (w * ucast (bpp div 8) + 63) AND NOT 63, fb_size := ((w * ucast (bpp div 8) + 63) AND NOT 63) * h,
     fb_phys := gtt_base (dev s), fb_virt := gtt_base (dev s)\<rparr>"
  by (simp add: alloc_framebuffer_def Let_def frame_simps)

lemma setup_plane_dev [frame_simps]: "dev (setup_plane s) = dev s"
  by (simp add: setup_plane_def Let_def frame_simps)

lemma detect_mode_running:
  assumes "pipe_running hw (mmio_base (dev s)) src" and "conf AND PIPEACONF_ENABLE \<noteq> 0"
  shows "i_width (dev (detect_mode hw conf s)) = (src AND 0xFFFF) + 1
     \<and> i_height (dev (detect_mode hw conf s)) = (drop_bit 16 src AND 0xFFFF) + 1
     \<and> mmio_base (dev (detect_mode hw conf s)) = mmio_base (dev s)"
  using assms by (simp add: detect_mode_def mmio_read32_def pipe_running_def Let_def alloc_framebuffer_dev frame_simps)

lemma setup_pipe_running:
  assumes "pipe_running hw (mmio_base (dev s)) src"
  shows "dev (snd (setup_pipe hw s)) = dev s
     \<and> last (i_trace (snd (setup_pipe hw s))) =
         Mmio_write (mmio_base (dev s) + PIPEA_SRC) (push_bit 16 (i_width (dev s) - 1) OR (i_height (dev s) - 1))"
  using assms by (simp add: setup_pipe_def mmio_read32_def pipe_running_def Let_def frame_simps)

lemma bring_up_running:
  assumes "pipe_running hw (mmio_base (dev s)) src"
  shows "i_initialized (dev (bring_up hw s)) \<and> i_width (dev (bring_up hw s)) = (src AND 0xFFFF) + 1
     \<and> i_height (dev (bring_up hw s)) = (drop_bit 16 src AND 0xFFFF) + 1
     \<and> last (i_trace (bring_up hw s)) =
         Mmio_write (mmio_base (dev s) + PIPEA_SRC) (push_bit 16 (src AND 0xFFFF) OR (drop_bit 16 src AND 0xFFFF))"
proof -
  obtain conf t where c: "mmio_read32 hw PIPEA_CONF s = (conf, t)" by fastforce
  obtain ctl u where p: "mmio_read32 hw DSPACNTR t = (ctl, u)" by fastforce
  have ct: "conf AND PIPEACONF_ENABLE \<noteq> 0" "dev t = dev s"
    using c assms by (auto simp: mmio_read32_def pipe_running_def Let_def)
  have u: "dev u = dev t" using p by (auto simp: mmio_read32_def Let_def)
  define v where "v = i915_say [Str ''    Current state: Pipe '',
        if conf AND PIPEACONF_ENABLE \<noteq> 0 then Str ''ON'' else Str ''OFF'', Str '', Plane '',
        if ctl AND PLANE_CTL_ENABLE \<noteq> 0 then Str ''ON'' else Str ''OFF'', NL] u"
  have v: "dev v = dev s" by (simp add: v_def frame_simps u ct)
  note d = detect_mode_running [of hw v src conf, unfolded v, OF assms ct(1)]
  define w where "w = setup_plane (detect_mode hw conf v)"
  have w: "dev w = dev (detect_mode hw conf v)" by (simp add: w_def frame_simps)
  note q = setup_pipe_running [of hw w src, unfolded w, OF assms [folded d [THEN conjunct2, THEN conjunct2]]]
  have b: "bring_up hw s = i915_say [Str ''  ==========================='', NL, Str ''  [OK] Driver initialized'', NL, NL]
      (set_dev (\<lambda>d. d\<lparr>i_initialized := True\<rparr>) (snd (setup_pipe hw w)))"
    by (simp only: bring_up_def c p Let_def prod.case v_def w_def)
  show ?thesis unfolding b using d q by (simp add: frame_simps w)
qed

section \<open>Properties\<close>

text \<open>
  Remark. The driver refuses to start, and does not mark itself initialised, when either
  address register is missing or the power well never reports ready (after 200000 polls); when
  power comes up it always ends initialised.
\<close>

theorem i915_init_errors:
  "(bar0 gpu AND 0xFFFFFFF0 = 0 \<or> bar2 gpu AND 0xFFFFFFF0 = 0 \<or> power_dead hw (bar0 gpu AND 0xFFFFFFF0) \<longrightarrow>
      fst (i915_hd4600_init hw gpu s) = - 1
      \<and> i_initialized (dev (snd (i915_hd4600_init hw gpu s))) = i_initialized (dev s))
   \<and> (bar0 gpu AND 0xFFFFFFF0 \<noteq> 0 \<and> bar2 gpu AND 0xFFFFFFF0 \<noteq> 0 \<and> power_ready hw (bar0 gpu AND 0xFFFFFFF0) \<longrightarrow>
      fst (i915_hd4600_init hw gpu s) = 0 \<and> i_initialized (dev (snd (i915_hd4600_init hw gpu s))))"
proof -
  define t where "t = store_pci_info gpu (i915_say [NL, Str ''  Intel HD 4600 Native Driver'', NL,
     Str ''  ==========================='', NL] s)"
  have t: "mmio_base (dev t) = bar0 gpu AND 0xFFFFFFF0" "gtt_base (dev t) = bar2 gpu AND 0xFFFFFFF0"
    "i_initialized (dev t) = i_initialized (dev s)"
    by (simp_all add: t_def store_pci_info_def frame_simps)
  have m: "mmio_base (dev (map_resources hw t)) = mmio_base (dev t)"
    "i_initialized (dev (map_resources hw t)) = i_initialized (dev t)"
    by (simp_all add: map_resources_def Let_def frame_simps)
  obtain r u where p: "init_power hw (map_resources hw t) = (r, u)" by fastforce
  have u: "i_initialized (dev u) = i_initialized (dev s)"
    using arg_cong [OF p, of "\<lambda>x. dev (snd x)"] m t by (simp add: frame_simps)
  have i: "i915_hd4600_init hw gpu s =
      (if mmio_base (dev t) = 0 \<or> gtt_base (dev t) = 0 then (- 1, i915_say [Str ''    [ERROR] Invalid BAR addresses'', NL] t)
       else if r \<noteq> 0 then (- 1, i915_say [Str ''    [ERROR] Power initialization failed'', NL] u) else (0, bring_up hw u))"
    by (simp only: i915_hd4600_init_def t_def [symmetric] Let_def p prod.case)
  have b: "i_initialized (dev (bring_up hw u))"
    by (simp add: bring_up_def Let_def frame_simps split: prod.split)
  show ?thesis
    using init_power_result [of hw "map_resources hw t"] unfolding p i m t
    by (auto simp: frame_simps u t b)
qed

definition i915_machine :: "u32 \<Rightarrow> hardware" where
  "i915_machine src = \<lparr>on_inl = (\<lambda>_ _. 0), on_mmio = (\<lambda>_ a. if a = 0xF0000000 + PIPEA_SRC then src
     else if a = 0xF0000000 + PIPEA_CONF then 0xC0000000
     else if a = 0xF0000000 + PWR_WELL_STATE then 0x40000000 else 0)\<rparr>"

definition haswell :: gpu_device where
  "haswell = gpu_none\<lparr>vendor_id := GPU_VENDOR_INTEL, device_id := 0x0412, bar0 := 0xF0000004, bar2 := 0xE0000008\<rparr>"

definition i915_zero :: i915 where
  "i915_zero = \<lparr>dev = \<lparr>i_bus = 0, i_slot = 0, i_func = 0, i_device_id = 0, mmio_base = 0, gtt_base = 0,
     mmio_size = 0, gtt_size = 0, fb_phys = 0, fb_virt = 0, fb_size = 0, i_width = 0, i_height = 0,
     i_pitch = 0, i_bpp = 0, i_initialized = False\<rparr>, i_trace = [], i_mem = (\<lambda>_. 0), i_con = monitor_demo\<rparr>"

lemma i915_machine_ok:
  "power_ready (i915_machine src) 0xF0000000" "pipe_running (i915_machine src) 0xF0000000 src"
  by (simp_all add: power_ready_def pipe_running_def i915_machine_def)

theorem i915_init_errors_witness:
  "fst (i915_hd4600_init (i915_machine 0x02FF03FF) haswell i915_zero) = 0
     \<and> fst (i915_hd4600_init (i915_machine 0x02FF03FF) gpu_none i915_zero) = - 1"
  using i915_init_errors [of haswell "i915_machine 0x02FF03FF" i915_zero] i915_machine_ok(1) [of "0x02FF03FF"]
    i915_init_errors [of gpu_none "i915_machine 0x02FF03FF" i915_zero]
  by (simp add: haswell_def gpu_none_def)

text \<open>
  Remark. Reading and writing the pipe's source size disagree on which half is the width:
  started on a running pipe, the driver takes the low half for the width and writes the width
  to the high half, so it programs the register with its halves exchanged, and a 1024 by 768
  screen is set to 768 by 1024.
\<close>

theorem i915_mode_swapped:
  assumes "bar0 gpu AND 0xFFFFFFF0 \<noteq> 0" and "bar2 gpu AND 0xFFFFFFF0 \<noteq> 0"
    and "power_ready hw (bar0 gpu AND 0xFFFFFFF0)" and "pipe_running hw (bar0 gpu AND 0xFFFFFFF0) src"
  shows "i_width (dev (snd (i915_hd4600_init hw gpu s))) = (src AND 0xFFFF) + 1
     \<and> i_height (dev (snd (i915_hd4600_init hw gpu s))) = (drop_bit 16 src AND 0xFFFF) + 1
     \<and> last (i_trace (snd (i915_hd4600_init hw gpu s))) =
         Mmio_write ((bar0 gpu AND 0xFFFFFFF0) + PIPEA_SRC) (push_bit 16 (src AND 0xFFFF) OR (drop_bit 16 src AND 0xFFFF))"
proof -
  define t where "t = store_pci_info gpu (i915_say [NL, Str ''  Intel HD 4600 Native Driver'', NL,
     Str ''  ==========================='', NL] s)"
  have t: "mmio_base (dev t) = bar0 gpu AND 0xFFFFFFF0" "gtt_base (dev t) = bar2 gpu AND 0xFFFFFFF0"
    by (simp_all add: t_def store_pci_info_def frame_simps)
  have m: "mmio_base (dev (map_resources hw t)) = mmio_base (dev t)"
    by (simp add: map_resources_def Let_def frame_simps)
  obtain r u where p: "init_power hw (map_resources hw t) = (r, u)" by fastforce
  have u: "mmio_base (dev u) = bar0 gpu AND 0xFFFFFFF0"
    using arg_cong [OF p, of "\<lambda>x. dev (snd x)"] m t by (simp add: frame_simps)
  have "r = 0" using init_power_result(1) [of hw "map_resources hw t"] assms(3) by (simp add: p m t)
  then have i: "i915_hd4600_init hw gpu s = (0, bring_up hw u)"
    using assms(1,2) t by (simp add: i915_hd4600_init_def t_def [symmetric] Let_def p)
  show ?thesis unfolding i using bring_up_running [of hw u src] assms(4) by (simp add: u)
qed

theorem i915_mode_swapped_witness:
  "last (i_trace (snd (i915_hd4600_init (i915_machine 0x02FF03FF) haswell i915_zero)))
     = Mmio_write 0xF006001C 0x03FF02FF"
  using i915_mode_swapped [of haswell "i915_machine 0x02FF03FF" "0x02FF03FF" i915_zero]
    i915_machine_ok [of "0x02FF03FF"]
  by (simp add: haswell_def drop_bit_eq_div)

end
