(* ===== verification/IntelHd4600.thy ===== *)
theory IntelHd4600
  imports GpuDetect Canvas
begin

text \<open>
  The second Intel driver, \<^verbatim>\<open>drivers/gpu/intel/intel_hd4600.c\<close>, which sets a
  1024 by 768 mode itself and allows the mode to be changed. Register accesses are events of
  the trace, as in the first driver; busy delays leave no trace.
\<close>

section \<open>State\<close>

record intel_hd4600 =
  c_bus :: u8
  c_slot :: u8
  c_func :: u8
  c_device_id :: u16
  c_mmio_base :: u32
  c_mmio_size :: u32
  stolen_base :: u32
  c_fb_phys :: u32
  c_fb_virt :: ptr
  c_fb_size :: u32
  fb_stride :: u32
  mode_width :: u32
  mode_height :: u32
  refresh_rate :: u32
  c_initialized :: bool

record hd4600 =
  ctx :: intel_hd4600
  c_trace :: hw_trace
  c_mem :: "ptr \<Rightarrow> u32"
  c_con :: monitor

abbreviation INTEL_HD4600_DEVICE_ID_1 :: u16 where "INTEL_HD4600_DEVICE_ID_1 \<equiv> 0x0412"
abbreviation INTEL_HD4600_DEVICE_ID_2 :: u16 where "INTEL_HD4600_DEVICE_ID_2 \<equiv> 0x0416"
abbreviation HSW_PIPEA_CONF :: u32 where "HSW_PIPEA_CONF \<equiv> 0x70008"
abbreviation HSW_PIPEA_SRC :: u32 where "HSW_PIPEA_SRC \<equiv> 0x6001C"
abbreviation HSW_DSPACNTR :: u32 where "HSW_DSPACNTR \<equiv> 0x70180"
abbreviation HSW_DSPASURF :: u32 where "HSW_DSPASURF \<equiv> 0x7019C"
abbreviation HSW_DSPASTRIDE :: u32 where "HSW_DSPASTRIDE \<equiv> 0x70188"
abbreviation HSW_DSPASIZE :: u32 where "HSW_DSPASIZE \<equiv> 0x70190"
abbreviation HSW_DSPAPOS :: u32 where "HSW_DSPAPOS \<equiv> 0x7018C"
abbreviation HSW_PWR_WELL_CTL :: u32 where "HSW_PWR_WELL_CTL \<equiv> 0x45400"
abbreviation HSW_PWR_WELL_STATE :: u32 where "HSW_PWR_WELL_STATE \<equiv> 0x45404"
abbreviation HSW_STOLEN_BASE :: u8 where "HSW_STOLEN_BASE \<equiv> 0x5C"
abbreviation HSW_PLANE_CTL_FORMAT_XRGB_8888 :: u32 where "HSW_PLANE_CTL_FORMAT_XRGB_8888 \<equiv> push_bit 24 4"
abbreviation HSW_PLANE_CTL_TILED_LINEAR :: u32 where "HSW_PLANE_CTL_TILED_LINEAR \<equiv> push_bit 10 0"
abbreviation bit30 :: u32 where "bit30 \<equiv> 0x40000000"
abbreviation bit31 :: u32 where "bit31 \<equiv> 0x80000000"

definition c_say :: "out list \<Rightarrow> hd4600 \<Rightarrow> hd4600" where
  "c_say os s = s\<lparr>c_con := print_all os (c_con s)\<rparr>"

definition set_ctx :: "(intel_hd4600 \<Rightarrow> intel_hd4600) \<Rightarrow> hd4600 \<Rightarrow> hd4600" where
  "set_ctx f s = s\<lparr>ctx := f (ctx s)\<rparr>"

section \<open>Register access\<close>

definition mmio_read :: "hardware \<Rightarrow> u32 \<Rightarrow> hd4600 \<Rightarrow> u32 \<times> hd4600" where
  "mmio_read hw offset s =
     (let a = c_mmio_base (ctx s) + offset; v = on_mmio hw (c_trace s) a
      in (v, s\<lparr>c_trace := c_trace s @ [Mmio_read a v]\<rparr>))"

definition mmio_write :: "u32 \<Rightarrow> u32 \<Rightarrow> hd4600 \<Rightarrow> hd4600" where
  "mmio_write offset value s =
     s\<lparr>c_trace := c_trace s @ [Mmio_write (c_mmio_base (ctx s) + offset) value]\<rparr>"

definition mmio_set_bits :: "hardware \<Rightarrow> u32 \<Rightarrow> u32 \<Rightarrow> hd4600 \<Rightarrow> hd4600" where
  "mmio_set_bits hw offset bits s =
     (let (val, s) = mmio_read hw offset s in mmio_write offset (val OR bits) s)"

definition mmio_clear_bits :: "hardware \<Rightarrow> u32 \<Rightarrow> u32 \<Rightarrow> hd4600 \<Rightarrow> hd4600" where
  "mmio_clear_bits hw offset bits s =
     (let (val, s) = mmio_read hw offset s in mmio_write offset (val AND NOT bits) s)"

fun mmio_wait_loop :: "hardware \<Rightarrow> u32 \<Rightarrow> u32 \<Rightarrow> u32 \<Rightarrow> nat \<Rightarrow> hd4600 \<Rightarrow> int \<times> hd4600" where
  "mmio_wait_loop hw offset bits value 0 s = (- 1, s)"
| "mmio_wait_loop hw offset bits value (Suc n) s =
     (let (v, s) = mmio_read hw offset s in
      if v AND bits = value then (0, s) else mmio_wait_loop hw offset bits value n s)"

definition mmio_wait_for :: "hardware \<Rightarrow> u32 \<Rightarrow> u32 \<Rightarrow> u32 \<Rightarrow> nat \<Rightarrow> hd4600 \<Rightarrow> int \<times> hd4600" where
  "mmio_wait_for hw offset bits value timeout_ms s = mmio_wait_loop hw offset bits value (timeout_ms * 100) s"

section \<open>Mode setting\<close>

definition intel_hd4600_detect :: "gpu_device \<Rightarrow> int" where
  "intel_hd4600_detect gpu =
     (if vendor_id gpu \<noteq> GPU_VENDOR_INTEL then 0
      else if device_id gpu = INTEL_HD4600_DEVICE_ID_1 \<or> device_id gpu = INTEL_HD4600_DEVICE_ID_2 then 1 else 0)"

text \<open>The driver's own copy of the access to the PCI configuration space.\<close>

definition hd_pci_read_config :: "hardware \<Rightarrow> u8 \<Rightarrow> u8 \<Rightarrow> u8 \<Rightarrow> u8 \<Rightarrow> hw_trace \<Rightarrow> u32 \<times> hw_trace" where
  "hd_pci_read_config hw bus slot func offset t =
     (let address = push_bit 31 1 OR push_bit 16 (ucast bus) OR push_bit 11 (ucast slot)
            OR push_bit 8 (ucast func) OR (ucast offset AND 0xFC)
      in inl hw 0xCFC (outl 0xCF8 address t))"

lemma hd_pci_read_config_detect: "hd_pci_read_config = pci_read_config"
  by (simp add: fun_eq_iff hd_pci_read_config_def pci_read_config_def pci_address_def Let_def)

definition intel_hd4600_init_power :: "hardware \<Rightarrow> hd4600 \<Rightarrow> hd4600" where
  "intel_hd4600_init_power hw s =
     (let s = c_say [Str ''    Enabling power wells...'', NL] s;
          s = mmio_set_bits hw HSW_PWR_WELL_CTL bit31 s;
          (r, s) = mmio_wait_for hw HSW_PWR_WELL_STATE bit30 bit30 100 s
      in if r \<noteq> 0 then c_say [Str ''    [WARN] Power well timeout'', NL] s else s)"

definition intel_hd4600_alloc_framebuffer :: "hardware \<Rightarrow> u32 \<Rightarrow> u32 \<Rightarrow> hd4600 \<Rightarrow> hd4600" where
  "intel_hd4600_alloc_framebuffer hw w h s =
     (let s = set_ctx (\<lambda>c. c\<lparr>fb_stride := w * 4, c_fb_size := w * 4 * h\<rparr>) s;
          c = ctx s;
          (stolen_reg, t) = hd_pci_read_config hw (c_bus c) (c_slot c) (c_func c) HSW_STOLEN_BASE (c_trace s);
          base = stolen_reg AND 0xFFF00000;
          s = set_ctx (\<lambda>c. c\<lparr>stolen_base := base, c_fb_phys := base, c_fb_virt := base\<rparr>) (s\<lparr>c_trace := t\<rparr>)
      in c_say [Str ''    Framebuffer @ 0x'', Hex (c_fb_phys (ctx s)), Str '' ('',
           Dec (c_fb_size (ctx s) div 1024), Str '' KB)'', NL] s)"

definition intel_hd4600_setup_plane :: "hd4600 \<Rightarrow> hd4600" where
  "intel_hd4600_setup_plane s =
     (let s = mmio_write HSW_DSPASURF 0 (mmio_write HSW_DSPACNTR 0 s);
          plane_ctl = bit31 OR HSW_PLANE_CTL_FORMAT_XRGB_8888 OR HSW_PLANE_CTL_TILED_LINEAR;
          s = mmio_write HSW_DSPASTRIDE (fb_stride (ctx s)) s;
          s = mmio_write HSW_DSPAPOS 0 s;
          size = push_bit 16 (mode_height (ctx s) - 1) OR (mode_width (ctx s) - 1);
          s = mmio_write HSW_DSPASIZE size s;
          s = mmio_write HSW_DSPACNTR plane_ctl s
      in mmio_write HSW_DSPASURF (c_fb_phys (ctx s)) s)"

definition intel_hd4600_setup_pipe :: "hardware \<Rightarrow> hd4600 \<Rightarrow> int \<times> hd4600" where
  "intel_hd4600_setup_pipe hw s =
     (let s = c_say [Str ''    Configuring display pipe...'', NL] s;
          s = mmio_clear_bits hw HSW_PIPEA_CONF bit31 s;
          (r, s) = mmio_wait_for hw HSW_PIPEA_CONF bit30 0 100 s;
          s = (if r \<noteq> 0 then c_say [Str ''    [WARN] Pipe disable timeout'', NL] s else s);
          pipe_src = push_bit 16 (mode_width (ctx s) - 1) OR (mode_height (ctx s) - 1);
          s = mmio_write HSW_PIPEA_SRC pipe_src s;
          s = mmio_set_bits hw HSW_PIPEA_CONF bit31 s;
          (r, s) = mmio_wait_for hw HSW_PIPEA_CONF bit30 bit30 100 s
      in if r \<noteq> 0 then (- 1, c_say [Str ''    [WARN] Pipe enable timeout'', NL] s) else (0, s))"

definition intel_hd4600_init :: "hardware \<Rightarrow> gpu_device \<Rightarrow> hd4600 \<Rightarrow> int \<times> hd4600" where
  "intel_hd4600_init hw gpu s =
     (let s = c_say [Str ''  Intel HD 4600 Driver Init'', NL] s;
          s = set_ctx (\<lambda>c. c\<lparr>c_bus := gpu_bus gpu, c_slot := gpu_slot gpu, c_func := gpu_func gpu,
                c_device_id := device_id gpu, c_mmio_base := bar0 gpu AND 0xFFFFFFF0,
                c_mmio_size := 2 * 1024 * 1024\<rparr>) s
      in if c_mmio_base (ctx s) = 0
         then (- 1, c_say [Str ''  [ERROR] Invalid MMIO base'', NL] s)
         else let s = c_say [Str ''    MMIO @ 0x'', Hex (c_mmio_base (ctx s)), NL] s;
                  s = intel_hd4600_init_power hw s;
                  s = set_ctx (\<lambda>c. c\<lparr>mode_width := 1024, mode_height := 768, refresh_rate := 60\<rparr>) s;
                  s = intel_hd4600_alloc_framebuffer hw (mode_width (ctx s)) (mode_height (ctx s)) s;
                  s = intel_hd4600_setup_plane s;
                  s = snd (intel_hd4600_setup_pipe hw s);
                  s = set_ctx (\<lambda>c. c\<lparr>c_initialized := True\<rparr>) s
              in (0, c_say [Str ''  [OK] HD 4600 initialized'', NL, Str ''  Mode: '', Dec (mode_width (ctx s)),
                       Str ''x'', Dec (mode_height (ctx s)), Str ''@'', Dec (refresh_rate (ctx s)), Str ''Hz'', NL] s))"

definition intel_hd4600_set_mode :: "hardware \<Rightarrow> u32 \<Rightarrow> u32 \<Rightarrow> hd4600 \<Rightarrow> int \<times> hd4600" where
  "intel_hd4600_set_mode hw w h s =
     (if \<not> c_initialized (ctx s) then (- 1, s)
      else let s = set_ctx (\<lambda>c. c\<lparr>mode_width := w, mode_height := h\<rparr>) s;
               s = intel_hd4600_alloc_framebuffer hw w h s;
               s = intel_hd4600_setup_plane s
           in (0, snd (intel_hd4600_setup_pipe hw s)))"

definition intel_hd4600_clear_screen :: "u32 \<Rightarrow> hd4600 \<Rightarrow> hd4600" where
  "intel_hd4600_clear_screen color s =
     (if \<not> c_initialized (ctx s) \<or> c_fb_virt (ctx s) = 0 then s
      else let pixels = (fb_stride (ctx s) div 4) * mode_height (ctx s) in
        s\<lparr>c_mem := fold (\<lambda>i m. m(c_fb_virt (ctx s) + 4 * of_nat i := color)) [0..<unat pixels] (c_mem s)\<rparr>)"

definition intel_hd4600_putpixel :: "u32 \<Rightarrow> u32 \<Rightarrow> u32 \<Rightarrow> hd4600 \<Rightarrow> hd4600" where
  "intel_hd4600_putpixel x y color s =
     (if \<not> c_initialized (ctx s) \<or> c_fb_virt (ctx s) = 0 then s
      else if x \<ge> mode_width (ctx s) \<or> y \<ge> mode_height (ctx s) then s
      else let offset = y * (fb_stride (ctx s) div 4) + x in
        s\<lparr>c_mem := (c_mem s)(c_fb_virt (ctx s) + 4 * offset := color)\<rparr>)"

definition intel_hd4600_get_context :: "hd4600 \<Rightarrow> intel_hd4600 option" where
  "intel_hd4600_get_context s = (if c_initialized (ctx s) then Some (ctx s) else None)"

section \<open>The framebuffer as a canvas\<close>

definition hd_ok :: "hd4600 \<Rightarrow> bool" where
  "hd_ok s \<longleftrightarrow> linear_ok (fb_stride (ctx s)) (mode_width (ctx s)) (mode_height (ctx s))"

definition hd_visible :: "hd4600 \<Rightarrow> u32 \<Rightarrow> u32 \<Rightarrow> bool" where
  "hd_visible s x y \<longleftrightarrow> c_initialized (ctx s) \<and> c_fb_virt (ctx s) \<noteq> 0
     \<and> x < mode_width (ctx s) \<and> y < mode_height (ctx s)"

definition hd_shown :: "hd4600 \<Rightarrow> u32 \<Rightarrow> u32 \<Rightarrow> u32" where
  "hd_shown s x y =
     (if hd_visible s x y then c_mem s (linear_addr (c_fb_virt (ctx s)) (fb_stride (ctx s)) x y) else 0)"

lemma hd_putpixel_visible:
  "intel_hd4600_putpixel x y c s =
     (if hd_visible s x y
      then s\<lparr>c_mem := (c_mem s)(linear_addr (c_fb_virt (ctx s)) (fb_stride (ctx s)) x y := c)\<rparr> else s)"
  by (auto simp: intel_hd4600_putpixel_def hd_visible_def linear_addr_def not_less Let_def)

lemma hd_putpixel_ctx [frame_simps]: "ctx (intel_hd4600_putpixel x y c s) = ctx s"
  by (simp add: intel_hd4600_putpixel_def Let_def)

lemma hd_get_put:
  assumes "hd_ok s"
  shows "hd_shown (intel_hd4600_putpixel x y c s) px py =
     (if px = x \<and> py = y \<and> hd_visible s x y then c else hd_shown s px py)"
proof -
  have "px = x \<and> py = y"
    if "hd_visible s x y" "hd_visible s px py"
      "linear_addr (c_fb_virt (ctx s)) (fb_stride (ctx s)) px py = linear_addr (c_fb_virt (ctx s)) (fb_stride (ctx s)) x y"
    using that assms linear_addr_inject [of "fb_stride (ctx s)" "mode_width (ctx s)" "mode_height (ctx s)" px py x y]
    by (simp add: hd_ok_def hd_visible_def)
  then show ?thesis
    by (auto simp: hd_shown_def hd_putpixel_visible) (auto simp: hd_visible_def)
qed

interpretation hd_canvas: canvas intel_hd4600_putpixel hd_shown hd_ok hd_visible "\<lambda>_ c. c"
  by unfold_locales (auto simp: hd_get_put hd_ok_def hd_visible_def fun_eq_iff frame_simps)

section \<open>Register writes\<close>

text \<open>The trace only grows; what was written stays in it.\<close>

definition later :: "hd4600 \<Rightarrow> hd4600 \<Rightarrow> bool" where
  "later s t \<longleftrightarrow> ctx t = ctx s \<and> set (c_trace s) \<subseteq> set (c_trace t)"

lemma later_refl [simp]: "later s s"
  by (simp add: later_def)

lemma later_trans: "later s t \<Longrightarrow> later t u \<Longrightarrow> later s u"
  by (auto simp: later_def)

lemma later_say: "later s (c_say os s)"
  by (simp add: later_def c_say_def)

lemma later_read: "later s (snd (mmio_read hw offset s))"
  by (auto simp: later_def mmio_read_def Let_def)

lemma later_write: "later s (mmio_write offset v s)"
  by (auto simp: later_def mmio_write_def)

lemma later_bits: "later s (mmio_set_bits hw offset bits s)" "later s (mmio_clear_bits hw offset bits s)"
proof -
  obtain v t where r: "mmio_read hw offset s = (v, t)" by fastforce
  from later_read [of s hw offset] r have t: "later s t" by simp
  show "later s (mmio_set_bits hw offset bits s)" "later s (mmio_clear_bits hw offset bits s)"
    using later_trans [OF t later_write] by (simp_all add: mmio_set_bits_def mmio_clear_bits_def r)
qed

lemma later_wait: "later s (snd (mmio_wait_loop hw offset bits value n s))"
proof (induction n arbitrary: s)
  case (Suc n)
  obtain v t where r: "mmio_read hw offset s = (v, t)" by fastforce
  from later_read [of s hw offset] r have "later s t" by simp
  with Suc.IH [of t] show ?case by (auto simp: r intro: later_trans)
qed simp

definition was_written :: "u32 \<Rightarrow> u32 \<Rightarrow> hd4600 \<Rightarrow> bool" where
  "was_written offset v s \<longleftrightarrow> Mmio_write (c_mmio_base (ctx s) + offset) v \<in> set (c_trace s)"

lemma was_written_later: "later s t \<Longrightarrow> was_written offset v s \<Longrightarrow> was_written offset v t"
  by (auto simp: later_def was_written_def)

lemma was_written_write: "was_written offset v (mmio_write offset v s)"
  by (simp add: was_written_def mmio_write_def)

lemma setup_plane_writes:
  "later s (intel_hd4600_setup_plane s)
   \<and> was_written HSW_DSPASTRIDE (fb_stride (ctx s)) (intel_hd4600_setup_plane s)
   \<and> was_written HSW_DSPASIZE (push_bit 16 (mode_height (ctx s) - 1) OR (mode_width (ctx s) - 1))
       (intel_hd4600_setup_plane s)
   \<and> was_written HSW_DSPASURF (c_fb_phys (ctx s)) (intel_hd4600_setup_plane s)"
  by (auto simp: intel_hd4600_setup_plane_def Let_def later_def was_written_def mmio_write_def)

lemma setup_pipe_writes:
  "later s (snd (intel_hd4600_setup_pipe hw s))
   \<and> was_written HSW_PIPEA_SRC (push_bit 16 (mode_width (ctx s) - 1) OR (mode_height (ctx s) - 1))
       (snd (intel_hd4600_setup_pipe hw s))"
proof -
  define a where "a = mmio_clear_bits hw HSW_PIPEA_CONF bit31 (c_say [Str ''    Configuring display pipe...'', NL] s)"
  obtain r b where b: "mmio_wait_for hw HSW_PIPEA_CONF bit30 0 100 a = (r, b)" by fastforce
  define c where "c = (if r \<noteq> 0 then c_say [Str ''    [WARN] Pipe disable timeout'', NL] b else b)"
  define d where "d = mmio_write HSW_PIPEA_SRC (push_bit 16 (mode_width (ctx c) - 1) OR (mode_height (ctx c) - 1)) c"
  obtain q e where e: "mmio_wait_for hw HSW_PIPEA_CONF bit30 bit30 100 (mmio_set_bits hw HSW_PIPEA_CONF bit31 d) = (q, e)"
    by fastforce
  have "later s a" unfolding a_def by (rule later_trans [OF later_say later_bits(2)])
  moreover have "later a b" using later_wait [of a] b by (simp add: mmio_wait_for_def) (metis snd_conv)
  moreover have "later b c" by (simp add: c_def later_say)
  ultimately have sc: "later s c" by (blast intro: later_trans)
  have "later d (mmio_set_bits hw HSW_PIPEA_CONF bit31 d)" by (rule later_bits(1))
  moreover have "later (mmio_set_bits hw HSW_PIPEA_CONF bit31 d) e"
    using later_wait [of "mmio_set_bits hw HSW_PIPEA_CONF bit31 d"] e by (simp add: mmio_wait_for_def) (metis snd_conv)
  ultimately have de: "later d e" by (blast intro: later_trans)
  have "snd (intel_hd4600_setup_pipe hw s) = e \<or>
      snd (intel_hd4600_setup_pipe hw s) = c_say [Str ''    [WARN] Pipe enable timeout'', NL] e"
    unfolding intel_hd4600_setup_pipe_def Let_def a_def [symmetric] b prod.case c_def [symmetric]
      d_def [symmetric] e by simp
  then have fin: "later e (snd (intel_hd4600_setup_pipe hw s))" by (auto intro: later_say)
  have "was_written HSW_PIPEA_SRC (push_bit 16 (mode_width (ctx s) - 1) OR (mode_height (ctx s) - 1)) d"
    using sc was_written_write unfolding d_def later_def by simp
  moreover have "later c d" by (simp add: d_def later_write)
  ultimately show ?thesis
    using sc de fin by (blast intro: later_trans was_written_later)
qed

lemma alloc_framebuffer_ctx:
  "\<exists>base. ctx (intel_hd4600_alloc_framebuffer hw w h s) = (ctx s)\<lparr>fb_stride := w * 4, c_fb_size := w * 4 * h,
     stolen_base := base, c_fb_phys := base, c_fb_virt := base\<rparr>"
  by (auto simp: intel_hd4600_alloc_framebuffer_def Let_def c_say_def set_ctx_def split: prod.split)

section \<open>Properties\<close>

text \<open>
  Remark. Changing the mode of an initialised driver programs stride, plane size and pipe
  size for the new mode and leaves a framebuffer in which the pixels are independent, as long
  as it fits 4 GiB. It reports success on every hardware, also when the pipe never comes up,
  and the stride is four bytes per pixel without the 64-byte alignment its comment demands.
\<close>

theorem hd4600_set_mode_correct:
  assumes "c_initialized (ctx s)" and "unat w < 1073741824" and "unat w * unat h \<le> 1073741824"
  shows "fst (intel_hd4600_set_mode hw w h s) = 0
     \<and> (let t = snd (intel_hd4600_set_mode hw w h s) in
          mode_width (ctx t) = w \<and> mode_height (ctx t) = h \<and> c_initialized (ctx t) \<and> hd_ok t
          \<and> was_written HSW_DSPASTRIDE (w * 4) t
          \<and> was_written HSW_DSPASIZE (push_bit 16 (h - 1) OR (w - 1)) t
          \<and> was_written HSW_PIPEA_SRC (push_bit 16 (w - 1) OR (h - 1)) t)"
proof -
  define a where "a = intel_hd4600_alloc_framebuffer hw w h (set_ctx (\<lambda>c. c\<lparr>mode_width := w, mode_height := h\<rparr>) s)"
  obtain base where c: "ctx a = (ctx s)\<lparr>mode_width := w, mode_height := h, fb_stride := w * 4, c_fb_size := w * 4 * h,
      stolen_base := base, c_fb_phys := base, c_fb_virt := base\<rparr>"
    using alloc_framebuffer_ctx [of hw w h "set_ctx (\<lambda>c. c\<lparr>mode_width := w, mode_height := h\<rparr>) s"]
    by (auto simp: a_def set_ctx_def)
  define p where "p = intel_hd4600_setup_plane a"
  define t where "t = snd (intel_hd4600_setup_pipe hw p)"
  note pw = setup_plane_writes [of a, folded p_def] and tw = setup_pipe_writes [of p hw, folded t_def]
  have pa: "ctx p = ctx a" and tp: "ctx t = ctx p" using pw tw by (simp_all add: later_def)
  have "unat (w * 4) div 4 = unat w" using assms(2) by (simp add: unat_word_ariths)
  then have "hd_ok t" using assms(3) by (simp add: hd_ok_def linear_ok_def tp pa c)
  moreover have "intel_hd4600_set_mode hw w h s = (0, t)"
    using assms(1) by (simp add: intel_hd4600_set_mode_def Let_def a_def p_def t_def)
  moreover have "was_written HSW_DSPASTRIDE (w * 4) t"
    "was_written HSW_DSPASIZE (push_bit 16 (h - 1) OR (w - 1)) t"
    using pw tw by (auto simp: c intro: was_written_later)
  moreover have "was_written HSW_PIPEA_SRC (push_bit 16 (w - 1) OR (h - 1)) t" using tw by (simp add: pa c)
  ultimately show ?thesis using assms(1) by (simp add: tp pa c Let_def)
qed

definition hd_demo :: hd4600 where
  "hd_demo = \<lparr>ctx = \<lparr>c_bus = 0, c_slot = 2, c_func = 0, c_device_id = 0x0412, c_mmio_base = 0xF0000000,
     c_mmio_size = 0x200000, stolen_base = 0, c_fb_phys = 0, c_fb_virt = 0, c_fb_size = 0, fb_stride = 0,
     mode_width = 1024, mode_height = 768, refresh_rate = 60, c_initialized = True\<rparr>,
     c_trace = [], c_mem = (\<lambda>_. 0), c_con = monitor_demo\<rparr>"

theorem hd4600_set_mode_correct_witness:
  "fst (intel_hd4600_set_mode (pci_machine cfg_demo) 1366 768 hd_demo) = 0
     \<and> was_written HSW_DSPASTRIDE 5464 (snd (intel_hd4600_set_mode (pci_machine cfg_demo) 1366 768 hd_demo))"
  using hd4600_set_mode_correct [of hd_demo 1366 768 "pci_machine cfg_demo"] by (simp add: hd_demo_def Let_def)

end
