(* ===== verification/AppManager.thy ===== *)
theory AppManager
  imports Scheduler Console
begin

text \<open>
  The application manager, \<^verbatim>\<open>apps/app_manager.c\<close>: a table of 16 applications, each tied
  to a process of the process component by its pid. Function pointers are the names of the C
  functions they hold; \<open>run\<close> says what calling one does, \<open>entry\<close> is the address of
  \<open>calculator_process_entry\<close>. Process creation and termination use the heap and return an
  option, as in the process component.
\<close>

section \<open>State\<close>

datatype app_type = APP_CALCULATOR | APP_TEXT_EDITOR | APP_FILE_BROWSER | APP_TERMINAL

datatype app_function = Start_calculator_app | Update_calculator_app

record app =
  app_kind :: app_type
  app_pid :: u32
  app_active :: bool
  init_func :: "app_function option"
  update_func :: "app_function option"
  cleanup_func :: "app_function option"

record app_manager =
  apps :: "nat \<Rightarrow> app"
  app_count :: nat
  kern :: kernel

abbreviation MAX_APPS :: nat where "MAX_APPS \<equiv> 16"

definition app_say :: "out list \<Rightarrow> app_manager \<Rightarrow> app_manager" where
  "app_say os s = s\<lparr>kern := (kern s)\<lparr>con := print_all os (con (kern s))\<rparr>\<rparr>"

definition set_app :: "nat \<Rightarrow> (app \<Rightarrow> app) \<Rightarrow> app_manager \<Rightarrow> app_manager" where
  "set_app i f s = s\<lparr>apps := (apps s)(i := f (apps s i))\<rparr>"

section \<open>Operations\<close>

definition app_manager_init :: "app_manager \<Rightarrow> app_manager" where
  "app_manager_init s =
     (let s = fold (\<lambda>i. set_app i (\<lambda>a. a\<lparr>app_active := False, app_pid := 0\<rparr>)) [0..<MAX_APPS] s
      in app_say [Str ''[APP] Application Manager initialized'', NL] (s\<lparr>app_count := 0\<rparr>))"

text \<open>The running application of a type with the lowest number.\<close>

definition running :: "app_type \<Rightarrow> app_manager \<Rightarrow> nat option" where
  "running type s = find (\<lambda>i. app_active (apps s i) \<and> app_kind (apps s i) = type) [0..<app_count s]"

text \<open>Giving the slot back when the application cannot be started.\<close>

definition give_up :: "nat \<Rightarrow> string \<Rightarrow> app_manager \<Rightarrow> int \<times> app_manager" where
  "give_up i msg s =
     (- 1, set_app i (\<lambda>a. a\<lparr>app_active := False\<rparr>) (app_say [Str msg, NL] s)\<lparr>app_count := app_count s - 1\<rparr>)"

text \<open>The \<open>APP_CALCULATOR\<close> case of the switch, and the whole switch.\<close>

definition start_calculator :: "u32 \<Rightarrow> nat \<Rightarrow> app_manager \<Rightarrow> (int \<times> app_manager) option" where
  "start_calculator entry i s =
     (let s = set_app i (\<lambda>a. a\<lparr>init_func := Some Start_calculator_app,
                update_func := Some Update_calculator_app, cleanup_func := None\<rparr>) s
      in (case process_create (chars ''calculator'') entry (kern s) of
            None \<Rightarrow> None
          | Some (p, k) \<Rightarrow>
              (let s = s\<lparr>kern := k\<rparr> in
               if p \<noteq> 0
               then let s = set_app i (\<lambda>a. a\<lparr>app_pid := pid (procs k p)\<rparr>) s
                    in Some (int i, app_say [Str ''[APP] Launched Calculator (PID '',
                         Dec (app_pid (apps s i)), Str '')'', NL] s)
               else Some (give_up i ''[APP] Failed to create calculator process'' s))))"

definition start_app :: "u32 \<Rightarrow> app_type \<Rightarrow> nat \<Rightarrow> app_manager \<Rightarrow> (int \<times> app_manager) option" where
  "start_app entry type i s =
     (let s = set_app i (\<lambda>a. a\<lparr>app_kind := type, app_active := True\<rparr>) (s\<lparr>app_count := i + 1\<rparr>)
      in case type of
           APP_CALCULATOR \<Rightarrow> start_calculator entry i s
         | APP_TEXT_EDITOR \<Rightarrow> Some (give_up i ''[APP] Text editor not yet implemented'' s)
         | APP_FILE_BROWSER \<Rightarrow> Some (give_up i ''[APP] File browser not yet implemented'' s)
         | APP_TERMINAL \<Rightarrow> Some (give_up i ''[APP] Terminal not yet implemented'' s))"

definition app_launch :: "u32 \<Rightarrow> app_type \<Rightarrow> app_manager \<Rightarrow> (int \<times> app_manager) option" where
  "app_launch entry type s =
     (if app_count s \<ge> MAX_APPS then Some (- 1, app_say [Str ''[APP] Error: Too many apps running'', NL] s)
      else case running type s of
        Some i \<Rightarrow> Some (int i, app_say [Str ''[APP] App already running'', NL] s)
      | None \<Rightarrow> start_app entry type (app_count s) s)"

text \<open>The slot of the process table that holds a process with the given pid.\<close>

definition slot_of_pid :: "u32 \<Rightarrow> kernel \<Rightarrow> nat option" where
  "slot_of_pid n k = find (\<lambda>i. process_table k i \<noteq> 0 \<and> pid (procs k (process_table k i)) = n) [0..<MAX_PROCESSES]"

definition close_active ::
  "(app_function \<Rightarrow> app_manager \<Rightarrow> app_manager) \<Rightarrow> nat \<Rightarrow> app_manager \<Rightarrow> app_manager option" where
  "close_active run i s =
     (let s = (case cleanup_func (apps s i) of Some f \<Rightarrow> run f s | None \<Rightarrow> s);
          r = (case slot_of_pid (app_pid (apps s i)) (kern s) of
                 None \<Rightarrow> Some (kern s)
               | Some j \<Rightarrow> process_terminate (process_table (kern s) j) (kern s))
      in map_option (\<lambda>k. let s = set_app i (\<lambda>a. a\<lparr>app_active := False\<rparr>) (s\<lparr>kern := k\<rparr>)
           in app_say [Str ''[APP] Closed app (PID '', Dec (app_pid (apps s i)), Str '')'', NL] s) r)"

definition app_close ::
  "(app_function \<Rightarrow> app_manager \<Rightarrow> app_manager) \<Rightarrow> int \<Rightarrow> app_manager \<Rightarrow> app_manager option" where
  "app_close run app_id s =
     (if app_id < 0 \<or> app_id \<ge> int (app_count s) then Some s
      else if \<not> app_active (apps s (nat app_id)) then Some s
      else close_active run (nat app_id) s)"

definition process_alive :: "u32 \<Rightarrow> kernel \<Rightarrow> bool" where
  "process_alive n k = list_ex (\<lambda>i. process_table k i \<noteq> 0 \<and> pid (procs k (process_table k i)) = n
     \<and> proc_state (procs k (process_table k i)) \<noteq> PROCESS_TERMINATED) [0..<MAX_PROCESSES]"

definition app_manager_update :: "app_manager \<Rightarrow> app_manager" where
  "app_manager_update s =
     fold (\<lambda>i s. if app_active (apps s i) \<and> \<not> process_alive (app_pid (apps s i)) (kern s)
                 then set_app i (\<lambda>a. a\<lparr>app_active := False\<rparr>) s else s) [0..<app_count s] s"

definition app_get_info :: "int \<Rightarrow> app_manager \<Rightarrow> app option" where
  "app_get_info app_id s = (if app_id < 0 \<or> app_id \<ge> int (app_count s) then None else Some (apps s (nat app_id)))"

section \<open>Frames\<close>

lemma app_say_frame [frame_simps]:
  "apps (app_say os s) = apps s" "app_count (app_say os s) = app_count s"
  "procs (kern (app_say os s)) = procs (kern s)" "process_table (kern (app_say os s)) = process_table (kern s)"
  by (simp_all add: app_say_def)

lemma set_app_frame [frame_simps]:
  "apps (set_app i f s) = (apps s)(i := f (apps s i))" "app_count (set_app i f s) = app_count s"
  "kern (set_app i f s) = kern s"
  by (simp_all add: set_app_def)

lemma give_up_frame [frame_simps]:
  "app_count (snd (give_up i msg s)) = app_count s - 1" "fst (give_up i msg s) = - 1"
  "apps (snd (give_up i msg s)) = (apps s)(i := (apps s i)\<lparr>app_active := False\<rparr>)"
  by (simp_all add: give_up_def frame_simps)

lemma close_active_count:
  assumes "\<And>f t. app_count (run f t) = app_count t" and "close_active run i s = Some t"
  shows "app_count t = app_count s"
proof -
  define u where "u = (case cleanup_func (apps s i) of Some f \<Rightarrow> run f s | None \<Rightarrow> s)"
  have u: "app_count u = app_count s" by (simp add: u_def assms(1) split: option.split)
  from assms(2) show ?thesis
    unfolding close_active_def u_def [symmetric] Let_def by (auto simp: frame_simps u)
qed

lemma app_close_count:
  assumes "\<And>f t. app_count (run f t) = app_count t" and "app_close run app_id s = Some t"
  shows "app_count t = app_count s"
  using assms(2) close_active_count [of run, OF assms(1)]
  unfolding app_close_def by (simp split: if_splits)

lemma update_fold:
  "app_count (fold (\<lambda>i s. if app_active (apps s i) \<and> \<not> process_alive (app_pid (apps s i)) (kern s)
       then set_app i (\<lambda>a. a\<lparr>app_active := False\<rparr>) s else s) is s) = app_count s
   \<and> kern (fold (\<lambda>i s. if app_active (apps s i) \<and> \<not> process_alive (app_pid (apps s i)) (kern s)
       then set_app i (\<lambda>a. a\<lparr>app_active := False\<rparr>) s else s) is s) = kern s
   \<and> apps (fold (\<lambda>i s. if app_active (apps s i) \<and> \<not> process_alive (app_pid (apps s i)) (kern s)
       then set_app i (\<lambda>a. a\<lparr>app_active := False\<rparr>) s else s) is s) j =
      (if j \<in> set is \<and> \<not> process_alive (app_pid (apps s j)) (kern s)
       then (apps s j)\<lparr>app_active := False\<rparr> else apps s j)"
proof (induction "is" arbitrary: s)
  case (Cons i "is")
  have [simp]: "\<not> app_active a \<Longrightarrow> a\<lparr>app_active := False\<rparr> = a" for a :: app by (cases a) simp
  show ?case using Cons by (auto simp: frame_simps)
qed simp

lemma app_manager_update_frame [frame_simps]:
  "app_count (app_manager_update s) = app_count s" "kern (app_manager_update s) = kern s"
  using update_fold [of "[0..<app_count s]" s] unfolding app_manager_update_def by blast+

lemma app_manager_update_apps:
  "apps (app_manager_update s) j =
     (if j < app_count s \<and> \<not> process_alive (app_pid (apps s j)) (kern s)
      then (apps s j)\<lparr>app_active := False\<rparr> else apps s j)"
  using update_fold [of "[0..<app_count s]" s j] unfolding app_manager_update_def by simp

lemma find_Some_upt: "find P [0..<n] = Some i \<Longrightarrow> i < n \<and> P i"
  by (auto simp: find_Some_iff)

lemma start_calculator_count:
  assumes "start_calculator entry i s = Some (r, t)"
  shows "app_count t = app_count s - 1 \<and> r = - 1 \<or> app_count t = app_count s \<and> r = int i"
  using assms unfolding start_calculator_def Let_def
  by (auto simp: give_up_def frame_simps split: option.splits if_splits)

lemma start_app_count:
  assumes "start_app entry type i s = Some (r, t)"
  shows "app_count t = i \<and> r = - 1 \<or> app_count t = Suc i \<and> r = int i"
proof (cases "type = APP_CALCULATOR")
  case True
  with assms show ?thesis
    unfolding start_app_def Let_def by (auto dest: start_calculator_count simp: frame_simps)
next
  case False
  with assms show ?thesis unfolding start_app_def Let_def
    by (cases type) (simp_all add: give_up_def frame_simps, auto simp: frame_simps)
qed

lemma app_launch_count:
  assumes "app_launch entry type s = Some (r, t)"
  shows "app_count t = app_count s \<and> (r = - 1 \<or> (\<exists>i<app_count s. r = int i \<and> app_active (apps s i)))
     \<or> app_count t = Suc (app_count s) \<and> r = int (app_count s)"
proof (cases "app_count s \<ge> MAX_APPS")
  case True
  with assms show ?thesis by (auto simp: app_launch_def frame_simps)
next
  case False
  show ?thesis
  proof (cases "running type s")
    case None
    with False assms have "start_app entry type (app_count s) s = Some (r, t)" by (simp add: app_launch_def)
    from start_app_count [OF this] show ?thesis by auto
  next
    case (Some i)
    with False assms have "r = int i" "app_count t = app_count s"
      by (auto simp: app_launch_def frame_simps)
    moreover from Some have "i < app_count s \<and> app_active (apps s i)"
      unfolding running_def by (auto dest: find_Some_upt)
    ultimately show ?thesis by blast
  qed
qed

section \<open>Properties\<close>

datatype app_event = Launch app_type | Close int | Update

fun app_step :: "u32 \<Rightarrow> (app_function \<Rightarrow> app_manager \<Rightarrow> app_manager) \<Rightarrow> app_event \<Rightarrow> app_manager \<Rightarrow> app_manager option" where
  "app_step entry run (Launch type) s = map_option snd (app_launch entry type s)"
| "app_step entry run (Close i) s = app_close run i s"
| "app_step entry run Update s = Some (app_manager_update s)"

inductive app_steps :: "u32 \<Rightarrow> (app_function \<Rightarrow> app_manager \<Rightarrow> app_manager) \<Rightarrow> app_manager \<Rightarrow> app_manager \<Rightarrow> bool"
  for entry run where
  none: "app_steps entry run s s"
| step: "app_steps entry run s t \<Longrightarrow> app_step entry run e t = Some u \<Longrightarrow> app_steps entry run s u"

lemma app_step_count:
  assumes "\<And>f t. app_count (run f t) = app_count t" and "app_step entry run e s = Some t"
  shows "app_count s \<le> app_count t"
proof (cases e)
  case (Launch type)
  with assms(2) obtain r where "app_launch entry type s = Some (r, t)" by auto
  from app_launch_count [OF this] show ?thesis by auto
next
  case (Close i)
  with assms(2) have "app_close run i s = Some t" by simp
  from app_close_count [OF assms(1) this] show ?thesis by simp
next
  case Update
  with assms(2) show ?thesis by (auto simp: frame_simps)
qed

text \<open>
  Remark. Slots of the application table are never reused: no sequence of launches, closes
  and updates lowers the count, so once 16 applications have been started every further launch
  fails, whatever has been closed since.
\<close>

theorem apps_run_out:
  assumes "\<And>f t. app_count (run f t) = app_count t"
    and "app_steps entry run s t" and "app_count s \<ge> MAX_APPS"
  shows "app_launch entry type t = Some (- 1, app_say [Str ''[APP] Error: Too many apps running'', NL] t)"
proof -
  from assms(2) have "app_count s \<le> app_count t"
    by (induction rule: app_steps.induct) (auto dest: app_step_count [OF assms(1)])
  with assms(3) show ?thesis by (simp add: app_launch_def)
qed

definition app_none :: app where
  "app_none = \<lparr>app_kind = APP_CALCULATOR, app_pid = 0, app_active = False, init_func = None,
     update_func = None, cleanup_func = None\<rparr>"

theorem apps_run_out_witness:
  "fst (the (app_launch 0x100000 APP_CALCULATOR
     (app_manager_update \<lparr>apps = (\<lambda>_. app_none), app_count = 16, kern = kernel_zero\<rparr>))) = - 1"
proof -
  let ?s = "\<lparr>apps = (\<lambda>_. app_none), app_count = 16, kern = kernel_zero\<rparr>"
  have "app_steps 0x100000 (\<lambda>_ s. s) ?s (app_manager_update ?s)"
    by (rule app_steps.step [OF app_steps.none, of _ _ Update]) simp
  from apps_run_out [OF _ this] show ?thesis by simp
qed

text \<open>
  Remark. Launching is idempotent and updates forget the dead: launching an application
  that is already active returns its number and starts nothing, an application not yet
  implemented leaves no trace in the table, and an update keeps exactly the applications whose
  process is still in the process table and not terminated.
\<close>

theorem app_launch_correct:
  assumes "app_count s < MAX_APPS"
  shows "(\<forall>i. running type s = Some i \<longrightarrow>
        app_launch entry type s = Some (int i, app_say [Str ''[APP] App already running'', NL] s)
        \<and> i < app_count s \<and> app_active (apps s i) \<and> app_kind (apps s i) = type)
     \<and> (running type s = None \<and> type \<noteq> APP_CALCULATOR \<longrightarrow>
        (\<exists>t. app_launch entry type s = Some (- 1, t) \<and> app_count t = app_count s
           \<and> (\<forall>i<app_count s. apps t i = apps s i)))
     \<and> (\<forall>i<app_count s. app_active (apps (app_manager_update s) i) \<longleftrightarrow>
          app_active (apps s i) \<and> process_alive (app_pid (apps s i)) (kern s))"
proof (intro conjI allI impI)
  fix i assume r: "running type s = Some i"
  with assms show "app_launch entry type s = Some (int i, app_say [Str ''[APP] App already running'', NL] s)"
    by (simp add: app_launch_def)
  from r show "i < app_count s" "app_active (apps s i)" "app_kind (apps s i) = type"
    unfolding running_def by (auto dest: find_Some_upt)
next
  assume "running type s = None \<and> type \<noteq> APP_CALCULATOR"
  with assms show "\<exists>t. app_launch entry type s = Some (- 1, t) \<and> app_count t = app_count s
      \<and> (\<forall>i<app_count s. apps t i = apps s i)"
    by (cases type) (simp_all add: app_launch_def start_app_def give_up_def Let_def frame_simps)
next
  fix i assume "i < app_count s"
  then show "app_active (apps (app_manager_update s) i) \<longleftrightarrow>
      app_active (apps s i) \<and> process_alive (app_pid (apps s i)) (kern s)"
    by (simp add: app_manager_update_apps)
qed

theorem app_launch_correct_witness:
  "running APP_TERMINAL \<lparr>apps = (\<lambda>_. app_none), app_count = 0, kern = kernel_zero\<rparr> = None
   \<and> (\<exists>t. app_launch 0x100000 APP_TERMINAL \<lparr>apps = (\<lambda>_. app_none), app_count = 0, kern = kernel_zero\<rparr> = Some (- 1, t))"
  using app_launch_correct [of "\<lparr>apps = (\<lambda>_. app_none), app_count = 0, kern = kernel_zero\<rparr>" APP_TERMINAL "0x100000"]
  by (auto simp: running_def)

end
