(* ===== verification/Color.thy ===== *)
theory Color
  imports Floats
begin

text \<open>
  Colours, \<^verbatim>\<open>gui/color.c\<close> and \<^verbatim>\<open>gui/color.h\<close>: RGBA values, the palette, the mapping
  to the colours of the drawing code, and the functions that blend, darken, lighten and mix,
  over a single-precision arithmetic \<open>F\<close>. The arithmetic of \<open>rgba_to_vga\<close> is on \<open>int\<close>.
\<close>

record rgba_color =
  red :: u8
  green :: u8
  blue :: u8
  alpha :: u8

definition rgba :: "u8 \<Rightarrow> u8 \<Rightarrow> u8 \<Rightarrow> u8 \<Rightarrow> rgba_color" where
  "rgba cr cg cb ca = \<lparr>red = cr, green = cg, blue = cb, alpha = ca\<rparr>"

definition COLOR_MD_RED :: rgba_color where "COLOR_MD_RED = rgba 244 67 54 255"
definition COLOR_MD_PINK :: rgba_color where "COLOR_MD_PINK = rgba 233 30 99 255"
definition COLOR_MD_PURPLE :: rgba_color where "COLOR_MD_PURPLE = rgba 156 39 176 255"
definition COLOR_MD_DEEP_PURPLE :: rgba_color where "COLOR_MD_DEEP_PURPLE = rgba 103 58 183 255"
definition COLOR_MD_INDIGO :: rgba_color where "COLOR_MD_INDIGO = rgba 63 81 181 255"
definition COLOR_MD_BLUE :: rgba_color where "COLOR_MD_BLUE = rgba 33 150 243 255"
definition COLOR_MD_LIGHT_BLUE :: rgba_color where "COLOR_MD_LIGHT_BLUE = rgba 3 169 244 255"
definition COLOR_MD_CYAN :: rgba_color where "COLOR_MD_CYAN = rgba 0 188 212 255"
definition COLOR_MD_TEAL :: rgba_color where "COLOR_MD_TEAL = rgba 0 150 136 255"
definition COLOR_MD_GREEN :: rgba_color where "COLOR_MD_GREEN = rgba 76 175 80 255"
definition COLOR_MD_LIGHT_GREEN :: rgba_color where "COLOR_MD_LIGHT_GREEN = rgba 139 195 74 255"
definition COLOR_MD_LIME :: rgba_color where "COLOR_MD_LIME = rgba 205 220 57 255"
definition COLOR_MD_YELLOW :: rgba_color where "COLOR_MD_YELLOW = rgba 255 235 59 255"
definition COLOR_MD_AMBER :: rgba_color where "COLOR_MD_AMBER = rgba 255 193 7 255"
definition COLOR_MD_ORANGE :: rgba_color where "COLOR_MD_ORANGE = rgba 255 152 0 255"
definition COLOR_MD_DEEP_ORANGE :: rgba_color where "COLOR_MD_DEEP_ORANGE = rgba 255 87 34 255"
definition COLOR_MD_GRAY_50 :: rgba_color where "COLOR_MD_GRAY_50 = rgba 250 250 250 255"
definition COLOR_MD_GRAY_100 :: rgba_color where "COLOR_MD_GRAY_100 = rgba 245 245 245 255"
definition COLOR_MD_GRAY_200 :: rgba_color where "COLOR_MD_GRAY_200 = rgba 238 238 238 255"
definition COLOR_MD_GRAY_300 :: rgba_color where "COLOR_MD_GRAY_300 = rgba 224 224 224 255"
definition COLOR_MD_GRAY_400 :: rgba_color where "COLOR_MD_GRAY_400 = rgba 189 189 189 255"
definition COLOR_MD_GRAY_500 :: rgba_color where "COLOR_MD_GRAY_500 = rgba 158 158 158 255"
definition COLOR_MD_GRAY_600 :: rgba_color where "COLOR_MD_GRAY_600 = rgba 117 117 117 255"
definition COLOR_MD_GRAY_700 :: rgba_color where "COLOR_MD_GRAY_700 = rgba 97 97 97 255"
definition COLOR_MD_GRAY_800 :: rgba_color where "COLOR_MD_GRAY_800 = rgba 66 66 66 255"
definition COLOR_MD_GRAY_900 :: rgba_color where "COLOR_MD_GRAY_900 = rgba 33 33 33 255"
definition COLOR_WHITE :: rgba_color where "COLOR_WHITE = rgba 255 255 255 255"
definition COLOR_BLACK :: rgba_color where "COLOR_BLACK = rgba 0 0 0 255"
definition COLOR_TRANSPARENT :: rgba_color where "COLOR_TRANSPARENT = rgba 0 0 0 0"
definition COLOR_UBUNTU_ORANGE :: rgba_color where "COLOR_UBUNTU_ORANGE = rgba 233 84 32 255"
definition COLOR_UBUNTU_PURPLE :: rgba_color where "COLOR_UBUNTU_PURPLE = rgba 119 41 83 255"
definition COLOR_UBUNTU_AUBERGINE :: rgba_color where "COLOR_UBUNTU_AUBERGINE = rgba 46 52 54 255"

text \<open>The branches of \<open>rgba_to_vga\<close> in their order: grey levels, then the dominant channels.\<close>

definition gray_level :: "int \<Rightarrow> u8" where
  "gray_level intensity =
     (if intensity < 32 then 0x00 else if intensity < 96 then 0x08 else if intensity < 160 then 0x07
      else if intensity < 224 then 0x38 else 0x3F)"

definition channel_color :: "int \<Rightarrow> int \<Rightarrow> int \<Rightarrow> u8" where
  "channel_color cr cg cb =
     (let r5 = (cr * 5) div 255; g5 = (cg * 5) div 255; b5 = (cb * 5) div 255 in
      if r5 > 3 \<and> g5 < 2 \<and> b5 < 2 then 0x0C
      else if g5 > 3 \<and> r5 < 2 \<and> b5 < 2 then 0x02
      else if b5 > 3 \<and> r5 < 2 \<and> g5 < 2 then 0x09
      else if r5 > 3 \<and> g5 > 3 \<and> b5 < 2 then 0x0E
      else if r5 > 3 \<and> b5 > 3 \<and> g5 < 2 then 0x0D
      else if g5 > 3 \<and> b5 > 3 \<and> r5 < 2 then 0x0B
      else if cr + cg + cb < 128 then 0x08
      else if cr + cg + cb < 384 then 0x07
      else 0x38)"

definition rgba_to_vga :: "rgba_color \<Rightarrow> u8" where
  "rgba_to_vga c =
     (let cr = uint (red c); cg = uint (green c); cb = uint (blue c) in
      if uint (alpha c) < 128 then 0xFF
      else if cr = 0 \<and> cg = 0 \<and> cb = 0 then 0
      else if cr \<ge> 250 \<and> cg \<ge> 250 \<and> cb \<ge> 250 then 0x3F
      else if cr > 200 \<and> cg < 120 \<and> cb < 60 then 0x0C
      else if cr > 100 \<and> cr < 150 \<and> cg < 60 \<and> cb > 60 then 0x05
      else if \<bar>cr - cg\<bar> < 30 \<and> \<bar>cr - cb\<bar> < 30 then gray_level ((cr + cg + cb) div 3)
      else channel_color cr cg cb)"

text \<open>The functions on \<open>float\<close>: a channel is converted with truncation.\<close>

definition float_byte :: "'f floats \<Rightarrow> 'f \<Rightarrow> u8" where
  "float_byte F x = word_of_int (f_trunc F x)"

definition byte_float :: "'f floats \<Rightarrow> u8 \<Rightarrow> 'f" where
  "byte_float F b = f_of_int F (uint b)"

definition rgba_blend :: "'f floats \<Rightarrow> rgba_color \<Rightarrow> rgba_color \<Rightarrow> rgba_color" where
  "rgba_blend F fg bg =
     (if alpha fg = 255 then fg
      else if alpha fg = 0 then bg
      else let al = f_div F (byte_float F (alpha fg)) (f_of_int F 255);
               inv_alpha = f_sub F (f_of_int F 1) al;
               mix = (\<lambda>f b. float_byte F (f_add F (f_mul F (byte_float F f) al) (f_mul F (byte_float F b) inv_alpha)))
           in \<lparr>red = mix (red fg) (red bg), green = mix (green fg) (green bg), blue = mix (blue fg) (blue bg),
               alpha = 255\<rparr>)"

definition clamp_unit :: "'f floats \<Rightarrow> 'f \<Rightarrow> 'f" where
  "clamp_unit F factor =
     (let factor = (if f_less F factor (f_of_int F 0) then f_of_int F 0 else factor)
      in (if f_less F (f_of_int F 1) factor then f_of_int F 1 else factor))"

definition rgba_darken :: "'f floats \<Rightarrow> rgba_color \<Rightarrow> 'f \<Rightarrow> rgba_color" where
  "rgba_darken F c factor =
     (let factor = clamp_unit F factor;
          dark = (\<lambda>v. float_byte F (f_mul F (byte_float F v) factor))
      in \<lparr>red = dark (red c), green = dark (green c), blue = dark (blue c), alpha = alpha c\<rparr>)"

definition rgba_lighten :: "'f floats \<Rightarrow> rgba_color \<Rightarrow> 'f \<Rightarrow> rgba_color" where
  "rgba_lighten F c factor =
     (let factor = (if f_less F factor (f_of_int F 1) then f_of_int F 1 else factor);
          light = (\<lambda>v. uint v + f_trunc F (f_mul F (f_of_int F (255 - uint v)) (f_sub F factor (f_of_int F 1))));
          byte = (\<lambda>n. if n > 255 then 255 else word_of_int n)
      in \<lparr>red = byte (light (red c)), green = byte (light (green c)), blue = byte (light (blue c)),
          alpha = alpha c\<rparr>)"

definition rgba_mix :: "'f floats \<Rightarrow> rgba_color \<Rightarrow> rgba_color \<Rightarrow> 'f \<Rightarrow> rgba_color" where
  "rgba_mix F c1 c2 ratio =
     (let ratio = clamp_unit F ratio;
          inv_ratio = f_sub F (f_of_int F 1) ratio;
          mix = (\<lambda>a b. float_byte F (f_add F (f_mul F (byte_float F a) inv_ratio) (f_mul F (byte_float F b) ratio)))
      in \<lparr>red = mix (red c1) (red c2), green = mix (green c1) (green c2), blue = mix (blue c1) (blue c2),
          alpha = mix (alpha c1) (alpha c2)\<rparr>)"

section \<open>Properties\<close>

lemma gray_level_mono: "x \<le> y \<Longrightarrow> gray_level x = 0x3F \<Longrightarrow> gray_level y = 0x3F"
  by (auto simp: gray_level_def split: if_splits)

text \<open>
  Remark. The mapping is total on a palette of twelve colours and the marker \<open>0xFF\<close>, which
  it gives for exactly the colours less than half opaque. A grey is mapped by its level, from
  black below 32 to white from 224 on.
\<close>

theorem rgba_to_vga_palette:
  "rgba_to_vga c \<in> {0x00, 0x02, 0x05, 0x07, 0x08, 0x09, 0x0B, 0x0C, 0x0D, 0x0E, 0x38, 0x3F, 0xFF}
   \<and> (rgba_to_vga c = 0xFF \<longleftrightarrow> alpha c < 0x80)
   \<and> rgba_to_vga (rgba v v v 255) = gray_level (uint v)"
proof (intro conjI)
  have lt: "alpha c < 0x80 \<longleftrightarrow> uint (alpha c) < 128" by (simp add: word_less_def)
  have ch: "channel_color x y z \<in> {0x02, 0x07, 0x08, 0x09, 0x0B, 0x0C, 0x0D, 0x0E, 0x38}" for x y z
    by (simp add: channel_color_def Let_def)
  have gr: "gray_level x \<in> {0x00, 0x08, 0x07, 0x38, 0x3F}" for x by (simp add: gray_level_def)
  have p: "uint (alpha c) \<ge> 128 \<Longrightarrow> rgba_to_vga c \<in> {0x00, 0x02, 0x05, 0x07, 0x08, 0x09, 0x0B, 0x0C, 0x0D, 0x0E, 0x38, 0x3F}"
    using ch [of "uint (red c)" "uint (green c)" "uint (blue c)"] gr [of "(uint (red c) + uint (green c) + uint (blue c)) div 3"]
    by (auto simp: rgba_to_vga_def Let_def)
  have q: "uint (alpha c) < 128 \<Longrightarrow> rgba_to_vga c = 0xFF" by (simp add: rgba_to_vga_def)
  show "rgba_to_vga c \<in> {0x00, 0x02, 0x05, 0x07, 0x08, 0x09, 0x0B, 0x0C, 0x0D, 0x0E, 0x38, 0x3F, 0xFF}"
    using p q by (cases "uint (alpha c) < 128") auto
  show "rgba_to_vga c = 0xFF \<longleftrightarrow> alpha c < 0x80"
    unfolding lt using p q by (cases "uint (alpha c) < 128") auto
  have "uint v \<ge> 0" "uint v < 256" using uint_lt2p [of v] by simp_all
  then show "rgba_to_vga (rgba v v v 255) = gray_level (uint v)"
    by (simp add: rgba_to_vga_def rgba_def gray_level_def Let_def)
qed

text \<open>
  Remark. The rule commented as the one for the orange of the Material palette does not
  apply to it: \<open>COLOR_MD_ORANGE\<close> becomes light grey, like \<open>COLOR_MD_GREEN\<close> becomes grey, so the
  operator and equals keys of the calculator are drawn without their colours.
\<close>

theorem rgba_orange_is_gray:
  "rgba_to_vga COLOR_MD_ORANGE = gray_level 200 \<and> rgba_to_vga COLOR_MD_GREEN = gray_level 100
   \<and> rgba_to_vga COLOR_MD_RED = 0x0C"
  by (simp add: COLOR_MD_ORANGE_def COLOR_MD_GREEN_def COLOR_MD_RED_def rgba_def rgba_to_vga_def
      gray_level_def channel_color_def)

section \<open>Blending\<close>

lemma f_exact_unit: "f_exact 0" "f_exact 1"
  by (simp_all add: f_exact_def)

lemma clamp_unit_ends:
  assumes "exact_floats F"
  shows "f_less F r (f_of_int F 0) \<or> r = f_of_int F 0 \<Longrightarrow> clamp_unit F r = f_of_int F 0"
    and "f_less F (f_of_int F 1) r \<and> \<not> f_less F r (f_of_int F 0) \<or> r = f_of_int F 1 \<Longrightarrow> clamp_unit F r = f_of_int F 1"
  using exact_floatsD(5) [OF assms f_exact_unit(2,1)] exact_floatsD(5) [OF assms f_exact_unit(1,1)]
    exact_floatsD(5) [OF assms f_exact_unit(2,2)]
  by (auto simp: clamp_unit_def Let_def)

text \<open>A byte scaled by 0 or 1 and added to another such byte.\<close>

lemma byte_scaled:
  assumes "exact_floats F"
  shows "f_mul F (byte_float F b) (f_of_int F 0) = f_of_int F 0"
    and "f_mul F (byte_float F b) (f_of_int F 1) = byte_float F b"
    and "f_add F (byte_float F b) (f_of_int F 0) = byte_float F b"
    and "f_add F (f_of_int F 0) (byte_float F b) = byte_float F b"
    and "f_sub F (f_of_int F 1) (f_of_int F 0) = f_of_int F 1"
    and "f_sub F (f_of_int F 1) (f_of_int F 1) = f_of_int F 0"
    and "float_byte F (byte_float F b) = b"
    and "float_byte F (f_of_int F 0) = 0"
  using exact_floatsD [OF assms f_exact_byte [of b] f_exact_unit(1)] exact_floatsD [OF assms f_exact_byte [of b] f_exact_unit(2)]
    exact_floatsD [OF assms f_exact_unit(1) f_exact_byte [of b]] exact_floatsD [OF assms f_exact_unit(2,1)]
    exact_floatsD [OF assms f_exact_unit(2,2)] exact_floatsD [OF assms f_exact_unit(1,1)]
    f_exact_byte [of b] f_exact_unit
  by (simp_all add: byte_float_def float_byte_def)

text \<open>
  Remark. Under single-precision arithmetic that is exact on small integers: a mixture at
  ratio 0 or below is the first colour and at 1 or above the second, darkening by 1 or more
  changes nothing and by 0 or less gives black of the same opacity, and lightening by 1 or less
  changes nothing. An opaque colour covers the one below it, a transparent one shows it, and
  anything between gives an opaque colour.
\<close>

theorem rgba_float_ends:
  assumes "exact_floats F"
    and "f_less F low (f_of_int F 0) \<or> low = f_of_int F 0"
    and "f_less F (f_of_int F 1) high \<and> \<not> f_less F high (f_of_int F 0) \<or> high = f_of_int F 1"
  shows "rgba_mix F c1 c2 low = c1 \<and> rgba_mix F c1 c2 high = c2
     \<and> rgba_darken F c1 high = c1 \<and> rgba_darken F c1 low = rgba 0 0 0 (alpha c1)
     \<and> rgba_lighten F c1 (f_of_int F 1) = c1 \<and> rgba_lighten F c1 (f_of_int F 2) = rgba 255 255 255 (alpha c1)
     \<and> rgba_blend F (c1\<lparr>alpha := 255\<rparr>) c2 = c1\<lparr>alpha := 255\<rparr> \<and> rgba_blend F (c1\<lparr>alpha := 0\<rparr>) c2 = c2
     \<and> (alpha c1 \<noteq> 0 \<longrightarrow> alpha (rgba_blend F c1 c2) = 255)"
proof -
  note e = exact_floatsD [OF assms(1)] and b = byte_scaled [OF assms(1)]
  note cl = clamp_unit_ends(1) [OF assms(1,2)] clamp_unit_ends(2) [OF assms(1,3)]
  have x: "f_exact (255 - uint v)" "f_exact 2" for v :: u8
    unfolding f_exact_def using uint_lt2p [of v, simplified] uint_ge_0 [of v] by linarith+
  have one: "f_less F (f_of_int F 1) (f_of_int F 1) = False" "f_less F (f_of_int F 2) (f_of_int F 1) = False"
    "f_sub F (f_of_int F 2) (f_of_int F 1) = f_of_int F 1"
    using e(5) [OF f_exact_unit(2,2)] e(5) [OF x(2) f_exact_unit(2)] e(2) [OF x(2) f_exact_unit(2)] f_exact_unit by simp_all
  have light: "f_trunc F (f_mul F (f_of_int F (255 - uint v)) (f_of_int F 0)) = 0"
    "f_trunc F (f_mul F (f_of_int F (255 - uint v)) (f_of_int F 1)) = 255 - uint v" for v :: u8
    using e(3) [OF x(1) [of v] f_exact_unit(1)] e(3) [OF x(1) [of v] f_exact_unit(2)] e(6) [OF f_exact_unit(1,1)]
      e(6) [OF x(1) [of v] x(1) [of v]] x(1) [of v] f_exact_unit by simp_all
  have "\<not> uint (v :: u8) > 255" for v using uint_lt2p [of v] by simp
  then show ?thesis
    by (simp add: rgba_mix_def rgba_darken_def rgba_lighten_def rgba_blend_def Let_def cl b one light rgba_def)
qed

theorem rgba_float_ends_witness:
  "rgba_mix rat_floats COLOR_MD_RED COLOR_MD_TEAL (- (1 / 2)) = COLOR_MD_RED
     \<and> rgba_darken rat_floats COLOR_MD_RED 3 = COLOR_MD_RED"
  using rgba_float_ends [OF rat_floats_exact, of "- (1 / 2)" 3 COLOR_MD_RED COLOR_MD_TEAL]
  by (simp add: rat_floats_def)

text \<open>
  Remark. With unrounded arithmetic a mixture is the linear interpolation of the two
  colours, each channel rounded down: it stays between the channels of the two colours, so the
  conversion to a byte never wraps.
\<close>

lemma interpolate_between:
  assumes "0 \<le> t" "t \<le> (1 :: rat)" and "a \<le> b"
  shows "of_int a \<le> of_int a * (1 - t) + of_int b * t" "of_int a * (1 - t) + of_int b * t \<le> of_int b"
proof -
  have d: "of_int a * (1 - t) + of_int b * t = of_int a + of_int (b - a) * t"
    "of_int b = of_int a + (of_int (b - a) :: rat)" by (simp_all add: algebra_simps)
  have "0 \<le> of_int (b - a) * t" "of_int (b - a) * t \<le> of_int (b - a)"
    using assms by (simp_all add: mult_left_le)
  then show "of_int a \<le> of_int a * (1 - t) + of_int b * t" "of_int a * (1 - t) + of_int b * t \<le> of_int b"
    using d by linarith+
qed

lemma interpolate_floor:
  assumes "0 \<le> t" "t \<le> (1 :: rat)"
  shows "min a b \<le> \<lfloor>of_int a * (1 - t) + of_int b * t\<rfloor>" "\<lfloor>of_int a * (1 - t) + of_int b * t\<rfloor> \<le> max a b"
proof -
  let ?v = "of_int a * (1 - t) + of_int b * t :: rat"
  have "of_int (min a b) \<le> ?v \<and> ?v \<le> of_int (max a b)"
  proof (cases "a \<le> b")
    case True
    then show ?thesis using interpolate_between [OF assms True] by simp
  next
    case False
    then have "b \<le> a" by simp
    moreover have "?v = of_int b * (1 - (1 - t)) + of_int a * (1 - t)" by simp
    ultimately show ?thesis using interpolate_between [of "1 - t" b a] assms by simp
  qed
  then show "min a b \<le> \<lfloor>?v\<rfloor>" "\<lfloor>?v\<rfloor> \<le> max a b" by (simp_all add: le_floor_iff floor_le_iff)
qed

lemma mix_byte:
  assumes "0 \<le> t" "t \<le> (1 :: rat)"
  shows "uint (float_byte rat_floats (f_add rat_floats (f_mul rat_floats (byte_float rat_floats a) (1 - t))
      (f_mul rat_floats (byte_float rat_floats b) t))) = \<lfloor>of_int (uint a) * (1 - t) + of_int (uint b) * t\<rfloor>"
proof -
  define m n where mn: "m = uint a" "n = uint b"
  have "0 \<le> m" "m < 256" "0 \<le> n" "n < 256"
    using uint_ge_0 [of a] uint_ge_0 [of b] uint_lt2p [of a, simplified] uint_lt2p [of b, simplified] unfolding mn by blast+
  then have v: "0 \<le> \<lfloor>of_int m * (1 - t) + of_int n * t\<rfloor>" "\<lfloor>of_int m * (1 - t) + of_int n * t\<rfloor> < 256"
    using interpolate_floor [OF assms, of m n] by linarith+
  then have "\<not> of_int m * (1 - t) + of_int n * t < 0" by (simp add: not_less)
  with v show ?thesis
    unfolding float_byte_def byte_float_def rat_floats_def mn [symmetric] by (simp add: uint_word_of_int)
qed

theorem rgba_mix_interpolates:
  assumes "0 \<le> t" and "t \<le> 1"
    and "channel \<in> {red, green, blue, alpha}"
  shows "uint (channel (rgba_mix rat_floats c1 c2 t)) = \<lfloor>of_int (uint (channel c1)) * (1 - t) + of_int (uint (channel c2)) * t\<rfloor>
     \<and> min (channel c1) (channel c2) \<le> channel (rgba_mix rat_floats c1 c2 t)
     \<and> channel (rgba_mix rat_floats c1 c2 t) \<le> max (channel c1) (channel c2)"
proof -
  have "clamp_unit rat_floats t = t" using assms(1,2) by (simp add: clamp_unit_def rat_floats_def)
  then have e: "uint (channel (rgba_mix rat_floats c1 c2 t))
      = \<lfloor>of_int (uint (channel c1)) * (1 - t) + of_int (uint (channel c2)) * t\<rfloor>"
    using assms(3) mix_byte [OF assms(1,2)]
    by (auto simp: rgba_mix_def Let_def) (simp_all add: rat_floats_def)
  with interpolate_floor [OF assms(1,2), of "uint (channel c1)" "uint (channel c2)"] show ?thesis
    by (auto simp: word_le_def min_def max_def split: if_splits)
qed

theorem rgba_mix_interpolates_witness:
  "red (rgba_mix rat_floats COLOR_WHITE COLOR_BLACK (1 / 2)) \<le> 255
     \<and> uint (red (rgba_mix rat_floats COLOR_WHITE COLOR_BLACK (1 / 2))) = 127"
proof -
  have "\<lfloor>255 / 2 :: rat\<rfloor> = 127" by (simp add: floor_unique)
  with rgba_mix_interpolates [of "1 / 2" red COLOR_WHITE COLOR_BLACK] show ?thesis
    by (simp add: COLOR_WHITE_def COLOR_BLACK_def rgba_def)
qed

end
