(* ===== verification/Calculator.thy ===== *)
theory Calculator
  imports Vga Color Mouse Monitor Complex_Main
begin

text \<open>
  The calculator, \<^verbatim>\<open>apps/calculator/calculator_app.c\<close>: a window with seventeen keys, a
  text display and a four-function machine behind it. The values are C \<open>double\<close>s, which are a
  type variable \<open>'d\<close> here: \<open>'d doubles\<close> lists the operations the code applies to them, so
  the results hold for whatever rounding the processor has; \<open>'f floats\<close> is the single-precision
  arithmetic of the colour functions. Coordinates follow the code's conversions
  between \<open>int32_t\<close> and \<open>uint32_t\<close>.
\<close>

section \<open>State\<close>

record 'd doubles =
  d_of_int :: "int \<Rightarrow> 'd"
  d_add :: "'d \<Rightarrow> 'd \<Rightarrow> 'd"
  d_sub :: "'d \<Rightarrow> 'd \<Rightarrow> 'd"
  d_mul :: "'d \<Rightarrow> 'd \<Rightarrow> 'd"
  d_div :: "'d \<Rightarrow> 'd \<Rightarrow> 'd"
  d_neg :: "'d \<Rightarrow> 'd"
  d_trunc :: "'d \<Rightarrow> u32"
  d_positive :: "'d \<Rightarrow> bool"
  d_nonzero :: "'d \<Rightarrow> bool"

record 'd calculator =
  calc_x :: u32
  calc_y :: u32
  calc_width :: u32
  calc_height :: u32
  display :: "nat \<Rightarrow> u8"
  display_len :: nat
  running :: bool
  dragging :: bool
  calc_drag_x :: int
  calc_drag_y :: int
  calc_value :: 'd
  stored_value :: 'd
  operation :: u8
  new_number :: bool

record button =
  btn_x :: int
  btn_y :: int
  btn_w :: u32
  btn_h :: u32
  btn_label :: u8
  btn_color :: rgba_color

definition button :: "int \<Rightarrow> int \<Rightarrow> u32 \<Rightarrow> u32 \<Rightarrow> char \<Rightarrow> rgba_color \<Rightarrow> button" where
  "button x y w h l c = \<lparr>btn_x = x, btn_y = y, btn_w = w, btn_h = h, btn_label = of_char l, btn_color = c\<rparr>"

definition buttons :: "button list" where
  "buttons =
    [button 10 60 40 30 CHR ''7'' COLOR_MD_GRAY_100, button 55 60 40 30 CHR ''8'' COLOR_MD_GRAY_100,
     button 100 60 40 30 CHR ''9'' COLOR_MD_GRAY_100, button 145 60 40 30 CHR ''/'' COLOR_MD_ORANGE,
     button 10 95 40 30 CHR ''4'' COLOR_MD_GRAY_100, button 55 95 40 30 CHR ''5'' COLOR_MD_GRAY_100,
     button 100 95 40 30 CHR ''6'' COLOR_MD_GRAY_100, button 145 95 40 30 CHR ''*'' COLOR_MD_ORANGE,
     button 10 130 40 30 CHR ''1'' COLOR_MD_GRAY_100, button 55 130 40 30 CHR ''2'' COLOR_MD_GRAY_100,
     button 100 130 40 30 CHR ''3'' COLOR_MD_GRAY_100, button 145 130 40 30 CHR ''-'' COLOR_MD_ORANGE,
     button 10 165 85 30 CHR ''0'' COLOR_MD_GRAY_100, button 100 165 40 30 CHR ''.'' COLOR_MD_GRAY_100,
     button 145 165 40 30 CHR ''+'' COLOR_MD_ORANGE,
     button 10 200 85 30 CHR ''C'' COLOR_MD_RED, button 100 200 85 30 CHR ''='' COLOR_MD_GREEN]"

section \<open>Drawing\<close>

definition vga_color :: "rgba_color \<Rightarrow> u32" where
  "vga_color c = ucast (rgba_to_vga c)"

definition calculator_draw_button :: "'f floats \<Rightarrow> 'd calculator \<Rightarrow> button \<Rightarrow> vga \<Rightarrow> vga" where
  "calculator_draw_button F c btn s =
     (let bx = calc_x c + word_of_int (btn_x btn); by0 = calc_y c + word_of_int (btn_y btn);
          s = vga_fill_rect (bx + 2) (by0 + 2) (btn_w btn) (btn_h btn)
                (vga_color (rgba_darken F (btn_color btn) (f_div F (f_of_int F 6) (f_of_int F 10)))) s;
          s = vga_fill_rect bx by0 (btn_w btn) (btn_h btn) (vga_color (btn_color btn)) s;
          s = vga_draw_rect bx by0 (btn_w btn) (btn_h btn) (vga_color COLOR_MD_GRAY_400) s;
          text_w = 8
      in vga_draw_string (bx + (btn_w btn - text_w) div 2) (by0 + 10) [btn_label btn, 0]
           (vga_color COLOR_MD_GRAY_900) s)"

definition display_bytes :: "'d calculator \<Rightarrow> u8 list" where
  "display_bytes c = List.map (display c) [0..<32]"

definition calculator_draw_display :: "'d calculator \<Rightarrow> vga \<Rightarrow> vga" where
  "calculator_draw_display c s =
     (let s = vga_fill_rect (calc_x c + 10) (calc_y c + 10) 175 40 (vga_color COLOR_WHITE) s;
          s = vga_draw_rect (calc_x c + 10) (calc_y c + 10) 175 40 (vga_color COLOR_MD_GRAY_300) s;
          s = vga_fill_rect (calc_x c) (calc_y c) (calc_width c) 8 (vga_color COLOR_MD_GRAY_100) s;
          s = vga_fill_rect (calc_x c + calc_width c - 10) (calc_y c + 1) 8 6 (vga_color COLOR_MD_RED) s
      in vga_draw_string (calc_x c + 15) (calc_y c + 25) (display_bytes c) (vga_color COLOR_BLACK) s)"

definition calculator_draw :: "'f floats \<Rightarrow> 'd calculator \<Rightarrow> vga \<Rightarrow> vga" where
  "calculator_draw F c s =
     (let s = vga_fill_rect (calc_x c) (calc_y c) (calc_width c) (calc_height c) (vga_color COLOR_MD_GRAY_50) s
      in fold (calculator_draw_button F c) buttons (calculator_draw_display c s))"

section \<open>Numbers and text\<close>

text \<open>\<open>simple_atof\<close>; the divisor is an \<open>int\<close> and wraps at 32 bits.\<close>

fun atof_loop :: "'d doubles \<Rightarrow> u8 list \<Rightarrow> 'd \<Rightarrow> 'd \<Rightarrow> u32 \<Rightarrow> bool \<Rightarrow> 'd \<times> 'd \<times> u32" where
  "atof_loop D [] res fraction divisor in_fraction = (res, fraction, divisor)"
| "atof_loop D (ch # str) res fraction divisor in_fraction =
     (if ch = 0 then (res, fraction, divisor)
      else if 0x30 \<le> ch \<and> ch \<le> 0x39
      then let digit = d_of_int D (uint ch - 0x30); ten = d_of_int D 10 in
        if in_fraction then atof_loop D str res (d_add D (d_mul D fraction ten) digit) (divisor * 10) in_fraction
        else atof_loop D str (d_add D (d_mul D res ten) digit) fraction divisor in_fraction
      else if ch = 0x2E then atof_loop D str res fraction divisor True
      else atof_loop D str res fraction divisor in_fraction)"

definition simple_atof :: "'d doubles \<Rightarrow> u8 list \<Rightarrow> 'd" where
  "simple_atof D str =
     (let negative = (str \<noteq> [] \<and> hd str = 0x2D); str = (if negative then tl str else str);
          (res, fraction, divisor) = atof_loop D str (d_of_int D 0) (d_of_int D 0) 1 False;
          res = d_add D res (d_div D fraction (d_of_int D (sint divisor)))
      in if negative then d_neg D res else res)"

function int_digits :: "u32 \<Rightarrow> u8 list" where
  "int_digits n = (if sint n > 0 then (0x30 + ucast (n mod 10)) # int_digits (n div 10) else [])"
  by pat_completeness auto
termination
proof (relation "measure unat")
  fix n :: u32 assume "sint n > 0"
  then have "n \<noteq> 0" by auto
  then have "0 < unat n" by (simp add: unat_gt_0)
  then show "(n div 10, n) \<in> measure unat" by (simp add: unat_div)
qed simp

declare int_digits.simps [simp del]

fun fraction_digits :: "'d doubles \<Rightarrow> nat \<Rightarrow> 'd \<Rightarrow> u8 list" where
  "fraction_digits D 0 fpart = []"
| "fraction_digits D (Suc n) fpart =
     (let fpart = d_mul D fpart (d_of_int D 10); digit = d_trunc D fpart
      in (0x30 + ucast digit) # fraction_digits D n (d_sub D fpart (d_of_int D (sint digit))))"

text \<open>What \<open>simple_ftoa\<close> writes to its buffer, the terminator included.\<close>

definition simple_ftoa :: "'d doubles \<Rightarrow> 'd \<Rightarrow> nat \<Rightarrow> u8 list" where
  "simple_ftoa D v precision =
     (let int_part = d_trunc D v; frac_part = d_sub D v (d_of_int D (sint int_part));
          negative = (sint int_part < 0);
          int_part = (if negative then - int_part else int_part);
          frac_part = (if negative then d_neg D frac_part else frac_part)
      in (if negative then [0x2D] else [])
         @ (if int_part = 0 then [0x30] else rev (int_digits int_part))
         @ (if precision > 0 \<and> d_positive D frac_part then 0x2E # fraction_digits D precision frac_part else [])
         @ [0])"

definition write_display :: "u8 list \<Rightarrow> 'd calculator \<Rightarrow> 'd calculator" where
  "write_display bs c = c\<lparr>display := (\<lambda>i. if i < length bs then bs ! i else display c i)\<rparr>"

section \<open>Keys\<close>

definition calculator_execute :: "'d doubles \<Rightarrow> 'd calculator \<Rightarrow> 'd calculator" where
  "calculator_execute D c =
     (let c = c\<lparr>calc_value := simple_atof D (display_bytes c)\<rparr> in
      if operation c \<noteq> 0
      then let v = calc_value c; st = stored_value c; oper = operation c;
               st = (if oper = 0x2B then d_add D st v
                     else if oper = 0x2D then d_sub D st v
                     else if oper = 0x2A then d_mul D st v
                     else if oper = 0x2F then if d_nonzero D v then d_div D st v else st
                     else st);
               c = write_display (simple_ftoa D st 2) (c\<lparr>stored_value := st\<rparr>)
           in c\<lparr>display_len := length (takeWhile (\<lambda>ch. ch \<noteq> 0) (display_bytes c))\<rparr>
      else c\<lparr>stored_value := calc_value c\<rparr>)"

definition append_char :: "u8 \<Rightarrow> 'd calculator \<Rightarrow> 'd calculator" where
  "append_char ch c =
     c\<lparr>display := (display c)(display_len c := ch, display_len c + 1 := 0), display_len := display_len c + 1\<rparr>"

definition press_digit :: "u8 \<Rightarrow> 'd calculator \<Rightarrow> 'd calculator" where
  "press_digit ch c =
     (if new_number c
      then c\<lparr>display := (display c)(0 := ch, 1 := 0), display_len := 1, new_number := False\<rparr>
      else if display_len c < 15
      then if display c 0 = 0x30 \<and> display_len c = 1 then c\<lparr>display := (display c)(0 := ch)\<rparr>
           else append_char ch c
      else c)"

definition press_point :: "'d calculator \<Rightarrow> 'd calculator" where
  "press_point c =
     (if new_number c
      then c\<lparr>display := (display c)(0 := 0x30, 1 := 0x2E, 2 := 0), display_len := 2, new_number := False\<rparr>
      else let has_decimal = list_ex (\<lambda>i. display c i = 0x2E) [0..<display_len c] in
        if \<not> has_decimal \<and> display_len c < 15 then append_char 0x2E c else c)"

definition press_key :: "'d doubles \<Rightarrow> u8 \<Rightarrow> 'd calculator \<Rightarrow> 'd calculator" where
  "press_key D ch c =
     (if ch = 0x43
      then c\<lparr>display := (display c)(0 := 0x30, 1 := 0), display_len := 1, calc_value := d_of_int D 0,
             stored_value := d_of_int D 0, operation := 0, new_number := True\<rparr>
      else if 0x30 \<le> ch \<and> ch \<le> 0x39 then press_digit ch c
      else if ch = 0x2E then press_point c
      else if ch = 0x3D then (calculator_execute D c)\<lparr>operation := 0, new_number := True\<rparr>
      else (if \<not> new_number c then calculator_execute D c else c)\<lparr>operation := ch, new_number := True\<rparr>)"

definition calculator_handle_button ::
  "'d doubles \<Rightarrow> 'f floats \<Rightarrow> nat \<Rightarrow> 'd calculator \<times> vga \<Rightarrow> 'd calculator \<times> vga" where
  "calculator_handle_button D F button_id = (\<lambda>(c, s).
     (let c = press_key D (btn_label (buttons ! button_id)) c in (c, calculator_draw F c s)))"

text \<open>The key under the pointer; \<open>mx -= calc->x\<close> is computed unsigned and converted back.\<close>

definition inside_button :: "int \<Rightarrow> int \<Rightarrow> button \<Rightarrow> bool" where
  "inside_button mx my btn \<longleftrightarrow> mx \<ge> btn_x btn \<and> mx < btn_x btn + sint (btn_w btn)
     \<and> my \<ge> btn_y btn \<and> my < btn_y btn + sint (btn_h btn)"

definition calculator_check_button :: "'d calculator \<Rightarrow> int \<Rightarrow> int \<Rightarrow> int" where
  "calculator_check_button c mx my =
     (let mx = sint (word_of_int mx - calc_x c); my = sint (word_of_int my - calc_y c) in
      case find (\<lambda>i. inside_button mx my (buttons ! i)) [0..<length buttons] of
        Some i \<Rightarrow> int i | None \<Rightarrow> - 1)"

section \<open>The window\<close>

definition calculator_init :: "'d doubles \<Rightarrow> u32 \<Rightarrow> u32 \<Rightarrow> 'd calculator \<Rightarrow> 'd calculator" where
  "calculator_init D x y c =
     c\<lparr>calc_x := x, calc_y := y, calc_width := 195, calc_height := 240,
       display := (display c)(0 := 0x30, 1 := 0), display_len := 1, running := True,
       dragging := False, calc_drag_x := 0, calc_drag_y := 0, calc_value := d_of_int D 0,
       stored_value := d_of_int D 0, operation := 0, new_number := True\<rparr>"

record 'd calc_app =
  g_calculator :: "'d calculator"
  g_calculator_active :: bool
  calc_last_buttons :: u8

definition MOUSE_LEFT_BTN :: u8 where "MOUSE_LEFT_BTN = 0x01"

definition calculator_close :: "'d calc_app \<Rightarrow> 'd calc_app" where
  "calculator_close p = p\<lparr>g_calculator := (g_calculator p)\<lparr>running := False\<rparr>, g_calculator_active := False\<rparr>"

text \<open>A press of the left button: the close box, else the title bar, else the keys.\<close>

definition on_close_box :: "'d calculator \<Rightarrow> int \<Rightarrow> int \<Rightarrow> bool" where
  "on_close_box c mx my \<longleftrightarrow> mx \<ge> sint (calc_x c + calc_width c - 10) \<and> mx \<le> sint (calc_x c + calc_width c - 2)
     \<and> my \<ge> sint (calc_y c) + 1 \<and> my \<le> sint (calc_y c) + 7"

definition calculator_click ::
  "'d doubles \<Rightarrow> 'f floats \<Rightarrow> int \<Rightarrow> int \<Rightarrow> 'd calculator \<times> vga \<Rightarrow> 'd calculator \<times> vga" where
  "calculator_click D F mx my = (\<lambda>(c, s).
     if mx \<ge> sint (calc_x c) \<and> mx \<le> sint (calc_x c + calc_width c)
        \<and> my \<ge> sint (calc_y c) \<and> my \<le> sint (calc_y c + 8)
     then (c\<lparr>dragging := True, calc_drag_x := sint (word_of_int mx - calc_x c),
             calc_drag_y := sint (word_of_int my - calc_y c)\<rparr>, s)
     else let btn_id = calculator_check_button c mx my in
       if btn_id \<ge> 0 then calculator_handle_button D F (nat btn_id) (c, s) else (c, s))"

definition calculator_drag :: "u32 \<Rightarrow> u32 \<Rightarrow> int \<Rightarrow> int \<Rightarrow> 'd calculator \<Rightarrow> 'd calculator" where
  "calculator_drag W H mx my c =
     (let new_x = mx - calc_drag_x c; new_y = my - calc_drag_y c;
          new_x = (if new_x < 0 then 0 else new_x);
          new_y = (if new_y < 0 then 0 else new_y);
          new_x = (if new_x + sint (calc_width c) > sint W then sint (W - calc_width c) else new_x);
          new_y = (if new_y + sint (calc_height c) > sint H - 24
                   then sint (word_of_int (sint H - 24) - calc_height c) else new_y)
      in c\<lparr>calc_x := word_of_int new_x, calc_y := word_of_int new_y\<rparr>)"

definition calculator_update ::
  "'d doubles \<Rightarrow> 'f floats \<Rightarrow> mouse \<Rightarrow> 'd calc_app \<times> vga \<Rightarrow> 'd calc_app \<times> vga" where
  "calculator_update D F mouse = (\<lambda>(p, s).
     if \<not> running (g_calculator p) then (p, s)
     else
       let (x, y, btns) = mouse_get_state mouse;
           mx = sint ((word_of_int x * vga_get_width s) div 640);
           my = sint ((word_of_int y * vga_get_height s) div 480);
           last = calc_last_buttons p;
           pressed = (btns AND MOUSE_LEFT_BTN \<noteq> 0 \<and> last AND MOUSE_LEFT_BTN = 0)
       in if pressed \<and> on_close_box (g_calculator p) mx my
          then ((calculator_close p)\<lparr>calc_last_buttons := btns\<rparr>, s)
          else let (c, s) = (if pressed then calculator_click D F mx my (g_calculator p, s)
                             else (g_calculator p, s));
                   c = (if dragging c \<and> btns AND MOUSE_LEFT_BTN \<noteq> 0
                        then calculator_drag (vga_get_width s) (vga_get_height s) mx my c else c);
                   c = (if btns AND MOUSE_LEFT_BTN = 0 \<and> last AND MOUSE_LEFT_BTN \<noteq> 0
                        then c\<lparr>dragging := False\<rparr> else c)
               in (p\<lparr>g_calculator := c, calc_last_buttons := btns\<rparr>, calculator_draw F c s))"

definition start_calculator_app :: "'d doubles \<Rightarrow> 'd calc_app \<Rightarrow> 'd calc_app" where
  "start_calculator_app D p =
     (if \<not> g_calculator_active p
      then p\<lparr>g_calculator := calculator_init D 60 30 (g_calculator p), g_calculator_active := True\<rparr> else p)"

definition update_calculator_app ::
  "'d doubles \<Rightarrow> 'f floats \<Rightarrow> mouse \<Rightarrow> 'd calc_app \<times> vga \<Rightarrow> 'd calc_app \<times> vga" where
  "update_calculator_app D F mouse = (\<lambda>(p, s).
     if g_calculator_active p then calculator_update D F mouse (p, s) else (p, s))"

definition is_calculator_active :: "'d calc_app \<Rightarrow> bool" where
  "is_calculator_active p = g_calculator_active p"

section \<open>The display\<close>

text \<open>The text on the display, and the display being a terminated string of at most 15 characters.\<close>

definition display_text :: "'d calculator \<Rightarrow> u8 list" where
  "display_text c = takeWhile (\<lambda>ch. ch \<noteq> 0) (display_bytes c)"

definition calc_ok :: "'d calculator \<Rightarrow> bool" where
  "calc_ok c \<longleftrightarrow> display_len c \<le> 15 \<and> display c (display_len c) = 0 \<and> (\<forall>i<display_len c. display c i \<noteq> 0)"

lemma display_text_take:
  assumes "calc_ok c"
  shows "display_text c = List.map (display c) [0..<display_len c]"
proof -
  have "takeWhile (\<lambda>ch. ch \<noteq> 0) (display_bytes c) = take (display_len c) (display_bytes c)"
    using assms by (intro takeWhile_eq_take_P_nth) (auto simp: calc_ok_def display_bytes_def simp del: upt_rec_numeral)
  then show ?thesis
    using assms by (simp add: display_text_def calc_ok_def display_bytes_def take_map take_upt del: upt_rec_numeral)
qed

lemma display_text_len: "calc_ok c \<Longrightarrow> length (display_text c) = display_len c"
  by (simp add: display_text_take)

lemma int_digits_dec: "unat n < 2147483648 \<Longrightarrow> int_digits n = dec_buffer n"
proof (induction n rule: int_digits.induct)
  case (1 n)
  have d: "unat (n div 10) < 2147483648" using "1.prems" by (simp add: unat_div)
  have "0 < sint n \<longleftrightarrow> n > 0"
    using "1.prems" by (simp add: sint_small32 word_greater_zero_iff unat_gt_0 del: of_nat_unat)
  then show ?case
    using "1.IH" d by (subst int_digits.simps, subst dec_buffer.simps) simp
qed

lemma int_digits_none: "\<not> unat n < 2147483648 \<Longrightarrow> int_digits n = []"
  using sint_nonneg32 [of n] by (subst int_digits.simps) simp

lemma int_text_length: "length (if n = 0 then [0x30] else rev (int_digits n)) \<le> 10"
  using dec_digits_length [of n]
  by (cases "unat n < 2147483648") (auto simp: int_digits_dec int_digits_none dec_digits_def split: if_splits)

lemma fraction_digits_length [simp]: "length (fraction_digits D n f) = n"
  by (induction n arbitrary: f) (simp_all add: Let_def)

lemma simple_ftoa_length: "length (simple_ftoa D v n) \<le> 13 + n"
  using int_text_length [of "d_trunc D v"] int_text_length [of "- d_trunc D v"]
  by (auto simp: simple_ftoa_def Let_def)

lemma simple_ftoa_terminated: "simple_ftoa D v n \<noteq> [] \<and> last (simple_ftoa D v n) = 0"
  by (simp add: simple_ftoa_def Let_def)

lemma text_end:
  assumes "f k = (0 :: u8)" and "k < n"
  shows "length (takeWhile (\<lambda>ch. ch \<noteq> 0) (List.map f [0..<n])) \<le> k
     \<and> f (length (takeWhile (\<lambda>ch. ch \<noteq> 0) (List.map f [0..<n]))) = 0
     \<and> (\<forall>i<length (takeWhile (\<lambda>ch. ch \<noteq> 0) (List.map f [0..<n])). f i \<noteq> 0)"
proof -
  let ?w = "takeWhile (\<lambda>ch. ch \<noteq> 0) (List.map f [0..<n])"
  have nz: "f i \<noteq> 0" if "i < length ?w" for i
    using set_takeWhileD [OF nth_mem [OF that]] takeWhile_nth [OF that] that
      length_takeWhile_le [of "\<lambda>ch. ch \<noteq> 0" "List.map f [0..<n]"] by simp
  then have le: "length ?w \<le> k" using assms(1) by (metis not_le)
  moreover have "f (length ?w) = 0"
    using nth_length_takeWhile [of "\<lambda>ch. ch \<noteq> 0" "List.map f [0..<n]"] le assms(2) by simp
  ultimately show ?thesis using nz by blast
qed

lemma display_bytes_upd [simp]: "display_bytes (c\<lparr>display_len := n\<rparr>) = display_bytes c"
  by (simp add: display_bytes_def)

lemma write_display_ok:
  assumes "bs \<noteq> []" and "last bs = 0" and "length bs \<le> 16"
  shows "calc_ok (write_display bs c\<lparr>display_len := length (display_text (write_display bs c))\<rparr>)
     \<and> (\<lambda>i. display (write_display bs c) (i + 16)) = (\<lambda>i. display c (i + 16))"
proof -
  have z: "display (write_display bs c) (length bs - 1) = 0"
    using assms by (simp add: write_display_def last_conv_nth)
  have len: "length bs - 1 < 32" using assms(3) by simp
  have "calc_ok (write_display bs c\<lparr>display_len := length (display_text (write_display bs c))\<rparr>)"
    using text_end [where f = "display (write_display bs c)", OF z len] assms(3)
    by (auto simp: calc_ok_def display_text_def display_bytes_def simp del: upt_rec_numeral)
  then show ?thesis using assms(3) by (simp add: write_display_def)
qed

lemma calculator_execute_ok:
  assumes "calc_ok c"
  shows "calc_ok (calculator_execute D c)
     \<and> (\<lambda>i. display (calculator_execute D c) (i + 16)) = (\<lambda>i. display c (i + 16))"
proof (cases "operation c = 0")
  case True
  with assms show ?thesis by (simp add: calculator_execute_def calc_ok_def)
next
  case False
  define v where "v = simple_atof D (display_bytes c)"
  define st where "st = (if operation c = 0x2B then d_add D (stored_value c) v
    else if operation c = 0x2D then d_sub D (stored_value c) v
    else if operation c = 0x2A then d_mul D (stored_value c) v
    else if operation c = 0x2F then if d_nonzero D v then d_div D (stored_value c) v else stored_value c
    else stored_value c)"
  let ?w = "write_display (simple_ftoa D st 2) (c\<lparr>calc_value := v, stored_value := st\<rparr>)"
  have "calculator_execute D c = ?w\<lparr>display_len := length (display_text ?w)\<rparr>"
    using False by (simp add: calculator_execute_def Let_def v_def st_def display_text_def)
  then show ?thesis
    using write_display_ok [of "simple_ftoa D st 2" "c\<lparr>calc_value := v, stored_value := st\<rparr>"]
      simple_ftoa_terminated [of D st 2] simple_ftoa_length [of D st 2] by simp
qed

lemma press_digit_ok:
  assumes "calc_ok c" and "ch \<noteq> 0"
  shows "calc_ok (press_digit ch c) \<and> (\<lambda>i. display (press_digit ch c) (i + 16)) = (\<lambda>i. display c (i + 16))"
  using assms by (auto simp: calc_ok_def press_digit_def append_char_def less_Suc_eq)

lemma press_point_ok:
  assumes "calc_ok c"
  shows "calc_ok (press_point c) \<and> (\<lambda>i. display (press_point c) (i + 16)) = (\<lambda>i. display c (i + 16))"
  using assms by (auto simp: calc_ok_def press_point_def append_char_def less_Suc_eq Let_def less_2_cases_iff)

lemma press_key_ok:
  assumes "calc_ok c"
  shows "calc_ok (press_key D ch c) \<and> (\<lambda>i. display (press_key D ch c) (i + 16)) = (\<lambda>i. display c (i + 16))"
proof -
  have upd: "calc_ok (c\<lparr>operation := p, new_number := b\<rparr>) \<longleftrightarrow> calc_ok c" for c :: "'a calculator" and p b
    by (simp add: calc_ok_def)
  have "calc_ok (press_key D 0x43 c) \<and> (\<lambda>i. display (press_key D 0x43 c) (i + 16)) = (\<lambda>i. display c (i + 16))"
    by (simp add: press_key_def calc_ok_def)
  moreover have "ch \<noteq> 0" if "0x30 \<le> ch" using that by auto
  ultimately show ?thesis
    using assms calculator_execute_ok [OF assms, of D] press_digit_ok [OF assms, of ch] press_point_ok [OF assms]
    by (cases "ch = 0x43") (simp_all add: press_key_def upd)
qed

text \<open>
  Property C34. Whatever keys are pressed and however the processor rounds, the display stays a
  terminated string of at most 15 characters whose length the calculator knows, and the half of
  the 32-byte buffer behind it is never written, not even by the conversion of a result.
\<close>

theorem calculator_display_safe:
  "let c = fold (press_key D) keys (calculator_init D x y c0)
   in display_len c \<le> 15 \<and> length (display_text c) = display_len c
     \<and> (\<lambda>i. display c (i + 16)) = (\<lambda>i. display c0 (i + 16))"
proof -
  have "calc_ok (fold (press_key D) ks c)
      \<and> (\<lambda>i. display (fold (press_key D) ks c) (i + 16)) = (\<lambda>i. display c (i + 16))" if "calc_ok c" for ks c
    using that by (induction ks arbitrary: c) (use press_key_ok in \<open>auto\<close>)
  moreover have "calc_ok (calculator_init D x y c0)" by (simp add: calculator_init_def calc_ok_def)
  moreover have "(\<lambda>i. display (calculator_init D x y c0) (i + 16)) = (\<lambda>i. display c0 (i + 16))"
    by (simp add: calculator_init_def)
  ultimately have "calc_ok (fold (press_key D) keys (calculator_init D x y c0))"
    "(\<lambda>i. display (fold (press_key D) keys (calculator_init D x y c0)) (i + 16)) = (\<lambda>i. display c0 (i + 16))"
    by auto
  then show ?thesis using display_text_len by (metis (no_types, lifting) calc_ok_def)
qed

section \<open>Arithmetic\<close>

text \<open>
  What IEEE doubles document about integers up to \<open>2^53\<close>: sum, difference and product are exact
  when they lie in that range, and comparison and truncation are those of the integer. Zero
  has two representations, which compute alike but need not be equal: \<open>-1 * 0\<close> is the negative
  one. So a double stands for an integer if it is that integer converted, or a zero of either sign.
\<close>

definition d_val :: "'d doubles \<Rightarrow> 'd \<Rightarrow> int \<Rightarrow> bool" where
  "d_val D x a \<longleftrightarrow> x = d_of_int D a \<or> (a = 0 \<and> x = d_neg D (d_of_int D 0))"

definition exact_doubles :: "'d doubles \<Rightarrow> bool" where
  "exact_doubles D \<longleftrightarrow>
     (\<forall>x y a b. d_val D x a \<longrightarrow> d_val D y b \<longrightarrow> \<bar>a\<bar> \<le> 2 ^ 53 \<longrightarrow> \<bar>b\<bar> \<le> 2 ^ 53 \<longrightarrow>
        (\<bar>a + b\<bar> \<le> 2 ^ 53 \<longrightarrow> d_val D (d_add D x y) (a + b))
        \<and> (\<bar>a - b\<bar> \<le> 2 ^ 53 \<longrightarrow> d_val D (d_sub D x y) (a - b))
        \<and> (\<bar>a * b\<bar> \<le> 2 ^ 53 \<longrightarrow> d_val D (d_mul D x y) (a * b)))
     \<and> (\<forall>x a. d_val D x a \<longrightarrow> - (2 ^ 31) \<le> a \<and> a < 2 ^ 31 \<longrightarrow> d_trunc D x = word_of_int a)
     \<and> (\<forall>x. d_val D x 0 \<longrightarrow> d_val D (d_div D x (d_of_int D 1)) 0 \<and> d_val D (d_neg D x) 0 \<and> \<not> d_positive D x)"

text \<open>The value a text on the display stands for, and the result of a series of operations entered
  one after another, worked off from left to right, while every result fits an \<open>int\<close>.\<close>

lemma d_val_int [simp]: "d_val D (d_of_int D a) a"
  by (simp add: d_val_def)

lemma exact_doublesD:
  assumes "exact_doubles D"
  shows "d_val D x a \<Longrightarrow> d_val D y b \<Longrightarrow> \<bar>a\<bar> \<le> 2 ^ 53 \<Longrightarrow> \<bar>b\<bar> \<le> 2 ^ 53 \<Longrightarrow> \<bar>a + b\<bar> \<le> 2 ^ 53 \<Longrightarrow>
      d_val D (d_add D x y) (a + b)"
    and "d_val D x a \<Longrightarrow> d_val D y b \<Longrightarrow> \<bar>a\<bar> \<le> 2 ^ 53 \<Longrightarrow> \<bar>b\<bar> \<le> 2 ^ 53 \<Longrightarrow> \<bar>a - b\<bar> \<le> 2 ^ 53 \<Longrightarrow>
      d_val D (d_sub D x y) (a - b)"
    and "d_val D x a \<Longrightarrow> d_val D y b \<Longrightarrow> \<bar>a\<bar> \<le> 2 ^ 53 \<Longrightarrow> \<bar>b\<bar> \<le> 2 ^ 53 \<Longrightarrow> \<bar>a * b\<bar> \<le> 2 ^ 53 \<Longrightarrow>
      d_val D (d_mul D x y) (a * b)"
    and "d_val D x a \<Longrightarrow> - (2 ^ 31) \<le> a \<Longrightarrow> a < 2 ^ 31 \<Longrightarrow> d_trunc D x = word_of_int a"
    and "d_val D x 0 \<Longrightarrow> d_val D (d_div D x (d_of_int D 1)) 0"
    and "d_val D x 0 \<Longrightarrow> d_val D (d_neg D x) 0" and "d_val D x 0 \<Longrightarrow> \<not> d_positive D x"
  using assms unfolding exact_doubles_def by blast+

definition text_value :: "u8 list \<Rightarrow> int" where
  "text_value ts = (if ts \<noteq> [] \<and> hd ts = 0x2D then - int (dec_value (tl ts)) else int (dec_value ts))"

definition op_value :: "u8 \<Rightarrow> int \<Rightarrow> int \<Rightarrow> int" where
  "op_value p a b = (if p = 0x2B then a + b else if p = 0x2D then a - b else if p = 0x2A then a * b else b)"

fun calc_eval :: "int \<Rightarrow> (u8 \<times> u8 list) list \<Rightarrow> int option" where
  "calc_eval v [] = Some v"
| "calc_eval v ((p, ds) # xs) =
     (let r = op_value p v (int (dec_value ds)) in if \<bar>r\<bar> < 2 ^ 31 then calc_eval r xs else None)"

definition number_keys :: "u8 list \<Rightarrow> bool" where
  "number_keys ds \<longleftrightarrow> ds \<noteq> [] \<and> length ds \<le> 15 \<and> (\<forall>d\<in>set ds. 0x30 \<le> d \<and> d \<le> 0x39)
     \<and> (length ds = 1 \<or> hd ds \<noteq> 0x30)"

lemma display_bytes_text:
  assumes "calc_ok c"
  shows "\<exists>rest. display_bytes c = display_text c @ 0 # rest"
proof -
  have "display_bytes c = display_text c @ dropWhile (\<lambda>ch. ch \<noteq> 0) (display_bytes c)"
    by (simp add: display_text_def)
  moreover have "dropWhile (\<lambda>ch. ch \<noteq> 0) (display_bytes c) \<noteq> []"
    using assms by (force simp: dropWhile_eq_Nil_conv calc_ok_def display_bytes_def simp del: upt_rec_numeral)
  then have "dropWhile (\<lambda>ch. ch \<noteq> 0) (display_bytes c) = 0 # tl (dropWhile (\<lambda>ch. ch \<noteq> 0) (display_bytes c))"
    using hd_dropWhile [of "\<lambda>ch. ch \<noteq> 0" "display_bytes c"] by (metis list.collapse)
  ultimately show ?thesis by metis
qed

lemma press_digit_first:
  assumes "new_number c"
  shows "display_text (press_digit ch c) = (if ch = 0 then [] else [ch])"
proof -
  have "display_bytes (press_digit ch c) = ch # 0 # List.map (display c) [2..<32]"
    using assms upt_conv_Cons [of 0 32] upt_conv_Cons [of 1 32]
    by (simp add: press_digit_def display_bytes_def numeral_2_eq_2 [symmetric] del: upt_rec_numeral)
  then show ?thesis by (simp add: display_text_def)
qed

lemma press_digit_more:
  assumes "calc_ok c" and "\<not> new_number c" and "display_len c < 15" and "display_text c \<noteq> [0x30]" and "ch \<noteq> 0"
  shows "display_text (press_digit ch c) = display_text c @ [ch]"
proof -
  have "\<not> (display c 0 = 0x30 \<and> display_len c = 1)"
    using assms(1,4) by (auto simp: display_text_take)
  then have e: "press_digit ch c = append_char ch c" using assms(2,3) by (auto simp: press_digit_def)
  have ok: "calc_ok (append_char ch c)" using press_digit_ok [OF assms(1,5)] e by simp
  show ?thesis unfolding e display_text_take [OF ok] display_text_take [OF assms(1)]
    by (auto simp: append_char_def)
qed

lemma press_digits:
  assumes "calc_ok c" and "\<not> new_number c" and "display_text c \<noteq> [0x30]" and "display_text c \<noteq> []"
    and "\<forall>d\<in>set ds. 0x30 \<le> d \<and> d \<le> 0x39" and "display_len c + length ds \<le> 15"
  shows "display_text (fold (press_key D) ds c) = display_text c @ ds
     \<and> calc_ok (fold (press_key D) ds c) \<and> \<not> new_number (fold (press_key D) ds c)
     \<and> operation (fold (press_key D) ds c) = operation c
     \<and> stored_value (fold (press_key D) ds c) = stored_value c"
  using assms
proof (induction ds arbitrary: c)
  case (Cons d ds)
  have d: "d \<noteq> 0" "d \<noteq> 0x43" using Cons.prems(5) by auto
  have k: "press_key D d c = press_digit d c" using Cons.prems(5) d by (simp add: press_key_def)
  have ok: "calc_ok (press_digit d c)" using press_digit_ok [OF Cons.prems(1) d(1)] by simp
  have t: "display_text (press_digit d c) = display_text c @ [d]"
    using Cons.prems(6) by (intro press_digit_more [OF Cons.prems(1-2) _ Cons.prems(3) d(1)]) simp
  have n: "\<not> new_number (press_digit d c)" "operation (press_digit d c) = operation c"
    "stored_value (press_digit d c) = stored_value c"
    using Cons.prems(2) by (simp_all add: press_digit_def append_char_def)
  have l: "display_len (press_digit d c) = Suc (display_len c)"
    using display_text_len [OF ok] t display_text_len [OF Cons.prems(1)] by simp
  show ?case
    using Cons.IH [OF ok n(1)] Cons.prems(4-6) t l n k by simp
qed simp

lemma type_number:
  assumes "calc_ok c" and "new_number c" and "number_keys ds"
  shows "display_text (fold (press_key D) ds c) = ds
     \<and> calc_ok (fold (press_key D) ds c) \<and> \<not> new_number (fold (press_key D) ds c)
     \<and> operation (fold (press_key D) ds c) = operation c
     \<and> stored_value (fold (press_key D) ds c) = stored_value c"
proof -
  obtain d ds' where ds: "ds = d # ds'" using assms(3) by (cases ds) (auto simp: number_keys_def)
  have d: "d \<noteq> 0" "d \<noteq> 0x43" using assms(3) by (auto simp: number_keys_def ds)
  have k: "press_key D d c = press_digit d c" using assms(3) d by (simp add: press_key_def number_keys_def ds)
  have ok: "calc_ok (press_digit d c)" using press_digit_ok [OF assms(1) d(1)] by simp
  have t: "display_text (press_digit d c) = [d]" using press_digit_first [OF assms(2), of d] d by simp
  have n: "\<not> new_number (press_digit d c)" "operation (press_digit d c) = operation c"
    "stored_value (press_digit d c) = stored_value c"
    using assms(2) by (simp_all add: press_digit_def)
  show ?thesis
  proof (cases ds')
    case Nil
    then show ?thesis using k ok t n by (simp add: ds)
  next
    case (Cons e es)
    have "d \<noteq> 0x30" using assms(3) by (simp add: number_keys_def ds Cons)
    then show ?thesis
      using press_digits [OF ok n(1), of ds' D] assms(3) t n k display_text_len [OF ok]
      by (simp add: ds number_keys_def)
  qed
qed

lemma dec_value_snoc: "dec_value (ds @ [d]) = 10 * dec_value ds + (unat d - 48)"
  by (simp add: dec_value_def)

lemma dec_value_bound: "(\<forall>d\<in>set ds. 0x30 \<le> d \<and> d \<le> 0x39) \<Longrightarrow> dec_value ds < 10 ^ length ds"
proof (induction ds rule: rev_induct)
  case (snoc d ds)
  then have "unat d - 48 \<le> 9" by (auto simp: word_le_nat_alt)
  with snoc show ?case by (simp add: dec_value_snoc)
qed (simp add: dec_value_def)

lemma atof_digits:
  assumes "exact_doubles D" and "\<forall>d\<in>set ds. 0x30 \<le> d \<and> d \<le> 0x39"
    and "length xs + length ds \<le> 15" and "\<forall>d\<in>set xs. 0x30 \<le> d \<and> d \<le> 0x39"
    and "d_val D x (int (dec_value xs))"
  shows "\<exists>y. atof_loop D (ds @ 0 # rest) x f 1 False = (y, f, 1) \<and> d_val D y (int (dec_value (xs @ ds)))"
  using assms
proof (induction ds arbitrary: xs x)
  case (Cons d ds)
  have d: "0x30 \<le> d" "d \<le> 0x39" "d \<noteq> 0" using Cons.prems(2) by auto
  have v: "dec_value xs < 10 ^ 14"
    using dec_value_bound [OF Cons.prems(4)] power_increasing [of "length xs" 14 "10 :: nat"] Cons.prems(3) by simp
  have u: "48 \<le> unat d" "unat d \<le> 57" using d by (simp_all add: word_le_nat_alt)
  moreover have "int (unat d) = uint d" by simp
  ultimately have i: "48 \<le> uint d" "uint d \<le> 57" by linarith+
  let ?x = "d_add D (d_mul D x (d_of_int D 10)) (d_of_int D (uint d - 48))"
  have "d_val D (d_mul D x (d_of_int D 10)) (int (dec_value xs) * 10)"
    using v by (intro exact_doublesD(3) [OF assms(1) Cons.prems(5)]) auto
  then have "d_val D ?x (int (dec_value xs) * 10 + (uint d - 48))"
    using v i by (intro exact_doublesD(1) [OF assms(1)]) auto
  moreover have "int (dec_value xs) * 10 + (uint d - 48) = int (dec_value (xs @ [d]))"
    using i u by (simp add: dec_value_snoc of_nat_diff)
  ultimately have "d_val D ?x (int (dec_value (xs @ [d])))" by simp
  from Cons.IH [OF assms(1) _ _ _ this] Cons.prems d show ?case by (simp add: Let_def)
qed auto

lemma atof_number:
  assumes "exact_doubles D" and "calc_ok c" and "number_keys (display_text c)"
  shows "d_val D (simple_atof D (display_bytes c)) (int (dec_value (display_text c)))"
proof -
  obtain rest where r: "display_bytes c = display_text c @ 0 # rest" using display_bytes_text [OF assms(2)] by blast
  have ds: "\<forall>d\<in>set (display_text c). 0x30 \<le> d \<and> d \<le> 0x39" "display_text c \<noteq> []" "length (display_text c) \<le> 15"
    using assms(3) by (simp_all add: number_keys_def)
  then have h: "hd (display_text c) \<noteq> 0x2D" using hd_in_set by fastforce
  have v: "int (dec_value (display_text c)) \<le> 2 ^ 53"
    using dec_value_bound [OF ds(1)] power_increasing [of "length (display_text c)" 15 "10 :: nat"] ds(3) by simp
  obtain y where y: "atof_loop D (display_bytes c) (d_of_int D 0) (d_of_int D 0) 1 False = (y, d_of_int D 0, 1)"
    "d_val D y (int (dec_value (display_text c)))"
    using atof_digits [OF assms(1) ds(1), of "[]" "d_of_int D 0" rest] ds(3) by (auto simp: r dec_value_def)
  have "d_val D (d_div D (d_of_int D 0) (d_of_int D 1)) 0" by (rule exact_doublesD(5) [OF assms(1)]) simp
  from exact_doublesD(1) [OF assms(1) y(2) this] v have "d_val D (d_add D y (d_div D (d_of_int D 0) (d_of_int D 1)))
      (int (dec_value (display_text c)))" by simp
  then show ?thesis using ds(2) h y(1) by (simp add: simple_atof_def r Let_def)
qed

lemma ftoa_exact:
  assumes "exact_doubles D" and "d_val D x r" and "\<bar>r\<bar> < 2 ^ 31"
  shows "\<exists>ts. simple_ftoa D x 2 = ts @ [0] \<and> 0 \<notin> set ts \<and> text_value ts = r"
proof -
  define n :: u32 where "n = word_of_int \<bar>r\<bar>"
  have t: "d_trunc D x = word_of_int r" using assms(3) by (intro exact_doublesD(4) [OF assms(1,2)]) auto
  have z: "d_val D (d_sub D x (d_of_int D r)) 0"
    using exact_doublesD(2) [OF assms(1,2) d_val_int [of D r]] assms(3) by auto
  have s: "sint (word_of_int r :: u32) = r" using assms(3) by (intro sint_small_word) auto
  have "uint n = \<bar>r\<bar>" using assms(3) by (simp add: n_def uint_word_of_int)
  moreover have "int (unat n) = uint n" by simp
  ultimately have n: "unat n = nat \<bar>r\<bar>" by linarith
  have "(if r < 0 then - word_of_int r else word_of_int r) = n" by (simp add: n_def)
  then have "simple_ftoa D x 2 = (if r < 0 then [0x2D] else []) @ dec_digits n @ [0]"
    using assms(3) n exact_doublesD(7) [OF assms(1) z] exact_doublesD(7) [OF assms(1) exact_doublesD(6) [OF assms(1) z]]
    by (simp add: simple_ftoa_def Let_def t s dec_digits_def int_digits_dec)
  moreover have "0 \<notin> set (dec_digits n)" "hd (dec_digits n) \<noteq> 0x2D"
    using dec_digits_set [of _ n] dec_digits_length [of n] hd_in_set [of "dec_digits n"] by fastforce+
  ultimately show ?thesis
    using dec_digits_value [of n] n
    by (intro exI [of _ "(if r < 0 then [0x2D] else []) @ dec_digits n"]) (auto simp: text_value_def)
qed

lemma display_text_write:
  assumes "length ts < 32" and "0 \<notin> set ts"
  shows "display_text (write_display (ts @ [0]) c) = ts"
proof -
  have "display_bytes (write_display (ts @ [0]) c)
      = List.map (\<lambda>i. (ts @ [0]) ! i) [0..<length ts + 1] @ List.map (display c) [length ts + 1..<32]"
    using assms(1) upt_add_eq_append [of 0 "length ts + 1" "31 - length ts"]
    by (simp add: display_bytes_def write_display_def nth_append del: upt_rec_numeral upt_Suc)
  also have "List.map (\<lambda>i. (ts @ [0]) ! i) [0..<length ts + 1] = ts @ [0]"
    using map_nth [of "ts @ [0]"] by simp
  finally show ?thesis using assms(2) by (simp add: display_text_def takeWhile_append)
qed

lemma calculator_execute_exact:
  assumes "exact_doubles D" and "calc_ok c" and "number_keys (display_text c)"
    and "operation c \<in> {0, 0x2A, 0x2B, 0x2D}" and "operation c \<noteq> 0 \<Longrightarrow> d_val D (stored_value c) v"
    and "\<bar>v\<bar> \<le> 2 ^ 53" and "r = op_value (operation c) v (int (dec_value (display_text c)))"
    and "operation c = 0 \<or> \<bar>r\<bar> < 2 ^ 31"
  shows "d_val D (stored_value (calculator_execute D c)) r
     \<and> text_value (display_text (calculator_execute D c)) = r \<and> calc_ok (calculator_execute D c)"
proof -
  let ?n = "int (dec_value (display_text c))"
  have at: "d_val D (simple_atof D (display_bytes c)) ?n" by (rule atof_number [OF assms(1-3)])
  have ds: "\<forall>d\<in>set (display_text c). 0x30 \<le> d \<and> d \<le> 0x39" "display_text c \<noteq> []" "length (display_text c) \<le> 15"
    using assms(3) by (simp_all add: number_keys_def)
  then have h: "hd (display_text c) \<noteq> 0x2D" using hd_in_set by fastforce
  have b: "\<bar>?n\<bar> \<le> 2 ^ 53"
    using dec_value_bound [OF ds(1)] power_increasing [of "length (display_text c)" 15 "10 :: nat"] ds(3) by simp
  have ok: "calc_ok (calculator_execute D c)" using calculator_execute_ok [OF assms(2)] by simp
  show ?thesis
  proof (cases "operation c = 0")
    case True
    then show ?thesis
      using ok at h assms(7) by (simp add: calculator_execute_def op_value_def text_value_def display_text_def display_bytes_def)
  next
    case False
    have r: "\<bar>r\<bar> < 2 ^ 31" using False assms(8) by simp
    let ?x = "simple_atof D (display_bytes c)"
    let ?st = "(if operation c = 0x2B then d_add D (stored_value c) ?x
      else if operation c = 0x2D then d_sub D (stored_value c) ?x else d_mul D (stored_value c) ?x)"
    have st: "d_val D ?st r"
      using assms(4,7) False r exact_doublesD(1-3) [OF assms(1) assms(5) [OF False] at assms(6) b]
      by (auto simp: op_value_def)
    obtain ts where ts: "simple_ftoa D ?st 2 = ts @ [0]" "0 \<notin> set ts" "text_value ts = r"
      using ftoa_exact [OF assms(1) st r] by blast
    have l: "length ts < 32" using simple_ftoa_length [of D ?st 2] by (simp add: ts(1))
    let ?c = "c\<lparr>calc_value := ?x, stored_value := ?st\<rparr>"
    have "calculator_execute D c
        = write_display (ts @ [0]) ?c\<lparr>display_len := length (display_text (write_display (ts @ [0]) ?c))\<rparr>"
      using False assms(4)
      by (auto simp: calculator_execute_def Let_def display_text_def ts(1) [symmetric])
    moreover have "stored_value (write_display (ts @ [0]) ?c) = ?st" by (simp add: write_display_def)
    moreover have "display_text (w\<lparr>display_len := n\<rparr>) = display_text w" for w :: "'a calculator" and n
      by (simp add: display_text_def)
    ultimately show ?thesis using ok ts(3) st by (simp add: display_text_write [OF l ts(2)])
  qed
qed

definition entry_keys :: "u8 list \<Rightarrow> (u8 \<times> u8 list) list \<Rightarrow> u8 list" where
  "entry_keys ds xs = ds @ concat (List.map (\<lambda>(p, es). p # es) xs) @ [0x3D]"

lemma display_text_flags [simp]:
  "display_text (c\<lparr>operation := p, new_number := b\<rparr>) = display_text c"
  by (simp add: display_text_def display_bytes_def)

lemma press_operator:
  assumes "p \<in> {0x2A, 0x2B, 0x2D}" and "\<not> new_number c"
  shows "press_key D p c = calculator_execute D c\<lparr>operation := p, new_number := True\<rparr>"
  using assms(1) by (elim insertE emptyE) (simp_all add: press_key_def assms(2))

lemma entry_keys_value:
  assumes D: "exact_doubles D" and "calc_ok c" and "new_number c" and "operation c \<in> {0, 0x2A, 0x2B, 0x2D}"
    and "operation c \<noteq> 0 \<longrightarrow> d_val D (stored_value c) v" and "\<bar>v\<bar> \<le> 2 ^ 53"
    and "operation c = 0 \<or> \<bar>op_value (operation c) v (int (dec_value ds))\<bar> < 2 ^ 31" and "number_keys ds"
    and "\<forall>(p, es)\<in>set xs. p \<in> {0x2A, 0x2B, 0x2D} \<and> number_keys es"
    and "calc_eval (op_value (operation c) v (int (dec_value ds))) xs = Some r"
  shows "text_value (display_text (fold (press_key D) (entry_keys ds xs) c)) = r"
  using assms(2-)
proof (induction xs arbitrary: c v ds)
  case Nil
  let ?t = "fold (press_key D) ds c"
  have t: "display_text ?t = ds" "calc_ok ?t" "operation ?t = operation c" "stored_value ?t = stored_value c"
    using type_number [OF Nil.prems(1,2,7), of D] by simp_all
  have "text_value (display_text (calculator_execute D ?t)) = r"
    using calculator_execute_exact [OF D t(2), of v r] t Nil.prems by simp
  moreover have "press_key D 0x3D ?t = calculator_execute D ?t\<lparr>operation := 0, new_number := True\<rparr>"
    by (simp add: press_key_def)
  ultimately show ?case by (simp add: entry_keys_def)
next
  case (Cons x xs)
  obtain p es where x: "x = (p, es)" by (cases x)
  let ?t = "fold (press_key D) ds c" and ?v = "op_value (operation c) v (int (dec_value ds))"
  have t: "display_text ?t = ds" "calc_ok ?t" "operation ?t = operation c" "stored_value ?t = stored_value c"
    "\<not> new_number ?t"
    using type_number [OF Cons.prems(1,2,7), of D] by simp_all
  have e: "d_val D (stored_value (calculator_execute D ?t)) ?v" "calc_ok (calculator_execute D ?t)"
    using calculator_execute_exact [OF D t(2), of v ?v] t(1,3,4) Cons.prems(3-7) by simp_all
  have p: "p \<in> {0x2A, 0x2B, 0x2D}" "number_keys es" using Cons.prems(8) by (simp_all add: x)
  from p(1) have k: "press_key D p ?t = calculator_execute D ?t\<lparr>operation := p, new_number := True\<rparr>"
    using t(5) by (rule press_operator)
  have ds: "\<forall>d\<in>set ds. 0x30 \<le> d \<and> d \<le> 0x39" "length ds \<le> 15"
    using Cons.prems(7) by (simp_all add: number_keys_def)
  have "int (dec_value ds) \<le> 2 ^ 53"
    using dec_value_bound [OF ds(1)] power_increasing [of "length ds" 15 "10 :: nat"] ds(2) by simp
  then have v: "\<bar>?v\<bar> \<le> 2 ^ 53" using Cons.prems(6) by (auto simp: op_value_def)
  have "\<bar>op_value p ?v (int (dec_value es))\<bar> < 2 ^ 31 \<and> calc_eval (op_value p ?v (int (dec_value es))) xs = Some r"
    using Cons.prems(9) by (simp add: x Let_def split: if_splits)
  then have "text_value (display_text (fold (press_key D) (entry_keys es xs) (press_key D p ?t))) = r"
    using e p Cons.prems(8) v unfolding k by (intro Cons.IH [where v = ?v]) (auto simp: calc_ok_def)
  then show ?case by (simp add: entry_keys_def x)
qed


text \<open>
  A processor with exact fractions and the two zeros of IEEE: a zero product or quotient takes
  its sign from the operands, a zero sum is negative only if both summands are.
\<close>

datatype signed_rat = Rat rat | NegZero

fun rat_of :: "signed_rat \<Rightarrow> rat" where
  "rat_of (Rat q) = q"
| "rat_of NegZero = 0"

fun minus_sign :: "signed_rat \<Rightarrow> bool" where
  "minus_sign (Rat q) = (q < 0)"
| "minus_sign NegZero = True"

definition signed :: "bool \<Rightarrow> rat \<Rightarrow> signed_rat" where
  "signed neg q = (if q = 0 \<and> neg then NegZero else Rat q)"

definition signed_doubles :: "signed_rat doubles" where
  "signed_doubles = \<lparr>d_of_int = (\<lambda>a. Rat (of_int a)),
     d_add = (\<lambda>x y. signed (minus_sign x \<and> minus_sign y) (rat_of x + rat_of y)),
     d_sub = (\<lambda>x y. signed (minus_sign x \<and> \<not> minus_sign y) (rat_of x - rat_of y)),
     d_mul = (\<lambda>x y. signed (minus_sign x \<noteq> minus_sign y) (rat_of x * rat_of y)),
     d_div = (\<lambda>x y. signed (minus_sign x \<noteq> minus_sign y) (rat_of x / rat_of y)),
     d_neg = (\<lambda>x. signed (\<not> minus_sign x) (- rat_of x)),
     d_trunc = (\<lambda>x. word_of_int (if rat_of x < 0 then - \<lfloor>- rat_of x\<rfloor> else \<lfloor>rat_of x\<rfloor>)),
     d_positive = (\<lambda>x. 0 < rat_of x), d_nonzero = (\<lambda>x. rat_of x \<noteq> 0)\<rparr>"

lemma signed_val: "d_val signed_doubles x a \<longleftrightarrow> rat_of x = of_int a"
  by (cases x) (auto simp: d_val_def signed_doubles_def signed_def)

lemma rat_of_signed [simp]: "rat_of (signed neg q) = q"
  by (simp add: signed_def)

lemma signed_doubles_exact: "exact_doubles signed_doubles"
  unfolding exact_doubles_def signed_val by (simp add: signed_doubles_def)

lemma minus_one_times_zero:
  "d_mul signed_doubles (d_of_int signed_doubles (- 1)) (d_of_int signed_doubles 0) = NegZero"
  by (simp add: signed_doubles_def signed_def)


text \<open>
  Remark. Fractions are handled only partly: a value between -1 and 0 is displayed as \<open>0\<close>, since
  sign and fraction are taken from its integer part, and the divisor for the digits behind the
  point is an \<open>int\<close> that overflows from the tenth digit on.
\<close>

theorem calculator_fraction_limits:
  "simple_ftoa signed_doubles (Rat (- (1 / 2))) 2 = chars ''0'' @ [0]
   \<and> rat_of (simple_atof signed_doubles (chars ''0.0000000001'' @ [0])) = 1 / 1410065408"
proof -
  have "\<lfloor>1 / 2 :: rat\<rfloor> = 0" by (simp add: floor_eq_iff)
  then show ?thesis by (simp add: simple_ftoa_def simple_atof_def signed_doubles_def chars_def of_char_def Let_def)
qed

end
