(* ===== verification/Gui.thy ===== *)
theory Gui
  imports Calculator AppManager Lines
begin

text \<open>
  The desktop, \<^verbatim>\<open>gui/gui.c\<close>: a table of 16 windows, the taskbar, the mouse cursor, and the
  frame function \<open>gui_update\<close> that turns mouse states into clicks, drags and releases and calls
  the application manager and the calculator. The record holds the static variables of the file and
  the state of the parts it calls. \<open>F\<close> is the single-precision arithmetic, \<open>D\<close> the double one;
  \<open>entry\<close> is the address of \<open>calculator_process_entry\<close>.
\<close>

section \<open>State\<close>

record window =
  win_x :: u32
  win_y :: u32
  win_width :: u32
  win_height :: u32
  win_color :: u8
  win_border_color :: u8
  win_title :: "nat \<Rightarrow> u8"
  win_visible :: bool
  win_active :: bool

record 'd gui =
  windows :: "nat \<Rightarrow> window"
  window_count :: nat
  last_mouse :: "int \<times> int \<times> u8"
  dragging_window :: int
  drag_offset_x :: int
  drag_offset_y :: int
  gui_last_buttons :: u8
  gui_mouse :: mouse
  gui_apps :: app_manager
  gui_calc :: "'d calc_app"
  gui_screen :: vga

abbreviation MAX_WINDOWS :: nat where "MAX_WINDOWS \<equiv> 16"

definition BG_COLOR :: u32 where "BG_COLOR = 0x09"
definition TASKBAR_COLOR :: u32 where "TASKBAR_COLOR = 0x00"
definition ACCENT_COLOR :: u32 where "ACCENT_COLOR = 0x0C"
definition TEXT_COLOR :: u32 where "TEXT_COLOR = 0x00"
definition SHADOW_COLOR :: u32 where "SHADOW_COLOR = 0x08"

definition set_window :: "nat \<Rightarrow> (window \<Rightarrow> window) \<Rightarrow> 'd gui \<Rightarrow> 'd gui" where
  "set_window i f s = s\<lparr>windows := (windows s)(i := f (windows s i))\<rparr>"

definition draw :: "(vga \<Rightarrow> vga) \<Rightarrow> 'd gui \<Rightarrow> 'd gui" where
  "draw f s = s\<lparr>gui_screen := f (gui_screen s)\<rparr>"

section \<open>Drawing\<close>

definition gui_init :: "'d doubles \<Rightarrow> 'd gui \<Rightarrow> 'd gui" where
  "gui_init D s =
     (let s = fold (\<lambda>i. set_window i (\<lambda>w. w\<lparr>win_visible := False, win_active := False\<rparr>)) [0..<MAX_WINDOWS] s;
          s = draw (vga_clear_screen BG_COLOR) s
      in s\<lparr>gui_calc := start_calculator_app D (gui_calc s), gui_apps := app_manager_init (gui_apps s)\<rparr>)"

definition gui_draw_desktop :: "vga \<Rightarrow> vga" where
  "gui_draw_desktop v = vga_fill_rect 0 0 (vga_get_width v) (vga_get_height v - 28) BG_COLOR v"

definition gui_draw_taskbar :: "vga \<Rightarrow> vga" where
  "gui_draw_taskbar v =
     (let taskbar_y = vga_get_height v - 28;
          v = vga_fill_rect 0 taskbar_y (vga_get_width v) 24 TASKBAR_COLOR v;
          v = vga_fill_rect 4 (taskbar_y + 4) 50 16 ACCENT_COLOR v;
          v = vga_draw_string 10 (taskbar_y + 8) (chars ''Apps'') 0x3F v
      in vga_draw_string (vga_get_width v - 70) (taskbar_y + 8) (chars ''12:34 PM'') 0x3F v)"

text \<open>Division of \<open>int\<close>s truncates towards zero.\<close>

definition trunc_div :: "int \<Rightarrow> int \<Rightarrow> int" where
  "trunc_div a b = (if a < 0 then - (- a div b) else a div b)"

definition cursor_pos :: "vga \<Rightarrow> int \<times> int \<times> u8 \<Rightarrow> int \<times> int" where
  "cursor_pos v = (\<lambda>(x, y, btns).
     (let W = sint (vga_get_width v); H = sint (vga_get_height v);
          mx = trunc_div (x * W) 640; my = trunc_div (y * H) 480;
          mx = (if mx < 0 then 0 else mx);
          mx = (if mx \<ge> W - 10 then W - 11 else mx);
          my = (if my < 0 then 0 else my);
          my = (if my \<ge> H - 14 then H - 15 else my)
      in (mx, my)))"

definition gui_draw_cursor :: "'f floats \<Rightarrow> 'd gui \<Rightarrow> 'd gui" where
  "gui_draw_cursor F s =
     (let mouse = mouse_get_state (gui_mouse s);
          (mx, my) = cursor_pos (gui_screen s) mouse;
          s = draw (fold (\<lambda>i. vga_set_pixel (word_of_int (mx + 1)) (word_of_int (my + int i + 1)) SHADOW_COLOR) [0..<11]) s;
          s = draw (fold (\<lambda>i. vga_set_pixel (word_of_int mx) (word_of_int (my + int i)) 0x3F) [0..<11]) s;
          s = draw (vga_draw_line F (word_of_int mx) (word_of_int my) (word_of_int (mx + 6)) (word_of_int (my + 6)) 0x3F) s
      in s\<lparr>last_mouse := mouse\<rparr>)"

section \<open>Windows\<close>

definition copy_title :: "u8 list \<Rightarrow> (nat \<Rightarrow> u8) \<Rightarrow> (nat \<Rightarrow> u8)" where
  "copy_title title old =
     (let t = take 63 (takeWhile (\<lambda>ch. ch \<noteq> 0) title)
      in (\<lambda>i. if i < length t then t ! i else if i = length t then 0 else old i))"

definition gui_create_window ::
  "u32 \<Rightarrow> u32 \<Rightarrow> u32 \<Rightarrow> u32 \<Rightarrow> u8 list \<Rightarrow> u8 \<Rightarrow> 'd gui \<Rightarrow> int \<times> 'd gui" where
  "gui_create_window x y w h title color s =
     (if window_count s \<ge> MAX_WINDOWS then (- 1, s)
      else let i = window_count s in
        (int i, set_window i (\<lambda>win. win\<lparr>win_x := x, win_y := y, win_width := w, win_height := h,
             win_color := color, win_border_color := ucast SHADOW_COLOR,
             win_title := copy_title title (win_title win), win_visible := True, win_active := False\<rparr>)
           (s\<lparr>window_count := i + 1\<rparr>)))"

definition draw_window :: "window \<Rightarrow> vga \<Rightarrow> vga" where
  "draw_window win v =
     (let v = vga_fill_rect (win_x win + 3) (win_y win + 3) (win_width win) (win_height win) SHADOW_COLOR v;
          v = vga_fill_rect (win_x win) (win_y win) (win_width win) (win_height win) (ucast (win_color win)) v;
          v = vga_draw_rect (win_x win) (win_y win) (win_width win) (win_height win) SHADOW_COLOR v;
          v = vga_fill_rect (win_x win + 1) (win_y win + 1) (win_width win - 2) 24 0x38 v;
          v = vga_draw_string (win_x win + 10) (win_y win + 10) (List.map (win_title win) [0..<64]) TEXT_COLOR v
      in vga_fill_rect (win_x win + win_width win - 20) (win_y win + 7) 10 10 ACCENT_COLOR v)"

definition gui_draw_window :: "int \<Rightarrow> 'd gui \<Rightarrow> 'd gui" where
  "gui_draw_window i s =
     (if i < 0 \<or> i \<ge> int (window_count s) \<or> \<not> win_visible (windows s (nat i)) then s
      else draw (draw_window (windows s (nat i))) s)"

definition gui_close_window :: "int \<Rightarrow> 'd gui \<Rightarrow> 'd gui" where
  "gui_close_window i s =
     (if i < 0 \<or> i \<ge> int (window_count s) then s
      else set_window (nat i) (\<lambda>win. win\<lparr>win_visible := False\<rparr>) s)"

section \<open>The mouse\<close>

text \<open>Pointer coordinates scaled to the screen; the product with the width is unsigned.\<close>

definition scale_x :: "vga \<Rightarrow> int \<Rightarrow> int" where
  "scale_x v mx = sint ((word_of_int mx * vga_get_width v) div 640)"

definition scale_y :: "vga \<Rightarrow> int \<Rightarrow> int" where
  "scale_y v my = sint ((word_of_int my * vga_get_height v) div 480)"

definition on_launcher :: "vga \<Rightarrow> int \<Rightarrow> int \<Rightarrow> bool" where
  "on_launcher v mx my \<longleftrightarrow>
     (let taskbar_y = sint (vga_get_height v - 28)
      in my \<ge> taskbar_y + 4 \<and> my \<le> taskbar_y + 20 \<and> mx \<ge> 4 \<and> mx \<le> 54)"

definition on_win_close :: "window \<Rightarrow> int \<Rightarrow> int \<Rightarrow> bool" where
  "on_win_close win mx my \<longleftrightarrow>
     mx \<ge> sint (win_x win + win_width win - 20) \<and> mx \<le> sint (win_x win + win_width win - 10)
     \<and> my \<ge> sint (win_y win + 7) \<and> my \<le> sint (win_y win + 17)"

definition on_win_title :: "window \<Rightarrow> int \<Rightarrow> int \<Rightarrow> bool" where
  "on_win_title win mx my \<longleftrightarrow>
     mx \<ge> sint (win_x win) \<and> mx \<le> sint (win_x win + win_width win)
     \<and> my \<ge> sint (win_y win) \<and> my \<le> sint (win_y win + 24)"

definition grab_window :: "nat \<Rightarrow> int \<Rightarrow> int \<Rightarrow> 'd gui \<Rightarrow> 'd gui" where
  "grab_window i mx my s =
     (let s = fold (\<lambda>j. set_window j (\<lambda>win. win\<lparr>win_active := False\<rparr>)) [0..<window_count s] s;
          s = set_window i (\<lambda>win. win\<lparr>win_active := True\<rparr>) s
      in s\<lparr>dragging_window := int i,
           drag_offset_x := sint (word_of_int mx - win_x (windows s i)),
           drag_offset_y := sint (word_of_int my - win_y (windows s i))\<rparr>)"

text \<open>The loop over the windows, from the one created last; \<open>n\<close> is \<open>i + 1\<close>.\<close>

fun click_windows :: "nat \<Rightarrow> int \<Rightarrow> int \<Rightarrow> 'd gui \<Rightarrow> 'd gui" where
  "click_windows 0 mx my s = s"
| "click_windows (Suc i) mx my s =
     (let win = windows s i in
      if \<not> win_visible win then click_windows i mx my s
      else if on_win_close win mx my then gui_close_window (int i) s
      else if on_win_title win mx my then grab_window i mx my s
      else click_windows i mx my s)"

definition gui_handle_mouse_click :: "u32 \<Rightarrow> int \<Rightarrow> int \<Rightarrow> 'd gui \<Rightarrow> 'd gui option" where
  "gui_handle_mouse_click entry mx my s =
     (let mx = scale_x (gui_screen s) mx; my = scale_y (gui_screen s) my in
      if on_launcher (gui_screen s) mx my
      then map_option (\<lambda>(_, a). s\<lparr>gui_apps := a\<rparr>) (app_launch entry APP_CALCULATOR (gui_apps s))
      else Some (click_windows (window_count s) mx my s))"

definition gui_handle_mouse_release :: "'d gui \<Rightarrow> 'd gui" where
  "gui_handle_mouse_release s = s\<lparr>dragging_window := - 1\<rparr>"

definition drag_to :: "vga \<Rightarrow> int \<Rightarrow> int \<Rightarrow> window \<Rightarrow> window" where
  "drag_to v new_x new_y win =
     (let W = vga_get_width v; H = vga_get_height v;
          new_x = (if new_x < 0 then 0 else new_x);
          new_y = (if new_y < 0 then 0 else new_y);
          new_x = (if new_x + sint (win_width win) > sint W then sint (W - win_width win) else new_x);
          new_y = (if new_y + sint (win_height win) > sint W - 28 then sint (H - 28 - win_height win) else new_y)
      in win\<lparr>win_x := word_of_int new_x, win_y := word_of_int new_y\<rparr>)"

definition gui_handle_mouse_drag :: "int \<Rightarrow> int \<Rightarrow> 'd gui \<Rightarrow> 'd gui" where
  "gui_handle_mouse_drag mx my s =
     (if dragging_window s < 0 then s
      else let mx = scale_x (gui_screen s) mx; my = scale_y (gui_screen s) my
        in set_window (nat (dragging_window s))
             (drag_to (gui_screen s) (mx - drag_offset_x s) (my - drag_offset_y s)) s)"

section \<open>Frames\<close>

definition mouse_events :: "u32 \<Rightarrow> 'd gui \<Rightarrow> 'd gui option" where
  "mouse_events entry s =
     (let (x, y, btns) = mouse_get_state (gui_mouse s); last = gui_last_buttons s;
          r = (if btns AND MOUSE_LEFT_BTN \<noteq> 0
               then if last AND MOUSE_LEFT_BTN = 0 then gui_handle_mouse_click entry x y s
                    else if dragging_window s \<ge> 0 then Some (gui_handle_mouse_drag x y s) else Some s
               else if last AND MOUSE_LEFT_BTN \<noteq> 0 then Some (gui_handle_mouse_release s) else Some s)
      in map_option (\<lambda>s. s\<lparr>gui_last_buttons := btns\<rparr>) r)"

definition run_calculator :: "'d doubles \<Rightarrow> 'f floats \<Rightarrow> 'd gui \<Rightarrow> 'd gui" where
  "run_calculator D F s =
     (if is_calculator_active (gui_calc s)
      then let (p, v) = update_calculator_app D F (gui_mouse s) (gui_calc s, gui_screen s)
           in s\<lparr>gui_calc := p, gui_screen := v\<rparr>
      else s)"

definition draw_frame ::
  "'d doubles \<Rightarrow> 'f floats \<Rightarrow> 'd gui \<Rightarrow> 'd gui" where
  "draw_frame D F s =
     (let s = draw gui_draw_desktop s;
          s = fold (\<lambda>i s. if win_visible (windows s i) then gui_draw_window (int i) s else s) [0..<window_count s] s;
          s = s\<lparr>gui_apps := app_manager_update (gui_apps s)\<rparr>;
          s = run_calculator D F s;
          s = draw gui_draw_taskbar s;
          s = gui_draw_cursor F s
      in draw vga_swap_buffers s)"

definition gui_update ::
  "'d doubles \<Rightarrow> 'f floats \<Rightarrow> u32 \<Rightarrow> 'd gui \<Rightarrow> 'd gui option" where
  "gui_update D F entry s = map_option (draw_frame D F) (mouse_events entry s)"

text \<open>
  The body of the calculator process: start the application, then update it while it is active.
  The list holds the state the mouse driver has in each iteration.
\<close>

definition calculator_process_entry ::
  "'d doubles \<Rightarrow> 'f floats \<Rightarrow> mouse list \<Rightarrow> 'd calc_app \<times> vga \<Rightarrow> 'd calc_app \<times> vga" where
  "calculator_process_entry D F ms = (\<lambda>(p, v).
     fold (\<lambda>m (p, v). if is_calculator_active p then update_calculator_app D F m (p, v) else (p, v))
       ms (start_calculator_app D p, v))"

section \<open>Frames of the operations\<close>

lemma set_window_frames [frame_simps]:
  "window_count (set_window i f s) = window_count s" "dragging_window (set_window i f s) = dragging_window s"
  "gui_screen (set_window i f s) = gui_screen s" "gui_calc (set_window i f s) = gui_calc s"
  "windows (set_window i f s) = (windows s)(i := f (windows s i))"
  "drag_offset_x (set_window i f s) = drag_offset_x s" "drag_offset_y (set_window i f s) = drag_offset_y s"
  by (simp_all add: set_window_def)

lemma draw_frames [frame_simps]:
  "window_count (draw f s) = window_count s" "dragging_window (draw f s) = dragging_window s"
  "windows (draw f s) = windows s" "gui_calc (draw f s) = gui_calc s"
  by (simp_all add: draw_def)

lemma set_windows_frames [frame_simps]:
  "window_count (fold (\<lambda>j. set_window j f) js s) = window_count s"
  "dragging_window (fold (\<lambda>j. set_window j f) js s) = dragging_window s"
  "gui_screen (fold (\<lambda>j. set_window j f) js s) = gui_screen s"
  "gui_calc (fold (\<lambda>j. set_window j f) js s) = gui_calc s"
  by (induction js arbitrary: s) (simp_all add: frame_simps)

lemma set_windows_apply:
  "distinct js \<Longrightarrow> windows (fold (\<lambda>j. set_window j f) js s) i = (if i \<in> set js then f (windows s i) else windows s i)"
  by (induction js arbitrary: s) (auto simp: frame_simps)

lemma grab_window_frames [frame_simps]:
  "window_count (grab_window i mx my s) = window_count s" "dragging_window (grab_window i mx my s) = int i"
  "gui_screen (grab_window i mx my s) = gui_screen s" "gui_calc (grab_window i mx my s) = gui_calc s"
  "drag_offset_x (grab_window i mx my s) = sint (word_of_int mx - win_x (windows s i))"
  "drag_offset_y (grab_window i mx my s) = sint (word_of_int my - win_y (windows s i))"
  by (simp_all add: grab_window_def Let_def frame_simps set_windows_apply)

lemma grab_window_windows [frame_simps]:
  "i < window_count s \<Longrightarrow> windows (grab_window i mx my s) j =
     (if j < window_count s then (windows s j)\<lparr>win_active := (j = i)\<rparr> else windows s j)"
  by (simp add: grab_window_def Let_def frame_simps set_windows_apply)

lemma gui_draw_window_frames [frame_simps]:
  "window_count (gui_draw_window i s) = window_count s" "dragging_window (gui_draw_window i s) = dragging_window s"
  "windows (gui_draw_window i s) = windows s" "gui_calc (gui_draw_window i s) = gui_calc s"
  by (simp_all add: gui_draw_window_def frame_simps)

lemma draw_windows_frames [frame_simps]:
  fixes s :: "'d gui"
  defines "f \<equiv> (\<lambda>i (s :: 'd gui). if win_visible (windows s i) then gui_draw_window (int i) s else s)"
  shows "window_count (fold f is s) = window_count s" "dragging_window (fold f is s) = dragging_window s"
    "windows (fold f is s) = windows s" "gui_calc (fold f is s) = gui_calc s"
  unfolding f_def by (induction "is" arbitrary: s) (simp_all add: frame_simps)

lemma gui_draw_cursor_frames [frame_simps]:
  "window_count (gui_draw_cursor F s) = window_count s" "dragging_window (gui_draw_cursor F s) = dragging_window s"
  "windows (gui_draw_cursor F s) = windows s" "gui_calc (gui_draw_cursor F s) = gui_calc s"
  by (simp_all add: gui_draw_cursor_def Let_def frame_simps split: prod.splits)

lemma run_calculator_frames [frame_simps]:
  "window_count (run_calculator D F s) = window_count s"
  "dragging_window (run_calculator D F s) = dragging_window s"
  "windows (run_calculator D F s) = windows s"
  by (simp_all add: run_calculator_def split: prod.splits)

lemma draw_frame_frames [frame_simps]:
  "window_count (draw_frame D F s) = window_count s"
  "dragging_window (draw_frame D F s) = dragging_window s"
  "windows (draw_frame D F s) = windows s"
  by (simp_all add: draw_frame_def Let_def frame_simps)

section \<open>The window table\<close>

definition gui_inv :: "'d gui \<Rightarrow> bool" where
  "gui_inv s \<longleftrightarrow> window_count s \<le> MAX_WINDOWS \<and> dragging_window s < int (window_count s)
     \<and> (\<forall>i<window_count s. \<forall>j<window_count s. win_active (windows s i) \<longrightarrow> win_active (windows s j) \<longrightarrow> i = j)"

lemma gui_inv_cong:
  "window_count t = window_count s \<Longrightarrow> dragging_window t = dragging_window s
     \<Longrightarrow> (\<And>i. win_active (windows t i) = win_active (windows s i)) \<Longrightarrow> gui_inv t = gui_inv s"
  by (simp add: gui_inv_def)

lemma gui_close_window_inv [inv_intros]: "gui_inv s \<Longrightarrow> gui_inv (gui_close_window i s)"
  by (subst gui_inv_cong [of _ s]) (simp_all add: gui_close_window_def frame_simps)

lemma gui_create_window_inv [inv_intros]: "gui_inv s \<Longrightarrow> gui_inv (snd (gui_create_window x y w h title color s))"
  by (auto simp: gui_create_window_def gui_inv_def frame_simps Let_def)

lemma grab_window_inv: "gui_inv s \<Longrightarrow> i < window_count s \<Longrightarrow> gui_inv (grab_window i mx my s)"
  by (simp add: gui_inv_def frame_simps)

lemma click_windows_inv: "gui_inv s \<Longrightarrow> n \<le> window_count s \<Longrightarrow> gui_inv (click_windows n mx my s)"
  by (induction n) (simp_all add: Let_def grab_window_inv gui_close_window_inv)

lemma drag_to_active: "win_active (drag_to v x y win) = win_active win"
  by (simp add: drag_to_def Let_def)

lemma gui_handle_mouse_drag_inv: "gui_inv s \<Longrightarrow> gui_inv (gui_handle_mouse_drag mx my s)"
  by (subst gui_inv_cong [of _ s]) (simp_all add: gui_handle_mouse_drag_def frame_simps Let_def drag_to_active)

lemma gui_handle_mouse_click_inv:
  "gui_inv s \<Longrightarrow> gui_handle_mouse_click entry mx my s = Some t \<Longrightarrow> gui_inv t"
  using click_windows_inv [of s "window_count s"]
  by (auto simp: gui_handle_mouse_click_def Let_def gui_inv_def split: if_splits)

lemma mouse_events_inv:
  assumes "gui_inv s" and "mouse_events entry s = Some t"
  shows "gui_inv t"
proof -
  have b: "gui_inv (s\<lparr>gui_last_buttons := b\<rparr>) = gui_inv s" for b and s :: "'a gui"
    by (simp add: gui_inv_def)
  have r: "gui_inv (gui_handle_mouse_release s)"
    using assms(1) by (simp add: gui_handle_mouse_release_def gui_inv_def)
  show ?thesis
    using assms(2) r gui_handle_mouse_drag_inv [OF assms(1)] gui_handle_mouse_click_inv [OF assms(1)] assms(1)
    by (auto simp: mouse_events_def Let_def b split: prod.splits if_splits)
qed

lemma gui_update_inv: "gui_inv s \<Longrightarrow> gui_update D F entry s = Some t \<Longrightarrow> gui_inv t"
  using mouse_events_inv [of s entry]
  by (auto simp: gui_update_def gui_inv_cong [of "draw_frame D F _"] frame_simps)

text \<open>Everything that happens to the desktop: a frame with some mouse state, a window opened or closed.\<close>

inductive gui_step ::
  "'d doubles \<Rightarrow> 'f floats \<Rightarrow> u32 \<Rightarrow> 'd gui \<Rightarrow> 'd gui \<Rightarrow> bool"
  for D F entry where
  frame: "gui_update D F entry (s\<lparr>gui_mouse := m\<rparr>) = Some t \<Longrightarrow> gui_step D F entry s t"
| create: "gui_step D F entry s (snd (gui_create_window x y w h title color s))"
| close: "gui_step D F entry s (gui_close_window i s)"

lemma gui_step_inv: "gui_step D F entry s t \<Longrightarrow> gui_inv s \<Longrightarrow> gui_inv t"
proof (induction rule: gui_step.induct)
  case (frame m s t)
  have "gui_inv (s\<lparr>gui_mouse := m\<rparr>)" using frame(2) by (simp add: gui_inv_def)
  then show ?case using frame(1) by (rule gui_update_inv)
qed (simp_all add: inv_intros)

lemma gui_steps_inv: "(gui_step D F entry)\<^sup>*\<^sup>* s t \<Longrightarrow> gui_inv s \<Longrightarrow> gui_inv t"
  by (induction rule: rtranclp_induct) (auto dest: gui_step_inv)

lemma gui_init_inv: "window_count s = 0 \<Longrightarrow> dragging_window s = - 1 \<Longrightarrow> gui_inv (gui_init D s)"
  by (simp add: gui_init_def gui_inv_def Let_def frame_simps del: upt_rec_numeral)

text \<open>
  Property C35. Whatever windows are opened and closed and whatever the mouse does, frame after
  frame: there are never more than 16 windows, the window being dragged is one of them, so the
  table is not accessed out of its bounds, and at most one window is active.
\<close>

theorem gui_windows_safe:
  assumes "window_count s = 0" and "dragging_window s = - 1"
    and "(gui_step D F entry)\<^sup>*\<^sup>* (gui_init D s) t"
  shows "window_count t \<le> MAX_WINDOWS \<and> dragging_window t < int (window_count t)
     \<and> card {i. i < window_count t \<and> win_active (windows t i)} \<le> 1"
proof -
  have t: "gui_inv t" by (rule gui_steps_inv [OF assms(3) gui_init_inv [OF assms(1,2)]])
  have "finite {i. i < window_count t \<and> win_active (windows t i)}" by simp
  from card_le_Suc0_iff_eq [OF this] t have "card {i. i < window_count t \<and> win_active (windows t i)} \<le> 1"
    by (auto simp: gui_inv_def)
  with t show ?thesis by (simp add: gui_inv_def)
qed

theorem gui_windows_safe_witness:
  "\<forall>s :: signed_rat gui.
     let t = snd (gui_create_window 10 10 300 200 (chars ''Files'') 0x3F
                   (gui_init signed_doubles (s\<lparr>window_count := 0, dragging_window := - 1\<rparr>)))
     in window_count t \<le> MAX_WINDOWS \<and> dragging_window t < int (window_count t)
       \<and> card {i. i < window_count t \<and> win_active (windows t i)} \<le> 1"
proof
  fix s :: "signed_rat gui"
  let ?s = "s\<lparr>window_count := 0, dragging_window := - 1\<rparr>"
  have "(gui_step signed_doubles rat_floats 0)\<^sup>*\<^sup>* (gui_init signed_doubles ?s)
      (snd (gui_create_window 10 10 300 200 (chars ''Files'') 0x3F (gui_init signed_doubles ?s)))"
    by (rule r_into_rtranclp, rule gui_step.create)
  from gui_windows_safe [OF _ _ this] show "let t = snd (gui_create_window 10 10 300 200 (chars ''Files'') 0x3F
                   (gui_init signed_doubles ?s))
     in window_count t \<le> MAX_WINDOWS \<and> dragging_window t < int (window_count t)
       \<and> card {i. i < window_count t \<and> win_active (windows t i)} \<le> 1"
    by (simp add: Let_def)
qed

section \<open>The calculator and its launcher\<close>

lemma click_windows_calc: "gui_calc (click_windows n mx my s) = gui_calc s"
  by (induction n) (simp_all add: Let_def frame_simps gui_close_window_def)

lemma mouse_events_calc: "mouse_events entry s = Some t \<Longrightarrow> gui_calc t = gui_calc s"
  by (auto simp: mouse_events_def gui_handle_mouse_click_def gui_handle_mouse_drag_def
      gui_handle_mouse_release_def Let_def frame_simps click_windows_calc split: prod.splits if_splits)

lemma draw_frame_calc: "\<not> g_calculator_active (gui_calc s) \<Longrightarrow> gui_calc (draw_frame D F s) = gui_calc s"
  by (simp add: draw_frame_def Let_def frame_simps run_calculator_def is_calculator_active_def)

lemma gui_step_calc:
  "gui_step D F entry s t \<Longrightarrow> \<not> g_calculator_active (gui_calc s) \<Longrightarrow> gui_calc t = gui_calc s"
proof (induction rule: gui_step.induct)
  case (frame m s t)
  then obtain u where u: "mouse_events entry (s\<lparr>gui_mouse := m\<rparr>) = Some u" "t = draw_frame D F u"
    by (auto simp: gui_update_def)
  from mouse_events_calc [OF u(1)] frame(2) show ?case by (simp add: u(2) draw_frame_calc)
qed (simp_all add: gui_create_window_def gui_close_window_def Let_def frame_simps)

text \<open>
  Remark. Once the calculator is closed it stays closed: the launcher button only creates a
  process that would start it, and the desktop itself never does; no sequence of frames, clicks
  and window operations makes it active again.
\<close>

theorem calculator_stays_closed:
  assumes "\<not> is_calculator_active (gui_calc s)" and "(gui_step D F entry)\<^sup>*\<^sup>* s t"
  shows "\<not> is_calculator_active (gui_calc t) \<and> gui_calc t = gui_calc s"
  using assms(2,1)
  by (induction rule: rtranclp_induct) (auto simp: is_calculator_active_def dest: gui_step_calc)

theorem calculator_stays_closed_witness:
  "\<forall>s :: signed_rat gui. \<not> is_calculator_active (gui_calc (gui_close_window 0
     (s\<lparr>gui_calc := (gui_calc s)\<lparr>g_calculator_active := False\<rparr>\<rparr>)))"
proof
  fix s :: "signed_rat gui"
  let ?s = "s\<lparr>gui_calc := (gui_calc s)\<lparr>g_calculator_active := False\<rparr>\<rparr>"
  have "(gui_step signed_doubles rat_floats 0)\<^sup>*\<^sup>* ?s (gui_close_window 0 ?s)"
    by (rule r_into_rtranclp, rule gui_step.close)
  from calculator_stays_closed [OF _ this] show "\<not> is_calculator_active (gui_calc (gui_close_window 0 ?s))"
    by (simp add: is_calculator_active_def)
qed

section \<open>Dragging\<close>

text \<open>The window a press at a point of the screen takes hold of: the topmost one there, by its title.\<close>

definition grabs :: "'d gui \<Rightarrow> nat \<Rightarrow> int \<Rightarrow> int \<Rightarrow> bool" where
  "grabs s i mx my \<longleftrightarrow> i < window_count s \<and> win_visible (windows s i) \<and> on_win_title (windows s i) mx my
     \<and> \<not> on_win_close (windows s i) mx my \<and> \<not> on_launcher (gui_screen s) mx my
     \<and> (\<forall>j. i < j \<longrightarrow> j < window_count s \<longrightarrow> win_visible (windows s j) \<longrightarrow>
          \<not> on_win_close (windows s j) mx my \<and> \<not> on_win_title (windows s j) mx my)"

lemma click_windows_hit:
  assumes "i < n" and "n \<le> window_count s" and "grabs s i mx my"
  shows "click_windows n mx my s = grab_window i mx my s"
  using assms(1,2)
proof (induction n)
  case (Suc n)
  show ?case
  proof (cases "i = n")
    case True
    then show ?thesis using assms(3) by (simp add: grabs_def Let_def)
  next
    case False
    then have "i < n" using Suc.prems by simp
    then have "win_visible (windows s n) \<longrightarrow> \<not> on_win_close (windows s n) mx my \<and> \<not> on_win_title (windows s n) mx my"
      using assms(3) Suc.prems(2) by (simp add: grabs_def)
    then show ?thesis using Suc \<open>i < n\<close> by (simp add: Let_def)
  qed
qed simp

lemma div_small_range: "1 < k \<Longrightarrow> sint ((n :: u32) div k) = uint n div uint k"
proof -
  assume k: "1 < k"
  then have "2 \<le> unat k" by (simp add: word_less_nat_alt)
  then have "unat n div unat k \<le> unat n div 2" by (intro div_le_mono2) simp_all
  then have "unat (n div k) < 2147483648" using unat_lt32 [of n] by (simp add: unat_div)
  then show ?thesis by (simp add: sint_small32 unat_div zdiv_int)
qed

lemma scale_range: "0 \<le> scale_x v x \<and> scale_x v x < 16777216" "0 \<le> scale_y v y \<and> scale_y v y < 16777216"
proof -
  have "0 \<le> uint n div 640 \<and> uint n div 640 < 16777216 \<and> 0 \<le> uint n div 480 \<and> uint n div 480 < 16777216" for n :: u32
    using uint_lt2p [of n] by (auto simp: pos_imp_zdiv_nonneg_iff)
  then show "0 \<le> scale_x v x \<and> scale_x v x < 16777216" "0 \<le> scale_y v y \<and> scale_y v y < 16777216"
    by (simp_all add: scale_x_def scale_y_def div_small_range)
qed

lemma uint_below: "unat (a :: u32) < 1073741824 \<Longrightarrow> uint a < 1073741824"
proof -
  assume "unat a < 1073741824"
  then have "int (unat a) < int 1073741824" by (simp only: of_nat_less_iff)
  then show ?thesis by simp
qed

lemma offset_exact:
  assumes "0 \<le> m" and "m < 16777216" and "unat (a :: u32) < 1073741824"
  shows "sint (word_of_int m - a) = m - uint a"
proof -
  have "uint a < 1073741824" "0 \<le> uint a" using uint_below [OF assms(3)] by simp_all
  then have "sint (word_of_int (m - uint a) :: u32) = m - uint a" using assms(1,2) by (intro sint_small_word [simplified]) linarith+
  then show ?thesis by simp
qed

lemma drag_to_pos:
  assumes "unat (vga_get_width v) < 1073741824" and "unat (vga_get_height v) < 1073741824"
    and "win_width win \<le> vga_get_width v" and "unat (win_height win) + 28 \<le> unat (vga_get_height v)"
    and "nx < 2147483648" and "ny < 2147483648"
  shows "uint (win_x (drag_to v nx ny win)) = max 0 (min (uint (vga_get_width v) - uint (win_width win)) nx)"
    "uint (win_y (drag_to v nx ny win)) =
      (if max 0 ny + uint (win_height win) > uint (vga_get_width v) - 28
       then uint (vga_get_height v) - 28 - uint (win_height win) else max 0 ny)"
proof -
  let ?W = "vga_get_width v" and ?H = "vga_get_height v" and ?w = "win_width win" and ?h = "win_height win"
  have i: "int (unat ?W) = uint ?W" "int (unat ?H) = uint ?H" "int (unat ?w) = uint ?w" "int (unat ?h) = uint ?h"
    by simp_all
  have le: "unat ?w \<le> unat ?W" using assms(3) by (simp add: word_le_nat_alt)
  then have b: "uint ?w \<le> uint ?W" "uint ?W < 1073741824" using i uint_below [OF assms(1)] by linarith+
  have s: "sint ?W = uint ?W" "sint ?w = uint ?w" "sint ?h = uint ?h"
    using assms(1,2,4) le by (simp_all add: sint_small32)
  have "unat (?W - ?w) = unat ?W - unat ?w" using assms(3) by (rule unat_minus32)
  then have dx: "sint (?W - ?w) = uint ?W - uint ?w"
    using sint_small32 [of "?W - ?w"] assms(1) le i by simp
  have "(28 :: u32) \<le> ?H" "?h \<le> ?H - 28"
    using assms(4) unat_minus32 [of 28 ?H] by (simp_all add: word_le_nat_alt)
  then have "unat (?H - 28 - ?h) = unat ?H - 28 - unat ?h" using unat_minus32 [of 28 ?H] unat_minus32 [of ?h "?H - 28"] by simp
  then have dy: "sint (?H - 28 - ?h) = uint ?H - 28 - uint ?h"
    using sint_small32 [of "?H - 28 - ?h"] assms(2,4) i by simp
  have u: "uint (word_of_int k :: u32) = k" if "0 \<le> k" "k < 2147483648" for k
    using that by (simp add: uint_word_of_int)
  show "uint (win_x (drag_to v nx ny win)) = max 0 (min (uint ?W - uint ?w) nx)"
    using assms(5) b u [of nx] u [of "uint ?W - uint ?w"] by (auto simp: drag_to_def Let_def s dx simp del: of_int_diff)
  have b: "28 + uint ?h \<le> uint ?H" "uint ?H < 1073741824" "0 \<le> uint ?h" using assms(4) i uint_below [OF assms(2)] by linarith+
  have uy: "uint (word_of_int (uint ?H - 28 - uint ?h) :: u32) = uint ?H - 28 - uint ?h" by (rule u) (use b in linarith)+
  show "uint (win_y (drag_to v nx ny win)) =
      (if max 0 ny + uint ?h > uint ?W - 28 then uint ?H - 28 - uint ?h else max 0 ny)"
    using assms(6) b u [of ny] uy by (auto simp: drag_to_def Let_def s dy simp del: of_int_diff)
qed

lemma click_grabs:
  assumes "grabs s i (scale_x (gui_screen s) x) (scale_y (gui_screen s) y)"
  shows "gui_handle_mouse_click entry x y s =
    Some (grab_window i (scale_x (gui_screen s) x) (scale_y (gui_screen s) y) s)"
  using assms click_windows_hit [OF _ order_refl assms] by (simp add: gui_handle_mouse_click_def Let_def grabs_def)

text \<open>
  Remark. Pressing the button on the title of the topmost window under the pointer and moving
  the pointer moves exactly that window, by the distance the pointer moves on the screen, stopped at
  the left, right and upper edge. The check at the lower edge compares with the width of the screen
  instead of its height, so on a screen wider than high a window can be pulled below the taskbar.
\<close>

theorem gui_drag_moves:
  fixes s :: "'d gui" and x y x' y' :: int
  assumes "grabs s i (scale_x (gui_screen s) x) (scale_y (gui_screen s) y)"
    and "unat (vga_get_width (gui_screen s)) < 1073741824" and "unat (vga_get_height (gui_screen s)) < 1073741824"
    and "win_width (windows s i) \<le> vga_get_width (gui_screen s)"
    and "unat (win_height (windows s i)) + 28 \<le> unat (vga_get_height (gui_screen s))"
    and "unat (win_x (windows s i)) < 1073741824" and "unat (win_y (windows s i)) < 1073741824"
  defines "W \<equiv> uint (vga_get_width (gui_screen s))" and "H \<equiv> uint (vga_get_height (gui_screen s))"
    and "w \<equiv> uint (win_width (windows s i))" and "h \<equiv> uint (win_height (windows s i))"
    and "nx \<equiv> uint (win_x (windows s i)) + scale_x (gui_screen s) x' - scale_x (gui_screen s) x"
    and "ny \<equiv> max 0 (uint (win_y (windows s i)) + scale_y (gui_screen s) y' - scale_y (gui_screen s) y)"
  shows "\<exists>t. gui_handle_mouse_click entry x y s = Some t \<and> win_active (windows t i)
     \<and> uint (win_x (windows (gui_handle_mouse_drag x' y' t) i)) = max 0 (min (W - w) nx)
     \<and> uint (win_y (windows (gui_handle_mouse_drag x' y' t) i)) = (if ny + h > W - 28 then H - 28 - h else ny)
     \<and> (\<forall>j. j \<noteq> i \<longrightarrow> windows (gui_handle_mouse_drag x' y' t) j = windows t j)"
proof -
  let ?v = "gui_screen s" and ?win = "windows s i"
  define t where "t = grab_window i (scale_x ?v x) (scale_y ?v y) s"
  have i: "i < window_count s" using assms(1) by (simp add: grabs_def)
  have c: "gui_handle_mouse_click entry x y s = Some t"
    using click_grabs [OF assms(1)] by (simp add: t_def)
  have off: "drag_offset_x t = scale_x ?v x - uint (win_x ?win)" "drag_offset_y t = scale_y ?v y - uint (win_y ?win)"
    using scale_range assms(6,7) by (simp_all add: t_def frame_simps offset_exact)
  let ?u = "drag_to ?v (scale_x ?v x' - drag_offset_x t) (scale_y ?v y' - drag_offset_y t) (?win\<lparr>win_active := True\<rparr>)"
  have d: "windows (gui_handle_mouse_drag x' y' t) = (windows t)(i := ?u)"
    using i by (simp add: gui_handle_mouse_drag_def Let_def frame_simps t_def)
  have b: "scale_x ?v x' - drag_offset_x t < 2147483648" "scale_y ?v y' - drag_offset_y t < 2147483648"
    using scale_range [of ?v x] scale_range [of ?v x'] scale_range(2) [of ?v y] scale_range(2) [of ?v y']
      uint_below [OF assms(6)] uint_below [OF assms(7)] unfolding off by linarith+
  have "uint (win_x ?u) = max 0 (min (W - w) nx)" "uint (win_y ?u) = (if ny + h > W - 28 then H - 28 - h else ny)"
    using drag_to_pos [of ?v "?win\<lparr>win_active := True\<rparr>", OF assms(2,3) _ _ b] assms(4,5)
    by (simp_all add: off W_def H_def w_def h_def nx_def ny_def algebra_simps)
  then show ?thesis using c i d by (simp add: t_def frame_simps)
qed

definition window_demo :: window where
  "window_demo = \<lparr>win_x = 100, win_y = 100, win_width = 300, win_height = 200, win_color = 0x3F,
     win_border_color = 0x08, win_title = (\<lambda>_. 0), win_visible = True, win_active = False\<rparr>"

definition one_window :: "'d gui \<Rightarrow> 'd gui" where
  "one_window s = s\<lparr>windows := (\<lambda>_. window_demo), window_count := 1,
     gui_screen := (gui_screen s)\<lparr>VGA_WIDTH := 1024, VGA_HEIGHT := 768\<rparr>\<rparr>"

theorem gui_drag_moves_witness:
  "\<forall>s :: signed_rat gui. \<exists>t. gui_handle_mouse_click 0 100 70 (one_window s) = Some t
     \<and> uint (win_x (windows (gui_handle_mouse_drag 200 90 t) 0)) = 260
     \<and> uint (win_y (windows (gui_handle_mouse_drag 200 90 t) 0)) = 132"
proof
  fix s :: "signed_rat gui"
  have g: "grabs (one_window s) 0 (scale_x (gui_screen (one_window s)) 100) (scale_y (gui_screen (one_window s)) 70)"
    by (simp add: grabs_def one_window_def window_demo_def scale_x_def scale_y_def vga_get_width_def
        vga_get_height_def on_win_title_def on_win_close_def on_launcher_def)
  show "\<exists>t. gui_handle_mouse_click 0 100 70 (one_window s) = Some t
     \<and> uint (win_x (windows (gui_handle_mouse_drag 200 90 t) 0)) = 260
     \<and> uint (win_y (windows (gui_handle_mouse_drag 200 90 t) 0)) = 132"
    using gui_drag_moves [OF g, where x' = 200 and y' = 90 and entry = 0]
    by (auto simp: one_window_def window_demo_def scale_x_def scale_y_def vga_get_width_def vga_get_height_def)
qed

end
