(* ===== verification/Usermode.thy ===== *)
theory Usermode
  imports Process Faults Gdt Paging
begin

text \<open>
  The switch to user mode, \<^verbatim>\<open>usermode/usermode.c\<close>: a kernel stack for the task state segment,
  a user stack, and the frame that \<open>iret\<close> pops to enter ring 3. The frame is what the code pushes;
  \<open>flags\<close> is the flags register \<open>pushf\<close> reads and \<open>prog\<close> the address of
  \<open>sample_usermode_program\<close>.
\<close>

section \<open>State\<close>

record user_state =
  ukern :: kernel
  ugdt :: gdt
  kernel_stack_top :: u32

record iret_frame =
  f_eip :: u32
  f_cs :: u32
  f_eflags :: u32
  f_esp :: u32
  f_ss :: u32

datatype entry = Returned | Iret iret_frame

definition user_say :: "out list \<Rightarrow> user_state \<Rightarrow> user_state" where
  "user_say os s = s\<lparr>ukern := (ukern s)\<lparr>con := print_all os (con (ukern s))\<rparr>\<rparr>"

text \<open>A stack of 8 KiB from the kernel heap.\<close>

definition alloc_stack :: "user_state \<Rightarrow> (u32 \<times> user_state) option" where
  "alloc_stack s = map_option (\<lambda>(p, h). (p, s\<lparr>ukern := (ukern s)\<lparr>kheap := h\<rparr>\<rparr>)) (kmalloc 0x2000 (kheap (ukern s)))"

section \<open>Operations\<close>

definition usermode_init :: "user_state \<Rightarrow> user_state option" where
  "usermode_init s =
     (let s = user_say [Str ''       Setting up user mode...'', NL, Str ''       Allocating kernel stack...'', NL] s
      in map_option (\<lambda>(kernel_stack, s).
           if kernel_stack = 0
           then user_say [Str ''       [ERROR] Failed to allocate kernel stack!'', NL] s
           else let s = s\<lparr>kernel_stack_top := kernel_stack + 0x2000\<rparr>;
                    s = s\<lparr>ugdt := set_kernel_stack (kernel_stack_top s) (ugdt s)\<rparr>
                in user_say [Str ''       Kernel stack set at 0x'', Hex (kernel_stack_top s), NL] s)
         (alloc_stack s))"

definition enter_usermode :: "u32 \<Rightarrow> u32 \<Rightarrow> user_state \<Rightarrow> (entry \<times> user_state) option" where
  "enter_usermode flags prog s =
     (let s = user_say [NL, Str ''[USERMODE] Switching to Ring 3...'', NL] s
      in map_option (\<lambda>(user_stack, s).
           if user_stack = 0
           then (Returned, user_say [Str ''[ERROR] Failed to allocate user stack!'', NL] s)
           else let user_stack = user_stack + 0x2000;
                    s = user_say [Str ''[USERMODE] User stack at 0x'', Hex user_stack, NL,
                          Str ''[USERMODE] Kernel stack at 0x'', Hex (kernel_stack_top s), NL,
                          Str ''[USERMODE] Jumping to Ring 3...'', NL, NL] s
                in (Iret \<lparr>f_eip = prog, f_cs = 0x1B, f_eflags = flags OR 0x200, f_esp = user_stack, f_ss = 0x23\<rparr>, s))
         (alloc_stack s))"

definition usermode_test :: "u32 \<Rightarrow> u32 \<Rightarrow> user_state \<Rightarrow> (entry \<times> user_state) option" where
  "usermode_test flags prog s =
     (let s = user_say [Str ''=== User Mode Test ==='', NL, NL, Str ''Current privilege: Ring 0 (Kernel)'', NL,
                Str ''Preparing to jump to Ring 3...'', NL, NL] s
      in if kernel_stack_top s = 0
         then Some (Returned, user_say [Str ''[ERROR] Kernel stack not initialized!'', NL,
                Str ''Call usermode_init() first!'', NL] s)
         else enter_usermode flags prog s)"

text \<open>
  One turn of the loop of the sample program: the counter, and the registers of the system call
  when one is made; \<open>text\<close> is the address of its string.
\<close>

definition sample_usermode_program :: "u32 \<Rightarrow> u32 \<Rightarrow> u32 \<times> registers option" where
  "sample_usermode_program text x =
     (let x = x + 1 in
      if sint x > 1000000 then (0, Some (regs_zero\<lparr>r_eax := 1, r_ebx := 1, r_ecx := text, r_edx := 25\<rparr>))
      else (x, None))"

section \<open>Properties\<close>

lemma user_say_frames [simp]:
  "kheap (ukern (user_say os s)) = kheap (ukern s)" "ugdt (user_say os s) = ugdt s"
  "kernel_stack_top (user_say os s) = kernel_stack_top s"
  by (simp_all add: user_say_def)

lemma usermode_init_stack:
  assumes "usermode_init s = Some s1" and "kernel_stack_top s = 0" and "kernel_stack_top s1 \<noteq> 0"
  obtains p where "kmalloc 0x2000 (kheap (ukern s)) = Some (p, kheap (ukern s1))" "p \<noteq> 0"
    "kernel_stack_top s1 = p + 0x2000" "esp0 (tss (ugdt s1)) = p + 0x2000" "gdt_entries (ugdt s1) = gdt_entries (ugdt s)"
proof -
  from assms(1) obtain p h where k: "kmalloc 0x2000 (kheap (ukern s)) = Some (p, h)"
    by (auto simp: usermode_init_def alloc_stack_def Let_def)
  have p: "p \<noteq> 0" using assms by (auto simp: usermode_init_def alloc_stack_def Let_def k)
  with assms(1) have "s1 = user_say [Str ''       Kernel stack set at 0x'', Hex (p + 0x2000), NL]
      (user_say [Str ''       Setting up user mode...'', NL, Str ''       Allocating kernel stack...'', NL] s
        \<lparr>ukern := (ukern (user_say [Str ''       Setting up user mode...'', NL,
            Str ''       Allocating kernel stack...'', NL] s))\<lparr>kheap := h\<rparr>,
          kernel_stack_top := p + 0x2000, ugdt := set_kernel_stack (p + 0x2000) (ugdt s)\<rparr>)"
    by (simp add: usermode_init_def alloc_stack_def Let_def k)
  with p k show thesis by (intro that [of p]) (simp_all add: set_kernel_stack_def)
qed

lemma enter_usermode_stack:
  assumes "enter_usermode flags prog s = Some (Iret f, s')"
  obtains q where "kmalloc 0x2000 (kheap (ukern s)) = Some (q, kheap (ukern s'))" "q \<noteq> 0"
    "f = \<lparr>f_eip = prog, f_cs = 0x1B, f_eflags = flags OR 0x200, f_esp = q + 0x2000, f_ss = 0x23\<rparr>"
    "ugdt s' = ugdt s"
proof -
  from assms obtain q h where k: "kmalloc 0x2000 (kheap (ukern s)) = Some (q, h)"
    by (auto simp: enter_usermode_def alloc_stack_def Let_def)
  have q: "q \<noteq> 0" using assms by (auto simp: enter_usermode_def alloc_stack_def Let_def k)
  with assms k show thesis by (intro that [of q]) (auto simp: enter_usermode_def alloc_stack_def Let_def)
qed

lemma stack_top_unat: "unat p + g \<le> 8388608 \<Longrightarrow> 8192 \<le> g \<Longrightarrow> unat (p + 0x2000 :: u32) = unat p + 8192"
  by (subst unat_plus32) simp_all

text \<open>
  Property C37. A program entered in user mode gets a fresh 8 KiB stack on the heap that overlaps
  neither the stack the processor switches to on interrupts (the one in the task state segment)
  nor any other live block, runs with interrupts on, and its two selectors name the ring-3 code
  and data segments that \<open>gdt_init\<close> has set up.
\<close>

theorem usermode_entry_correct:
  assumes "heap_rep (kheap (ukern s)) bs" and "ugdt s = gdt_init ea ta g"
    and "usermode_init s = Some s1" and "kernel_stack_top s = 0" and "kernel_stack_top s1 \<noteq> 0"
    and "enter_usermode flags prog s1 = Some (Iret f, s2)"
  shows "f_eip f = prog \<and> bit (f_eflags f) 9
     \<and> unat (f_esp f) \<le> 8388608 \<and> 4194304 + 8192 < unat (f_esp f)
     \<and> (\<forall>(q, k) \<in> extents 4194304 bs. q + k \<le> unat (f_esp f) - 8192 \<or> unat (f_esp f) \<le> q)
     \<and> (unat (esp0 (tss (ugdt s2))) \<le> unat (f_esp f) - 8192 \<or> unat (f_esp f) \<le> unat (esp0 (tss (ugdt s2))) - 8192)
     \<and> f_cs f = 3 * 8 + 3 \<and> seg_dpl (seg_decode (gdt_entries (ugdt s2) 3)) = 3
     \<and> f_ss f = 4 * 8 + 3 \<and> seg_dpl (seg_decode (gdt_entries (ugdt s2) 4)) = 3"
proof -
  from usermode_init_stack [OF assms(3-5)] obtain p where p:
    "kmalloc 0x2000 (kheap (ukern s)) = Some (p, kheap (ukern s1))" "p \<noteq> 0"
    "esp0 (tss (ugdt s1)) = p + 0x2000" "gdt_entries (ugdt s1) = gdt_entries (ugdt s)" by blast
  from enter_usermode_stack [OF assms(6)] obtain q where q:
    "kmalloc 0x2000 (kheap (ukern s1)) = Some (q, kheap (ukern s2))" "q \<noteq> 0"
    "f = \<lparr>f_eip = prog, f_cs = 0x1B, f_eflags = flags OR 0x200, f_esp = q + 0x2000, f_ss = 0x23\<rparr>"
    "ugdt s2 = ugdt s1" by blast
  have n: "unat (0x2000 :: u32) \<le> 4294967292" by simp
  from kmalloc_extents [OF assms(1) n p(1,2)] obtain g bs1 where P:
    "heap_rep (kheap (ukern s1)) bs1" "8192 \<le> g" "4194304 + 12 \<le> unat p" "unat p + g \<le> 8388608"
    "extents 4194304 bs1 = insert (unat p, g) (extents 4194304 bs)" by auto
  from kmalloc_extents [OF P(1) n q(1,2)] obtain k bs2 where Q:
    "8192 \<le> k" "4194304 + 12 \<le> unat q" "unat q + k \<le> 8388608"
    "\<forall>(a, l) \<in> extents 4194304 bs1. a + l \<le> unat q \<or> unat q + k \<le> a" by auto
  have e: "unat (p + 0x2000) = unat p + 8192" "unat (q + 0x2000) = unat q + 8192"
    using stack_top_unat P Q by blast+
  have pq: "unat p + 8192 \<le> unat q \<or> unat q + 8192 \<le> unat p" using Q(1,4) P(2,5) by auto
  have old: "a + l \<le> unat q \<or> unat q + 8192 \<le> a" if "(a, l) \<in> extents 4194304 bs" for a l
    using Q(1,4) that unfolding P(5) by fastforce
  have seg: "seg_dpl (seg_decode (gdt_entries (ugdt s2) 3)) = 3" "seg_dpl (seg_decode (gdt_entries (ugdt s2) 4)) = 3"
    by (simp_all add: q(4) p(4) assms(2) gdt_init_def write_tss_def Let_def gdt_set_gate_other seg_decode_set_gate seg_dpl_def)
  show ?thesis
    using P Q e pq old seg by (auto simp: q(3,4) p(3) bit_or_iff)
qed

definition user_demo :: "gdt \<Rightarrow> user_state" where
  "user_demo g = \<lparr>ukern = kernel_zero, ugdt = gdt_init 0x108000 0x108100 g, kernel_stack_top = 0\<rparr>"

lemma user_demo_stacks:
  "\<exists>h1 h2. kmalloc 0x2000 (heap_init heap_zero) = Some (4194316, h1) \<and> kmalloc 0x2000 h1 = Some (4202520, h2)"
proof -
  have "blocks_alloc (unat (round4 0x2000)) 4194304 [(4194292, False)]
      = Some (4194316, 8192, [(8192, True), (4186088, False)])"
    using round4_unat [of "0x2000"] by (simp add: split_block_def)
  from kmalloc_Some [OF heap_demo_rep _ this] obtain h1 where
    h1: "kmalloc 0x2000 (heap_init heap_zero) = Some (4194316, h1)" "heap_rep h1 [(8192, True), (4186088, False)]"
    by auto
  have "blocks_alloc (unat (round4 0x2000)) 4194304 [(8192, True), (4186088, False)]
      = Some (4202520, 8192, [(8192, True), (8192, True), (4177884, False)])"
    using round4_unat [of "0x2000"] by (simp add: split_block_def)
  from kmalloc_Some [OF h1(2) _ this] h1(1) show ?thesis by auto
qed

theorem usermode_entry_correct_witness:
  "\<forall>g. \<exists>s1 f s2. usermode_init (user_demo g) = Some s1 \<and> enter_usermode 0x2 0x100000 s1 = Some (Iret f, s2)
     \<and> f_eip f = 0x100000 \<and> bit (f_eflags f) 9 \<and> unat (f_esp f) \<le> 8388608"
proof
  fix g
  from user_demo_stacks obtain h1 h2 where
    h: "kmalloc 0x2000 (heap_init heap_zero) = Some (4194316, h1)" "kmalloc 0x2000 h1 = Some (4202520, h2)" by blast
  then obtain s1 where s1: "usermode_init (user_demo g) = Some s1" "kheap (ukern s1) = h1" "kernel_stack_top s1 \<noteq> 0"
    by (simp add: usermode_init_def alloc_stack_def Let_def user_demo_def kernel_zero_def user_say_def)
  then obtain f s2 where f: "enter_usermode 0x2 0x100000 s1 = Some (Iret f, s2)"
    using h(2) by (simp add: enter_usermode_def alloc_stack_def Let_def)
  have rep: "heap_rep (kheap (ukern (user_demo g))) [(4194292, False)]"
    using heap_demo_rep by (simp add: user_demo_def kernel_zero_def)
  from usermode_entry_correct [OF rep _ s1(1) _ s1(3) f] show "\<exists>s1 f s2. usermode_init (user_demo g) = Some s1
     \<and> enter_usermode 0x2 0x100000 s1 = Some (Iret f, s2)
     \<and> f_eip f = 0x100000 \<and> bit (f_eflags f) 9 \<and> unat (f_esp f) \<le> 8388608"
    using s1(1) f by (auto simp: user_demo_def)
qed

section \<open>User programs and paging\<close>

lemma map_kernel_page_user:
  "f AND PAGE_USER = 0 \<Longrightarrow> \<not> pde_user (dir_entries s d) \<Longrightarrow> \<not> pde_user (dir_entries (paging_map_page v p f s) d)"
  by (simp add: paging_map_page_def Let_def frame_simps alloc_page_table_def)

lemma identity_map_user:
  "\<not> pde_user (dir_entries s d) \<Longrightarrow> \<not> pde_user (dir_entries (paging_identity_map i s) d)"
proof (induction i s rule: paging_identity_map.induct)
  case (1 i s)
  have "(PAGE_PRESENT OR PAGE_WRITE) AND PAGE_USER = 0" by (simp add: PAGE_PRESENT_def PAGE_WRITE_def PAGE_USER_def)
  from "1.IH" map_kernel_page_user [OF this "1.prems"] "1.prems" show ?case
    by (subst paging_identity_map.simps) simp
qed

text \<open>
  No directory entry allows user mode, and those of the first 16 MiB are present: this is what
  \<open>paging_init\<close> leaves, and then \<open>paging_map_page\<close> can only open a page to user mode above 16 MiB.
\<close>

definition supervisor_only :: "paging \<Rightarrow> bool" where
  "supervisor_only g \<longleftrightarrow> (\<forall>i<1024. \<not> pde_user (dir_entries g i)) \<and> (\<forall>i<4. pde_present (dir_entries g i))"

lemma map_page_present: "pde_present (dir_entries g i) \<Longrightarrow> pde_present (dir_entries (paging_map_page v p f g) i)"
  by (auto simp: paging_map_page_def Let_def frame_simps alloc_page_table_def)

lemma map_page_in_table:
  "pde_present (dir_entries g (PAGE_DIR_INDEX v)) \<Longrightarrow> dir_entries (paging_map_page v p f g) = dir_entries g"
  by (simp add: paging_map_page_def Let_def frame_simps)

lemma dir_index_low: "unat v < 16777216 \<Longrightarrow> PAGE_DIR_INDEX v < 4"
  by (simp add: PAGE_DIR_INDEX_nat less_mult_imp_div_less)

lemma supervisor_map:
  assumes "supervisor_only g" and "f AND PAGE_USER = 0 \<or> unat v < 16777216"
  shows "supervisor_only (paging_map_page v p f g)"
proof (cases "unat v < 16777216")
  case True
  with assms(1) dir_index_low [OF True] show ?thesis by (simp add: supervisor_only_def map_page_in_table)
next
  case False
  with assms map_page_present map_kernel_page_user [of f g _ v p] show ?thesis
    by (auto simp: supervisor_only_def)
qed

lemma supervisor_maps:
  "supervisor_only g \<Longrightarrow> \<forall>(v, p, f)\<in>set ms. f AND PAGE_USER = 0 \<or> unat v < 16777216 \<Longrightarrow>
     supervisor_only (fold (\<lambda>(v, p, f). paging_map_page v p f) ms g)"
  by (induction ms arbitrary: g) (auto simp: supervisor_map)

lemma identity_supervisor:
  assumes "identity_upto 16777216 g" and "\<forall>i<1024. \<not> pde_user (dir_entries g i)"
  shows "supervisor_only g"
proof -
  have "pde_present (dir_entries g i)" if "i < 4" for i
  proof -
    let ?v = "of_nat (i * 4194304) :: u32"
    have v: "unat ?v = i * 4194304" using that by (intro unat_of_nat32) simp
    then have "translate g ?v = Some ?v" using that assms(1) by (simp add: identity_upto_def)
    moreover have "PAGE_DIR_INDEX ?v = i" unfolding PAGE_DIR_INDEX_nat v by simp
    ultimately show ?thesis by (simp add: translate_def split: if_splits)
  qed
  with assms(2) show ?thesis by (simp add: supervisor_only_def)
qed

lemma supervisor_inaccessible: "supervisor_only g \<Longrightarrow> \<not> user_accessible g a"
  using PAGE_DIR_INDEX_less [of a] by (auto simp: supervisor_only_def user_accessible_def)

end
