(* ===== verification/Shell.thy ===== *)
theory Shell
  imports Usermode Syscall Initrd Keyboard
begin

text \<open>
  The command shell, \<^verbatim>\<open>shell/shell.c\<close>: a line editor on the keyboard buffer, the splitting of
  a line into command and arguments, and the commands, on the state of the components they call.
  Parameters: \<open>wake\<close>, \<open>tbl\<close>, \<open>regs\<close> for the system calls of the self test (what happens
  while one waits, the table, the remaining registers), the addresses \<open>msg\<close> of its message,
  \<open>buf\<close> of the stack buffer of \<open>cat\<close> and \<open>ea\<close>, \<open>eb\<close> of the two test processes.
\<close>

section \<open>State\<close>

record shell =
  sh_user :: user_state
  sh_pmm :: pmm
  sh_fs :: initrd
  fs_root :: ptr
  sh_kbd :: keyboard
  sh_line :: "nat \<Rightarrow> u8"
  input_index :: nat

record shell_env =
  env_wake :: "kernel \<Rightarrow> kernel"
  env_tbl :: syscall_table
  env_regs :: registers
  env_msg :: ptr
  env_buf :: ptr
  env_ea :: u32
  env_eb :: u32
  env_flags :: u32
  env_prog :: u32

abbreviation sh_kern :: "shell \<Rightarrow> kernel" where
  "sh_kern s \<equiv> ukern (sh_user s)"

definition set_kern :: "kernel \<Rightarrow> shell \<Rightarrow> shell" where
  "set_kern k s = s\<lparr>sh_user := (sh_user s)\<lparr>ukern := k\<rparr>\<rparr>"

definition sh_say :: "out list \<Rightarrow> shell \<Rightarrow> shell" where
  "sh_say os s = set_kern ((sh_kern s)\<lparr>con := print_all os (con (sh_kern s))\<rparr>) s"

section \<open>Commands\<close>

definition shell_prompt :: "shell \<Rightarrow> shell" where
  "shell_prompt s = sh_say [Str ''zenix> ''] s"

definition shell_clear :: "shell \<Rightarrow> shell" where
  "shell_clear s =
     sh_say [Str ''Zenix OS Shell - Phase 10'', NL, Str ''Type '', Chr 39, Str ''help'', Chr 39,
         Str '' for available commands'', NL, NL]
       (set_kern ((sh_kern s)\<lparr>con := clear_screen (con (sh_kern s))\<rparr>) s)"

definition shell_help :: "shell \<Rightarrow> shell" where
  "shell_help s = sh_say
     [Str ''Available commands:'', NL,
      Str ''  help     - Show this help'', NL,
      Str ''  clear    - Clear screen'', NL,
      Str ''  uptime   - Show system uptime'', NL,
      Str ''  meminfo  - Show memory information'', NL,
      Str ''  ps       - List processes'', NL,
      Str ''  spawn    - Spawn test processes'', NL,
      Str ''  ls       - List files'', NL,
      Str ''  cat      - Display file contents'', NL,
      Str ''  syscall  - Test system calls'', NL,
      Str ''  usermode - Test user mode'', NL,
      Str ''  echo     - Echo text'', NL,
      Str ''  about    - About Zenix OS'', NL] s"

definition shell_uptime :: "shell \<Rightarrow> shell" where
  "shell_uptime s =
     (let ticks = timer_get_ticks (sh_kern s); seconds = ticks div 100;
          minutes = seconds div 60; hours = minutes div 60
      in sh_say [Str ''Uptime: '', Dec hours, Str ''h '', Dec (minutes mod 60), Str ''m '',
           Dec (seconds mod 60), Str ''s'', NL] s)"

definition shell_meminfo :: "shell \<Rightarrow> shell" where
  "shell_meminfo s = sh_say
     [Str ''Physical Memory:'', NL,
      Str ''  Total: '', Dec (pmm_get_total_memory (sh_pmm s) div 1024 div 1024), Str '' MB'', NL,
      Str ''  Used:  '', Dec (pmm_get_used_memory (sh_pmm s) div 1024 div 1024), Str '' MB'', NL,
      Str ''  Free:  '', Dec (pmm_get_free_memory (sh_pmm s) div 1024 div 1024), Str '' MB'', NL, NL,
      Str ''Kernel Heap:'', NL,
      Str ''  Used:  '', Dec (heap_get_used (kheap (sh_kern s)) div 1024), Str '' KB'', NL,
      Str ''  Free:  '', Dec (heap_get_free (kheap (sh_kern s)) div 1024), Str '' KB'', NL] s"

definition shell_ps :: "shell \<Rightarrow> shell" where
  "shell_ps s =
     (let s = sh_say [Str ''PID  Name              State    CPU Time'', NL,
                      Str ''---  ----------------  -------  --------'', NL] s
      in set_kern (process_list (sh_kern s)) s)"

definition test_process_a :: "monitor \<Rightarrow> monitor" where
  "test_process_a = fold (\<lambda>i. print_all [Str ''[Process A] Running iteration '', Dec (of_nat i), NL]) [0..<10]"

definition test_process_b :: "monitor \<Rightarrow> monitor" where
  "test_process_b = fold (\<lambda>i. print_all [Str ''[Process B] Running iteration '', Dec (of_nat i), NL]) [0..<10]"

definition shell_spawn :: "shell_env \<Rightarrow> shell \<Rightarrow> shell option" where
  "shell_spawn e s =
     (let s = sh_say [Str ''Spawning test processes...'', NL] s in
      case process_create (chars ''test_a'') (env_ea e) (sh_kern s) of
        None \<Rightarrow> None
      | Some (_, k) \<Rightarrow> map_option (\<lambda>(_, k). set_kern k s) (process_create (chars ''test_b'') (env_eb e) k))"

text \<open>
  Calls through the pointers of a ram disk node; a pointer of another kind than the operation
  is never stored in a node.
\<close>

definition call_read :: "initrd_fun \<Rightarrow> ptr \<Rightarrow> u32 \<Rightarrow> u32 \<Rightarrow> ptr \<Rightarrow> initrd \<Rightarrow> u32 \<times> initrd" where
  "call_read f = (case f of Initrd_read \<Rightarrow> initrd_read | _ \<Rightarrow> (\<lambda>_ _ _ _ s. (0, s)))"

definition call_readdir :: "initrd_fun \<Rightarrow> ptr \<Rightarrow> u32 \<Rightarrow> initrd \<Rightarrow> initrd_dirent option \<times> initrd" where
  "call_readdir f = (case f of Initrd_readdir \<Rightarrow> initrd_readdir | _ \<Rightarrow> (\<lambda>_ _ s. (None, s)))"

definition call_finddir :: "initrd_fun \<Rightarrow> ptr \<Rightarrow> u8 list \<Rightarrow> initrd \<Rightarrow> ptr" where
  "call_finddir f = (case f of Initrd_finddir \<Rightarrow> initrd_finddir | _ \<Rightarrow> (\<lambda>_ _ _. 0))"

definition ls_entry :: "initrd_dirent \<Rightarrow> shell \<Rightarrow> shell" where
  "ls_entry d s =
     (let s = sh_say [Str ''  '', Bytes (de_name d)] s;
          node = fs_finddir call_finddir (nodes (sh_fs s)) (fs_root s) (de_name d) (sh_fs s)
      in sh_say ((if node \<noteq> 0 \<and> f_flags (nodes (sh_fs s) node) AND FS_DIRECTORY \<noteq> 0 then [Str ''/''] else []) @ [NL]) s)"

text \<open>The loop of \<open>ls\<close>; \<open>n\<close> is the number of entries that may still be listed.\<close>

fun ls_loop :: "nat \<Rightarrow> u32 \<Rightarrow> shell \<Rightarrow> shell" where
  "ls_loop n i s =
     (case fs_readdir call_readdir (nodes (sh_fs s)) (fs_root s) i (sh_fs s) of
        (None, f) \<Rightarrow> s\<lparr>sh_fs := f\<rparr>
      | (Some d, f) \<Rightarrow>
          (let s = ls_entry d (s\<lparr>sh_fs := f\<rparr>)
           in case n of 0 \<Rightarrow> s | Suc n \<Rightarrow> ls_loop n (i + 1) s))"

definition shell_ls :: "shell \<Rightarrow> shell" where
  "shell_ls s =
     (if fs_root s = 0 then sh_say [Str ''Error: No filesystem mounted'', NL] s
      else ls_loop 100 0 (sh_say [Str ''Directory listing:'', NL] s))"

definition shell_buffer :: "ptr \<Rightarrow> mem \<Rightarrow> u8 list" where
  "shell_buffer buf m = List.map (\<lambda>i. m (buf + of_nat i)) [0..<257]"

partial_function (option) cat_loop :: "ptr \<Rightarrow> ptr \<Rightarrow> u32 \<Rightarrow> shell \<Rightarrow> shell option" where
  "cat_loop buf node off s =
     (let (sz, f) = fs_read call_read (nodes (sh_fs s)) node off 256 buf (sh_fs s) in
      if sz > 0
      then let f = f\<lparr>i_mem := (i_mem f)(buf + sz := 0)\<rparr>
           in cat_loop buf node (off + sz) (sh_say [Bytes (shell_buffer buf (i_mem f))] (s\<lparr>sh_fs := f\<rparr>))
      else Some (s\<lparr>sh_fs := f\<rparr>))"

definition shell_cat :: "shell_env \<Rightarrow> u8 list \<Rightarrow> shell \<Rightarrow> shell option" where
  "shell_cat e filename s =
     (if fs_root s = 0 then Some (sh_say [Str ''Error: No filesystem mounted'', NL] s)
      else if filename = [] then Some (sh_say [Str ''Usage: cat <filename>'', NL] s)
      else let node = fs_finddir call_finddir (nodes (sh_fs s)) (fs_root s) filename (sh_fs s) in
        if node = 0 then Some (sh_say [Str ''Error: File not found'', NL] s)
        else map_option (sh_say [Chr 0x0A]) (cat_loop (env_buf e) node 0 s))"

definition shell_echo :: "u8 list \<Rightarrow> shell \<Rightarrow> shell" where
  "shell_echo text s =
     (let s = (if text \<noteq> [] then sh_say [Bytes text] s else s) in sh_say [Chr 0x0A] s)"

definition shell_about :: "shell \<Rightarrow> shell" where
  "shell_about s = sh_say
     [NL, Str ''Zenix OS - Phase 10'', NL,
      Str ''===================='', NL,
      Str ''A real operating system'', NL,
      Str ''Features:'', NL,
      Str ''  - Protected mode (x86)'', NL,
      Str ''  - Memory management'', NL,
      Str ''  - Multitasking'', NL,
      Str ''  - System calls'', NL,
      Str ''  - User mode (Ring 3)'', NL, NL] s"

text \<open>An \<open>int 0x80\<close> of the self test with some registers loaded.\<close>

definition int80 :: "shell_env \<Rightarrow> (registers \<Rightarrow> registers) \<Rightarrow> shell \<Rightarrow> (u32 \<times> shell) option" where
  "int80 e load s =
     map_option (\<lambda>(r, k). (r_eax r, set_kern k s))
       (syscall_handler (env_wake e) (i_mem (sh_fs s)) (env_tbl e) (load (env_regs e)) (sh_kern s))"

definition shell_syscall_test :: "shell_env \<Rightarrow> shell \<Rightarrow> shell option" where
  "shell_syscall_test e s =
     (let s = sh_say [Str ''=== System Call Test ==='', NL, NL, Str ''1. Testing sys_getpid:'', NL] s in
      case int80 e (\<lambda>r. r\<lparr>r_eax := 3\<rparr>) s of None \<Rightarrow> None | Some (n, s) \<Rightarrow>
      (let s = sh_say [Str ''   Current PID = '', Dec n, NL, NL, Str ''2. Testing sys_write:'', NL] s in
       case int80 e (\<lambda>r. r\<lparr>r_eax := 1, r_ebx := 1, r_ecx := env_msg e, r_edx := 41\<rparr>) s of
         None \<Rightarrow> None
       | Some (ret, s) \<Rightarrow>
      (let s = sh_say [Str ''   Bytes written: '', Dec ret, NL, NL, Str ''3. Testing sys_sleep:'', NL,
                       Str ''   Sleeping for 1000ms...'', NL] s in
       case int80 e (\<lambda>r. r\<lparr>r_eax := 4, r_ebx := 1000\<rparr>) s of
         None \<Rightarrow> None
       | Some (_, s) \<Rightarrow> Some (sh_say [Str ''   Done!'', NL, NL, Str ''=== Test Complete ==='', NL] s))))"

definition shell_usermode_test :: "shell_env \<Rightarrow> shell \<Rightarrow> (entry \<times> shell) option" where
  "shell_usermode_test e s =
     map_option (\<lambda>(r, u). (r, s\<lparr>sh_user := u\<rparr>)) (usermode_test (env_flags e) (env_prog e) (sh_user s))"

section \<open>Lines\<close>

text \<open>The command word and the arguments of a line, as copied into their two buffers.\<close>

definition split_command :: "u8 list \<Rightarrow> u8 list \<times> u8 list" where
  "split_command command =
     (let cmd = take 63 (takeWhile (\<lambda>c. c \<noteq> 0 \<and> c \<noteq> 0x20) command); rest = drop (length cmd) command
      in (cmd, case rest of c # cs \<Rightarrow> if c = 0x20 then take 191 (takeWhile (\<lambda>c. c \<noteq> 0) cs) else [] | [] \<Rightarrow> []))"

definition returned :: "shell option \<Rightarrow> (entry \<times> shell) option" where
  "returned r = map_option (\<lambda>s. (Returned, s)) r"

definition shell_execute :: "shell_env \<Rightarrow> u8 list \<Rightarrow> shell \<Rightarrow> (entry \<times> shell) option" where
  "shell_execute e command s =
     (if command = [] \<or> hd command = 0 then Some (Returned, s)
      else let (cmd, args) = split_command command in
        if cmd = chars ''help'' then returned (Some (shell_help s))
        else if cmd = chars ''clear'' then returned (Some (shell_clear s))
        else if cmd = chars ''uptime'' then returned (Some (shell_uptime s))
        else if cmd = chars ''meminfo'' then returned (Some (shell_meminfo s))
        else if cmd = chars ''ps'' then returned (Some (shell_ps s))
        else if cmd = chars ''spawn'' then returned (shell_spawn e s)
        else if cmd = chars ''ls'' then returned (Some (shell_ls s))
        else if cmd = chars ''cat'' then returned (shell_cat e args s)
        else if cmd = chars ''echo'' then returned (Some (shell_echo args s))
        else if cmd = chars ''syscall'' then returned (shell_syscall_test e s)
        else if cmd = chars ''usermode'' then shell_usermode_test e s
        else if cmd = chars ''about'' then returned (Some (shell_about s))
        else returned (Some (sh_say [Str ''Unknown command: '', Bytes cmd, NL] s)))"

definition clear_line :: "shell \<Rightarrow> shell" where
  "clear_line s = s\<lparr>input_index := 0, sh_line := (\<lambda>i. if i < 256 then 0 else sh_line s i)\<rparr>"

definition shell_init :: "shell \<Rightarrow> shell" where
  "shell_init s = shell_clear (clear_line s)"

definition line_bytes :: "shell \<Rightarrow> u8 list" where
  "line_bytes s = List.map (sh_line s) [0..<256]"

text \<open>One character in the loop of \<open>shell_run\<close>, and one turn of the loop.\<close>

definition shell_char :: "shell_env \<Rightarrow> u8 \<Rightarrow> shell \<Rightarrow> (entry \<times> shell) option" where
  "shell_char e c s =
     (if c = 0 then Some (Returned, s)
      else if c = 0x0A
      then let s = sh_say [Chr 0x0A] s;
               s = s\<lparr>sh_line := (sh_line s)(input_index s := 0)\<rparr>
           in (case shell_execute e (line_bytes s) s of
                 None \<Rightarrow> None
               | Some (Iret f, s) \<Rightarrow> Some (Iret f, s)
               | Some (Returned, s) \<Rightarrow> Some (Returned, shell_prompt (clear_line s)))
      else if c = 0x08
      then Some (Returned,
             if input_index s > 0
             then let i = input_index s - 1
                  in sh_say [Chr 0x08] (s\<lparr>input_index := i, sh_line := (sh_line s)(i := 0)\<rparr>)
             else s)
      else Some (Returned,
             if input_index s < 255
             then sh_say [Chr c] (s\<lparr>sh_line := (sh_line s)(input_index s := c), input_index := input_index s + 1\<rparr>)
             else s))"

definition shell_turn :: "shell_env \<Rightarrow> shell \<Rightarrow> (entry \<times> shell) option" where
  "shell_turn e s = (let (c, k) = keyboard_getchar (sh_kbd s) in shell_char e c (s\<lparr>sh_kbd := k\<rparr>))"

text \<open>Some number of turns from the prompt on; entering user mode leaves the loop for good.\<close>

fun shell_turns :: "shell_env \<Rightarrow> nat \<Rightarrow> shell \<Rightarrow> (entry \<times> shell) option" where
  "shell_turns e 0 s = Some (Returned, s)"
| "shell_turns e (Suc n) s =
     (case shell_turn e s of Some (Returned, s) \<Rightarrow> shell_turns e n s | r \<Rightarrow> r)"

definition shell_run :: "shell_env \<Rightarrow> nat \<Rightarrow> shell \<Rightarrow> (entry \<times> shell) option" where
  "shell_run e n s = shell_turns e n (shell_prompt s)"

section \<open>Line editing\<close>

text \<open>The line typed so far, and the keys typed one after another.\<close>

definition line_rep :: "shell \<Rightarrow> u8 list \<Rightarrow> bool" where
  "line_rep s l \<longleftrightarrow> length l \<le> 255 \<and> input_index s = length l \<and> 0 \<notin> set l
     \<and> (\<forall>i<length l. sh_line s i = l ! i)"

definition edit_key :: "u8 list \<Rightarrow> u8 \<Rightarrow> u8 list" where
  "edit_key l c = (if c = 0 then l else if c = 0x08 then butlast l else if length l < 255 then l @ [c] else l)"

fun type_keys :: "shell_env \<Rightarrow> u8 list \<Rightarrow> shell \<Rightarrow> (entry \<times> shell) option" where
  "type_keys e [] s = Some (Returned, s)"
| "type_keys e (c # cs) s = (case shell_char e c s of Some (Returned, s) \<Rightarrow> type_keys e cs s | r \<Rightarrow> r)"

lemma set_kern_frames [frame_simps]:
  "sh_line (set_kern k s) = sh_line s" "input_index (set_kern k s) = input_index s"
  "sh_fs (set_kern k s) = sh_fs s" "sh_kern (set_kern k s) = k"
  by (simp_all add: set_kern_def)

lemma sh_say_frames [frame_simps]:
  "sh_line (sh_say os s) = sh_line s" "input_index (sh_say os s) = input_index s" "sh_fs (sh_say os s) = sh_fs s"
  "con (sh_kern (sh_say os s)) = print_all os (con (sh_kern s))"
  "system_ticks (sh_kern (sh_say os s)) = system_ticks (sh_kern s)"
  by (simp_all add: sh_say_def frame_simps)

lemma shell_char_edit:
  assumes "line_rep s l" and "c \<noteq> 0x0A"
  shows "\<exists>s'. shell_char e c s = Some (Returned, s') \<and> line_rep s' (edit_key l c)"
proof -
  have "0 \<notin> set (butlast l)" using assms(1) by (auto simp: line_rep_def dest: in_set_butlastD)
  then show ?thesis
    using assms by (auto simp: shell_char_def edit_key_def line_rep_def Let_def frame_simps nth_append nth_butlast less_Suc_eq)
qed

lemma type_keys_edit:
  "line_rep s l \<Longrightarrow> 0x0A \<notin> set ks \<Longrightarrow>
     \<exists>s'. type_keys e ks s = Some (Returned, s') \<and> line_rep s' (foldl edit_key l ks)"
proof (induction ks arbitrary: s l)
  case (Cons c ks)
  from Cons.prems(2) have "c \<noteq> 0x0A" by auto
  from shell_char_edit [OF Cons.prems(1) this, of e] obtain s1 where
    "shell_char e c s = Some (Returned, s1)" "line_rep s1 (edit_key l c)" by blast
  with Cons.IH [of s1 "edit_key l c"] Cons.prems(2) show ?case by simp
qed simp

lemma split_command_end: "0 \<notin> set l \<Longrightarrow> split_command (l @ 0 # rest) = split_command l"
proof -
  assume l: "0 \<notin> set l"
  let ?P = "\<lambda>c. c \<noteq> 0 \<and> c \<noteq> 0x20"
  define cmd where "cmd = take 63 (takeWhile ?P l)"
  have t: "takeWhile ?P (l @ 0 # rest) = takeWhile ?P l"
    by (cases "\<exists>c\<in>set l. \<not> ?P c") (auto simp: takeWhile_append takeWhile_eq_all_conv [THEN iffD2])
  have len: "length cmd \<le> length l" using length_takeWhile_le [of ?P l] by (simp add: cmd_def)
  have d: "drop (length cmd) (l @ 0 # rest) = drop (length cmd) l @ 0 # rest" using len by simp
  have z: "takeWhile (\<lambda>c. c \<noteq> 0) (cs @ 0 # rest) = cs" if "0 \<notin> set cs" for cs
    using that by (simp add: takeWhile_append)
  show ?thesis
  proof (cases "drop (length cmd) l")
    case Nil
    with len show ?thesis by (simp add: split_command_def Let_def t d cmd_def [symmetric])
  next
    case (Cons c cs)
    then have "0 \<notin> set cs" using l set_drop_subset [of "length cmd" l] by auto
    then have "\<forall>c\<in>set cs. c \<noteq> 0" by auto
    then show ?thesis
      using len Cons z [OF \<open>0 \<notin> set cs\<close>] takeWhile_eq_all_conv [of "\<lambda>c. c \<noteq> 0" cs, THEN iffD2]
      by (simp add: split_command_def Let_def t d cmd_def [symmetric] takeWhile_eq_all_conv [THEN iffD2])
  qed
qed

lemma shell_execute_end: "0 \<notin> set l \<Longrightarrow> shell_execute e (l @ 0 # rest) s = shell_execute e l s"
proof (cases l)
  case (Cons c cs)
  assume "0 \<notin> set l"
  have h: "(l @ 0 # rest = [] \<or> hd (l @ 0 # rest) = 0) = (l = [] \<or> hd l = 0)" by (simp add: Cons)
  show ?thesis unfolding shell_execute_def split_command_end [OF \<open>0 \<notin> set l\<close>] h ..
qed (simp add: shell_execute_def)

lemma line_bytes_rep:
  assumes "line_rep s l" and "sh_line s (length l) = 0"
  shows "\<exists>rest. line_bytes s = l @ 0 # rest"
proof -
  have "[0..<256] = [0..<length l] @ length l # [Suc (length l)..<256]"
    using assms(1) upt_add_eq_append [of 0 "length l" "256 - length l"] upt_conv_Cons [of "length l" 256]
    by (simp add: line_rep_def del: upt_rec_numeral)
  then have "line_bytes s = List.map (sh_line s) [0..<length l] @ 0 # List.map (sh_line s) [Suc (length l)..<256]"
    using assms(2) by (simp add: line_bytes_def del: upt_rec_numeral)
  moreover have "List.map (sh_line s) [0..<length l] = l"
    using assms(1) by (intro nth_equalityI) (simp_all add: line_rep_def)
  ultimately show ?thesis by simp
qed

text \<open>
  Property C39. The line editor is an exact editor: typing any keys but return, in particular more
  than 255 characters or too many backspaces, never goes out of the buffer and leaves the line that
  results from the keys with backspaces applied; return then executes exactly that line and starts
  an empty one.
\<close>

theorem shell_line_editor:
  assumes "line_rep s []" and "0x0A \<notin> set ks"
  shows "\<exists>s' t. type_keys e ks s = Some (Returned, s') \<and> line_rep s' (foldl edit_key [] ks)
     \<and> con (sh_kern t) = print_char 0x0A (con (sh_kern s'))
     \<and> shell_char e 0x0A s' = (case shell_execute e (foldl edit_key [] ks) t of
          None \<Rightarrow> None
        | Some (Iret f, u) \<Rightarrow> Some (Iret f, u)
        | Some (Returned, u) \<Rightarrow> Some (Returned, shell_prompt (clear_line u)))
     \<and> line_rep (clear_line u) []"
proof -
  from type_keys_edit [OF assms] obtain s' where
    s': "type_keys e ks s = Some (Returned, s')" "line_rep s' (foldl edit_key [] ks)" by blast
  let ?l = "foldl edit_key [] ks"
  let ?s = "sh_say [Chr 0x0A] s'"
  let ?t = "?s\<lparr>sh_line := (sh_line ?s)(input_index ?s := 0)\<rparr>"
  have rep: "line_rep ?t ?l" "sh_line ?t (length ?l) = 0"
    using s'(2) by (auto simp: line_rep_def frame_simps)
  from line_bytes_rep [OF this] obtain rest where "line_bytes ?t = ?l @ 0 # rest" by blast
  then have x: "shell_execute e (line_bytes ?t) ?t = shell_execute e ?l ?t"
    using s'(2) by (simp add: line_rep_def shell_execute_end)
  have "shell_char e 0x0A s' = (case shell_execute e ?l ?t of None \<Rightarrow> None
        | Some (Iret f, u) \<Rightarrow> Some (Iret f, u)
        | Some (Returned, u) \<Rightarrow> Some (Returned, shell_prompt (clear_line u)))"
    by (simp add: shell_char_def Let_def x)
  moreover have "con (sh_kern ?t) = print_char 0x0A (con (sh_kern s'))"
    by (simp add: frame_simps) (simp add: print_all_def)
  moreover have "line_rep (clear_line u) []" by (simp add: line_rep_def clear_line_def)
  ultimately show ?thesis using s' by blast
qed

theorem shell_line_editor_witness:
  "\<forall>e s. \<exists>s'. type_keys e [0x6C, 0x78, 0x08, 0x73] (clear_line s) = Some (Returned, s') \<and> line_rep s' (chars ''ls'')"
proof (intro allI)
  fix e s
  have "line_rep (clear_line s) []" by (simp add: line_rep_def clear_line_def)
  from shell_line_editor [OF this, of "[0x6C, 0x78, 0x08, 0x73]" e s]
  show "\<exists>s'. type_keys e [0x6C, 0x78, 0x08, 0x73] (clear_line s) = Some (Returned, s') \<and> line_rep s' (chars ''ls'')"
    by (auto simp: edit_key_def chars_def of_char_def)
qed

section \<open>Commands\<close>

text \<open>
  Property C40. The \<open>syscall\<close> command never comes back: its third test sleeps in a system call,
  which runs with interrupts disabled, so the tick it waits for cannot arrive.
\<close>

theorem shell_syscall_hangs:
  assumes "env_wake e = (\<lambda>k. k)" and "env_tbl e = syscall_handlers_init tbl"
  shows "shell_execute e (chars ''syscall'') s = None"
proof -
  have sleep: "sys_sleep (\<lambda>k. k) 1000 k = None" for k
    using sleep_loop_hangs [of k "timer_get_ticks k" 100] by (simp add: sys_sleep_def Let_def)
  have "shell_syscall_test e s = None"
    by (simp add: shell_syscall_test_def int80_def syscall_handler_def assms handlers_init_table sleep Let_def
        sys_getpid_def sys_write_def)
  then show ?thesis
    by (simp add: shell_execute_def split_command_def chars_def of_char_def returned_def)
qed

definition env_demo :: shell_env where
  "env_demo = \<lparr>env_wake = (\<lambda>k. k), env_tbl = syscall_handlers_init (\<lambda>_. None), env_regs = regs_zero,
     env_msg = 0x100000, env_buf = 0x200000, env_ea = 0x101000, env_eb = 0x102000, env_flags = 2,
     env_prog = 0x103000\<rparr>"

theorem shell_syscall_hangs_witness: "\<forall>s. shell_execute env_demo (chars ''syscall'') s = None"
  by (intro allI shell_syscall_hangs) (simp_all add: env_demo_def)

end
