(* ===== verification/ShellCat.thy ===== *)
theory ShellCat
  imports Shell
begin

text \<open>
  The \<open>cat\<close> command of \<^verbatim>\<open>shell/shell.c\<close> over the ram disk of \<^verbatim>\<open>fs/initrd.c\<close>. Its
  loop asks for the next 256 bytes until a read delivers none, with no bound of its own: that it
  ends, and that the pieces it prints make up the file, rests on what \<open>initrd_read\<close> returns at
  and before the end of the file.
\<close>

section \<open>Files\<close>

text \<open>
  The node reads a file of the ram disk with the given contents, whose header and contents the
  buffer (256 bytes and a terminator) does not overlap.
\<close>

definition file_header :: "ptr \<Rightarrow> initrd \<Rightarrow> ptr" where
  "file_header node f = file_headers f + f_inode (nodes f node) * sizeof_file_header"

definition file_apart :: "ptr \<Rightarrow> ptr \<Rightarrow> nat \<Rightarrow> bool" where
  "file_apart buf p n \<longleftrightarrow> (\<forall>i<n. \<not> in_range buf 257 (p + of_nat i))"

definition disk_file :: "initrd \<Rightarrow> ptr \<Rightarrow> ptr \<Rightarrow> u8 list \<Rightarrow> bool" where
  "disk_file f node buf data \<longleftrightarrow>
     node \<noteq> 0 \<and> buf \<noteq> 0 \<and> f_read (nodes f node) = Some Initrd_read \<and> f_inode (nodes f node) < nroot_nodes f
     \<and> le32 (i_mem f) (file_header node f + 69) = of_nat (length data) \<and> length data + 256 < 2 ^ 32
     \<and> stored (i_mem f) (le32 (i_mem f) (file_header node f + 65)) data
     \<and> file_apart buf (file_header node f + 65) 8
     \<and> file_apart buf (le32 (i_mem f) (file_header node f + 65)) (length data)"

lemma le32_cong:
  assumes "\<And>i. i < 4 \<Longrightarrow> m (p + of_nat i) = m' (p + of_nat i)"
  shows "le32 m p = le32 m' p"
  using assms [of 0] assms [of 1] assms [of 2] assms [of 3] by (simp add: le32_def)

lemma file_apartD: "file_apart buf p n \<Longrightarrow> i < n \<Longrightarrow> \<not> in_range buf 257 (p + of_nat i)"
  by (simp add: file_apart_def)

lemma file_apartI:
  assumes "257 \<le> unat (p - buf)" and "unat (p - buf) + n < 4294967296"
  shows "file_apart buf p n"
  unfolding file_apart_def
proof (intro allI impI)
  fix i assume "i < n"
  with assms(2) have "unat (of_nat i :: u32) = i" "unat (p - buf) + i < 4294967296" by simp_all
  with unat_plus32 [of "p - buf" "of_nat i"] have "unat (p - buf + of_nat i) = unat (p - buf) + i" by simp
  with assms(1) show "\<not> in_range buf 257 (p + of_nat i)" by (simp add: in_range_def algebra_simps)
qed

text \<open>Writing to the buffer leaves the file as it is.\<close>

lemma disk_file_outside:
  assumes d: "disk_file f node buf data" and m: "\<And>a. \<not> in_range buf 257 a \<Longrightarrow> m a = i_mem f a"
  shows "disk_file (f\<lparr>i_mem := m\<rparr>) node buf data"
    and "le32 m (file_header node f + 65) = le32 (i_mem f) (file_header node f + 65)"
proof -
  let ?h = "file_header node f"
  have ap: "file_apart buf (?h + 65) 8" using d by (simp add: disk_file_def)
  have e: "le32 m (?h + 65) = le32 (i_mem f) (?h + 65)" "le32 m (?h + 69) = le32 (i_mem f) (?h + 69)"
  proof -
    show "le32 m (?h + 65) = le32 (i_mem f) (?h + 65)"
      by (rule le32_cong) (rule m, rule file_apartD [OF ap], simp)
    show "le32 m (?h + 69) = le32 (i_mem f) (?h + 69)"
    proof (rule le32_cong)
      fix i :: nat assume "i < 4"
      then have "\<not> in_range buf 257 (?h + 65 + of_nat (4 + i))" by (intro file_apartD [OF ap]) simp
      then show "m (?h + 69 + of_nat i) = i_mem f (?h + 69 + of_nat i)"
        by (intro m) (simp add: algebra_simps)
    qed
  qed
  then show "le32 m (?h + 65) = le32 (i_mem f) (?h + 65)" by blast
  have "stored m (le32 (i_mem f) (?h + 65)) data"
    using d m by (simp add: disk_file_def stored_def file_apart_def)
  with d e show "disk_file (f\<lparr>i_mem := m\<rparr>) node buf data" by (simp add: disk_file_def file_header_def)
qed

section \<open>One read\<close>

lemma range_offset: "unat (i :: u32) < n \<Longrightarrow> in_range p n (p + i)"
  by (simp add: in_range_def)

lemma read_piece:
  assumes d: "disk_file f node buf data" and off: "off \<le> length data"
  defines "n \<equiv> min 256 (length data - off)"
  shows "\<exists>m. initrd_read node (of_nat off) 256 buf f = (of_nat n, f\<lparr>i_mem := m\<rparr>)
     \<and> (\<forall>a. \<not> in_range buf 256 a \<longrightarrow> m a = i_mem f a)
     \<and> (\<forall>i<n. m (buf + of_nat i) = data ! (off + i))"
proof -
  let ?p = "le32 (i_mem f) (file_header node f + 65)"
  let ?m = "snd (memcpy buf (?p + of_nat off) (of_nat n) (i_mem f))"
  note df = d [unfolded disk_file_def]
  have len: "length data < 4294967040" using df by simp
  have uo: "unat (of_nat off :: u32) = off" and ul: "unat (of_nat (length data) :: u32) = length data"
    using off len by (simp_all add: unat_of_nat32)
  have un: "unat (of_nat n :: u32) = n" by (rule unat_of_nat32) (simp add: n_def)
  have us: "unat (of_nat off + 256 :: u32) = off + 256"
    using uo off len unat_plus32 [of "of_nat off" 256] by simp
  have sz: "(if of_nat off + 256 > (of_nat (length data) :: u32) then of_nat (length data) - of_nat off else 256)
      = (of_nat n :: u32)"
  proof (cases "length data < off + 256")
    case True
    then have "n = length data - off" by (simp add: n_def)
    with True off us ul show ?thesis by (simp add: word_less_nat_alt of_nat_diff)
  next
    case False
    with off us ul show ?thesis by (simp add: word_less_nat_alt n_def)
  qed
  have r: "initrd_read node (of_nat off) 256 buf f = (of_nat n, f\<lparr>i_mem := ?m\<rparr>)"
  proof -
    have c: "\<not> (node = 0 \<or> buf = 0)" "\<not> f_inode (nodes f node) \<ge> nroot_nodes f"
      "\<not> (of_nat off > (of_nat (length data) :: u32))"
      using df off uo ul by (simp_all add: not_le word_less_nat_alt)
    have l: "le32 (i_mem f) (file_header node f + 69) = of_nat (length data)" using df by blast
    show ?thesis
      unfolding initrd_read_def Let_def file_header_def [symmetric] l sz by (simp only: c if_False)
  qed
  have src: "?p + of_nat off + k = ?p + of_nat (off + unat k)" for k :: u32 by simp
  have m: "?m a = (if in_range buf n a then i_mem f (?p + of_nat off + (a - buf)) else i_mem f a)" for a
  proof (subst memcpy_apply)
    fix i j :: u32 assume ij: "i < j" "j < of_nat n"
    then have j: "unat i < 257" "off + unat j < length data" using un by (auto simp: word_less_nat_alt n_def)
    from df have "file_apart buf ?p (length data)" by blast
    from file_apartD [OF this j(2)] have "\<not> in_range buf 257 (?p + of_nat off + j)" unfolding src .
    with range_offset [OF j(1), of buf] show "buf + i \<noteq> ?p + of_nat off + j" by auto
  qed (simp add: un)
  have "?m (buf + of_nat i) = data ! (off + i)" if "i < n" for i
  proof -
    from that have "in_range buf n (buf + of_nat i)" by (intro in_rangeI) (simp_all add: n_def)
    moreover from that have "off + i < length data" by (simp add: n_def less_diff_conv add.commute)
    moreover from this df have "i_mem f (?p + of_nat (off + i)) = data ! (off + i)" by (simp only: stored_def)
    ultimately show ?thesis using m [of "buf + of_nat i"] by (simp add: add.assoc)
  qed
  moreover have "?m a = i_mem f a" if "\<not> in_range buf 256 a" for a
  proof -
    from that have "\<not> in_range buf n a" by (simp add: in_range_def n_def)
    then show ?thesis by (simp add: m)
  qed
  ultimately show ?thesis using r by blast
qed

section \<open>The loop\<close>

lemma sh_say_sh_fs: "(sh_say os s)\<lparr>sh_fs := f\<rparr> = sh_say os (s\<lparr>sh_fs := f\<rparr>)"
  by (simp add: sh_say_def set_kern_def)

lemma sh_say_sh_say: "sh_say os (sh_say os' s) = sh_say (os' @ os) s"
  by (simp add: sh_say_def set_kern_def)

lemma print_string_append:
  "0 \<notin> set xs \<Longrightarrow> print_string (xs @ ys) c = print_string ys (print_string xs c)"
  by (induction xs arbitrary: c) auto

lemma say_bytes_append:
  assumes "0 \<notin> set xs"
  shows "sh_say [Bytes ys] (sh_say [Bytes xs] s) = sh_say [Bytes (xs @ ys)] s"
  using print_string_append [OF assms] by (simp add: sh_say_sh_say) (simp add: sh_say_def print_all_def)

text \<open>The buffer after a read of some bytes other than 0 and the terminator prints as those bytes.\<close>

lemma say_buffer:
  assumes "length xs < 257" and "0 \<notin> set xs" and "\<And>i. i < length xs \<Longrightarrow> m (buf + of_nat i) = xs ! i"
  shows "sh_say [Bytes (shell_buffer buf (m(buf + of_nat (length xs) := 0)))] s = sh_say [Bytes xs] s"
proof -
  let ?m = "m(buf + of_nat (length xs) := 0)" and ?g = "\<lambda>m. List.map (\<lambda>i. m (buf + of_nat i))"
  have ne: "buf + of_nat i \<noteq> buf + (of_nat (length xs) :: u32)" if "i < length xs" for i
    using that assms(1) of_nat32_eq_iff [of i "length xs"] by simp
  have "[0..<257] = [0..<length xs] @ length xs # [Suc (length xs)..<257]"
    using assms(1) upt_add_eq_append [of 0 "length xs" "257 - length xs"] by (simp add: upt_conv_Cons)
  moreover have "?g ?m [0..<length xs] = xs" using assms(3) ne by (intro nth_equalityI) simp_all
  ultimately have "shell_buffer buf ?m = xs @ 0 # ?g ?m [Suc (length xs)..<257]"
    unfolding shell_buffer_def by (simp only: list.map map_append fun_upd_same)
  then have "print_string (shell_buffer buf ?m) c = print_string xs c" for c
    using print_string_append [OF assms(2)] by simp
  then show ?thesis by (simp add: sh_say_def print_all_def)
qed

lemma cat_loop_rest:
  assumes "disk_file (sh_fs s) node buf data" and "0 \<notin> set data" and "off \<le> length data"
  shows "\<exists>m. cat_loop buf node (of_nat off) s
       = Some (sh_say [Bytes (drop off data)] (s\<lparr>sh_fs := (sh_fs s)\<lparr>i_mem := m\<rparr>\<rparr>))
     \<and> (\<forall>a. \<not> in_range buf 257 a \<longrightarrow> m a = i_mem (sh_fs s) a)"
  using assms
proof (induction "length data - off" arbitrary: off s rule: less_induct)
  case less
  let ?f = "sh_fs s" and ?n = "min 256 (length data - off)" and ?b = "take 256 (drop off data)"
  have n: "length ?b = ?n" by (simp add: min.commute)
  from read_piece [OF less.prems(1,3)] obtain m where
    m: "initrd_read node (of_nat off) 256 buf ?f = (of_nat ?n, ?f\<lparr>i_mem := m\<rparr>)"
      "\<And>a. \<not> in_range buf 256 a \<Longrightarrow> m a = i_mem ?f a" "\<And>i. i < ?n \<Longrightarrow> m (buf + of_nat i) = data ! (off + i)"
    by blast
  have rd: "fs_read call_read (nodes ?f) node (of_nat off) 256 buf ?f = (of_nat ?n, ?f\<lparr>i_mem := m\<rparr>)"
    using less.prems(1) m(1) by (simp add: fs_read_def call_read_def disk_file_def)
  show ?case
  proof (cases "off = length data")
    case True
    then have "cat_loop buf node (of_nat off) s = Some (s\<lparr>sh_fs := ?f\<lparr>i_mem := m\<rparr>\<rparr>)"
      using rd by (subst cat_loop.simps) simp
    moreover have "sh_say [Bytes []] t = t" for t by (simp add: sh_say_def set_kern_def print_all_def)
    moreover have "in_range buf 256 a \<Longrightarrow> in_range buf 257 a" for a by (simp add: in_range_def)
    ultimately show ?thesis using True m(2) by auto
  next
    case False
    let ?m = "m(buf + of_nat ?n := 0)"
    let ?t = "sh_say [Bytes (shell_buffer buf ?m)] (s\<lparr>sh_fs := ?f\<lparr>i_mem := ?m\<rparr>\<rparr>)"
    have pos: "(of_nat ?n :: u32) > 0" using False less.prems(3) by (simp add: word_less_nat_alt)
    have out: "?m a = i_mem ?f a" if "\<not> in_range buf 257 a" for a
    proof -
      have "in_range buf 257 (buf + of_nat ?n)" by (rule in_rangeI) simp_all
      with that have "a \<noteq> buf + of_nat ?n" by auto
      with that m(2) [of a] show ?thesis by (simp add: in_range_def)
    qed
    have b: "0 \<notin> set ?b" using less.prems(2) by (meson in_set_dropD in_set_takeD)
    have t: "?t = sh_say [Bytes ?b] (s\<lparr>sh_fs := ?f\<lparr>i_mem := ?m\<rparr>\<rparr>)"
      using say_buffer [of ?b m buf, OF _ b] m(3) n less.prems(3) by (simp add: min.commute)
    have st: "sh_fs ?t = ?f\<lparr>i_mem := ?m\<rparr>" by (simp add: frame_simps)
    have "disk_file (sh_fs ?t) node buf data"
      unfolding st by (rule disk_file_outside(1) [OF less.prems(1) out])
    moreover have "length data - (off + ?n) < length data - off" "off + ?n \<le> length data"
      using False less.prems(3) by auto
    ultimately obtain m' where
      m': "cat_loop buf node (of_nat (off + ?n)) ?t
         = Some (sh_say [Bytes (drop (off + ?n) data)] (?t\<lparr>sh_fs := (sh_fs ?t)\<lparr>i_mem := m'\<rparr>\<rparr>))"
        "\<And>a. \<not> in_range buf 257 a \<Longrightarrow> m' a = ?m a"
      using less.hyps [of "off + ?n" ?t] less.prems(2) unfolding st by auto
    have "cat_loop buf node (of_nat off) s = cat_loop buf node (of_nat (off + ?n)) ?t"
      using pos rd by (subst cat_loop.simps) (simp add: Let_def)
    moreover have "drop (off + ?n) data = drop 256 (drop off data)" by (simp add: min_def add.commute)
    then have "?b @ drop (off + ?n) data = drop off data" by (metis append_take_drop_id)
    ultimately show ?thesis
      using m' out say_bytes_append [OF b] unfolding st t by (auto simp: sh_say_sh_fs frame_simps)
  qed
qed

section \<open>The command\<close>

text \<open>
  Property C21. On a file of the ram disk that holds text, \<open>cat\<close> terminates, whatever the
  length: it prints the bytes at the address its header names, all of them, in order and nothing
  else, then a new line, and changes nothing besides the screen and its own buffer.
\<close>

theorem shell_cat_prints:
  assumes "fs_root s \<noteq> 0" and "filename \<noteq> []"
    and "fs_finddir call_finddir (nodes (sh_fs s)) (fs_root s) filename (sh_fs s) = node"
    and "disk_file (sh_fs s) node (env_buf e) data" and "0 \<notin> set data"
  shows "\<exists>m. shell_cat e filename s = Some (sh_say [Bytes data, Chr 0x0A] (s\<lparr>sh_fs := (sh_fs s)\<lparr>i_mem := m\<rparr>\<rparr>))
     \<and> (\<forall>a. \<not> in_range (env_buf e) 257 a \<longrightarrow> m a = i_mem (sh_fs s) a)"
proof -
  from cat_loop_rest [OF assms(4,5), of 0] obtain m where
    m: "cat_loop (env_buf e) node 0 s = Some (sh_say [Bytes data] (s\<lparr>sh_fs := (sh_fs s)\<lparr>i_mem := m\<rparr>\<rparr>))"
      "\<forall>a. \<not> in_range (env_buf e) 257 a \<longrightarrow> m a = i_mem (sh_fs s) a" by auto
  have "node \<noteq> 0" using assms(4) by (simp add: disk_file_def)
  with assms(1-3) m show ?thesis by (intro exI [of _ m]) (simp add: shell_cat_def sh_say_sh_say)
qed

definition disk_demo :: "initrd \<Rightarrow> initrd" where
  "disk_demo f = f\<lparr>i_mem := load_image 0x400000 (header_bytes [] (chars ''motd'') 0x400049 2 @ [0x48, 0x69]),
     nodes := (\<lambda>p. if p = 0x1000 then node_zero\<lparr>f_flags := FS_DIRECTORY, f_finddir := Some Initrd_finddir\<rparr>
                   else node_zero\<lparr>f_name := chars ''motd'', f_read := Some Initrd_read\<rparr>),
     file_headers := 0x400000, initrd_root := 0x1000, root_nodes := 0x2000, nroot_nodes := 1\<rparr>"

lemma disk_demo_file: "disk_file (disk_demo f) 0x2000 0x200000 [0x48, 0x69]"
proof -
  let ?m = "i_mem (disk_demo f)"
  have "stored ?m 0x400000 (header_bytes [] (chars ''motd'') 0x400049 2 @ [0x48, 0x69])"
    by (simp add: disk_demo_def stored_load)
  then have "stored ?m 0x400000 (header_bytes [] (chars ''motd'') 0x400049 2)" "stored ?m 0x400049 [0x48, 0x69]"
    by (simp_all add: stored_append)
  moreover from this(1) have "le32 ?m (0x400000 + 65) = 0x400049" "le32 ?m (0x400000 + 69) = 2"
    by (rule header_parse(3,4), simp add: chars_def of_char_def)+
  moreover have "file_apart 0x200000 0x400041 8" "file_apart 0x200000 0x400049 (Suc (Suc 0))"
    by (rule file_apartI; simp)+
  moreover have "file_header 0x2000 (disk_demo f) = 0x400000"
    by (simp add: file_header_def disk_demo_def node_zero_def)
  ultimately show ?thesis
    unfolding disk_file_def by (simp add: disk_demo_def node_zero_def)
qed

theorem shell_cat_prints_witness:
  "\<forall>s :: shell. \<exists>t. shell_cat env_demo (chars ''motd'') (s\<lparr>sh_fs := disk_demo (sh_fs s), fs_root := 0x1000\<rparr>) = Some t
     \<and> con (sh_kern t) = print_char 0x0A (print_char 0x69 (print_char 0x48 (con (sh_kern s))))"
proof
  fix s :: shell
  let ?s = "s\<lparr>sh_fs := disk_demo (sh_fs s), fs_root := 0x1000\<rparr>"
  have f: "fs_finddir call_finddir (nodes (sh_fs ?s)) (fs_root ?s) (chars ''motd'') (sh_fs ?s) = 0x2000"
    by (simp add: fs_finddir_def call_finddir_def initrd_finddir_def disk_demo_def node_zero_def chars_def of_char_def
        root_node_def FS_DIRECTORY_def find_node.simps)
  have d: "disk_file (sh_fs ?s) 0x2000 (env_buf env_demo) [0x48, 0x69]"
    using disk_demo_file by (simp add: env_demo_def)
  have "fs_root ?s \<noteq> 0" "chars ''motd'' \<noteq> []" "0 \<notin> set [0x48, 0x69 :: u8]" by (simp_all add: chars_def)
  from shell_cat_prints [OF this(1,2) f d this(3)] show "\<exists>t. shell_cat env_demo (chars ''motd'') ?s = Some t
     \<and> con (sh_kern t) = print_char 0x0A (print_char 0x69 (print_char 0x48 (con (sh_kern s))))"
    by (auto simp: sh_say_def set_kern_def print_all_def)
qed

end
