(* ===== verification/Terminal.thy ===== *)
theory Terminal
  imports Shell
begin

text \<open>
  Keyboard and shell together: keyboard interrupts (\<^verbatim>\<open>drivers/keyboard/keyboard.c\<close>) arrive
  between the turns of the loop of \<open>shell_run\<close> (\<^verbatim>\<open>shell/shell.c\<close>). The commands neither read
  nor change the keyboard, so an interrupt may be moved across them, and what the terminal does
  depends only on the characters typed.
\<close>

section \<open>Interleaving\<close>

datatype term_event = Key u8 | Turn

fun term_run :: "shell_env \<Rightarrow> term_event list \<Rightarrow> shell \<Rightarrow> (entry \<times> shell) option" where
  "term_run e [] s = Some (Returned, s)"
| "term_run e (Key k # es) s = term_run e es (s\<lparr>sh_kbd := keyboard_handler k (sh_kbd s)\<rparr>)"
| "term_run e (Turn # es) s =
     (case shell_turn e s of Some (Returned, s) \<Rightarrow> term_run e es s | r \<Rightarrow> r)"

fun term_keys :: "term_event list \<Rightarrow> u8 list" where
  "term_keys [] = []"
| "term_keys (Key k # es) = k # term_keys es"
| "term_keys (Turn # es) = term_keys es"

section \<open>Commands leave the keyboard alone\<close>

definition with_kbd :: "keyboard \<Rightarrow> entry \<times> shell \<Rightarrow> entry \<times> shell" where
  "with_kbd k = (\<lambda>(r, t). (r, t\<lparr>sh_kbd := k\<rparr>))"

lemma with_kbd_pair [simp]: "with_kbd k (r, t) = (r, t\<lparr>sh_kbd := k\<rparr>)"
  by (simp add: with_kbd_def)

named_theorems kbd_commute \<open>operations that commute with setting the keyboard\<close>

lemma shell_state_commute [kbd_commute]:
  "set_kern q (s\<lparr>sh_kbd := k\<rparr>) = (set_kern q s)\<lparr>sh_kbd := k\<rparr>"
  "sh_say os (s\<lparr>sh_kbd := k\<rparr>) = (sh_say os s)\<lparr>sh_kbd := k\<rparr>"
  "clear_line (s\<lparr>sh_kbd := k\<rparr>) = (clear_line s)\<lparr>sh_kbd := k\<rparr>"
  "shell_prompt (s\<lparr>sh_kbd := k\<rparr>) = (shell_prompt s)\<lparr>sh_kbd := k\<rparr>"
  by (simp_all add: set_kern_def sh_say_def clear_line_def shell_prompt_def cong: if_cong)

lemma simple_commands_commute [kbd_commute]:
  "shell_clear (s\<lparr>sh_kbd := k\<rparr>) = (shell_clear s)\<lparr>sh_kbd := k\<rparr>"
  "shell_help (s\<lparr>sh_kbd := k\<rparr>) = (shell_help s)\<lparr>sh_kbd := k\<rparr>"
  "shell_uptime (s\<lparr>sh_kbd := k\<rparr>) = (shell_uptime s)\<lparr>sh_kbd := k\<rparr>"
  "shell_meminfo (s\<lparr>sh_kbd := k\<rparr>) = (shell_meminfo s)\<lparr>sh_kbd := k\<rparr>"
  "shell_ps (s\<lparr>sh_kbd := k\<rparr>) = (shell_ps s)\<lparr>sh_kbd := k\<rparr>"
  "shell_echo text (s\<lparr>sh_kbd := k\<rparr>) = (shell_echo text s)\<lparr>sh_kbd := k\<rparr>"
  "shell_about (s\<lparr>sh_kbd := k\<rparr>) = (shell_about s)\<lparr>sh_kbd := k\<rparr>"
  by (simp_all add: shell_clear_def shell_help_def shell_uptime_def shell_meminfo_def shell_ps_def shell_echo_def
      shell_about_def Let_def kbd_commute)

lemma shell_spawn_commute [kbd_commute]:
  "shell_spawn e (s\<lparr>sh_kbd := k\<rparr>) = map_option (\<lambda>t. t\<lparr>sh_kbd := k\<rparr>) (shell_spawn e s)"
  by (simp add: shell_spawn_def Let_def kbd_commute option.map_comp comp_def case_prod_unfold split: option.split)

lemma ls_entry_commute [kbd_commute]: "ls_entry d (s\<lparr>sh_kbd := k\<rparr>) = (ls_entry d s)\<lparr>sh_kbd := k\<rparr>"
  by (simp add: ls_entry_def Let_def kbd_commute)

lemma fs_update_commute:
  "s\<lparr>sh_kbd := k, sh_fs := f\<rparr> = s\<lparr>sh_fs := f\<rparr>\<lparr>sh_kbd := k\<rparr>"
  "s\<lparr>sh_kbd := k, sh_user := u\<rparr> = s\<lparr>sh_user := u\<rparr>\<lparr>sh_kbd := k\<rparr>"
  "s\<lparr>sh_kbd := k, sh_line := l\<rparr> = s\<lparr>sh_line := l\<rparr>\<lparr>sh_kbd := k\<rparr>"
  "s\<lparr>sh_kbd := k, input_index := i\<rparr> = s\<lparr>input_index := i\<rparr>\<lparr>sh_kbd := k\<rparr>"
  by simp_all

lemma ls_loop_commute [kbd_commute]: "ls_loop n i (s\<lparr>sh_kbd := k\<rparr>) = (ls_loop n i s)\<lparr>sh_kbd := k\<rparr>"
proof (induction n arbitrary: i s)
  case 0
  show ?case by (simp add: Let_def fs_update_commute kbd_commute split: option.split prod.split)
next
  case (Suc n)
  show ?case
    by (subst ls_loop.simps, subst (2) ls_loop.simps)
      (simp add: Let_def fs_update_commute kbd_commute Suc.IH del: ls_loop.simps split: option.split prod.split)
qed

lemma shell_ls_commute [kbd_commute]: "shell_ls (s\<lparr>sh_kbd := k\<rparr>) = (shell_ls s)\<lparr>sh_kbd := k\<rparr>"
  by (simp add: shell_ls_def kbd_commute del: ls_loop.simps)

lemma cat_loop_some_all:
  assumes "cat_loop buf node off s = Some t"
  shows "\<forall>k. cat_loop buf node off (s\<lparr>sh_kbd := k\<rparr>) = Some (t\<lparr>sh_kbd := k\<rparr>)"
proof (rule cat_loop.raw_induct [OF _ assms])
  fix loop buf node off s t
  assume IH: "\<And>buf node off s t. loop buf node off s = Some t \<Longrightarrow>
      \<forall>k. cat_loop buf node off (s\<lparr>sh_kbd := k\<rparr>) = Some (t\<lparr>sh_kbd := k\<rparr>)"
    and step: "(let (sz, f) = fs_read call_read (nodes (sh_fs s)) node off 256 buf (sh_fs s) in
      if sz > 0
      then let f = f\<lparr>i_mem := (i_mem f)(buf + sz := 0)\<rparr>
           in loop buf node (off + sz) (sh_say [Bytes (shell_buffer buf (i_mem f))] (s\<lparr>sh_fs := f\<rparr>))
      else Some (s\<lparr>sh_fs := f\<rparr>)) = Some t"
  obtain sz f where r: "fs_read call_read (nodes (sh_fs s)) node off 256 buf (sh_fs s) = (sz, f)" by force
  let ?f = "f\<lparr>i_mem := (i_mem f)(buf + sz := 0)\<rparr>"
  let ?s = "sh_say [Bytes (shell_buffer buf (i_mem ?f))] (s\<lparr>sh_fs := ?f\<rparr>)"
  show "\<forall>k. cat_loop buf node off (s\<lparr>sh_kbd := k\<rparr>) = Some (t\<lparr>sh_kbd := k\<rparr>)"
  proof (cases "sz > 0")
    case True
    with step r have "loop buf node (off + sz) ?s = Some t" by (simp add: Let_def)
    from IH [OF this] r True show ?thesis
      by (subst cat_loop.simps) (simp add: Let_def fs_update_commute kbd_commute)
  next
    case False
    with step r show ?thesis by (subst cat_loop.simps) (auto simp: Let_def)
  qed
qed

lemmas cat_loop_some = cat_loop_some_all [THEN spec]

lemma cat_loop_commute [kbd_commute]:
  "cat_loop buf node off (s\<lparr>sh_kbd := k\<rparr>) = map_option (\<lambda>t. t\<lparr>sh_kbd := k\<rparr>) (cat_loop buf node off s)"
proof (cases "cat_loop buf node off s")
  case None
  have "cat_loop buf node off (s\<lparr>sh_kbd := k\<rparr>) \<noteq> Some t" for t
    using cat_loop_some [of buf node off "s\<lparr>sh_kbd := k\<rparr>" t "sh_kbd s"] None by auto
  with None show ?thesis by auto
qed (simp add: cat_loop_some)

lemma shell_cat_commute [kbd_commute]:
  "shell_cat e name (s\<lparr>sh_kbd := k\<rparr>) = map_option (\<lambda>t. t\<lparr>sh_kbd := k\<rparr>) (shell_cat e name s)"
  by (simp add: shell_cat_def Let_def kbd_commute option.map_comp comp_def)

lemma int80_commute [kbd_commute]:
  "int80 e load (s\<lparr>sh_kbd := k\<rparr>) = map_option (\<lambda>(r, t). (r, t\<lparr>sh_kbd := k\<rparr>)) (int80 e load s)"
  by (simp add: int80_def kbd_commute option.map_comp comp_def case_prod_unfold)

lemma shell_syscall_commute [kbd_commute]:
  "shell_syscall_test e (s\<lparr>sh_kbd := k\<rparr>) = map_option (\<lambda>t. t\<lparr>sh_kbd := k\<rparr>) (shell_syscall_test e s)"
  by (simp add: shell_syscall_test_def Let_def kbd_commute split: option.split prod.split)

lemma shell_usermode_commute [kbd_commute]:
  "shell_usermode_test e (s\<lparr>sh_kbd := k\<rparr>) = map_option (with_kbd k) (shell_usermode_test e s)"
  by (simp add: shell_usermode_test_def fs_update_commute option.map_comp comp_def case_prod_unfold)

lemma returned_commute [kbd_commute]:
  "returned (map_option (\<lambda>t. t\<lparr>sh_kbd := k\<rparr>) r) = map_option (with_kbd k) (returned r)"
  "returned (Some (t\<lparr>sh_kbd := k\<rparr>)) = map_option (with_kbd k) (returned (Some t))"
  by (simp_all add: returned_def with_kbd_def option.map_comp comp_def)

lemma shell_execute_commute [kbd_commute]:
  "shell_execute e l (s\<lparr>sh_kbd := k\<rparr>) = map_option (with_kbd k) (shell_execute e l s)"
proof -
  obtain cmd args where "split_command l = (cmd, args)" by force
  then show ?thesis
    by (simp add: shell_execute_def kbd_commute if_distrib [of "map_option (with_kbd k)"] del: if_True split del: if_split cong: if_cong)
qed

lemma line_bytes_kbd: "line_bytes (s\<lparr>sh_kbd := k\<rparr>) = line_bytes s"
  by (simp add: line_bytes_def del: upt_rec_numeral)

lemma shell_char_commute [kbd_commute]:
  "shell_char e c (s\<lparr>sh_kbd := k\<rparr>) = map_option (with_kbd k) (shell_char e c s)"
proof (cases "c = 0x0A")
  case True
  let ?t = "(sh_say [Chr 0x0A] s)\<lparr>sh_line := (sh_line (sh_say [Chr 0x0A] s))(input_index (sh_say [Chr 0x0A] s) := 0)\<rparr>"
  show ?thesis
    by (cases "shell_execute e (line_bytes ?t) ?t")
      (auto simp: True shell_char_def Let_def fs_update_commute kbd_commute line_bytes_kbd split: entry.split)
qed (simp add: shell_char_def Let_def fs_update_commute kbd_commute)

lemma type_keys_commute [kbd_commute]:
  "type_keys e cs (s\<lparr>sh_kbd := k\<rparr>) = map_option (with_kbd k) (type_keys e cs s)"
proof (induction cs arbitrary: s)
  case (Cons c cs)
  then show ?case
    by (cases "shell_char e c s") (auto simp: kbd_commute split: entry.split)
qed simp

section \<open>The terminal\<close>

lemma type_keys_append:
  "type_keys e (cs @ ds) s = (case type_keys e cs s of Some (Returned, t) \<Rightarrow> type_keys e ds t | r \<Rightarrow> r)"
  by (induction cs arbitrary: s) (auto split: option.split entry.split)

lemma term_run_append:
  "term_run e (es @ fs) s = (case term_run e es s of Some (Returned, t) \<Rightarrow> term_run e fs t | r \<Rightarrow> r)"
  by (induction e es s rule: term_run.induct) (auto split: option.split entry.split)

text \<open>A turn types the first pending character, or nothing.\<close>

lemma shell_turn_empty: "kbd_rep (sh_kbd s) [] \<Longrightarrow> shell_turn e s = Some (Returned, s)"
  by (simp add: shell_turn_def kbd.get_empty shell_char_def)

lemma shell_turn_pending:
  assumes "kbd_rep (sh_kbd s) (x # xs)"
  obtains k where "kbd_rep k xs" "modifiers_of k = modifiers_of (sh_kbd s)"
    "shell_turn e s = map_option (with_kbd k) (shell_char e x s)"
proof -
  from kbd.get_cons [OF assms] obtain k where "keyboard_getchar (sh_kbd s) = (x, k)" "kbd_rep k xs" by blast
  with that [of k] getchar_modifiers [of "sh_kbd s" x k] show thesis
    by (simp add: shell_turn_def kbd_commute)
qed

lemma with_kbd_again: "map_option (with_kbd k) (map_option (with_kbd j) r) = map_option (with_kbd k) r"
  by (cases r) (auto simp: with_kbd_def)

lemma with_kbd_self: "map_option (with_kbd (sh_kbd s)) (Some (r, s)) = Some (r, s)"
  by (simp add: with_kbd_def)

text \<open>
  A run splits the characters that are pending or typed into those the shell has taken,
  \<open>cs\<close>, and those still in the buffer, \<open>ys\<close>.
\<close>

lemma term_run_types:
  assumes "kbd_rep (sh_kbd s) xs"
    and "length xs + length (typed (modifiers_of (sh_kbd s)) (term_keys es)) \<le> 255"
  shows "\<exists>cs ys k. cs @ ys = xs @ typed (modifiers_of (sh_kbd s)) (term_keys es)
     \<and> term_run e es s = map_option (with_kbd k) (type_keys e cs s)
     \<and> (case term_run e es s of Some (Returned, t) \<Rightarrow> kbd_rep (sh_kbd t) ys | _ \<Rightarrow> True)"
  using assms
proof (induction e es s arbitrary: xs rule: term_run.induct)
  case (1 e s)
  then show ?case
    by (intro exI [of _ "[]"] exI [of _ xs] exI [of _ "sh_kbd s"]) (simp add: with_kbd_self)
next
  case (2 e k es s)
  let ?c = "key_char (modifiers_of (sh_kbd s)) k"
  let ?cs = "if ?c = 0 then [] else [?c]"
  let ?s = "s\<lparr>sh_kbd := keyboard_handler k (sh_kbd s)\<rparr>"
  have m: "modifiers_of (sh_kbd ?s) = key_mods (modifiers_of (sh_kbd s)) k"
    using handler_modifiers [of k "sh_kbd s"] by simp
  have "length xs < 255 \<or> ?c = 0" using "2.prems"(2) by (auto simp del: key_char_def)
  from handler_rep [OF "2.prems"(1) this] have rep: "kbd_rep (sh_kbd ?s) (xs @ ?cs)" by simp
  have "length (xs @ ?cs) + length (typed (modifiers_of (sh_kbd ?s)) (term_keys es)) \<le> 255"
    using "2.prems"(2) unfolding m by simp
  from "2.IH" [OF rep this] obtain cs ys j where
    j: "cs @ ys = (xs @ ?cs) @ typed (modifiers_of (sh_kbd ?s)) (term_keys es)"
    "term_run e es ?s = map_option (with_kbd j) (type_keys e cs ?s)"
    "case term_run e es ?s of Some (Returned, t) \<Rightarrow> kbd_rep (sh_kbd t) ys | _ \<Rightarrow> True" by blast
  from j(1) have "cs @ ys = xs @ typed (modifiers_of (sh_kbd s)) (term_keys (Key k # es))"
    unfolding m by simp
  moreover have "term_run e (Key k # es) s = map_option (with_kbd j) (type_keys e cs s)"
    using j(2) by (simp add: kbd_commute with_kbd_again)
  ultimately show ?case using j(3) by (intro exI [of _ cs] exI [of _ ys] exI [of _ j]) simp
next
  case (3 e es s)
  show ?case
  proof (cases xs)
    case Nil
    with "3.prems"(1) have t: "shell_turn e s = Some (Returned, s)" by (simp add: shell_turn_empty)
    from "3.IH" [OF t refl refl "3.prems"(1)] "3.prems"(2) t show ?thesis by simp
  next
    case (Cons x xs')
    with "3.prems"(1) have "kbd_rep (sh_kbd s) (x # xs')" by simp
    from shell_turn_pending [OF this, of e] obtain k where k: "kbd_rep k xs'" "modifiers_of k = modifiers_of (sh_kbd s)"
      "shell_turn e s = map_option (with_kbd k) (shell_char e x s)" by blast
    consider (go) u where "shell_char e x s = Some (Returned, u)"
      | (stop) "\<forall>u. shell_char e x s \<noteq> Some (Returned, u)" by blast
    then show ?thesis
    proof cases
      case go
      let ?u = "u\<lparr>sh_kbd := k\<rparr>"
      have t: "shell_turn e s = Some (Returned, ?u)" using k(3) go by simp
      have "length xs' + length (typed (modifiers_of (sh_kbd ?u)) (term_keys es)) \<le> 255"
        using "3.prems"(2) k(2) Cons by simp
      with "3.IH" [OF t refl refl, of xs'] k(1) obtain cs ys j where
        j: "cs @ ys = xs' @ typed (modifiers_of (sh_kbd ?u)) (term_keys es)"
        "term_run e es ?u = map_option (with_kbd j) (type_keys e cs ?u)"
        "case term_run e es ?u of Some (Returned, t) \<Rightarrow> kbd_rep (sh_kbd t) ys | _ \<Rightarrow> True" by auto
      have "term_run e (Turn # es) s = map_option (with_kbd j) (type_keys e (x # cs) s)"
        using j(2) t go by (simp add: kbd_commute with_kbd_again)
      with j(1,3) k(2) t Cons show ?thesis
        by (intro exI [of _ "x # cs"] exI [of _ ys] exI [of _ j]) simp
    next
      case stop
      let ?all = "xs @ typed (modifiers_of (sh_kbd s)) (term_keys (Turn # es))"
      have r: "term_run e (Turn # es) s = map_option (with_kbd k) (type_keys e ?all s)"
        "\<forall>t. term_run e (Turn # es) s \<noteq> Some (Returned, t)"
        using stop k(3) Cons by (auto split: option.splits entry.splits)
      then have "case term_run e (Turn # es) s of Some (Returned, t) \<Rightarrow> kbd_rep (sh_kbd t) [] | _ \<Rightarrow> True"
        by (auto split: option.split entry.split)
      with r(1) show ?thesis
        by (intro exI [of _ ?all] exI [of _ "[]"] exI [of _ k]) (simp del: term_run.simps)
    qed
  qed
qed

lemma turns_type_pending:
  "kbd_rep (sh_kbd s) xs \<Longrightarrow> length xs \<le> n \<Longrightarrow>
     \<exists>k. term_run e (replicate n Turn) s = map_option (with_kbd k) (type_keys e xs s)"
proof (induction n arbitrary: s xs)
  case 0
  then show ?case by (intro exI [of _ "sh_kbd s"]) (simp add: with_kbd_self)
next
  case (Suc n)
  show ?case
  proof (cases xs)
    case Nil
    with Suc.prems have t: "shell_turn e s = Some (Returned, s)" by (simp add: shell_turn_empty)
    from Suc.IH [of s xs] Suc.prems(1) Nil t show ?thesis by simp
  next
    case (Cons x xs')
    with Suc.prems(1) have "kbd_rep (sh_kbd s) (x # xs')" by simp
    from shell_turn_pending [OF this, of e] obtain k where k: "kbd_rep k xs'"
      "shell_turn e s = map_option (with_kbd k) (shell_char e x s)" by blast
    consider (go) u where "shell_char e x s = Some (Returned, u)"
      | (stop) "\<forall>u. shell_char e x s \<noteq> Some (Returned, u)" by blast
    then show ?thesis
    proof cases
      case go
      with k Suc.IH [of "u\<lparr>sh_kbd := k\<rparr>" xs'] Suc.prems(2) Cons obtain j where
        "term_run e (replicate n Turn) (u\<lparr>sh_kbd := k\<rparr>) = map_option (with_kbd j) (type_keys e xs' (u\<lparr>sh_kbd := k\<rparr>))"
        by auto
      with go k(2) Cons show ?thesis
        by (intro exI [of _ j]) (simp add: kbd_commute with_kbd_again)
    next
      case stop
      with k(2) Cons show ?thesis
        by (intro exI [of _ k]) (auto split: option.splits entry.splits)
    qed
  qed
qed

text \<open>
  Property C6. However the key presses are spread over the turns of the shell, as long as at
  most 255 characters are typed in all, those waiting at the start included: after as many further
  turns as there are characters, screen, files, processes and line are those it reaches when exactly the characters of the scancodes are typed into
  the line editor one after another, in order; only the keyboard's own state depends on
  the interleaving.
\<close>

theorem terminal_types_scancodes:
  assumes "kbd_rep (sh_kbd s) xs"
    and "length xs + length (typed (modifiers_of (sh_kbd s)) (term_keys es)) \<le> min n 255"
  shows "\<exists>k. term_run e (es @ replicate n Turn) s
     = map_option (\<lambda>(r, t). (r, t\<lparr>sh_kbd := k\<rparr>))
         (type_keys e (xs @ typed (modifiers_of (sh_kbd s)) (term_keys es)) s)"
proof -
  from assms(2) have "length xs + length (typed (modifiers_of (sh_kbd s)) (term_keys es)) \<le> 255" by simp
  from term_run_types [OF assms(1) this, of e] obtain cs ys k where
    a: "cs @ ys = xs @ typed (modifiers_of (sh_kbd s)) (term_keys es)"
    "term_run e es s = map_option (with_kbd k) (type_keys e cs s)"
    "case term_run e es s of Some (Returned, t) \<Rightarrow> kbd_rep (sh_kbd t) ys | _ \<Rightarrow> True" by blast
  have n: "length ys \<le> n" using arg_cong [OF a(1), of length] assms(2) by simp
  consider (go) t where "type_keys e cs s = Some (Returned, t)"
    | (stop) "\<forall>t. type_keys e cs s \<noteq> Some (Returned, t)" by blast
  then have "\<exists>k. term_run e (es @ replicate n Turn) s = map_option (with_kbd k) (type_keys e (cs @ ys) s)"
  proof cases
    case go
    with a(2,3) have "kbd_rep (sh_kbd (t\<lparr>sh_kbd := k\<rparr>)) ys" by simp
    from turns_type_pending [OF this n, of e] obtain j where
      "term_run e (replicate n Turn) (t\<lparr>sh_kbd := k\<rparr>) = map_option (with_kbd j) (type_keys e ys (t\<lparr>sh_kbd := k\<rparr>))" ..
    with go a(2) show ?thesis
      by (intro exI [of _ j]) (simp add: term_run_append type_keys_append kbd_commute with_kbd_again)
  next
    case stop
    with a(2) show ?thesis
      by (intro exI [of _ k]) (auto simp: term_run_append type_keys_append split: option.splits entry.splits)
  qed
  then show ?thesis unfolding a(1) with_kbd_def .
qed

text \<open>Typing \<open>ls\<close> and return on a fresh keyboard runs the command \<open>ls\<close>, whatever the interleaving.\<close>

theorem terminal_types_scancodes_witness:
  "\<forall>e s. \<exists>k. term_run e ([Turn, Key 0x26, Turn, Turn, Key 0x1F, Key 0x9F, Key 0x1C] @ replicate 3 Turn)
       (s\<lparr>sh_kbd := keyboard_init (sh_kbd s)\<rparr>)
     = map_option (\<lambda>(r, t). (r, t\<lparr>sh_kbd := k\<rparr>))
         (type_keys e (chars ''ls'' @ [0x0A]) (s\<lparr>sh_kbd := keyboard_init (sh_kbd s)\<rparr>))"
proof (intro allI)
  fix e and s :: shell
  let ?s = "s\<lparr>sh_kbd := keyboard_init (sh_kbd s)\<rparr>"
  let ?es = "[Turn, Key 0x26, Turn, Turn, Key 0x1F, Key 0x9F, Key 0x1C]"
  have m: "modifiers_of (sh_kbd ?s) = (False, False)" by (simp add: keyboard_init_def)
  have t: "typed (False, False) (term_keys ?es) = chars ''ls'' @ [0x0A]"
    by (simp add: key_char_def key_mods_def scancode_to_ascii_def chars_def of_char_def)
  have rep: "kbd_rep (sh_kbd ?s) []" by (simp add: keyboard_init_rep)
  have len: "length [] + length (typed (modifiers_of (sh_kbd ?s)) (term_keys ?es)) \<le> min 3 255"
    unfolding m t by (simp add: chars_def)
  have "\<exists>k. term_run e (?es @ replicate 3 Turn) ?s
     = map_option (\<lambda>(r, t). (r, t\<lparr>sh_kbd := k\<rparr>))
         (type_keys e ([] @ typed (modifiers_of (sh_kbd ?s)) (term_keys ?es)) ?s)"
    by (rule terminal_types_scancodes [OF rep len])
  then show "\<exists>k. term_run e (?es @ replicate 3 Turn) ?s
     = map_option (\<lambda>(r, t). (r, t\<lparr>sh_kbd := k\<rparr>)) (type_keys e (chars ''ls'' @ [0x0A]) ?s)"
    unfolding m t by simp
qed

end
