(* ===== verification/Mkinitrd.thy ===== *)
theory Mkinitrd
  imports Initrd
begin

text \<open>
  The command line tool \<^verbatim>\<open>src/tools/mkinitrd.c\<close> that writes the image of the ram disk: its
  argument and file errors, its two passes over the files, and the image it leaves, up to the
  lookup of a file by name in the kernel that was given the image (\<^verbatim>\<open>fs/initrd.c\<close>).
  A file system is a partial map from names to contents; \<open>can_create\<close> says which files
  \<open>fopen\<close> can create, and \<open>pad\<close> what the compiler puts into the header structure, as in
  \<open>mkinitrd\<close>. What the tool writes reaches the map when it closes the file.
\<close>

section \<open>The tool\<close>

type_synonym file_map = "u8 list \<Rightarrow> u8 list option"

record tool =
  t_files :: file_map
  t_out :: "u8 list"

definition t_print :: "u8 list \<Rightarrow> tool \<Rightarrow> tool" where
  "t_print msg t = t\<lparr>t_out := t_out t @ msg\<rparr>"

text \<open>The decimal digits that \<open>printf\<close> writes for a number that is not negative.\<close>

fun dec_text :: "nat \<Rightarrow> u8 list" where
  "dec_text n = (if n < 10 then [0x30 + of_nat n] else dec_text (n div 10) @ [0x30 + of_nat (n mod 10)])"

declare dec_text.simps [simp del]

text \<open>
  The first pass appends a header for each file to what is written, until a file cannot be opened;
  it delivers the name of that file, if any. The second pass appends the contents.
\<close>

fun write_headers :: "u8 list \<Rightarrow> file_map \<Rightarrow> u32 \<Rightarrow> u8 list list \<Rightarrow> u8 list \<Rightarrow> u8 list option \<times> u8 list" where
  "write_headers pad files off [] written = (None, written)"
| "write_headers pad files off (name # names) written =
     (case files name of
        None \<Rightarrow> (Some name, written)
      | Some content \<Rightarrow>
          (let len = of_nat (length content)
           in write_headers pad files (off + len) names (written @ header_bytes pad name off len)))"

fun write_data :: "file_map \<Rightarrow> u8 list list \<Rightarrow> u8 list \<Rightarrow> u8 list" where
  "write_data files [] written = written"
| "write_data files (name # names) written =
     (case files name of
        None \<Rightarrow> write_data files names written
      | Some content \<Rightarrow>
          (let len = of_nat (length content) :: u32
           in write_data files names (written @ take (unat len) content)))"

text \<open>The tool called as \<open>prog\<close> with the given arguments: exit code and files afterwards.\<close>

definition mkinitrd_main ::
  "u8 list \<Rightarrow> (u8 list \<Rightarrow> bool) \<Rightarrow> u8 list \<Rightarrow> u8 list list \<Rightarrow> tool \<Rightarrow> int \<times> tool" where
  "mkinitrd_main pad can_create prog args t =
     (case args of
        [] \<Rightarrow> (1, t_print (chars ''Usage: '' @ prog @ chars '' <output> <file1> <file2> ...'' @ [0x0A]) t)
      | output # names \<Rightarrow>
          (if \<not> can_create output then (1, t_print (chars ''Error: Cannot create output file'' @ [0x0A]) t)
           else let t = t\<lparr>t_files := (t_files t)(output \<mapsto> [])\<rparr>;
                    nfiles = length names;
                    off = 4 + of_nat nfiles * of_nat (73 + length pad);
                    (failed, written) = write_headers pad (t_files t) off names (bytes32 (of_nat nfiles))
                in case failed of
                     Some name \<Rightarrow>
                       (1, (t_print (chars ''Error: Cannot open file '' @ name @ [0x0A]) t)
                             \<lparr>t_files := (t_files t)(output \<mapsto> written)\<rparr>)
                   | None \<Rightarrow>
                       (let written = write_data (t_files t) names written;
                            t = t\<lparr>t_files := (t_files t)(output \<mapsto> written)\<rparr>
                        in (0, t_print (chars ''InitRD created: '' @ output @ chars '' ('' @ dec_text nfiles
                                 @ chars '' files)'' @ [0x0A]) t))))"

section \<open>The two passes\<close>

text \<open>The files with the given names, with their contents.\<close>

definition files_of :: "file_map \<Rightarrow> u8 list list \<Rightarrow> (u8 list \<times> u8 list) list" where
  "files_of files names = List.map (\<lambda>name. (name, the (files name))) names"

definition readable :: "file_map \<Rightarrow> u8 list list \<Rightarrow> bool" where
  "readable files names \<longleftrightarrow> (\<forall>name\<in>set names. \<exists>content. files name = Some content)"

lemma readable_Cons: "readable files (name # names) \<longleftrightarrow> (\<exists>c. files name = Some c) \<and> readable files names"
  by (auto simp: readable_def)

lemma write_headers_all:
  "readable files names \<Longrightarrow> write_headers pad files off names written
     = (None, written @ mkinitrd_headers pad off (files_of files names))"
  by (induction names arbitrary: off written) (auto simp: readable_Cons files_of_def Let_def)

lemma write_headers_readable: "fst (write_headers pad files off names written) = None \<longleftrightarrow> readable files names"
  by (induction names arbitrary: off written) (auto simp: readable_def Let_def split: option.split)

lemma write_headers_missing:
  "readable files names \<Longrightarrow> files name = None \<Longrightarrow> write_headers pad files off (names @ name # rest) written
     = (Some name, written @ mkinitrd_headers pad off (files_of files names))"
  by (induction names arbitrary: off written) (auto simp: readable_Cons files_of_def Let_def)

lemma write_data_all:
  assumes "readable files names" and "\<forall>f\<in>set (files_of files names). length (snd f) < 2 ^ 32"
  shows "write_data files names written = written @ concat (List.map snd (files_of files names))"
  using assms by (induction names arbitrary: written) (auto simp: readable_Cons files_of_def)

lemma files_of_length: "length (files_of files names) = length names"
  by (simp add: files_of_def)

lemma files_of_cong:
  "output \<notin> set names \<Longrightarrow> readable (files(output := c)) names = readable files names"
  "output \<notin> set names \<Longrightarrow> files_of (files(output := c)) names = files_of files names"
  by (auto simp: readable_def files_of_def)

section \<open>Looking up a file\<close>

lemma of_nat_less: "a < 1000 \<Longrightarrow> b < 1000 \<Longrightarrow> (of_nat a :: u32) < of_nat b \<longleftrightarrow> a < b"
  by (simp add: word_less_nat_alt unat_of_nat32)

lemma find_node_at:
  assumes "nroot_nodes s = of_nat n" and "n < 1000" and "i < n"
    and "f_name (nodes s (root_node s (of_nat i))) = name"
    and "\<And>j. j < i \<Longrightarrow> f_name (nodes s (root_node s (of_nat j))) \<noteq> name"
  shows "k \<le> i \<Longrightarrow> find_node s name (of_nat k) = root_node s (of_nat i)"
proof (induction "i - k" arbitrary: k)
  case 0
  then have "k = i" by simp
  then show ?case using assms(1-4) by (subst find_node.simps) (simp add: of_nat_less)
next
  case (Suc d)
  then have k: "k < i" by simp
  have "find_node s name (of_nat k + 1) = root_node s (of_nat i)"
    using Suc.hyps(1) [of "Suc k"] Suc.hyps(2) k by (simp add: add.commute)
  moreover have "name \<noteq> f_name (nodes s (root_node s (of_nat k)))" using assms(5) [OF k] by blast
  ultimately show ?case using assms(1-3) k by (subst find_node.simps) (simp add: of_nat_less)
qed

section \<open>Properties\<close>

text \<open>
  Remark. The exit code tells whether the image is complete. Without arguments, or if the output
  cannot be created, nothing is written; if a file is missing, the output holds the header that
  announces all files and the headers of the files before the missing one; otherwise it holds
  the image of all files. Other files are never touched.
\<close>

theorem mkinitrd_main_correct:
  assumes "output \<notin> set names" and "readable (t_files t) names"
    and "\<forall>f\<in>set (files_of (t_files t) names). length (snd f) < 2 ^ 32" and "t_files t missing = None" "missing \<noteq> output"
  shows "(let (code, t') = mkinitrd_main pad can_create prog [] t in code = 1 \<and> t_files t' = t_files t)"
    and "\<not> can_create output \<Longrightarrow>
       (let (code, t') = mkinitrd_main pad can_create prog (output # names) t in code = 1 \<and> t_files t' = t_files t)"
    and "can_create output \<Longrightarrow>
       (let (code, t') = mkinitrd_main pad can_create prog (output # names) t
        in code = 0 \<and> t_files t' = (t_files t)(output \<mapsto> mkinitrd pad (files_of (t_files t) names)))"
    and "can_create output \<Longrightarrow> output \<notin> set rest \<Longrightarrow>
       (let (code, t') = mkinitrd_main pad can_create prog (output # names @ missing # rest) t;
            n = length names + 1 + length rest
        in code = 1 \<and> t_files t' = (t_files t)(output \<mapsto> bytes32 (of_nat n)
             @ mkinitrd_headers pad (4 + of_nat n * of_nat (73 + length pad)) (files_of (t_files t) names)))"
proof -
  let ?files = "(t_files t)(output \<mapsto> [])"
  have r: "readable ?files names" "files_of ?files names = files_of (t_files t) names"
    using assms(1,2) by (simp_all add: files_of_cong)
  have m: "?files missing = None" using assms(4,5) by simp
  show "let (code, t') = mkinitrd_main pad can_create prog [] t in code = 1 \<and> t_files t' = t_files t"
    by (simp add: mkinitrd_main_def t_print_def)
  show "let (code, t') = mkinitrd_main pad can_create prog (output # names) t in code = 1 \<and> t_files t' = t_files t"
    if "\<not> can_create output" using that by (simp add: mkinitrd_main_def t_print_def)
  show "let (code, t') = mkinitrd_main pad can_create prog (output # names) t
        in code = 0 \<and> t_files t' = (t_files t)(output \<mapsto> mkinitrd pad (files_of (t_files t) names))"
    if "can_create output"
    using that write_data_all [OF r(1)] assms(3)
    by (simp add: mkinitrd_main_def t_print_def Let_def write_headers_all [OF r(1)] r(2) mkinitrd_def files_of_length)
  show "let (code, t') = mkinitrd_main pad can_create prog (output # names @ missing # rest) t;
            n = length names + 1 + length rest
        in code = 1 \<and> t_files t' = (t_files t)(output \<mapsto> bytes32 (of_nat n)
             @ mkinitrd_headers pad (4 + of_nat n * of_nat (73 + length pad)) (files_of (t_files t) names))"
    if "can_create output"
  proof -
    from that write_headers_missing [OF r(1) m] r(2) have "mkinitrd_main pad can_create prog (output # names @ missing # rest) t
        = (1, (t_print (chars ''Error: Cannot open file '' @ missing @ [0x0A]) (t\<lparr>t_files := ?files\<rparr>))
            \<lparr>t_files := ?files(output \<mapsto> bytes32 (of_nat (length (names @ missing # rest))) @ mkinitrd_headers pad
               (4 + of_nat (length (names @ missing # rest)) * of_nat (73 + length pad)) (files_of (t_files t) names))\<rparr>)"
      unfolding mkinitrd_main_def by (simp add: Let_def del: fun_upd_apply)
    then show ?thesis by (simp add: Let_def)
  qed
qed

lemma main_success:
  assumes "mkinitrd_main pad can_create prog (output # names) t = (0, t')" and "output \<notin> set names"
    and "\<forall>name\<in>set names. \<forall>c. t_files t name = Some c \<longrightarrow> length c < 2 ^ 32"
  shows "readable (t_files t) names \<and> t_files t' = (t_files t)(output \<mapsto> mkinitrd pad (files_of (t_files t) names))"
proof -
  let ?g = "(t_files t)(output \<mapsto> [])" and ?n = "of_nat (length names) :: u32"
  let ?w = "write_headers pad ?g (4 + ?n * of_nat (73 + length pad)) names (bytes32 ?n)"
  have c: "can_create output" using assms(1) by (simp add: mkinitrd_main_def split: if_splits)
  have "fst ?w = None" using assms(1) c by (auto simp: mkinitrd_main_def Let_def t_print_def split: prod.splits option.splits)
  then have r: "readable ?g names" by (simp only: write_headers_readable)
  then have r': "readable (t_files t) names" and f: "files_of ?g names = files_of (t_files t) names"
    using assms(2) by (simp_all add: files_of_cong)
  have "\<forall>f\<in>set (files_of ?g names). length (snd f) < 2 ^ 32"
    unfolding f using assms(3) r' by (auto simp: files_of_def readable_def)
  from assms(1) c write_data_all [OF r this] show ?thesis
    by (auto simp: mkinitrd_main_def Let_def t_print_def write_headers_all [OF r] f mkinitrd_def files_of_length r')
qed

lemma main_code:
  assumes "output \<notin> set names"
  shows "fst (mkinitrd_main pad can_create prog (output # names) t)
    = (if can_create output \<and> readable (t_files t) names then 0 else 1)"
proof -
  let ?g = "(t_files t)(output \<mapsto> [])" and ?n = "of_nat (length names) :: u32"
  have "fst (write_headers pad ?g (4 + ?n * of_nat (73 + length pad)) names (bytes32 ?n)) = None
      \<longleftrightarrow> readable (t_files t) names"
    unfolding write_headers_readable by (rule files_of_cong(1) [OF assms])
  then show ?thesis
    by (auto simp: mkinitrd_main_def Let_def t_print_def simp del: fun_upd_apply split: prod.split option.split)
qed

lemma main_other_files:
  "name \<noteq> output \<Longrightarrow> t_files (snd (mkinitrd_main pad can_create prog (output # names) t)) name = t_files t name"
  by (auto simp: mkinitrd_main_def Let_def t_print_def split: prod.split option.split)

text \<open>A header of the tool, with its three bytes of padding, in memory.\<close>

lemma tool_header_parse:
  assumes st: "stored m fh (header_bytes pad name off len)" and pad: "length pad = 3" and nz: "0 \<notin> set name"
  shows "m fh = 0xBF \<and> copied_name m (fh + 1) = take 63 name \<and> m (fh + 64) = 0
    \<and> le32 m (fh + 68) = off \<and> le32 m (fh + 72) = len"
proof -
  let ?n = "take 63 (name @ replicate 63 0)"
  have l: "(of_nat (length ?n) :: u32) = 63" unfolding name_bytes_length by simp
  from st pad have s: "m fh = 0xBF" "stored m (fh + 1) ?n" "m (fh + 64) = 0" "stored m (fh + 68) (bytes32 off)"
      "stored m (fh + 72) (bytes32 len)"
    unfolding header_bytes_def by (simp_all add: stored_append stored_Cons l add.assoc del: length_take take_append)
  from stored_map [OF s(2)] have "List.map (\<lambda>i. m (fh + 1 + of_nat i)) [0..<63] = ?n"
    unfolding name_bytes_length .
  then have "copied_name m (fh + 1) = takeWhile (\<lambda>c. c \<noteq> 0) ?n" by (simp add: copied_name_def)
  with takeWhile_padded [OF nz, of 63 63] s(1,3) le32_stored [OF s(4)] le32_stored [OF s(5)] show ?thesis by simp
qed


text \<open>
  Remark. Were the headers packed as the kernel declares them, an image made by the tool from
  up to ten files would give the kernel exactly these files: after \<open>initrd_init\<close> on the loaded
  image, looking up each name finds a node with the length of that file, whose \<open>impl\<close> is the
  address of its contents. Names have to differ in their first 63 bytes, which is what is kept. The
  tool's headers are not packed: \<open>mkinitrd_layout_mismatch\<close> says what the kernel makes of them.
\<close>

theorem mkinitrd_kernel_lookup:
  fixes files :: file_map
  assumes run: "mkinitrd_main [] can_create prog (output # names) t = (0, t')" and "t_files t = files"
    and names: "output \<notin> set names" "names \<noteq> []" "length names \<le> 10"
      "\<forall>name\<in>set names. 0 \<notin> set name \<and> name \<noteq> chars ''dev''" "distinct (List.map (take 63) names)"
    and small: "\<forall>name\<in>set names. \<forall>c. files name = Some c \<longrightarrow> length c < 2 ^ 32"
    and load: "t_files t' output = Some img" "stored (i_mem s) location img" "0x100000 \<le> location"
    and mem: "init_memory (of_nat (length names)) (i_heap s) root dev arr"
  shows "\<exists>s'. initrd_init location s = Some (root, s')
     \<and> (\<forall>name\<in>set names. \<exists>c. files name = Some c \<and>
          (let node = nodes s' (initrd_finddir root (take 63 name) s') in
           f_name node = take 63 name \<and> unat (f_length node) = length c \<and> stored (i_mem s') (f_impl node) c))"
proof -
  let ?fs = "files_of files names"
  have rd: "readable files names" and img: "t_files t' = files(output \<mapsto> mkinitrd [] ?fs)"
    using main_success [OF run] names(1) small assms(2) by auto
  have l: "length ?fs = length names" and f: "i < length names \<Longrightarrow> ?fs ! i = (names ! i, the (files (names ! i)))" for i
    by (simp_all add: files_of_def)
  have "\<forall>f\<in>set ?fs. 0 \<notin> set (fst f) \<and> length (snd f) < 2 ^ 32"
    using names(4) small rd by (auto simp: files_of_def readable_def)
  with initrd_packed_roundtrip [of s location ?fs root dev arr] load img names(2,3) mem l obtain s' where
    s': "initrd_init location s = Some (root, s')" "unat (nroot_nodes s') = length names"
      "\<And>i. i < length names \<Longrightarrow> let n = nodes s' (root_node s' (of_nat i)) in
          f_name n = take 63 (fst (?fs ! i)) \<and> unat (f_length n) = length (snd (?fs ! i))
          \<and> stored (i_mem s') (f_impl n) (snd (?fs ! i))"
    by (auto simp: Let_def files_of_def)
  have n: "nroot_nodes s' = of_nat (length names)" by (simp add: s'(2) [symmetric])
  have "root \<noteq> 0" using mem by (simp add: init_memory_def)
  have "initrd_finddir root (take 63 (names ! i)) s' = root_node s' (of_nat i)" if i: "i < length names" for i
  proof -
    have ne: "take 63 (names ! j) \<noteq> take 63 (names ! i)" if "j < i" for j
      using nth_eq_iff_index_eq [OF names(5), of j i] i that by simp
    have "find_node s' (take 63 (names ! i)) (of_nat 0) = root_node s' (of_nat i)"
      using s'(3) [unfolded Let_def] ne i names(3) f by (intro find_node_at [OF n]) auto
    moreover have "take 63 (names ! i) \<noteq> chars ''dev''"
    proof
      assume d: "take 63 (names ! i) = chars ''dev''"
      then have "length (take 63 (names ! i)) = 3" by (simp add: chars_def)
      then have "length (names ! i) = 3" by (simp add: min_def split: if_splits)
      with d have "names ! i = chars ''dev''" by simp
      with names(4) i show False by auto
    qed
    ultimately show ?thesis using \<open>root \<noteq> 0\<close> by (simp add: initrd_finddir_def)
  qed
  with s' f rd show ?thesis by (fastforce simp: Let_def in_set_conv_nth readable_def)
qed

definition tool_demo :: tool where
  "tool_demo = \<lparr>t_files = [chars ''motd'' \<mapsto> [0x48, 0x69]], t_out = []\<rparr>"

lemma tool_demo_run:
  "\<exists>t'. mkinitrd_main [] (\<lambda>_. True) (chars ''mkinitrd'') [chars ''initrd.img'', chars ''motd''] tool_demo = (0, t')
     \<and> t_files t' (chars ''initrd.img'') = Some (mkinitrd [] demo_files)"
proof -
  have "files_of (t_files tool_demo) [chars ''motd''] = demo_files"
    by (simp add: files_of_def tool_demo_def demo_files_def)
  moreover have "t_files tool_demo [] = None" "readable (t_files tool_demo) [chars ''motd'']"
    "chars ''initrd.img'' \<notin> set [chars ''motd'']" "[] \<noteq> chars ''initrd.img''"
    by (simp_all add: tool_demo_def chars_def readable_def)
  ultimately show ?thesis
    using mkinitrd_main_correct(3) [of "chars ''initrd.img''" "[chars ''motd'']" tool_demo "[]" "\<lambda>_. True" "[]" "chars ''mkinitrd''"]
    by (auto simp: demo_files_def split: prod.splits)
qed

theorem mkinitrd_main_correct_witness:
  "fst (mkinitrd_main [] (\<lambda>_. True) (chars ''mkinitrd'') [chars ''initrd.img'', chars ''motd'', chars ''lost''] tool_demo) = 1"
proof -
  have "chars ''initrd.img'' \<notin> set [chars ''motd'']" "readable (t_files tool_demo) [chars ''motd'']"
    "\<forall>f\<in>set (files_of (t_files tool_demo) [chars ''motd'']). length (snd f) < 2 ^ 32"
    "t_files tool_demo (chars ''lost'') = None" "chars ''lost'' \<noteq> chars ''initrd.img''"
    by (simp_all add: tool_demo_def chars_def readable_def files_of_def of_char_def)
  from mkinitrd_main_correct(4) [OF this, of "\<lambda>_. True" "[]" "[]" "chars ''mkinitrd''"]
  show ?thesis by (simp add: split_beta)
qed

theorem mkinitrd_kernel_lookup_witness:
  "\<exists>s'. initrd_init 0x200000 (initrd_demo []) = Some (4194316, s')
     \<and> unat (f_length (nodes s' (initrd_finddir 4194316 (chars ''motd'') s'))) = 2"
proof -
  from tool_demo_run obtain t' where t':
    "mkinitrd_main [] (\<lambda>_. True) (chars ''mkinitrd'') [chars ''initrd.img'', chars ''motd''] tool_demo = (0, t')"
    "t_files t' (chars ''initrd.img'') = Some (mkinitrd [] demo_files)" by blast
  have f: "t_files tool_demo = [chars ''motd'' \<mapsto> [0x48, 0x69]]" by (simp add: tool_demo_def)
  have st: "stored (i_mem (initrd_demo [])) 0x200000 (mkinitrd [] demo_files)" by (rule initrd_demo_stored) simp
  have h: "chars ''initrd.img'' \<notin> set [chars ''motd'']" "[chars ''motd''] \<noteq> []" "length [chars ''motd''] \<le> 10"
    "\<forall>name\<in>set [chars ''motd'']. 0 \<notin> set name \<and> name \<noteq> chars ''dev''"
    "distinct (List.map (take 63) [chars ''motd''])"
    "\<forall>name\<in>set [chars ''motd'']. \<forall>c. [chars ''motd'' \<mapsto> [0x48, 0x69 :: u8]] name = Some c \<longrightarrow> length c < 2 ^ 32"
    by (simp_all add: chars_def of_char_def)
  have mem: "init_memory (of_nat (length [chars ''motd''])) (i_heap (initrd_demo [])) 4194316 4194500 4194684"
    using initrd_demo_memory [of "[]"] by simp
  from mkinitrd_kernel_lookup [OF t'(1) f h t'(2) st _ mem] show ?thesis
    by (auto simp: chars_def Let_def)
qed


end
