(* ===== verification/Desktop.thy ===== *)
theory Desktop
  imports Gui
begin

text \<open>
  The mouse driver and the desktop together (\<^verbatim>\<open>drivers/mouse/mouse.c\<close>, \<^verbatim>\<open>gui/gui.c\<close>): packets
  arrive byte by byte from the device, and after each packet the desktop runs one frame. The
  frame draws the whole screen and runs the calculator; none of it moves a window or changes the
  size of the screen, so a gesture of several frames is what its packets make it.
\<close>

section \<open>Drawing keeps the size of the screen\<close>

definition screen_size :: "vga \<Rightarrow> u32 \<times> u32" where
  "screen_size v = (vga_get_width v, vga_get_height v)"

lemma fold_keeps: "(\<And>x s. f (g x s) = f s) \<Longrightarrow> f (fold g xs s) = f s"
  by (induction xs arbitrary: s) simp_all

named_theorems size_frames

lemma set_pixel_size [size_frames]: "screen_size (vga_set_pixel x y c v) = screen_size v"
  by (simp add: screen_size_def vga_get_width_def vga_get_height_def frame_simps)

lemma fill_rect_size [size_frames]: "screen_size (vga_fill_rect x y w h c v) = screen_size v"
  unfolding vga_fill_rect_def by (intro fold_keeps size_frames)

lemma draw_rect_size [size_frames]: "screen_size (vga_draw_rect x y w h c v) = screen_size v"
  by (simp add: vga_draw_rect_def Let_def fold_keeps size_frames)

lemma draw_char_size [size_frames]: "screen_size (vga_draw_char x y c color v) = screen_size v"
  by (simp add: vga_draw_char_def Let_def fold_keeps size_frames)

lemma draw_string_size [size_frames]: "screen_size (vga_draw_string x y str c v) = screen_size v"
proof -
  have "screen_size (draw_string_loop w x y c off str v) = screen_size v" for w off
    by (induction str arbitrary: off v) (simp_all add: size_frames)
  then show ?thesis by (simp add: vga_draw_string_def)
qed

lemma draw_line_size [size_frames]: "screen_size (vga_draw_line F x1 y1 x2 y2 c v) = screen_size v"
proof -
  have "screen_size (line_loop F (\<lambda>x y. vga_set_pixel x y c) xinc yinc n x y v) = screen_size v" for xinc yinc n x y
    by (induction n arbitrary: x y v) (simp_all add: size_frames)
  then show ?thesis by (simp add: vga_draw_line_def Let_def)
qed

lemma swap_buffers_size [size_frames]: "screen_size (vga_swap_buffers v) = screen_size v"
  by (simp add: vga_swap_buffers_def screen_size_def vga_get_width_def vga_get_height_def Let_def)

lemma gui_drawing_size [size_frames]:
  "screen_size (gui_draw_desktop v) = screen_size v" "screen_size (gui_draw_taskbar v) = screen_size v"
  "screen_size (draw_window win v) = screen_size v"
  by (simp_all add: gui_draw_desktop_def gui_draw_taskbar_def draw_window_def Let_def size_frames)

lemma calculator_drawing_size [size_frames]:
  "screen_size (calculator_draw_button F c btn v) = screen_size v"
  "screen_size (calculator_draw_display c v) = screen_size v" "screen_size (calculator_draw F c v) = screen_size v"
  by (simp_all add: calculator_draw_button_def calculator_draw_display_def calculator_draw_def Let_def fold_keeps
      size_frames)

lemma calculator_update_size [size_frames]:
  "screen_size (snd (update_calculator_app D F m (p, v))) = screen_size v"
proof -
  have "screen_size (snd (calculator_click D F mx my (c, v))) = screen_size v" for mx my c
    by (simp add: calculator_click_def calculator_handle_button_def Let_def size_frames)
  then show ?thesis
    by (simp add: update_calculator_app_def calculator_update_def Let_def size_frames split_beta)
qed

section \<open>A frame changes nothing but the screen and the programs\<close>

lemma draw_size [size_frames]:
  "(\<And>v. screen_size (f v) = screen_size v) \<Longrightarrow> screen_size (gui_screen (draw f s)) = screen_size (gui_screen s)"
  by (simp add: draw_def)

lemma gui_draw_window_size [size_frames]: "screen_size (gui_screen (gui_draw_window i s)) = screen_size (gui_screen s)"
  by (simp add: gui_draw_window_def size_frames)

lemma gui_draw_cursor_size [size_frames]: "screen_size (gui_screen (gui_draw_cursor F s)) = screen_size (gui_screen s)"
  by (simp add: gui_draw_cursor_def Let_def split_beta draw_def fold_keeps size_frames)

lemma run_calculator_size [size_frames]: "screen_size (gui_screen (run_calculator D F s)) = screen_size (gui_screen s)"
  using calculator_update_size [of D F "gui_mouse s" "gui_calc s" "gui_screen s"]
  by (simp add: run_calculator_def split_beta)

lemma draw_frame_size [size_frames]: "screen_size (gui_screen (draw_frame D F s)) = screen_size (gui_screen s)"
proof -
  let ?f = "\<lambda>i (s :: 'a gui). if win_visible (windows s i) then gui_draw_window (int i) s else s"
  have "screen_size (gui_screen (fold ?f is t)) = screen_size (gui_screen t)" for "is" t
    by (rule fold_keeps [of "\<lambda>s. screen_size (gui_screen s)"]) (simp add: size_frames)
  then show ?thesis by (simp add: draw_frame_def Let_def size_frames)
qed

text \<open>What a gesture depends on from one frame to the next.\<close>

definition pointer_state :: "'d gui \<Rightarrow> mouse \<times> u8 \<times> int \<times> int \<times> int" where
  "pointer_state s = (gui_mouse s, gui_last_buttons s, dragging_window s, drag_offset_x s, drag_offset_y s)"

lemma draw_pointer: "pointer_state (draw f s) = pointer_state s"
  by (simp add: draw_def pointer_state_def)

lemma draw_frame_pointer: "pointer_state (draw_frame D F s) = pointer_state s"
proof -
  let ?f = "\<lambda>i (s :: 'a gui). if win_visible (windows s i) then gui_draw_window (int i) s else s"
  have "pointer_state (fold ?f is t) = pointer_state t" for "is" t
    by (rule fold_keeps) (simp add: gui_draw_window_def draw_pointer)
  moreover have "pointer_state (t\<lparr>gui_apps := a\<rparr>) = pointer_state t" for t :: "'a gui" and a
    by (simp add: pointer_state_def)
  moreover have "pointer_state (run_calculator D F t) = pointer_state t" for t
    by (simp add: run_calculator_def pointer_state_def split_beta)
  moreover have "pointer_state (t\<lparr>last_mouse := m\<rparr>) = pointer_state t" for t :: "'a gui" and m
    by (simp add: pointer_state_def)
  ultimately show ?thesis
    by (simp add: draw_frame_def Let_def gui_draw_cursor_def split_beta draw_pointer)
qed

section \<open>Packets\<close>

text \<open>The bytes of a packet reach the driver, then the desktop runs a frame; several of them.\<close>

definition packet_frame ::
  "'d doubles \<Rightarrow> 'f floats \<Rightarrow> u32 \<Rightarrow> u8 list \<Rightarrow> 'd gui \<Rightarrow> 'd gui option" where
  "packet_frame D F entry bytes s = gui_update D F entry (s\<lparr>gui_mouse := fold mouse_data bytes (gui_mouse s)\<rparr>)"

fun packet_frames ::
  "'d doubles \<Rightarrow> 'f floats \<Rightarrow> u32 \<Rightarrow> u8 list list \<Rightarrow> 'd gui \<Rightarrow> 'd gui option" where
  "packet_frames D F entry [] s = Some s"
| "packet_frames D F entry (bytes # packets) s =
     (case packet_frame D F entry bytes s of None \<Rightarrow> None | Some t \<Rightarrow> packet_frames D F entry packets t)"

text \<open>A packet that begins with the marker bit, and whether it reports the left button as held.\<close>

definition packet :: "bool \<Rightarrow> u8 list \<Rightarrow> bool" where
  "packet held bytes \<longleftrightarrow> length bytes = 3 \<and> hd bytes AND 0x08 \<noteq> 0 \<and> (hd bytes AND MOUSE_LEFT_BTN \<noteq> 0) = held"

lemma packet_buttons:
  assumes "packet held bytes" and "mouse_cycle m = 0"
  shows "mouse_cycle (fold mouse_data bytes m) = 0"
    and "(mouse_buttons (fold mouse_data bytes m) AND MOUSE_LEFT_BTN \<noteq> 0) = held"
proof -
  from assms(1) obtain b0 b1 b2 where b: "bytes = [b0, b1, b2]"
    by (auto simp: packet_def length_Suc_conv numeral_3_eq_3)
  note c = mouse_packet_correct [OF assms(2), of 0 b0 b1 b2]
  have b0: "b0 AND 0x08 \<noteq> 0" "(b0 AND MOUSE_LEFT_BTN \<noteq> 0) = held" using assms(1) by (simp_all add: packet_def b)
  show "mouse_cycle (fold mouse_data bytes m) = 0" using c b0(1) by (simp add: b Let_def)
  have "(x AND 0x07) AND 0x01 = (x AND 0x01 :: u8)" for x by (simp add: and.assoc)
  moreover have "mouse_buttons (fold mouse_data bytes m) = b0 AND 0x07" using c b0(1) by (simp add: b Let_def)
  ultimately show "(mouse_buttons (fold mouse_data bytes m) AND MOUSE_LEFT_BTN \<noteq> 0) = held"
    using b0(2) by (simp add: MOUSE_LEFT_BTN_def)
qed

section \<open>The three kinds of frame\<close>

lemma size_eq:
  "screen_size v = screen_size w \<longleftrightarrow> vga_get_width v = vga_get_width w \<and> vga_get_height v = vga_get_height w"
  by (simp add: screen_size_def)

lemma drag_cong:
  assumes "screen_size (gui_screen a) = screen_size (gui_screen b)" and "windows a = windows b"
    and "dragging_window a = dragging_window b" "drag_offset_x a = drag_offset_x b" "drag_offset_y a = drag_offset_y b"
  shows "windows (gui_handle_mouse_drag x y a) = windows (gui_handle_mouse_drag x y b)"
  using assms by (simp add: gui_handle_mouse_drag_def Let_def frame_simps scale_x_def scale_y_def drag_to_def size_eq)

definition mouse_at :: "mouse \<Rightarrow> 'd gui \<Rightarrow> 'd gui" where
  "mouse_at m s = s\<lparr>gui_mouse := m\<rparr>"

lemma mouse_at_frames [frame_simps]:
  "gui_screen (mouse_at m s) = gui_screen s" "windows (mouse_at m s) = windows s"
  "window_count (mouse_at m s) = window_count s" "gui_mouse (mouse_at m s) = m"
  "gui_last_buttons (mouse_at m s) = gui_last_buttons s" "dragging_window (mouse_at m s) = dragging_window s"
  "drag_offset_x (mouse_at m s) = drag_offset_x s" "drag_offset_y (mouse_at m s) = drag_offset_y s"
  by (simp_all add: mouse_at_def)

lemma packet_frame_events:
  "packet_frame D F entry bytes s =
     map_option (draw_frame D F) (mouse_events entry (mouse_at (fold mouse_data bytes (gui_mouse s)) s))"
  by (simp add: packet_frame_def gui_update_def mouse_at_def)

lemma press_frame:
  assumes "packet True bytes" and "mouse_cycle (gui_mouse s) = 0" and "gui_last_buttons s AND MOUSE_LEFT_BTN = 0"
    and "m = fold mouse_data bytes (gui_mouse s)"
    and "gui_handle_mouse_click entry (mouse_x m) (mouse_y m) (mouse_at m s) = Some g"
  shows "packet_frame D F entry bytes s = Some (draw_frame D F (g\<lparr>gui_last_buttons := mouse_buttons m\<rparr>))"
  using packet_buttons [OF assms(1,2)] assms(3-5)
  by (simp add: packet_frame_events mouse_events_def mouse_get_state_def frame_simps)

lemma drag_frame:
  assumes "packet True bytes" and "mouse_cycle (gui_mouse s) = 0" and "gui_last_buttons s AND MOUSE_LEFT_BTN \<noteq> 0"
    and "m = fold mouse_data bytes (gui_mouse s)" and "0 \<le> dragging_window s"
  shows "packet_frame D F entry bytes s = Some (draw_frame D F
           ((gui_handle_mouse_drag (mouse_x m) (mouse_y m) (mouse_at m s))\<lparr>gui_last_buttons := mouse_buttons m\<rparr>))"
  using packet_buttons [OF assms(1,2)] assms(3-5)
  by (simp add: packet_frame_events mouse_events_def mouse_get_state_def frame_simps)

lemma release_frame:
  assumes "packet False bytes" and "mouse_cycle (gui_mouse s) = 0" and "gui_last_buttons s AND MOUSE_LEFT_BTN \<noteq> 0"
    and "m = fold mouse_data bytes (gui_mouse s)"
  shows "packet_frame D F entry bytes s = Some (draw_frame D F
           ((gui_handle_mouse_release (mouse_at m s))\<lparr>gui_last_buttons := mouse_buttons m\<rparr>))"
  using packet_buttons [OF assms(1,2)] assms(3,4)
  by (simp add: packet_frame_events mouse_events_def mouse_get_state_def frame_simps)

lemma drag_frames:
  "gui_mouse (gui_handle_mouse_drag x y s) = gui_mouse s" "gui_screen (gui_handle_mouse_drag x y s) = gui_screen s"
  "dragging_window (gui_handle_mouse_drag x y s) = dragging_window s"
  by (simp_all add: gui_handle_mouse_drag_def Let_def set_window_def)

lemma grab_window_mouse: "gui_mouse (grab_window i mx my s) = gui_mouse s"
proof -
  have "gui_mouse (fold (\<lambda>j. set_window j f) js t) = gui_mouse t" for f js and t :: "'a gui"
    by (rule fold_keeps) (simp add: set_window_def)
  then show ?thesis by (simp add: grab_window_def Let_def set_window_def)
qed

lemma draw_frame_pointers:
  "gui_mouse (draw_frame D F s) = gui_mouse s" "gui_last_buttons (draw_frame D F s) = gui_last_buttons s"
  "drag_offset_x (draw_frame D F s) = drag_offset_x s" "drag_offset_y (draw_frame D F s) = drag_offset_y s"
  using draw_frame_pointer [of D F s] by (simp_all add: pointer_state_def)

section \<open>Properties\<close>

text \<open>
  Property C36. Dragging a window with the mouse works from the bytes of the device to the window:
  when a packet with the left button presses on the title of the topmost window under the pointer,
  another moves the pointer and a third lets go, the three frames move exactly that window, by the
  distance the pointer moved between the first two on the screen, stopped at the left, right and
  upper edge, and leave no window held. The check at the lower edge compares with the width of the
  screen instead of its height, so on a screen wider than high a window can be pulled below the
  taskbar. What the packets do to the pointer, acceleration and overflow included, is the driver's.
\<close>

theorem desktop_drag:
  fixes s :: "'d gui" and F :: "'f floats" and p1 p2 p3 :: "u8 list" and i :: nat
  defines "v \<equiv> gui_screen s" and "m1 \<equiv> fold mouse_data p1 (gui_mouse s)" and "m2 \<equiv> fold mouse_data (p1 @ p2) (gui_mouse s)"
  defines "x1 \<equiv> scale_x v (mouse_x m1)" and "y1 \<equiv> scale_y v (mouse_y m1)"
    and "x2 \<equiv> scale_x v (mouse_x m2)" and "y2 \<equiv> scale_y v (mouse_y m2)"
    and "W \<equiv> uint (vga_get_width v)" and "H \<equiv> uint (vga_get_height v)"
    and "w \<equiv> uint (win_width (windows s i))" and "h \<equiv> uint (win_height (windows s i))"
  assumes press: "packet True p1" and move: "packet True p2" and leave: "packet False p3"
    and start: "mouse_cycle (gui_mouse s) = 0" "gui_last_buttons s AND MOUSE_LEFT_BTN = 0" "grabs s i x1 y1"
    and size: "unat (vga_get_width v) < 1073741824" "unat (vga_get_height v) < 1073741824"
      "win_width (windows s i) \<le> vga_get_width v" "unat (win_height (windows s i)) + 28 \<le> unat (vga_get_height v)"
      "unat (win_x (windows s i)) < 1073741824" "unat (win_y (windows s i)) < 1073741824"
  defines "nx \<equiv> uint (win_x (windows s i)) + x2 - x1" and "ny \<equiv> max 0 (uint (win_y (windows s i)) + y2 - y1)"
  shows "\<exists>t. packet_frames D F entry [p1, p2, p3] s = Some t \<and> dragging_window t = - 1
     \<and> gui_mouse t = fold mouse_data (p1 @ p2 @ p3) (gui_mouse s) \<and> win_active (windows t i)
     \<and> uint (win_x (windows t i)) = max 0 (min (W - w) nx)
     \<and> uint (win_y (windows t i)) = (if ny + h > W - 28 then H - 28 - h else ny)
     \<and> (\<forall>j. j \<noteq> i \<longrightarrow> win_x (windows t j) = win_x (windows s j) \<and> win_y (windows t j) = win_y (windows s j))"
proof -
  define m3 where "m3 = fold mouse_data p3 m2"
  let ?s1 = "mouse_at m1 s"
  define g where "g = grab_window i x1 y1 ?s1"
  define u1 where "u1 = draw_frame D F (g\<lparr>gui_last_buttons := mouse_buttons m1\<rparr>)"
  define d where "d = gui_handle_mouse_drag (mouse_x m2) (mouse_y m2) (mouse_at m2 u1)"
  define u2 where "u2 = draw_frame D F (d\<lparr>gui_last_buttons := mouse_buttons m2\<rparr>)"
  define t where "t = draw_frame D F ((gui_handle_mouse_release (mouse_at m3 u2))\<lparr>gui_last_buttons := mouse_buttons m3\<rparr>)"
  have m2: "m2 = fold mouse_data p2 m1" by (simp add: m1_def m2_def)
  note b1 = packet_buttons [OF press start(1), folded m1_def]
  note b2 = packet_buttons [OF move b1(1), folded m2]
  have gr: "grabs ?s1 i (scale_x (gui_screen ?s1) (mouse_x m1)) (scale_y (gui_screen ?s1) (mouse_y m1))"
    and i: "i < window_count s"
    using start(3) by (simp_all add: grabs_def frame_simps x1_def y1_def v_def)
  have click: "gui_handle_mouse_click entry (mouse_x m1) (mouse_y m1) ?s1 = Some g"
    using click_grabs [OF gr] by (simp add: g_def x1_def y1_def v_def frame_simps)
  have u1: "gui_mouse u1 = m1" "gui_last_buttons u1 = mouse_buttons m1" "dragging_window u1 = int i"
    "windows u1 = windows g" "screen_size (gui_screen u1) = screen_size v"
    "drag_offset_x u1 = drag_offset_x g" "drag_offset_y u1 = drag_offset_y g"
    by (simp_all add: u1_def g_def draw_frame_pointers frame_simps size_frames grab_window_mouse v_def)
  have f1: "packet_frame D F entry p1 s = Some u1"
    unfolding u1_def by (rule press_frame [OF press start(1,2) m1_def [THEN meta_eq_to_obj_eq] click])
  have f2: "packet_frame D F entry p2 u1 = Some u2"
    unfolding u2_def d_def using b1 u1 m2 by (intro drag_frame [OF move]) simp_all
  have u2: "gui_mouse u2 = m2" "gui_last_buttons u2 = mouse_buttons m2" "windows u2 = windows d"
    by (simp_all add: u2_def d_def draw_frame_pointers frame_simps drag_frames)
  have f3: "packet_frame D F entry p3 u2 = Some t"
    unfolding t_def using b2 u2 m3_def by (intro release_frame [OF leave]) simp_all
  have t: "windows t = windows d" "dragging_window t = - 1" "gui_mouse t = m3"
    by (simp_all add: t_def u2(3) draw_frame_pointers frame_simps gui_handle_mouse_release_def)
  have wd: "windows d = windows (gui_handle_mouse_drag (mouse_x m2) (mouse_y m2) g)"
    unfolding d_def by (rule drag_cong) (simp_all add: u1 frame_simps, simp_all add: g_def frame_simps v_def)
  have "win_active (windows g i) \<and> uint (win_x (windows d i)) = max 0 (min (W - w) nx)
      \<and> uint (win_y (windows d i)) = (if ny + h > W - 28 then H - 28 - h else ny)
      \<and> (\<forall>j. j \<noteq> i \<longrightarrow> windows d j = windows g j)"
    using gui_drag_moves [OF gr, where x' = "mouse_x m2" and y' = "mouse_y m2" and entry = entry] size click unfolding wd
    by (simp add: frame_simps v_def x1_def y1_def x2_def y2_def W_def H_def w_def h_def nx_def ny_def)
  moreover have "win_active (windows d i) = win_active (windows g i)"
    unfolding wd by (simp add: gui_handle_mouse_drag_def Let_def frame_simps drag_to_active)
  moreover have "win_x (windows g j) = win_x (windows s j) \<and> win_y (windows g j) = win_y (windows s j)" for j
    using i by (simp add: g_def frame_simps)
  moreover have "fold mouse_data (p1 @ p2 @ p3) (gui_mouse s) = m3" by (simp add: m3_def m2 m1_def)
  ultimately show ?thesis using f1 f2 f3 t by simp
qed

definition desktop_demo :: "'d gui \<Rightarrow> 'd gui" where
  "desktop_demo s = (one_window s)\<lparr>gui_mouse := mouse_initial\<lparr>mouse_x := 100, mouse_y := 70\<rparr>, gui_last_buttons := 0\<rparr>"

lemma desktop_demo_mouse:
  fixes s :: "'d gui"
  defines "m1 \<equiv> fold mouse_data [0x09, 0, 0] (gui_mouse (desktop_demo s))"
  shows "mouse_x m1 = 100 \<and> mouse_y m1 = 70"
    and "mouse_x (fold mouse_data [0x29, 50, 0xF6] m1) = 200 \<and> mouse_y (fold mouse_data [0x29, 50, 0xF6] m1) = 90"
proof -
  have c: "mouse_cycle (gui_mouse (desktop_demo s)) = 0" "mouse_x (gui_mouse (desktop_demo s)) = 100"
    "mouse_y (gui_mouse (desktop_demo s)) = 70"
    by (simp_all add: desktop_demo_def mouse_initial_def)
  note d = delta_plain delta_sign sint_byte accelerate_def clamp_def Let_def
  have m1: "mouse_cycle m1 = 0 \<and> mouse_x m1 = 100 \<and> mouse_y m1 = 70"
    using mouse_packet_correct [OF c(1), of 0 "0x09" 0 0] c by (simp add: m1_def d del: fold.simps)
  then show "mouse_x m1 = 100 \<and> mouse_y m1 = 70" by blast
  show "mouse_x (fold mouse_data [0x29, 50, 0xF6] m1) = 200 \<and> mouse_y (fold mouse_data [0x29, 50, 0xF6] m1) = 90"
    using mouse_packet_correct [of m1 0 "0x29" 50 "0xF6"] m1 by (simp add: d del: fold.simps)
qed

theorem desktop_drag_witness:
  "\<forall>s :: signed_rat gui. \<exists>t. packet_frames signed_doubles rat_floats 0 [[0x09, 0, 0], [0x29, 50, 0xF6], [0x08, 0, 0]] (desktop_demo s) = Some t
     \<and> dragging_window t = - 1 \<and> uint (win_x (windows t 0)) = 260 \<and> uint (win_y (windows t 0)) = 132"
proof
  fix s :: "signed_rat gui"
  let ?s = "desktop_demo s" and ?v = "gui_screen (desktop_demo s)"
  have p: "packet True [0x09, 0, 0]" "packet True [0x29, 50, 0xF6]" "packet False [0x08, 0, 0]"
    by (simp_all add: packet_def MOUSE_LEFT_BTN_def)
  have s: "vga_get_width ?v = 1024" "vga_get_height ?v = 768" "windows ?s = (\<lambda>_. window_demo)" "window_count ?s = 1"
    "mouse_cycle (gui_mouse ?s) = 0" "gui_last_buttons ?s AND MOUSE_LEFT_BTN = 0"
    by (simp_all add: desktop_demo_def one_window_def mouse_initial_def vga_get_width_def vga_get_height_def)
  have w: "win_x window_demo = 100" "win_y window_demo = 100" "win_width window_demo = 300" "win_height window_demo = 200"
    "win_visible window_demo"
    by (simp_all add: window_demo_def)
  note m = desktop_demo_mouse [of s]
  have g: "grabs ?s 0 (scale_x ?v (mouse_x (fold mouse_data [0x09, 0, 0] (gui_mouse ?s))))
      (scale_y ?v (mouse_y (fold mouse_data [0x09, 0, 0] (gui_mouse ?s))))"
    using m(1) by (simp add: grabs_def s w scale_x_def scale_y_def on_win_title_def on_win_close_def on_launcher_def)
  from desktop_drag [OF p s(5,6) g, where D = signed_doubles and F = rat_floats and entry = 0] m
  show "\<exists>t. packet_frames signed_doubles rat_floats 0 [[0x09, 0, 0], [0x29, 50, 0xF6], [0x08, 0, 0]] ?s = Some t
     \<and> dragging_window t = - 1 \<and> uint (win_x (windows t 0)) = 260 \<and> uint (win_y (windows t 0)) = 132"
    by (auto simp: s w scale_x_def scale_y_def simp del: packet_frames.simps)
qed

end
