(* ===== verification/Stubs.thy ===== *)
theory Stubs
  imports Scheduler
begin

text \<open>
  The assembly between the processor and the C code: the context switch \<^verbatim>\<open>proc/switch.asm\<close> as
  \<open>schedule\<close> calls it (\<^verbatim>\<open>proc/scheduler.c\<close>), and the entry stubs of exceptions and hardware interrupts,
  \<^verbatim>\<open>hal/isr_stubs.asm\<close> and \<^verbatim>\<open>hal/irq_stubs.asm\<close>, up to the call of the C handler. A program is
  the list of its instructions; the memory maps addresses to the words stored there, and all
  accesses are to words four bytes apart.
\<close>

section \<open>The processor\<close>

datatype reg = EAX | EBX | ECX | EDX | ESI | EDI | EBP | ESP

record cpu =
  gpr :: "reg \<Rightarrow> u32"
  c_flags :: u32
  c_eip :: u32
  c_cs :: u16
  c_ds :: u16
  words :: "ptr \<Rightarrow> u32"

text \<open>
  \<open>Load r b d\<close> is \<open>mov r, [b + d]\<close>, \<open>Store b r\<close> is \<open>mov [b], r\<close>, \<open>Load_ds\<close> is \<open>mov ax, ds\<close>, which keeps the
  upper half of \<open>eax\<close>, and \<open>Kernel_ds\<close> the five instructions that load the data segments with 0x10.
  \<open>Call a ret\<close> calls \<open>a\<close> and pushes the return address \<open>ret\<close>; \<open>c_eip\<close> changes at transfers of control only,
  and the jump from the stub of a vector to the common part is left out.
\<close>

datatype instr = Push reg | Push_imm u32 | Pushf | Pusha | Pop reg | Popf | Mov reg reg | Load reg reg u32
  | Store reg reg | Load_ds | Kernel_ds | Cli | Call u32 u32 | Ret

definition push :: "u32 \<Rightarrow> cpu \<Rightarrow> cpu" where
  "push v c = c\<lparr>gpr := (gpr c)(ESP := gpr c ESP - 4), words := (words c)(gpr c ESP - 4 := v)\<rparr>"

definition set_reg :: "reg \<Rightarrow> u32 \<Rightarrow> cpu \<Rightarrow> cpu" where
  "set_reg r v c = c\<lparr>gpr := (gpr c)(r := v)\<rparr>"

definition pushes :: "u32 list \<Rightarrow> cpu \<Rightarrow> cpu" where
  "pushes = fold push"

fun exec1 :: "instr \<Rightarrow> cpu \<Rightarrow> cpu" where
  "exec1 (Push r) c = push (gpr c r) c"
| "exec1 (Push_imm v) c = push v c"
| "exec1 Pushf c = push (c_flags c) c"
| "exec1 Pusha c = pushes (List.map (gpr c) [EAX, ECX, EDX, EBX, ESP, EBP, ESI, EDI]) c"
| "exec1 (Pop r) c = set_reg r (words c (gpr c ESP)) (set_reg ESP (gpr c ESP + 4) c)"
| "exec1 Popf c = (set_reg ESP (gpr c ESP + 4) c)\<lparr>c_flags := words c (gpr c ESP)\<rparr>"
| "exec1 (Mov r q) c = set_reg r (gpr c q) c"
| "exec1 (Load r b d) c = set_reg r (words c (gpr c b + d)) c"
| "exec1 (Store b r) c = c\<lparr>words := (words c)(gpr c b := gpr c r)\<rparr>"
| "exec1 Load_ds c = set_reg EAX ((gpr c EAX AND 0xFFFF0000) OR ucast (c_ds c)) c"
| "exec1 Kernel_ds c = (set_reg EAX ((gpr c EAX AND 0xFFFF0000) OR 0x10) c)\<lparr>c_ds := 0x10\<rparr>"
| "exec1 Cli c = c\<lparr>c_flags := c_flags c AND NOT 0x200\<rparr>"
| "exec1 (Call a ret) c = (push ret c)\<lparr>c_eip := a\<rparr>"
| "exec1 Ret c = (set_reg ESP (gpr c ESP + 4) c)\<lparr>c_eip := words c (gpr c ESP)\<rparr>"

fun exec :: "instr list \<Rightarrow> cpu \<Rightarrow> cpu" where
  "exec [] c = c"
| "exec (i # is) c = exec is (exec1 i c)"

section \<open>The context switch\<close>

definition switch_context :: "instr list" where
  "switch_context =
     [Push EBP, Mov EBP ESP,
      Load EAX EBP 8,
      Pushf, Push EBX, Push ESI, Push EDI,
      Store EAX ESP,
      Load EAX EBP 12, Mov ESP EAX,
      Pop EDI, Pop ESI, Pop EBX, Popf,
      Pop EBP, Ret]"

text \<open>
  A C call \<open>switch_context(old, new)\<close>, up to the return: the compiler pushes the two arguments and the
  call pushes the return address. In \<open>schedule\<close> the arguments are, for a pair recorded in \<open>switches\<close>,
  the addresses of the two \<open>regs\<close> fields, 40 bytes into the process records.
\<close>

definition switch_call :: "u32 \<Rightarrow> u32 \<Rightarrow> u32 \<Rightarrow> cpu \<Rightarrow> cpu" where
  "switch_call old new ret c = exec switch_context (pushes [new, old, ret] c)"

definition call_switch :: "ptr \<times> ptr \<Rightarrow> u32 \<Rightarrow> cpu \<Rightarrow> cpu" where
  "call_switch = (\<lambda>(prev, nxt). switch_call (prev + 40) (nxt + 40))"

text \<open>\<open>registers_t\<close> read from memory, in the order of its fields.\<close>

definition regs_at :: "(ptr \<Rightarrow> u32) \<Rightarrow> ptr \<Rightarrow> registers" where
  "regs_at m p = \<lparr>r_ds = m p, r_edi = m (p + 4), r_esi = m (p + 8), r_ebp = m (p + 12), r_esp = m (p + 16),
     r_ebx = m (p + 20), r_edx = m (p + 24), r_ecx = m (p + 28), r_eax = m (p + 32), int_no = m (p + 36),
     err_code = m (p + 40), r_eip = m (p + 44), r_cs = m (p + 48), r_eflags = m (p + 52), useresp = m (p + 56),
     r_ss = m (p + 60)\<rparr>"

text \<open>The memory after the call: eight words on the stack, and the stack pointer at the old pointer.\<close>

definition switch_words :: "ptr \<Rightarrow> ptr \<Rightarrow> u32 \<Rightarrow> cpu \<Rightarrow> ptr \<Rightarrow> u32" where
  "switch_words old new ret c = (let esp = gpr c ESP in
     (words c)(esp - 4 := new, esp - 8 := old, esp - 12 := ret, esp - 16 := gpr c EBP, esp - 20 := c_flags c,
       esp - 24 := gpr c EBX, esp - 28 := gpr c ESI, esp - 32 := gpr c EDI, old := esp - 32))"

lemma switch_context_run:
  fixes c :: cpu and old new ret :: u32
  assumes "old \<noteq> gpr c ESP - 4"
  defines "d \<equiv> switch_call old new ret c" and "w \<equiv> switch_words old new ret c"
  shows "words d = w" "gpr d EDI = w new" "gpr d ESI = w (new + 4)" "gpr d EBX = w (new + 8)"
    "c_flags d = w (new + 12)" "gpr d EBP = w (new + 16)" "c_eip d = w (new + 20)" "gpr d ESP = new + 24"
  using assms(1)
  by (simp_all add: d_def w_def switch_call_def switch_context_def switch_words_def push_def pushes_def set_reg_def
        Let_def add.commute [of _ new])

text \<open>The words of the \<open>regs\<close> field of a record, and the eight words the call pushes.\<close>

definition regs_words :: "ptr \<Rightarrow> ptr list" where
  "regs_words p = List.map (\<lambda>i. p + 40 + 4 * of_nat i) [0..<16]"

definition stack_words :: "ptr \<Rightarrow> ptr list" where
  "stack_words esp = List.map (\<lambda>j. esp - 4 * of_nat j) [1..<9]"

lemma switch_words_apart:
  assumes "set (regs_words p) \<inter> set (stack_words (gpr c ESP)) = {}" "old \<notin> set (regs_words p)"
  shows "\<forall>a\<in>set (regs_words p). switch_words old new ret c a = words c a"
proof
  fix a assume "a \<in> set (regs_words p)"
  with assms have "a \<notin> set (stack_words (gpr c ESP))" "a \<noteq> old" by auto
  then show "switch_words old new ret c a = words c a"
    by (simp add: switch_words_def stack_words_def Let_def upt_rec)
qed

lemma regs_at_words:
  "\<forall>a\<in>set (regs_words p). m a = m' a \<Longrightarrow> regs_at m (p + 40) = regs_at m' (p + 40)"
  by (simp add: regs_at_def regs_words_def upt_rec add.assoc)

lemma regs_at_fields:
  "regs_at m (p + 40) = r \<Longrightarrow> m (p + 60) = r_ebx r \<and> m (p + 52) = r_ebp r \<and> m (p + 56) = r_esp r"
  by (auto simp: regs_at_def add.assoc)

text \<open>
  Property C9. What \<open>schedule\<close> does to the processor when its choice is a process that
  \<open>process_create\<close> made: \<open>switch_context\<close> takes its second argument as a saved stack pointer, and is
  given the address of the \<open>regs\<close> field. So the new process is not entered at its entry point:
  control goes to address 0, the word \<open>ebx\<close> of its record, with the record itself as the stack, interrupts
  disabled (the word \<open>ebp\<close> as the flags) and the frame pointer 0. The old process's stack pointer is
  stored over \<open>ds\<close>, the first word of its registers, and the new record is left as it was. The stack of the caller
  lies apart from both records.
\<close>

theorem switch_misses_entry:
  assumes inv: "proc_inv s" and make: "process_create nm entry s = Some (p, s')" "p \<noteq> 0"
    and mem: "regs_at (words c) (p + 40) = proc_regs (procs s' p)"
    and apart: "set (regs_words p) \<inter> set (stack_words (gpr c ESP)) = {}"
      "prev + 40 \<notin> set (regs_words p)" "prev + 40 \<notin> set (stack_words (gpr c ESP))"
  shows "let d = call_switch (prev, p) ret c in
      c_eip d = 0 \<and> gpr d ESP = p + 64 \<and> gpr d EBP = 0 \<and> \<not> bit (c_flags d) 9
      \<and> words d (prev + 40) = gpr c ESP - 32
      \<and> regs_at (words d) (p + 40) = proc_regs (procs s' p) \<and> r_eip (proc_regs (procs s' p)) = entry"
proof -
  from make obtain q where "created nm entry p q s s'"
    by (cases rule: process_create_cases [OF inv, of nm entry]) auto
  then have pr: "procs s' p = new_process nm entry q s" by (simp add: created_def)
  have r: "r_ebx (proc_regs (procs s' p)) = 0" "r_ebp (proc_regs (procs s' p)) = 0"
    "r_esp (proc_regs (procs s' p)) = 0" "r_eip (proc_regs (procs s' p)) = entry"
    by (simp_all add: pr new_process_def regs_zero_def Let_def)
  have ne: "prev + 40 \<noteq> gpr c ESP - 4" using apart(3) by (simp add: stack_words_def upt_rec)
  define w where "w = switch_words (prev + 40) (p + 40) ret c"
  have "\<forall>a\<in>set (regs_words p). w a = words c a"
    unfolding w_def by (rule switch_words_apart [OF apart(1,2)])
  then have w: "regs_at w (p + 40) = proc_regs (procs s' p)"
    unfolding mem [symmetric] by (rule regs_at_words)
  note f = regs_at_fields [OF w, unfolded r]
  have "w (prev + 40) = gpr c ESP - 32" by (simp add: w_def switch_words_def Let_def)
  then show ?thesis
    using f w r(4) by (simp add: Let_def call_switch_def switch_context_run [OF ne] w_def [symmetric] add.assoc)
qed

theorem switch_misses_entry_witness:
  "\<exists>c s'. process_create (chars ''job'') 0x100000 proc_demo = Some (4194448, s')
     \<and> r_eip (proc_regs (procs s' 4194448)) = 0x100000
     \<and> c_eip (call_switch (4194316, 4194448) 0x101000 c) = 0"
proof -
  from proc_demo_kmalloc obtain h1 h2 where
    m: "kmalloc sizeof_process (kheap proc_demo) = Some (4194448, h1)"
      "kmalloc KERNEL_STACK_SIZE h1 = Some (4194580, h2)" by blast
  have "next_pid proc_demo < 64" by (simp add: proc_demo_facts)
  from process_create_ok [OF proc_demo_facts(2) this m(1) _ m(2), of "chars ''job''" "0x100000"] obtain s' where
    s': "process_create (chars ''job'') 0x100000 proc_demo = Some (4194448, s')"
      "created (chars ''job'') 0x100000 4194448 4194580 proc_demo s'"
    by auto
  define c where "c = \<lparr>gpr = (\<lambda>_. 0x90000), c_flags = 0x202, c_eip = 0x101000, c_cs = 8, c_ds = 0x10,
    words = (\<lambda>_. 0)(4194488 := 0x10, 4194532 := 0x100000, 4194536 := 8, 4194540 := 0x202,
      4194544 := 4198676, 4194548 := 0x10)\<rparr>"
  have "procs s' 4194448 = new_process (chars ''job'') 0x100000 4194580 proc_demo"
    using s'(2) by (simp add: created_def)
  then have "regs_at (words c) (4194448 + 40) = proc_regs (procs s' 4194448)"
    by (simp add: c_def regs_at_def new_process_def regs_zero_def Let_def)
  moreover have "set (regs_words 4194448) \<inter> set (stack_words (gpr c ESP)) = {}"
    "(4194316 :: ptr) + 40 \<notin> set (regs_words 4194448)" "(4194316 :: ptr) + 40 \<notin> set (stack_words (gpr c ESP))"
    by (simp_all add: c_def regs_words_def stack_words_def upt_rec)
  ultimately show ?thesis
    using switch_misses_entry [where c = c and prev = 4194316 and ret = "0x101000", OF proc_demo_facts(2) s'(1)] s'(1)
    by (auto simp: Let_def)
qed

text \<open>
  Remark. Given the saved stack pointer itself, as \<open>switch.asm\<close> expects it, the routine does switch: a
  context saved at \<open>a\<close> comes back, from any stack apart from its words, with its return address, \<open>ebp\<close>,
  \<open>ebx\<close>, \<open>esi\<close>, \<open>edi\<close> and flags, and with the stack pointer behind the return address.
\<close>

definition saved_words :: "ptr \<Rightarrow> ptr list" where
  "saved_words sp = List.map (\<lambda>i. sp + 4 * of_nat i) [0..<6]"

lemma switch_call_saves:
  assumes "a \<notin> set (stack_words (gpr c ESP))"
  shows "List.map (words (switch_call a x ret c)) (a # saved_words (gpr c ESP - 32))
    = [gpr c ESP - 32, gpr c EDI, gpr c ESI, gpr c EBX, c_flags c, gpr c EBP, ret]"
  using assms switch_context_run(1) [of a c x ret]
  by (auto simp: switch_words_def saved_words_def stack_words_def upt_rec Let_def)

theorem switch_roundtrip:
  assumes "a \<notin> set (stack_words (gpr c ESP))"
    and same: "List.map (words d) (a # saved_words (gpr c ESP - 32))
      = List.map (words (switch_call a x ret c)) (a # saved_words (gpr c ESP - 32))"
    and "set (saved_words (gpr c ESP - 32)) \<inter> insert b (set (stack_words (gpr d ESP))) = {}"
    and "b \<noteq> gpr d ESP - 4"
  shows "let e = switch_call b (words d a) ret' d in
      c_eip e = ret \<and> gpr e ESP = gpr c ESP - 8 \<and> c_flags e = c_flags c
      \<and> gpr e EBP = gpr c EBP \<and> gpr e EBX = gpr c EBX \<and> gpr e ESI = gpr c ESI \<and> gpr e EDI = gpr c EDI"
proof -
  note saved = same [unfolded switch_call_saves [OF assms(1)]]
  have "switch_words b new ret' d w = words d w" if "w \<in> set (saved_words (gpr c ESP - 32))" for new w
  proof -
    from that assms(3) have "w \<notin> set (stack_words (gpr d ESP))" "w \<noteq> b" by auto
    then show ?thesis by (simp add: switch_words_def stack_words_def upt_rec Let_def)
  qed
  with saved show ?thesis
    using switch_context_run [OF assms(4), of "words d a" ret']
    by (simp add: saved_words_def upt_rec Let_def)
qed

section \<open>The entry stubs\<close>

text \<open>
  From the entry of a vector to the call of its handler, \<open>isr_handler\<close> or \<open>irq_handler\<close>; before it the
  processor has pushed the flags, the code segment and the instruction pointer (and the stack of the
  user) and, for the exceptions with \<open>err\<close>, the error code.
\<close>

definition isr_stub_code :: "bool \<Rightarrow> u32 \<Rightarrow> u32 \<Rightarrow> u32 \<Rightarrow> instr list" where
  "isr_stub_code err n handler ret =
     [Cli] @ (if err then [] else [Push_imm 0]) @ [Push_imm n,
      Pusha, Load_ds, Push EAX, Kernel_ds, Call handler ret]"

definition irq_stub_code :: "u32 \<Rightarrow> u32 \<Rightarrow> u32 \<Rightarrow> instr list" where
  "irq_stub_code n handler ret =
     [Cli, Push_imm 0, Push_imm n,
      Pusha, Load_ds, Push EAX, Kernel_ds, Push ESP, Call handler ret]"

text \<open>The first argument of a C function at its entry: the word above the return address.\<close>

definition first_argument :: "cpu \<Rightarrow> u32" where
  "first_argument c = words c (gpr c ESP + 4)"

text \<open>
  Remark. The stub of a hardware interrupt hands its handler the address of the saved registers,
  \<open>registers_t\<close> with the fields in the order of the C structure: the number of the vector and the
  registers and instruction pointer of the interrupted code; interrupts are disabled.
\<close>

theorem irq_stub_passes_registers:
  "let d = exec (irq_stub_code n handler ret) c; r = regs_at (words d) (first_argument d); m = words c; sp = gpr c ESP in
    c_eip d = handler \<and> \<not> bit (c_flags d) 9 \<and> int_no r = n \<and> err_code r = 0
    \<and> r_eax r = gpr c EAX \<and> r_ebx r = gpr c EBX \<and> r_ecx r = gpr c ECX \<and> r_edx r = gpr c EDX
    \<and> r_esi r = gpr c ESI \<and> r_edi r = gpr c EDI \<and> r_ebp r = gpr c EBP
    \<and> r_eip r = m sp \<and> r_cs r = m (sp + 4) \<and> r_eflags r = m (sp + 8) \<and> useresp r = m (sp + 12) \<and> r_ss r = m (sp + 16)"
  by (simp add: irq_stub_code_def first_argument_def regs_at_def push_def pushes_def set_reg_def Let_def
        add.commute [of _ "gpr c ESP"])
    (simp add: bit_and_iff bit_not_iff)

text \<open>
  Remark. The stub of an exception calls its handler without pushing that address: what \<open>isr_handler\<close>
  takes for the pointer is the word on top of the stack, the data segment with the upper half of \<open>eax\<close>
  at the fault. The registers are saved, four bytes above the return address.
\<close>

theorem isr_stub_passes_no_registers:
  "let d = exec (isr_stub_code err n handler ret) c in
    c_eip d = handler \<and> first_argument d = (gpr c EAX AND 0xFFFF0000) OR ucast (c_ds c)
    \<and> int_no (regs_at (words d) (gpr d ESP + 4)) = n"
  by (cases err) (simp_all add: isr_stub_code_def first_argument_def regs_at_def push_def pushes_def
    set_reg_def Let_def)

end
