(* ===== verification/BootState.thy ===== *)
theory BootState
  imports Usermode Syscall Keyboard Mouse VfsComplete Lines I915
begin

text \<open>
  The state that \<open>kernel_main\<close> (\<^verbatim>\<open>core/kernel.c\<close>) puts together from those of the components, and the
  hardware interrupts on it: \<open>irq_handler\<close> (\<^verbatim>\<open>hal/irq.c\<close>) with the functions the kernel registers.
  The stubs that deliver them pass the saved registers (\<open>irq_stub_passes_registers\<close> in \<open>Stubs\<close>).
  An interrupt changes only the scheduler's fields of the process component, the keyboard, the
  mouse and the record of port accesses; without registered handlers, only the latter.
\<close>

section \<open>State\<close>

datatype irq_name = Scheduler_tick | Timer_callback | Keyboard_handler | Mouse_handler

record boot =
  bt_user :: user_state
  bt_idt :: idt
  bt_io :: io_trace
  bt_exc :: "exception_handler handlers"
  bt_irq :: "irq_name handlers"
  bt_pmm :: pmm
  bt_paging :: paging
  bt_vfs :: "unit vfs"
  bt_fs_root :: ptr
  bt_kbd :: keyboard
  bt_tbl :: syscall_table
  bt_gop :: gop_fb
  bt_gpu :: gpu_state
  bt_i915 :: i915
  bt_mouse :: mouse
  bt_mem :: "u32 \<Rightarrow> u32"
  bt_interrupts :: bool

record boot_env =
  be_dev :: device
  be_hw :: hardware
  be_isr_stub :: "nat \<Rightarrow> u32"
  be_irq_stub :: "nat \<Rightarrow> u32"
  be_idt :: u32
  be_gdt :: u32
  be_tss :: u32
  be_syscall :: u32
  be_kernel_end :: u32
  be_arrivals :: "nat \<Rightarrow> registers list"

text \<open>\<open>be_arrivals n\<close> are the interrupts that arrive after step \<open>n\<close>, as the frames their stubs push.\<close>

datatype boot_end = Halted_at boot | Faulted u32 u32 boot | Idling boot

datatype 'a stage = Ended boot_end | Continues 'a

abbreviation bt_kern :: "boot \<Rightarrow> kernel" where
  "bt_kern s \<equiv> ukern (bt_user s)"

definition bt_set_kern :: "kernel \<Rightarrow> boot \<Rightarrow> boot" where
  "bt_set_kern k s = s\<lparr>bt_user := (bt_user s)\<lparr>ukern := k\<rparr>\<rparr>"

definition bt_set_con :: "monitor \<Rightarrow> boot \<Rightarrow> boot" where
  "bt_set_con c s = bt_set_kern ((bt_kern s)\<lparr>con := c\<rparr>) s"

definition bt_say :: "out list \<Rightarrow> boot \<Rightarrow> boot" where
  "bt_say os s = bt_set_con (print_all os (con (bt_kern s))) s"

text \<open>A driver with a console of its own runs on the kernel's.\<close>

definition on_gop :: "(gop_fb \<Rightarrow> gop_fb) \<Rightarrow> boot \<Rightarrow> boot" where
  "on_gop f s = (let g = f ((bt_gop s)\<lparr>gop_con := con (bt_kern s)\<rparr>) in bt_set_con (gop_con g) (s\<lparr>bt_gop := g\<rparr>))"

definition on_i915 :: "(i915 \<Rightarrow> i915) \<Rightarrow> boot \<Rightarrow> boot" where
  "on_i915 f s = (let g = f ((bt_i915 s)\<lparr>i_con := con (bt_kern s)\<rparr>) in bt_set_con (i_con g) (s\<lparr>bt_i915 := g\<rparr>))"

definition on_gpu :: "(gpu_state \<Rightarrow> gpu_state) \<Rightarrow> boot \<Rightarrow> boot" where
  "on_gpu f s = (let g = f ((bt_gpu s)\<lparr>gpu_con := con (bt_kern s)\<rparr>) in bt_set_con (gpu_con g) (s\<lparr>bt_gpu := g\<rparr>))"

section \<open>Interrupts\<close>

text \<open>The functions behind the registered names; the keyboard handler reads its byte from port \<open>0x60\<close>.\<close>

definition run_irq :: "device \<Rightarrow> irq_name \<Rightarrow> registers \<Rightarrow> boot \<times> io_trace \<Rightarrow> boot \<times> io_trace" where
  "run_irq d h regs = (\<lambda>(s, io).
     case h of
       Scheduler_tick \<Rightarrow> (bt_set_kern (scheduler_tick regs (bt_kern s)) s, io)
     | Timer_callback \<Rightarrow> (bt_set_kern (timer_callback (bt_kern s)) s, io)
     | Keyboard_handler \<Rightarrow>
         (let (scancode, io) = inb d 0x60 io in (s\<lparr>bt_kbd := keyboard_handler scancode (bt_kbd s)\<rparr>, io))
     | Mouse_handler \<Rightarrow> (let (m, io) = mouse_handler d (bt_mouse s, io) in (s\<lparr>bt_mouse := m\<rparr>, io)))"

definition interrupt :: "device \<Rightarrow> registers \<Rightarrow> boot \<Rightarrow> boot" where
  "interrupt d regs s =
     (let (s, io) = irq_handler d (run_irq d) (bt_irq s) regs (s, bt_io s) in s\<lparr>bt_io := io\<rparr>)"

definition interrupts :: "device \<Rightarrow> registers list \<Rightarrow> boot \<Rightarrow> boot" where
  "interrupts d rs s = fold (interrupt d) rs s"

definition arrive :: "boot_env \<Rightarrow> nat \<Rightarrow> boot \<Rightarrow> boot" where
  "arrive e n s = (if bt_interrupts s then interrupts (be_dev e) (be_arrivals e n) s else s)"

lemma bt_say_frames [frame_simps]:
  "bt_user (bt_say os s) = (bt_user s)\<lparr>ukern := (bt_kern s)\<lparr>con := print_all os (con (bt_kern s))\<rparr>\<rparr>"
  "bt_idt (bt_say os s) = bt_idt s" "bt_io (bt_say os s) = bt_io s" "bt_exc (bt_say os s) = bt_exc s"
  "bt_irq (bt_say os s) = bt_irq s" "bt_pmm (bt_say os s) = bt_pmm s" "bt_paging (bt_say os s) = bt_paging s"
  "bt_fs_root (bt_say os s) = bt_fs_root s" "bt_kbd (bt_say os s) = bt_kbd s" "bt_tbl (bt_say os s) = bt_tbl s"
  "bt_gop (bt_say os s) = bt_gop s" "bt_gpu (bt_say os s) = bt_gpu s" "bt_mouse (bt_say os s) = bt_mouse s"
  "bt_mem (bt_say os s) = bt_mem s" "bt_interrupts (bt_say os s) = bt_interrupts s"
  by (simp_all add: bt_say_def bt_set_con_def bt_set_kern_def)

lemma bt_set_frames [frame_simps]:
  "bt_user (bt_set_con c s) = (bt_user s)\<lparr>ukern := (bt_kern s)\<lparr>con := c\<rparr>\<rparr>"
  "bt_user (bt_set_kern k s) = (bt_user s)\<lparr>ukern := k\<rparr>"
  "bt_idt (bt_set_con c s) = bt_idt s" "bt_exc (bt_set_con c s) = bt_exc s" "bt_irq (bt_set_con c s) = bt_irq s"
  "bt_pmm (bt_set_con c s) = bt_pmm s" "bt_paging (bt_set_con c s) = bt_paging s"
  "bt_fs_root (bt_set_con c s) = bt_fs_root s" "bt_kbd (bt_set_con c s) = bt_kbd s"
  "bt_tbl (bt_set_con c s) = bt_tbl s" "bt_gop (bt_set_con c s) = bt_gop s"
  "bt_idt (bt_set_kern k s) = bt_idt s" "bt_exc (bt_set_kern k s) = bt_exc s" "bt_irq (bt_set_kern k s) = bt_irq s"
  "bt_pmm (bt_set_kern k s) = bt_pmm s" "bt_paging (bt_set_kern k s) = bt_paging s"
  "bt_fs_root (bt_set_kern k s) = bt_fs_root s" "bt_kbd (bt_set_kern k s) = bt_kbd s"
  "bt_tbl (bt_set_kern k s) = bt_tbl s"
  by (simp_all add: bt_set_con_def bt_set_kern_def)

text \<open>The scancodes a run delivers.\<close>

fun keys_read :: "device \<Rightarrow> registers list \<Rightarrow> boot \<Rightarrow> u8 list" where
  "keys_read d [] s = []"
| "keys_read d (r # rs) s =
     (if int_no r = 33 then [fst (inb d 0x60 (bt_io s))] else []) @ keys_read d rs (interrupt d r s)"

section \<open>What an interrupt changes\<close>

definition irq_vector :: "registers \<Rightarrow> bool" where
  "irq_vector r \<longleftrightarrow> 32 \<le> int_no r \<and> int_no r < 48"

lemma line_vector: "irq_vector r \<Longrightarrow> n < 16 \<Longrightarrow> line_of r = n \<longleftrightarrow> int_no r = of_nat (32 + n)"
  by (auto simp: irq_vector_def line_of_def word_unat_eq_iff word_le_nat_alt word_less_nat_alt unat_of_nat unat_word_ariths)

text \<open>What all handlers keep, interrupts keep; before handlers are registered only ports are accessed.\<close>

lemma irq_handler_keeps:
  assumes "P s" and "\<And>h st. P (fst st) \<Longrightarrow> P (fst (run h regs st))"
  shows "P (fst (irq_handler dv run tbl regs (s, io)))"
proof -
  have "P (fst (irq_dispatch run tbl regs (s, io)))" for io
    using assms(2) [of "(s, io)"] assms(1) by (simp add: irq_dispatch_def Let_def case_prod_beta split: option.split)
  with assms(1) show ?thesis by (simp add: irq_handler_def case_prod_beta)
qed

lemma interrupt_state:
  "interrupt d r s = (fst (irq_handler d (run_irq d) (bt_irq s) r (s, bt_io s)))
     \<lparr>bt_io := snd (irq_handler d (run_irq d) (bt_irq s) r (s, bt_io s))\<rparr>"
  by (simp add: interrupt_def case_prod_unfold Let_def)

lemma interrupts_simps [simp]:
  "interrupts d [] s = s" "interrupts d (r # rs) s = interrupts d rs (interrupt d r s)"
  by (simp_all add: interrupts_def)

lemma interrupts_keep:
  assumes "P s" and "\<And>h r st. P (fst st) \<Longrightarrow> P (fst (run_irq d h r st))" and "\<And>s io. P s \<Longrightarrow> P (s\<lparr>bt_io := io\<rparr>)"
  shows "P (interrupts d rs s)"
  using assms(1)
proof (induction rs arbitrary: s)
  case (Cons r rs)
  have "P (interrupt d r s)"
    unfolding interrupt_state by (intro assms(3) irq_handler_keeps [where P = P] assms(2) Cons.prems)
  with Cons.IH show ?case by simp
qed simp

lemma arrive_keeps:
  assumes "P s" and "\<And>d h r st. P (fst st) \<Longrightarrow> P (fst (run_irq d h r st))" and "\<And>s io. P s \<Longrightarrow> P (s\<lparr>bt_io := io\<rparr>)"
  shows "P (arrive e n s)"
  using interrupts_keep [where P = P, OF assms] assms(1) by (simp add: arrive_def)

lemma kernel_tick_frames:
  "kheap (timer_callback k) = kheap k" "next_pid (timer_callback k) = next_pid k"
  "kheap (scheduler_tick regs k) = kheap k" "next_pid (scheduler_tick regs k) = next_pid k"
  using same_timer_callback [of k] same_scheduler_tick [of k regs] by (simp_all add: same_processes_def)

text \<open>The part of the state that no interrupt changes, and its components.\<close>

definition unmoved :: "boot \<Rightarrow> _" where
  "unmoved s = ((bt_idt s, bt_exc s, bt_irq s, bt_pmm s, bt_paging s, bt_vfs s, bt_fs_root s, bt_tbl s),
     (bt_gop s, bt_gpu s, bt_i915 s, bt_mem s, bt_interrupts s),
     (kheap (bt_kern s), con (bt_kern s), next_pid (bt_kern s)), (bt_user s)\<lparr>ukern := undefined\<rparr>)"

lemma interrupts_unmoved: "unmoved (interrupts d rs s) = unmoved s"
proof (rule interrupts_keep)
  fix h r and st :: "boot \<times> io_trace"
  assume "unmoved (fst st) = unmoved s"
  then show "unmoved (fst (run_irq d h r st)) = unmoved s"
    by (cases st; cases h)
      (simp_all add: run_irq_def unmoved_def Let_def case_prod_unfold bt_set_kern_def kernel_tick_frames frame_simps)
qed (simp_all add: unmoved_def)

lemma interrupts_frames [frame_simps]:
  "bt_idt (interrupts d rs s) = bt_idt s" "bt_exc (interrupts d rs s) = bt_exc s" "bt_irq (interrupts d rs s) = bt_irq s"
  "bt_pmm (interrupts d rs s) = bt_pmm s" "bt_paging (interrupts d rs s) = bt_paging s"
  "bt_vfs (interrupts d rs s) = bt_vfs s" "bt_fs_root (interrupts d rs s) = bt_fs_root s"
  "bt_tbl (interrupts d rs s) = bt_tbl s" "bt_gop (interrupts d rs s) = bt_gop s" "bt_gpu (interrupts d rs s) = bt_gpu s"
  "bt_i915 (interrupts d rs s) = bt_i915 s" "bt_mem (interrupts d rs s) = bt_mem s"
  "bt_interrupts (interrupts d rs s) = bt_interrupts s" "kheap (bt_kern (interrupts d rs s)) = kheap (bt_kern s)"
  "con (bt_kern (interrupts d rs s)) = con (bt_kern s)" "next_pid (bt_kern (interrupts d rs s)) = next_pid (bt_kern s)"
  using interrupts_unmoved [of d rs s] by (simp_all add: unmoved_def)

lemma arrive_frames [frame_simps]:
  "bt_idt (arrive e n s) = bt_idt s" "bt_exc (arrive e n s) = bt_exc s" "bt_irq (arrive e n s) = bt_irq s"
  "bt_pmm (arrive e n s) = bt_pmm s" "bt_paging (arrive e n s) = bt_paging s" "bt_vfs (arrive e n s) = bt_vfs s"
  "bt_fs_root (arrive e n s) = bt_fs_root s" "bt_tbl (arrive e n s) = bt_tbl s" "bt_gop (arrive e n s) = bt_gop s"
  "bt_gpu (arrive e n s) = bt_gpu s" "bt_i915 (arrive e n s) = bt_i915 s" "bt_mem (arrive e n s) = bt_mem s"
  "bt_interrupts (arrive e n s) = bt_interrupts s" "kheap (bt_kern (arrive e n s)) = kheap (bt_kern s)"
  "con (bt_kern (arrive e n s)) = con (bt_kern s)" "next_pid (bt_kern (arrive e n s)) = next_pid (bt_kern s)"
  by (simp_all add: arrive_def frame_simps)

lemma interrupt_quiet:
  "bt_irq s = Map.empty \<Longrightarrow> \<exists>io. interrupt d r s = s\<lparr>bt_io := io\<rparr>"
  by (auto simp: interrupt_def irq_handler_def irq_dispatch_def Let_def case_prod_unfold)

lemma arrive_quiet:
  assumes "bt_irq s = Map.empty"
  obtains io where "arrive e n s = s\<lparr>bt_io := io\<rparr>"
proof -
  have "\<exists>io. interrupts d rs s = s\<lparr>bt_io := io\<rparr>" if "bt_irq s = Map.empty" for d rs and s :: boot
    using that
  proof (induction rs arbitrary: s)
    case Nil
    show ?case by (intro exI [of _ "bt_io s"]) simp
  next
    case (Cons r rs)
    from interrupt_quiet [OF Cons.prems] obtain io where io: "interrupt d r s = s\<lparr>bt_io := io\<rparr>" ..
    with Cons.IH [of "s\<lparr>bt_io := io\<rparr>"] Cons.prems show ?case by auto
  qed
  from this [OF assms] obtain io where "interrupts (be_dev e) (be_arrivals e n) s = s\<lparr>bt_io := io\<rparr>" ..
  moreover have "s = s\<lparr>bt_io := bt_io s\<rparr>" by simp
  ultimately show thesis using that unfolding arrive_def by (cases "bt_interrupts s") metis+
qed

text \<open>With the handlers registered: processes, mouse and keyboard.\<close>

lemma timer_callback_boot:
  "boot_state k \<Longrightarrow> boot_state (timer_callback k) \<and> current_process (timer_callback k) = current_process k
     \<and> switches (timer_callback k) = switches k"
  by (rule boot_state_step [OF step_tick])

lemma run_irq_boot: "boot_state (bt_kern (fst st)) \<Longrightarrow> boot_state (bt_kern (fst (run_irq d h r st)))"
  using timer_callback_boot boot_state_scheduler_tick
  by (cases st; cases h) (simp_all add: run_irq_def Let_def case_prod_unfold frame_simps)

lemma arrive_boot: "boot_state (bt_kern s) \<Longrightarrow> boot_state (bt_kern (arrive e n s))"
  by (rule arrive_keeps) (simp_all add: run_irq_boot)

lemma run_irq_mouse: "mouse_ok (bt_mouse (fst st)) \<Longrightarrow> mouse_ok (bt_mouse (fst (run_irq d h r st)))"
  by (cases st; cases h) (simp_all add: run_irq_def Let_def case_prod_unfold bt_set_kern_def mouse_handler_ok)

lemma arrive_mouse: "mouse_ok (bt_mouse s) \<Longrightarrow> mouse_ok (bt_mouse (arrive e n s))"
  by (rule arrive_keeps) (simp_all add: run_irq_mouse)

lemma mouse_init_ok: "mouse_ok m \<Longrightarrow> mouse_ok (fst (mouse_init d (m, io)))"
  by (simp add: mouse_init_def Let_def case_prod_unfold mouse_ok_def)

lemma irq_handler_effect:
  assumes "irq_vector r"
  shows "fst (irq_handler d run tbl r (s, io)) =
     (if spurious d r io then s
      else case tbl (line_of r) of None \<Rightarrow> s | Some h \<Rightarrow> fst (run h r (s, irq_checked d r io)))"
proof (cases "spurious d r io")
  case True
  then show ?thesis by (auto simp: spurious_def irq_handler_def split: prod.splits)
next
  case False
  note v = assms [unfolded irq_vector_def]
  show ?thesis
    using False by (simp add: irq_handler_genuine irq_dispatch_apply v case_prod_beta split: option.split)
qed

text \<open>The keyboard handler on line 1 and nowhere else.\<close>

definition keyboard_line :: "irq_name handlers \<Rightarrow> bool" where
  "keyboard_line tbl \<longleftrightarrow> (\<forall>n. tbl n = Some Keyboard_handler \<longleftrightarrow> n = 1)"

lemma run_irq_keyboard:
  "bt_kbd (fst (run_irq d h r (s, io))) =
     (if h = Keyboard_handler then keyboard_handler (fst (inb d 0x60 io)) (bt_kbd s) else bt_kbd s)"
  by (cases h) (simp_all add: run_irq_def Let_def case_prod_unfold bt_set_kern_def)

lemma interrupt_keyboard:
  assumes "irq_vector r" and "keyboard_line (bt_irq s)"
  shows "bt_kbd (interrupt d r s) =
     (if int_no r = 33 then keyboard_handler (fst (inb d 0x60 (bt_io s))) (bt_kbd s) else bt_kbd s)"
proof -
  have line: "line_of r = 1 \<longleftrightarrow> int_no r = 33" using line_vector [OF assms(1), of 1] by simp
  have io: "irq_checked d r (bt_io s) = bt_io s" "\<not> spurious d r (bt_io s)" if "int_no r = 33"
    using that by (simp_all add: irq_checked_def spurious_def)
  have tbl: "bt_irq s n = Some Keyboard_handler \<longleftrightarrow> n = 1" for n using assms(2) by (simp add: keyboard_line_def)
  have "bt_kbd (interrupt d r s) = bt_kbd (fst (irq_handler d (run_irq d) (bt_irq s) r (s, bt_io s)))"
    by (simp add: interrupt_state)
  also have "\<dots> = (if int_no r = 33 then keyboard_handler (fst (inb d 0x60 (bt_io s))) (bt_kbd s) else bt_kbd s)"
  proof (cases "int_no r = 33")
    case True
    then have "bt_irq s (line_of r) = Some Keyboard_handler" using line tbl by simp
    with io [OF True] True show ?thesis by (simp add: irq_handler_effect [OF assms(1)] run_irq_keyboard)
  next
    case False
    then have "bt_irq s (line_of r) \<noteq> Some Keyboard_handler" using line tbl by simp
    with False show ?thesis
      by (auto simp: irq_handler_effect [OF assms(1)] run_irq_keyboard split: option.split)
  qed
  finally show ?thesis .
qed

lemma interrupt_irq [frame_simps]: "bt_irq (interrupt d r s) = bt_irq s"
  using interrupts_frames(3) [of d "[r]" s] by simp

lemma interrupts_keyboard:
  "\<forall>r\<in>set rs. irq_vector r \<Longrightarrow> keyboard_line (bt_irq s) \<Longrightarrow>
     bt_kbd (interrupts d rs s) = fold keyboard_handler (keys_read d rs s) (bt_kbd s)"
  by (induction rs arbitrary: s) (simp_all add: interrupt_keyboard frame_simps)

definition key_count :: "registers list \<Rightarrow> nat" where
  "key_count rs = length (filter (\<lambda>r. int_no r = 33) rs)"

lemma keys_read_length: "length (keys_read d rs s) = key_count rs"
  by (induction rs arbitrary: s) (simp_all add: key_count_def)

text \<open>A full buffer drops what is typed: the first 255 characters stay.\<close>

lemma handlers_rep:
  "kbd_rep k (take 255 xs) \<Longrightarrow>
     kbd_rep (fold keyboard_handler cs k) (take 255 (xs @ typed (modifiers_of k) cs))"
proof (induction cs arbitrary: k xs)
  case (Cons c cs)
  let ?c = "if key_char (modifiers_of k) c = 0 then [] else [key_char (modifiers_of k) c]"
  have "kbd_rep (keyboard_handler c k) (take 255 (xs @ ?c))"
  proof (cases "length xs < 255 \<or> key_char (modifiers_of k) c = 0")
    case True
    have "length (take 255 xs) < 255 \<or> key_char (modifiers_of k) c = 0" using True by auto
    from handler_rep [OF Cons.prems this] True show ?thesis by (auto split: if_splits)
  next
    case False
    then have "keyboard_handler c k = set_modifiers (key_mods (modifiers_of k) c) k"
      using Cons.prems unfolding handler_step by (intro push_char_full [of _ "take 255 xs"]) simp_all
    with False Cons.prems show ?thesis by simp
  qed
  from Cons.IH [OF this] show ?case unfolding handler_modifiers by simp
qed simp

end
