(* ===== verification/Boot.thy ===== *)
theory Boot
  imports BootState
begin

text \<open>
  The boot sequence, \<^verbatim>\<open>core/kernel.c\<close>: \<open>kernel_main\<close> initialises the components in a
  fixed order on one state that holds them all, draws a test picture on the graphics it finds, and
  ends in the idle loop. Interrupts are on from \<open>irq_install\<close> on, with all lines unmasked: any number of
  them may arrive between the steps, and the registered handlers run (\<open>arrive\<close>). The handlers touch
  the scheduler's fields, the keyboard, the mouse and the I/O ports only, none of which the memory and
  console code inside a step uses; an interrupt that breaks into \<open>mouse_init\<close> is not modelled. The console and the heap are those of the process component. The link
  addresses and the hardware are parameters; \<open>F\<close> is the single-precision arithmetic. The messages
  the memory components print are listed here, next to their operations.
  Once paging is on, device memory that the page tables do not map faults: this is checked for the
  area \<open>gop_clear\<close> and \<open>i915_clear_screen\<close> fill and for the first register the native driver
  reads; the accesses that follow them stay in the same areas and are taken to succeed. A fault
  ends the model in \<open>Faulted\<close>, with the error code and the address the processor delivers: from there
  the exception stub takes over, which \<open>Stubs\<close> follows.
\<close>

section \<open>Messages of the memory components\<close>

definition pmm_messages :: "multiboot_info \<Rightarrow> pmm \<Rightarrow> out list" where
  "pmm_messages mbi p =
     [Str ''[PMM] Initializing Physical Memory Manager...'', NL]
     @ (if mbi_flags mbi AND MULTIBOOT_FLAG_MEM \<noteq> 0
        then [Str ''[PMM] Total memory: '', Dec (total_memory p div 1024 div 1024), Str '' MB'', NL]
        else [Str ''[PMM] Assuming 32 MB'', NL])
     @ [Str ''[PMM] Bitmap at: 0x'', Hex (memory_bitmap p), NL,
        Str ''[PMM] Free region starts at: 0x'', Hex ((memory_bitmap p + 131072 + 4095) AND NOT 4095), NL,
        Str ''[PMM] Available: '', Dec (pmm_get_free_memory p div 1024 div 1024), Str '' MB'', NL]"

definition heap_messages :: "out list" where
  "heap_messages =
     [Str ''[HEAP] Initializing kernel heap...'', NL,
      Str ''[HEAP] Heap at 0x'', Hex HEAP_START, Str '', size: '', Dec (HEAP_SIZE div 1024), Str '' KB'', NL]"

definition paging_messages :: "paging \<Rightarrow> out list" where
  "paging_messages s =
     [Str ''  Initializing paging...'', NL]
     @ (if kernel_directory s = 0 then [Str ''  [ERROR] Failed to allocate page directory'', NL]
        else [Str ''    Page directory at: 0x'', Hex (kernel_directory s), NL,
              Str ''    Identity mapping first 16MB...'', NL, Str ''    Mapped 0x00000000 - 0x01000000'', NL,
              Str ''    Loading page directory...'', NL, Str ''    Enabling paging...'', NL,
              Str ''  [OK] Paging enabled!'', NL])"

text \<open>What \<open>paging_map_page\<close> prints: its complaint when the pool of page tables is used up.\<close>

definition map_page_messages :: "u32 \<Rightarrow> paging \<Rightarrow> out list" where
  "map_page_messages virt s =
     (if \<not> pde_present (dir_entries s (PAGE_DIR_INDEX virt)) \<and> fst (alloc_page_table s) = 0
      then [Str ''Failed to allocate page table!'', NL] else [])"

definition pass_fail :: "bool \<Rightarrow> out list" where
  "pass_fail b = [Str (if b then '' [PASS]'' else '' [FAIL]''), NL]"

definition paging_test_messages :: "paging \<Rightarrow> bool list \<Rightarrow> paging \<Rightarrow> out list" where
  "paging_test_messages s ts s' =
     [NL, Str ''=== Paging Tests ==='', NL, Str ''Test 1: Identity mapping'', NL,
      Str ''  Virtual 0x'', Hex 0x100000, Str '' -> Physical 0x'', Hex (paging_get_physical 0x100000 s)]
     @ pass_fail (ts ! 0)
     @ [Str ''Test 2: Memory read/write'', NL,
        Str (if ts ! 1 then ''  Write/Read: 0xDEADBEEF [PASS]'' else ''  Write/Read failed [FAIL]''), NL,
        Str ''Test 3: Page table lookup'', NL,
        Str (if ts ! 2 then ''  Page table exists [PASS]'' else ''  Page table missing [FAIL]''), NL,
        Str ''Test 4: Dynamic mapping'', NL]
     @ map_page_messages 0x500000 s
     @ [Str ''  Mapped 0x'', Hex 0x500000, Str '' -> 0x'', Hex (paging_get_physical 0x500000 s')]
     @ pass_fail (ts ! 3)
     @ [Str ''=== All Tests Complete ==='', NL, NL]"

section \<open>Stages\<close>

definition boot_banner :: "boot \<Rightarrow> boot" where
  "boot_banner s =
     bt_say [Str ''================================='', NL, Str '' Zenix Kernel v1.0 - Phase 13   '', NL,
             Str '' Intel HD 4600 KMS Driver       '', NL, Str ''================================='', NL, NL]
       (bt_set_con (clear_screen (con (bt_kern s))) s)"

definition boot_descriptors :: "boot_env \<Rightarrow> boot \<Rightarrow> boot" where
  "boot_descriptors e s =
     (let s = bt_say [Str ''[1/17] GDT...''] s;
          s = s\<lparr>bt_user := (bt_user s)\<lparr>ugdt := gdt_init (be_gdt e) (be_tss e) (ugdt (bt_user s))\<rparr>\<rparr>;
          s = bt_say [Str '' [OK]'', NL, Str ''[2/17] IDT...''] s;
          s = s\<lparr>bt_idt := idt_init (be_idt e) (bt_idt s)\<rparr>;
          s = bt_say [Str '' [OK]'', NL, Str ''[3/17] ISRs...''] s;
          s = s\<lparr>bt_idt := isr_install (be_isr_stub e) (bt_idt s)\<rparr>;
          s = s\<lparr>bt_exc := isr_register_handler 13 General_protection
                 (isr_register_handler 8 Double_fault (isr_register_handler 0 Division_error (bt_exc s)))\<rparr>;
          s = bt_say [Str '' [OK]'', NL, Str ''[4/17] IRQs...''] s;
          (t, io, enabled) = irq_install (be_dev e) (be_irq_stub e) (bt_idt s, bt_io s);
          s = arrive e 4 (s\<lparr>bt_idt := t, bt_io := io, bt_interrupts := enabled\<rparr>)
      in bt_say [Str '' [OK]'', NL] s)"

definition boot_memory :: "boot_env \<Rightarrow> multiboot_info \<Rightarrow> boot \<Rightarrow> boot" where
  "boot_memory e mbi s =
     (let s = bt_say [Str ''[5/17] PMM...''] s;
          s = s\<lparr>bt_pmm := pmm_init mbi (be_kernel_end e) (bt_pmm s)\<rparr>;
          s = arrive e 5 (bt_say (pmm_messages mbi (bt_pmm s) @ [Str '' [OK]'', NL, Str ''[6/17] Heap...'']) s);
          s = bt_set_kern ((bt_kern s)\<lparr>kheap := heap_init (kheap (bt_kern s))\<rparr>) s;
          s = arrive e 6 (bt_say (heap_messages @ [Str '' [OK]'', NL, Str ''[6.5/17] Paging...'']) s);
          (p, g) = paging_init (bt_pmm s) (bt_paging s);
          s = s\<lparr>bt_pmm := p, bt_paging := g,
                bt_exc := (if kernel_directory g = 0 then bt_exc s else isr_register_handler 14 Page_fault (bt_exc s))\<rparr>
      in arrive e 7 (bt_say (paging_messages (bt_paging s) @ [Str '' [OK]'', NL]) s))"

text \<open>
  The scheduler registers its tick for the timer interrupt, which the timer then replaces by its own
  callback.
\<close>

definition boot_scheduler :: "boot_env \<Rightarrow> boot \<Rightarrow> boot" where
  "boot_scheduler e s =
     (let s = bt_say [Str ''[10/17] Scheduler...''] s;
          s = bt_set_kern (scheduler_init (bt_kern s)) s;
          s = arrive e 10 (s\<lparr>bt_irq := irq_register_handler 0 Scheduler_tick (bt_irq s)\<rparr>)
      in bt_say [Str '' [OK]'', NL] s)"

definition boot_timer :: "boot_env \<Rightarrow> boot \<Rightarrow> boot" where
  "boot_timer e s =
     (let s = bt_say [Str ''[11/17] Timer...''] s;
          s = s\<lparr>bt_irq := irq_register_handler 0 Timer_callback (bt_irq s), bt_io := timer_program 100 (bt_io s)\<rparr>
      in bt_say [Str '' [OK]'', NL] (arrive e 11 s))"

definition boot_keyboard :: "boot_env \<Rightarrow> boot \<Rightarrow> boot" where
  "boot_keyboard e s =
     (let s = bt_say [Str ''[12/17] Keyboard...''] s;
          s = s\<lparr>bt_kbd := keyboard_init (bt_kbd s), bt_irq := irq_register_handler 1 Keyboard_handler (bt_irq s)\<rparr>
      in bt_say [Str '' [OK]'', NL] (arrive e 12 s))"

definition boot_syscalls :: "boot_env \<Rightarrow> boot \<Rightarrow> boot" where
  "boot_syscalls e s =
     (let s = bt_say [Str ''[13/17] Syscalls...''] s;
          (tbl, t) = syscall_init (be_syscall e) (bt_tbl s, bt_idt s);
          s = s\<lparr>bt_tbl := syscall_handlers_init tbl, bt_idt := t\<rparr>
      in bt_say [Str '' [OK]'', NL] (arrive e 13 s))"

definition boot_services :: "boot_env \<Rightarrow> boot \<Rightarrow> boot" where
  "boot_services e s = boot_syscalls e (boot_keyboard e (boot_timer e (boot_scheduler e s)))"

definition boot_processes :: "boot_env \<Rightarrow> boot \<Rightarrow> boot option" where
  "boot_processes e s =
     (let s = bt_say [Str ''[7/17] VFS...'', Str ''  [VFS] Initializing Virtual File System...'', NL] s;
          s = s\<lparr>bt_vfs := vfs_init (bt_vfs s), bt_fs_root := 0\<rparr>;
          s = arrive e 8 (bt_say [Str ''  [VFS] Ready'', NL, Str '' [OK]'', NL, Str ''[8/17] InitRD... [SKIP]'', NL,
                      Str ''[9/17] Process...''] s)
      in case process_init (bt_kern s) of None \<Rightarrow> None
         | Some k \<Rightarrow>
           (let s = boot_services e (arrive e 9 (bt_say [Str '' [OK]'', NL] (bt_set_kern k s)));
                s = bt_say [Str ''[14/17] User Mode...''] s in
            case usermode_init (bt_user s) of None \<Rightarrow> None
            | Some u \<Rightarrow> Some (arrive e 14 (bt_say [Str '' [OK]'', NL] (s\<lparr>bt_user := u\<rparr>)))))"

definition RGB :: "u32 \<Rightarrow> u32 \<Rightarrow> u32 \<Rightarrow> u32" where
  "RGB r g b = 0xFF000000 OR push_bit 16 r OR push_bit 8 g OR b"

text \<open>The four bars of the test picture, drawn by either driver.\<close>

definition color_bars :: "(u32 \<Rightarrow> u32 \<Rightarrow> u32 \<Rightarrow> u32 \<Rightarrow> u32 \<Rightarrow> 's \<Rightarrow> 's) \<Rightarrow> 's \<Rightarrow> 's" where
  "color_bars rect s =
     (let bar_width = 200; bar_height = 100; start_x = 50; start_y = 50;
          s = rect start_x start_y bar_width bar_height (RGB 231 76 60) s;
          s = rect (start_x + bar_width + 20) start_y bar_width bar_height (RGB 46 204 113) s;
          s = rect start_x (start_y + bar_height + 20) bar_width bar_height (RGB 52 152 219) s
      in rect (start_x + bar_width + 20) (start_y + bar_height + 20) bar_width bar_height (RGB 241 196 15) s)"

text \<open>
  The first of some addresses that the processor cannot translate. An access to it raises the
  page-fault exception, whose error code has bit 1 set for a write.
\<close>

definition unmapped :: "u32 list \<Rightarrow> boot \<Rightarrow> u32 option" where
  "unmapped as s =
     (if paging_enabled (bt_paging s) then find (\<lambda>a. translate (bt_paging s) a = None) as else None)"

definition words_from :: "u32 \<Rightarrow> u32 \<Rightarrow> u32 list" where
  "words_from a n = List.map (\<lambda>i. a + 4 * of_nat i) [0..<unat n]"

text \<open>
  The native driver. Its first register access is the read of the power well control, after it
  has stored the device's addresses; \<open>Ended\<close> is the end of the boot, \<open>Continues\<close> its continuation
  with the information whether graphics is available.
\<close>

definition boot_i915 :: "boot_env \<Rightarrow> gpu_device \<Rightarrow> boot \<Rightarrow> (bool \<times> boot) stage" where
  "boot_i915 e gpu s =
     (let i = (bt_i915 s)\<lparr>i_con := con (bt_kern s), i_trace := gpu_trace (bt_gpu s)\<rparr>;
          d = dev (store_pci_info gpu i);
          (r, t) = i915_hd4600_init (be_hw e) gpu i
      in case (if mmio_base d = 0 \<or> gtt_base d = 0 then None else unmapped [mmio_base d + PWR_WELL_CTL] s) of
        Some a \<Rightarrow> Ended (Faulted 0 a s)
      | None \<Rightarrow>
         (let s = on_i915 (\<lambda>_. t) s in
          if r \<noteq> 0 then Continues (False, bt_say [Str ''  [WARN] Native driver init failed'', NL] s)
          else case unmapped (words_from (fb_virt (dev t)) ((i_pitch (dev t) div 4) * i_height (dev t))) s of
            Some a \<Rightarrow> Ended (Faulted 2 a s)
          | None \<Rightarrow> Continues (True, bt_say [Str ''  [OK] Native driver graphics test complete'', NL]
              (on_i915 (color_bars i915_draw_rect) (on_i915 (i915_clear_screen (RGB 26 31 46)) s)))))"

definition boot_native :: "boot_env \<Rightarrow> boot \<Rightarrow> (bool \<times> boot) stage" where
  "boot_native e s =
     (let gpu = detected_gpu (bt_gpu s);
          s = bt_say [Str ''  Found: '', Str (vendor_name gpu), Str '' '', Str (device_name gpu), NL,
                Str ''  Device: 0x'', Hex (ucast (device_id gpu)), Str '' @ Bus '', Dec (ucast (gpu_bus gpu)),
                Str '' Slot '', Dec (ucast (gpu_slot gpu)), NL] s
      in if vendor_id gpu = GPU_VENDOR_INTEL
         then boot_i915 e gpu (bt_say [Str ''  Intel GPU detected, attempting native driver...'', NL] s)
         else Continues (False, bt_say [Str ''  [WARN] Not Intel GPU'', NL] s))"

text \<open>The continuation knows whether graphics is available and whether it is the boot loader's.\<close>

definition boot_gop ::
  "boot_env \<Rightarrow> 'f floats \<Rightarrow> boot
     \<Rightarrow> (bool \<times> bool \<times> boot) stage" where
  "boot_gop e F s =
     (let s = bt_say [Str ''  Using GOP framebuffer (UEFI/QEMU)'', NL] s; g = bt_gop s
      in case unmapped (words_from (gop_framebuffer g) ((gop_pitch g div 4) * gop_height g)) s of
        Some a \<Rightarrow> Ended (Faulted 2 a s)
      | None \<Rightarrow>
         (let s = on_gop (color_bars gop_draw_rect) (on_gop (gop_clear (RGB 26 31 46)) s);
              s = on_gop (gop_draw_line F 50 (50 + 250) (50 + 400) (50 + 350) (RGB 255 255 255)) s
          in Continues (True, True, bt_say [Str ''  [OK] GOP graphics test complete'', NL] s)))"

definition boot_graphics ::
  "boot_env \<Rightarrow> 'f floats \<Rightarrow> framebuffer_info \<Rightarrow> boot
     \<Rightarrow> (bool \<times> bool \<times> boot) stage" where
  "boot_graphics e F mbi s =
     (let s = bt_say [Str ''[15/17] GPU & Display...'', NL] s;
          r = fst (gop_fb_init mbi (bt_gop s));
          s = on_gop (\<lambda>g. snd (gop_fb_init mbi g)) s
      in if r = 0 then boot_gop e F s
         else let r = fst (gpu_detect_init (be_hw e) (bt_gpu s));
                  s = on_gpu (\<lambda>g. snd (gpu_detect_init (be_hw e) g)) s
              in if r = 0 then (case boot_native e s of Ended b \<Rightarrow> Ended b | Continues (g, s) \<Rightarrow> Continues (g, False, s))
                 else Continues (False, False, bt_say [Str ''  No GPU/Framebuffer available'', NL] s))"

definition boot_mouse :: "boot_env \<Rightarrow> bool \<Rightarrow> bool \<Rightarrow> boot \<Rightarrow> boot" where
  "boot_mouse e gpu_initialized use_gop s =
     (let s = bt_say [Str ''[16/17] Graphics... '',
                Str (if gpu_initialized then if use_gop then ''[GOP]'' else ''[NATIVE]'' else ''[VGA TEXT]''), NL,
                Str ''[17/17] Mouse & GUI...''] s;
          (m, io) = mouse_init (be_dev e) (bt_mouse s, bt_io s);
          s = arrive e 16 (s\<lparr>bt_mouse := m, bt_io := io, bt_irq := irq_register_handler 12 Mouse_handler (bt_irq s)\<rparr>)
      in bt_say [Str '' [OK]'', NL, NL, Str ''================================='', NL,
                 Str ''  Phase 13 Complete!'', NL, NL] s)"

definition boot_tests :: "boot_env \<Rightarrow> boot \<Rightarrow> boot" where
  "boot_tests e s =
     (let g = bt_paging s; (ts, m, g') = paging_test (bt_mem s) g;
          s = arrive e 17 (s\<lparr>bt_mem := m, bt_paging := g'\<rparr>)
      in bt_say (paging_test_messages g ts g' @
           [NL, Str ''=== Exception Handler Test ==='', NL, Str ''Testing ASSERT macro...'', NL,
            Str ''  ASSERT test: [PASS]'', NL, Str ''=== Exception Handler Ready ==='', NL]) s)"

definition boot_finish :: "boot_env \<Rightarrow> bool \<Rightarrow> bool \<Rightarrow> boot \<Rightarrow> boot" where
  "boot_finish e gpu_initialized use_gop s =
     (let s = (if gpu_initialized
               then if use_gop then on_gop gop_print_info (bt_say [Str ''  - GOP framebuffer active'', NL] s)
                    else on_i915 i915_print_info
                           (bt_say [Str ''  - Native KMS mode active'', NL, Str ''  - Hardware framebuffer'', NL] s)
               else bt_say [Str ''  - VGA text mode'', NL] s);
          s = bt_say [Str ''================================='', NL, NL] s;
          s = arrive e 18 (s\<lparr>bt_interrupts := True\<rparr>)
      in bt_say (if gpu_initialized
                 then [Str ''Kernel running with hardware graphics...'', NL,
                       Str ''Check your display for color bars!'', NL]
                 else [Str ''Kernel running in text mode...'', NL]) s)"

definition kernel_main ::
  "boot_env \<Rightarrow> 'f floats \<Rightarrow> u32 \<Rightarrow> framebuffer_info \<Rightarrow> boot
     \<Rightarrow> boot_end option" where
  "kernel_main e F magic mbi s =
     (let s = boot_banner s in
      if magic \<noteq> 0x2BADB002
      then Some (Halted_at (bt_say [Str ''[ERROR] Invalid multiboot magic!'', NL] (s\<lparr>bt_interrupts := False\<rparr>)))
      else let s = boot_memory e (multiboot_info.truncate mbi) (boot_descriptors e s) in
        case boot_processes e s of
          None \<Rightarrow> None
        | Some s \<Rightarrow>
            (case boot_graphics e F mbi s of
               Ended r \<Rightarrow> Some r
             | Continues (gpu_initialized, use_gop, s) \<Rightarrow>
                 Some (Idling (boot_finish e gpu_initialized use_gop
                   (boot_tests e (boot_mouse e gpu_initialized use_gop (arrive e 15 s)))))))"

section \<open>What the stages change\<close>

lemma boot_state_con [simp]: "boot_state (k\<lparr>con := c\<rparr>) = boot_state k"
  by (simp add: boot_state_def ring_one proc_inv_def slots_def)

lemma bt_devices_frames [frame_simps]:
  "bt_kbd (bt_say os s) = bt_kbd s" "bt_mouse (bt_say os s) = bt_mouse s"
  "bt_mouse (bt_set_con c s) = bt_mouse s" "bt_mouse (bt_set_kern k s) = bt_mouse s"
  "bt_interrupts (bt_set_con c s) = bt_interrupts s" "bt_interrupts (bt_set_kern k s) = bt_interrupts s"
  by (simp_all add: bt_say_def bt_set_con_def bt_set_kern_def)

lemma boot_state_kmalloc:
  assumes "boot_state k" and "kmalloc n (kheap k) = Some (p, h)"
  shows "boot_state (k\<lparr>kheap := h\<rparr>)"
proof -
  have i: "heap_inv (kheap k)" using assms(1) by (simp add: boot_state_def proc_inv_def)
  note kheap.alloc_inv [OF i assms(2)] kheap.alloc_live_mono [OF i assms(2)]
  with assms(1) show ?thesis by (auto simp: boot_state_def ring_one proc_inv_def slots_def)
qed

text \<open>
  The heap after the boot holds the record of the idle process and the stack for the entry from
  user mode, as \<open>kmalloc\<close> splits them off.
\<close>

definition boot_blocks :: "(nat \<times> bool) list" where
  "boot_blocks = [(120, True), (8192, True), (4185956, False)]"

lemma boot_allocs:
  assumes "heap_rep h [(4194292, False)]"
  obtains h1 h2 where "kmalloc sizeof_process h = Some (4194316, h1)" "kmalloc 0x2000 h1 = Some (4194448, h2)"
    "heap_rep h1 [(120, True), (4194160, False)]" "heap_rep h2 boot_blocks"
proof -
  have a: "blocks_alloc (unat (round4 sizeof_process)) 4194304 [(4194292, False)]
      = Some (4194316, 120, [(120, True), (4194160, False)])"
    using round4_unat [of sizeof_process] by (simp add: split_block_def)
  have b: "blocks_alloc (unat (round4 0x2000)) 4194304 [(120, True), (4194160, False)]
      = Some (4194448, 8192, boot_blocks)"
    using round4_unat [of "0x2000"] by (simp add: split_block_def boot_blocks_def)
  from kmalloc_Some [OF assms _ a] obtain h1 where
    h1: "kmalloc sizeof_process h = Some (4194316, h1)" "heap_rep h1 [(120, True), (4194160, False)]" by auto
  from kmalloc_Some [OF h1(2) _ b] that h1 show thesis by auto
qed

lemma usermode_init_boot:
  assumes "boot_state (ukern u)" and "kmalloc 0x2000 (kheap (ukern u)) = Some (p, h)"
  shows "\<exists>u'. usermode_init u = Some u' \<and> boot_state (ukern u') \<and> kheap (ukern u') = h"
proof -
  from boot_state_kmalloc [OF assms] have "boot_state ((ukern u)\<lparr>kheap := h, con := c\<rparr>)" for c
    by (metis boot_state_con)
  moreover have "(ukern u)\<lparr>con := a, kheap := h, con := c\<rparr> = (ukern u)\<lparr>kheap := h, con := c\<rparr>" for a c by simp
  ultimately show ?thesis
    by (simp add: usermode_init_def alloc_stack_def Let_def assms(2) user_say_def)
qed

text \<open>
  What the boot needs: a kernel below 2 GiB, a frame left above the kernel and the bitmap, the
  static data as the compiler initialises it, and interrupts from the sixteen lines only.
\<close>

definition boot_frame :: "boot_env \<Rightarrow> nat" where
  "boot_frame e = (unat (be_kernel_end e) + 4095) div 4096 + 32"

definition arrivals_ok :: "boot_env \<Rightarrow> bool" where
  "arrivals_ok e \<longleftrightarrow> (\<forall>n. \<forall>r\<in>set (be_arrivals e n). irq_vector r)"

definition boot_inputs :: "boot_env \<Rightarrow> framebuffer_info \<Rightarrow> boot \<Rightarrow> bool" where
  "boot_inputs e mbi s \<longleftrightarrow>
     unat (be_kernel_end e) < 2 ^ 31 - 4096
     \<and> boot_frame e < unat (total_blocks (pmm_init (multiboot_info.truncate mbi) (be_kernel_end e) (bt_pmm s)))
     \<and> next_pid (bt_kern s) = 0
     \<and> 0 < unat (page_tables_addr (bt_paging s)) \<and> unat (page_tables_addr (bt_paging s)) mod 4096 = 0
     \<and> unat (page_tables_addr (bt_paging s)) + 256 * 4096 \<le> 4294967296
     \<and> next_table_index (bt_paging s) = 0
     \<and> bt_irq s = Map.empty \<and> mouse_ok (bt_mouse s) \<and> arrivals_ok e"

text \<open>
  The state before step \<open>n\<close>, from the graphics step (15) to the idle loop (19). The keyboard has
  seen some scancodes since its initialisation, one for each interrupt on line 1 so far.
\<close>

definition key_arrivals :: "boot_env \<Rightarrow> nat \<Rightarrow> nat" where
  "key_arrivals e n = key_count (concat (List.map (be_arrivals e) [12..<n]))"

definition irqs_at :: "nat \<Rightarrow> irq_name handlers" where
  "irqs_at n = (if n < 17 then [0 \<mapsto> Timer_callback, 1 \<mapsto> Keyboard_handler]
     else [0 \<mapsto> Timer_callback, 1 \<mapsto> Keyboard_handler, 12 \<mapsto> Mouse_handler])"

definition keys_seen :: "nat \<Rightarrow> boot \<Rightarrow> bool" where
  "keys_seen n s \<longleftrightarrow> (\<exists>cs k. length cs = n \<and> bt_kbd s = fold keyboard_handler cs (keyboard_init k))"

definition boot_base :: "boot_env \<Rightarrow> nat \<Rightarrow> boot \<Rightarrow> bool" where
  "boot_base e n s \<longleftrightarrow>
     boot_state (bt_kern s) \<and> heap_rep (kheap (bt_kern s)) boot_blocks
     \<and> pmm_inv (bt_pmm s) \<and> (\<forall>j<unat (total_blocks (bt_pmm s)). page_used (bt_pmm s) j \<longleftrightarrow> j \<le> boot_frame e)
     \<and> bt_exc s 0 = Some Division_error \<and> bt_exc s 8 = Some Double_fault
     \<and> bt_exc s 13 = Some General_protection \<and> bt_exc s 14 = Some Page_fault
     \<and> (\<forall>i<256. gate (bt_idt s) i =
          (if i < 32 then (be_isr_stub e i, 0x08, 0x8E) else if i < 48 then (be_irq_stub e (i - 32), 0x08, 0x8E)
           else if i = 128 then (be_syscall e, 0x08, 0xEE) else (0, 0, 0)))
     \<and> (\<forall>i<5. bt_tbl s i = Some ([Sys_exit, Sys_write, Sys_read, Sys_getpid, Sys_sleep] ! i))
     \<and> bt_irq s = irqs_at n \<and> keys_seen (key_arrivals e n) s \<and> mouse_ok (bt_mouse s)
     \<and> bt_fs_root s = 0 \<and> bt_interrupts s \<and> arrivals_ok e"

definition kernel_pages :: "paging \<Rightarrow> bool" where
  "kernel_pages g \<longleftrightarrow> identity_upto 16777216 g \<and> paging_enabled g \<and> (\<forall>i<1024. \<not> pde_user (dir_entries g i))"

definition boot_ready :: "boot_env \<Rightarrow> nat \<Rightarrow> boot \<Rightarrow> bool" where
  "boot_ready e n s \<longleftrightarrow> boot_base e n s \<and> kernel_pages (bt_paging s)"

lemma keyboard_line_irqs: "keyboard_line (irqs_at n)"
  by (auto simp: keyboard_line_def irqs_at_def)

lemma key_count_append [simp]: "key_count (xs @ ys) = key_count xs + key_count ys"
  by (simp add: key_count_def)

lemma keys_seen_arrive:
  assumes "keys_seen m s" and "keyboard_line (bt_irq s)" and "arrivals_ok e" and "bt_interrupts s"
  shows "keys_seen (m + key_count (be_arrivals e n)) (arrive e n s)"
proof -
  from assms(1) obtain cs k where c: "length cs = m" "bt_kbd s = fold keyboard_handler cs (keyboard_init k)"
    by (auto simp: keys_seen_def)
  let ?d = "be_dev e" and ?rs = "be_arrivals e n"
  have "bt_kbd (arrive e n s) = fold keyboard_handler (keys_read ?d ?rs s) (bt_kbd s)"
    using assms(2-4) interrupts_keyboard [of ?rs s ?d] by (simp add: arrive_def arrivals_ok_def)
  with c show ?thesis
    by (auto simp: keys_seen_def keys_read_length intro!: exI [of _ "cs @ keys_read ?d ?rs s"])
qed

lemma boot_base_arrive:
  assumes "boot_base e n s" and "12 \<le> n" and "irqs_at (Suc n) = irqs_at n"
  shows "boot_base e (Suc n) (arrive e n s)"
proof -
  have "keys_seen (key_arrivals e n + key_count (be_arrivals e n)) (arrive e n s)"
    using assms(1) keyboard_line_irqs by (intro keys_seen_arrive) (auto simp: boot_base_def)
  then have "keys_seen (key_arrivals e (Suc n)) (arrive e n s)" using assms(2) by (simp add: key_arrivals_def)
  with assms(1,3) arrive_boot arrive_mouse show ?thesis by (auto simp: boot_base_def frame_simps)
qed

lemma boot_ready_arrive:
  "boot_ready e n s \<Longrightarrow> 12 \<le> n \<Longrightarrow> irqs_at (Suc n) = irqs_at n \<Longrightarrow> boot_ready e (Suc n) (arrive e n s)"
  by (simp add: boot_ready_def boot_base_arrive frame_simps)

lemma first_frame:
  fixes mbi :: multiboot_info and p :: pmm
  assumes "unat k < 2 ^ 31 - 4096" and "(unat k + 4095) div 4096 + 32 < unat (total_blocks (pmm_init mbi k p))"
  obtains d q where "pmm_alloc_page (pmm_init mbi k p) = (frame_ptr d, q)" "frame_ptr d \<noteq> 0"
    "d = (unat k + 4095) div 4096 + 32" "d < unat (total_blocks (pmm_init mbi k p))"
    "\<And>j. j < unat (total_blocks q) \<Longrightarrow> page_used q j \<longleftrightarrow> j \<le> d" "pmm_inv q"
    "total_blocks q = total_blocks (pmm_init mbi k p)"
proof -
  let ?t = "pmm_init mbi k p" and ?f = "(unat k + 4095) div 4096 + 32"
  note spec = pmm_init_spec [OF assms(1), where mbi = mbi and s = p]
  have u: "page_used ?t j \<longleftrightarrow> j < ?f" if "j < unat (total_blocks ?t)" for j
    using spec(4) [OF that] by (simp add: spec(1))
  have inv: "pmm_inv ?t" by (rule pmm_init_inv) (use assms in auto)
  then show thesis
  proof (cases rule: pmm_alloc_page_cases)
    case full
    with assms(2) u [of ?f] show ?thesis by auto
  next
    case (free d q)
    have b: "unat (total_blocks ?t) < 2 ^ 20" using spec(2) .
    have "\<not> d < ?f" using u [OF free(3)] free(4) by simp
    moreover have "\<not> ?f < d" using free(5) [of ?f] u [OF assms(2)] by auto
    ultimately have d: "d = ?f" by simp
    have "frame_ptr d \<noteq> 0" using free(2,3) b by (simp add: frame_ptr_0_iff)
    moreover have pu: "page_used q j \<longleftrightarrow> j = d \<or> page_used ?t j" for j
      using free(3) b by (auto simp: free(6) page_used_bitmap_set page_used_more unat_of_nat32)
    have tot: "total_blocks q = total_blocks ?t" by (simp add: free(6) frame_simps)
    have "page_used q j \<longleftrightarrow> j \<le> d" if "j < unat (total_blocks q)" for j
      unfolding pu u [OF that [unfolded tot]] d [symmetric] by (simp only: le_less disj_commute)
    moreover have "pmm_inv q" using pmm_alloc_page_inv [OF inv] free(1) by simp
    ultimately show ?thesis using that [OF free(1) _ d free(3)] tot by blast
  qed
qed

lemma boot_banner_frames [frame_simps]:
  "next_pid (bt_kern (boot_banner s)) = next_pid (bt_kern s)" "bt_paging (boot_banner s) = bt_paging s"
  "bt_pmm (boot_banner s) = bt_pmm s" "bt_irq (boot_banner s) = bt_irq s" "bt_mouse (boot_banner s) = bt_mouse s"
  by (simp_all add: boot_banner_def frame_simps)

text \<open>Interrupts that arrive while no handler is registered leave the whole state but the ports.\<close>

lemma arrive_quiet_frames:
  assumes "bt_irq s = Map.empty"
  shows "bt_user (arrive e n s) = bt_user s" "bt_mouse (arrive e n s) = bt_mouse s" "bt_kbd (arrive e n s) = bt_kbd s"
  by (rule arrive_quiet [OF assms, of e n], simp)+

lemma boot_descriptors_frames [frame_simps]:
  "next_pid (bt_kern (boot_descriptors e s)) = next_pid (bt_kern s)"
  "bt_paging (boot_descriptors e s) = bt_paging s" "bt_pmm (boot_descriptors e s) = bt_pmm s"
  "bt_exc (boot_descriptors e s) = (bt_exc s)(0 \<mapsto> Division_error, 8 \<mapsto> Double_fault, 13 \<mapsto> General_protection)"
  "bt_idt (boot_descriptors e s) = fst (irq_install (be_dev e) (be_irq_stub e)
     (isr_install (be_isr_stub e) (idt_init (be_idt e) (bt_idt s)), bt_io s))"
  "bt_irq (boot_descriptors e s) = bt_irq s" "bt_interrupts (boot_descriptors e s)"
  by (simp_all add: boot_descriptors_def Let_def case_prod_unfold frame_simps isr_register_handler_def)
    (simp add: irq_install_def Let_def)

lemma boot_descriptors_mouse:
  "bt_irq s = Map.empty \<Longrightarrow> bt_mouse (boot_descriptors e s) = bt_mouse s"
  by (simp add: boot_descriptors_def Let_def case_prod_unfold frame_simps arrive_quiet_frames)

lemma map_page_directory: "kernel_directory (paging_map_page v p f s) = kernel_directory s"
  by (simp add: paging_map_page_def Let_def set_pte_def alloc_page_table_def)

lemma identity_map_directory: "kernel_directory (paging_identity_map i s) = kernel_directory s"
  by (induction i s rule: paging_identity_map.induct)
    (subst paging_identity_map.simps, simp add: map_page_directory)

lemma boot_memory_frames:
  assumes "boot_inputs e mbi s" and "bt_pmm u = bt_pmm s" "bt_paging u = bt_paging s"
    and "next_pid (bt_kern u) = next_pid (bt_kern s)" and "bt_irq u = Map.empty"
  defines "t \<equiv> boot_memory e (multiboot_info.truncate mbi) u"
  shows "heap_rep (kheap (bt_kern t)) [(4194292, False)]" and "next_pid (bt_kern t) = 0"
    and "identity_upto 16777216 (bt_paging t)" "paging_enabled (bt_paging t)"
    and "\<forall>i<1024. \<not> pde_user (dir_entries (bt_paging t) i)" and "pmm_inv (bt_pmm t)"
    and "\<forall>j<unat (total_blocks (bt_pmm t)). page_used (bt_pmm t) j \<longleftrightarrow> j \<le> boot_frame e"
    and "bt_exc t = (bt_exc u)(14 \<mapsto> Page_fault)" "bt_idt t = bt_idt u" "bt_irq t = Map.empty"
    and "bt_mouse t = bt_mouse u" "bt_interrupts t = bt_interrupts u"
    and "total_blocks (bt_pmm t) = total_blocks (pmm_init (multiboot_info.truncate mbi) (be_kernel_end e) (bt_pmm s))"
proof -
  note b = assms(1) [unfolded boot_inputs_def boot_frame_def]
  let ?p = "pmm_init (multiboot_info.truncate mbi) (be_kernel_end e) (bt_pmm s)"
  have k: "unat (be_kernel_end e) < 2 ^ 31 - 4096" "(unat (be_kernel_end e) + 4095) div 4096 + 32 < unat (total_blocks ?p)"
    using b by blast+
  obtain d q where d: "pmm_alloc_page ?p = (frame_ptr d, q)" "frame_ptr d \<noteq> 0" "d = boot_frame e"
    "\<And>j. j < unat (total_blocks q) \<Longrightarrow> page_used q j \<longleftrightarrow> j \<le> d" "pmm_inv q"
    "total_blocks q = total_blocks ?p"
    by (rule first_frame [OF k]) (simp add: boot_frame_def)
  let ?g = "snd (paging_init ?p (bt_paging s))"
  have id: "identity_upto 16777216 ?g"
    by (rule paging_init_identity [OF d(1,2)]) (use b in simp_all)
  have en: "paging_enabled ?g" "kernel_directory ?g \<noteq> 0"
    using d(1,2) by (simp_all add: paging_init_def Let_def identity_map_directory clear_directory_def)
  have us: "\<forall>i<1024. \<not> pde_user (dir_entries ?g i)"
    using d(1,2) by (auto simp: paging_init_def Let_def clear_directory_def intro!: identity_map_user)
  have q: "fst (paging_init ?p (bt_paging s)) = q"
    using d(1,2) by (simp add: paging_init_def Let_def)
  have pg: "bt_paging t = ?g" "bt_exc t = (bt_exc u)(14 \<mapsto> Page_fault)" "bt_pmm t = q"
    using en(2) assms(2,3) q
    by (simp_all add: t_def boot_memory_def Let_def case_prod_unfold frame_simps isr_register_handler_def)
  then show "identity_upto 16777216 (bt_paging t)" "paging_enabled (bt_paging t)"
    "\<forall>i<1024. \<not> pde_user (dir_entries (bt_paging t) i)" "pmm_inv (bt_pmm t)"
    "\<forall>j<unat (total_blocks (bt_pmm t)). page_used (bt_pmm t) j \<longleftrightarrow> j \<le> boot_frame e"
    "bt_exc t = (bt_exc u)(14 \<mapsto> Page_fault)" "total_blocks (bt_pmm t) = total_blocks ?p"
    using id en(1) us d by simp_all
  show "heap_rep (kheap (bt_kern t)) [(4194292, False)]" "next_pid (bt_kern t) = 0" "bt_idt t = bt_idt u"
    "bt_irq t = Map.empty" "bt_interrupts t = bt_interrupts u"
    using b assms(4,5) by (simp_all add: t_def boot_memory_def Let_def case_prod_unfold frame_simps heap_init_rep)
  show "bt_mouse t = bt_mouse u"
    using assms(5) by (simp add: t_def boot_memory_def Let_def case_prod_unfold frame_simps arrive_quiet_frames)
qed

lemma scheduler_init_con: "scheduler_init (k\<lparr>con := c\<rparr>) = (scheduler_init k)\<lparr>con := c\<rparr>"
  by (simp add: scheduler_init_def)

lemma boot_services_frames [frame_simps]:
  "bt_paging (boot_services e s) = bt_paging s" "bt_pmm (boot_services e s) = bt_pmm s"
  "bt_fs_root (boot_services e s) = bt_fs_root s" "bt_exc (boot_services e s) = bt_exc s"
  "bt_interrupts (boot_services e s) = bt_interrupts s" "kheap (bt_kern (boot_services e s)) = kheap (bt_kern s)"
  "bt_idt (boot_services e s) = idt_set_gate 0x80 (be_syscall e) 0x08 0xEE (bt_idt s)"
  "bt_irq (boot_services e s) = (bt_irq s)(0 \<mapsto> Timer_callback, 1 \<mapsto> Keyboard_handler)"
  "\<exists>f. bt_tbl (boot_services e s) = syscall_handlers_init f"
  by (simp_all add: boot_services_def boot_syscalls_def boot_keyboard_def boot_timer_def boot_scheduler_def Let_def
      case_prod_unfold frame_simps syscall_init_def irq_register_handler_def scheduler_init_def) blast

lemma boot_services_state:
  "boot_state (scheduler_init (bt_kern s)) \<Longrightarrow> boot_state (bt_kern (boot_services e s))"
  unfolding boot_services_def boot_syscalls_def boot_keyboard_def boot_timer_def boot_scheduler_def
  by (simp add: Let_def case_prod_unfold frame_simps arrive_boot scheduler_init_con)

lemma boot_services_mouse: "mouse_ok (bt_mouse s) \<Longrightarrow> mouse_ok (bt_mouse (boot_services e s))"
  unfolding boot_services_def boot_syscalls_def boot_keyboard_def boot_timer_def boot_scheduler_def
  by (simp add: Let_def case_prod_unfold frame_simps arrive_mouse)

lemma boot_services_keys:
  assumes "bt_irq s = Map.empty" and "arrivals_ok e" and "bt_interrupts s"
  shows "keys_seen (key_arrivals e 14) (boot_services e s)"
proof -
  have frames: "keys_seen n (bt_say os t) = keys_seen n t" for n os t by (simp add: keys_seen_def frame_simps)
  define u where "u = boot_timer e (boot_scheduler e s)"
  have u: "bt_irq u = [0 \<mapsto> Timer_callback]" "bt_interrupts u"
    using assms by (simp_all add: u_def boot_timer_def boot_scheduler_def Let_def frame_simps irq_register_handler_def)
  define v where "v = (bt_say [Str ''[12/17] Keyboard...''] u)
    \<lparr>bt_kbd := keyboard_init (bt_kbd u), bt_irq := irq_register_handler 1 Keyboard_handler (bt_irq u)\<rparr>"
  have v: "keys_seen 0 v" "keyboard_line (bt_irq v)" "bt_interrupts v"
    using u by (auto simp: v_def keys_seen_def keyboard_line_def irq_register_handler_def frame_simps)
  have k: "keys_seen (key_count (be_arrivals e 12)) (boot_keyboard e u)" "keyboard_line (bt_irq (boot_keyboard e u))"
    "bt_interrupts (boot_keyboard e u)"
    using keys_seen_arrive [OF v(1,2) assms(2) v(3), of 12] v(2,3)
    by (simp_all add: boot_keyboard_def Let_def v_def [symmetric] frames frame_simps)
  define w where "w = boot_keyboard e u"
  obtain tbl t where w: "boot_syscalls e w = bt_say [Str '' [OK]'', NL]
      (arrive e 13 ((bt_say [Str ''[13/17] Syscalls...''] w)\<lparr>bt_tbl := tbl, bt_idt := t\<rparr>))"
    by (simp add: boot_syscalls_def Let_def case_prod_unfold)
  have "keys_seen (key_count (be_arrivals e 12) + key_count (be_arrivals e 13)) (boot_syscalls e w)"
    unfolding w frames
    by (rule keys_seen_arrive) (use k assms(2) in \<open>simp_all add: w_def keys_seen_def frame_simps\<close>)
  moreover have "boot_services e s = boot_syscalls e w" by (simp add: boot_services_def w_def u_def)
  moreover have "[12..<14] = [12, 13 :: nat]" by (simp add: upt_rec)
  ultimately show ?thesis by (simp add: key_arrivals_def)
qed

lemma boot_services_ready:
  assumes "boot_state (scheduler_init (bt_kern s))" and "usermode_init (bt_user s') = Some u"
    and s': "s' = bt_say os (boot_services e s)"
    and "boot_state (ukern u)" and "heap_rep (kheap (ukern u)) boot_blocks"
    and "identity_upto 16777216 (bt_paging s)" "paging_enabled (bt_paging s)" "bt_fs_root s = 0"
    and "\<forall>i<1024. \<not> pde_user (dir_entries (bt_paging s) i)" and "pmm_inv (bt_pmm s)"
    and "\<forall>j<unat (total_blocks (bt_pmm s)). page_used (bt_pmm s) j \<longleftrightarrow> j \<le> boot_frame e"
    and "bt_exc s = tbl(0 \<mapsto> Division_error, 8 \<mapsto> Double_fault, 13 \<mapsto> General_protection, 14 \<mapsto> Page_fault)"
    and "bt_idt s = fst (irq_install (be_dev e) (be_irq_stub e) (isr_install (be_isr_stub e) (idt_init a t0), io))"
    and "bt_irq s = Map.empty" "mouse_ok (bt_mouse s)" "bt_interrupts s" "arrivals_ok e"
  shows "boot_ready e 14 (bt_say os' (s'\<lparr>bt_user := u\<rparr>))"
proof -
  have "gate (idt_set_gate 0x80 (be_syscall e) 0x08 0xEE (bt_idt s)) i =
      (if i < 32 then (be_isr_stub e i, 0x08, 0x8E) else if i < 48 then (be_irq_stub e (i - 32), 0x08, 0x8E)
       else if i = 128 then (be_syscall e, 0x08, 0xEE) else (0, 0, 0))" if "i < 256" for i
    using that by (simp add: assms(13) gate_irq_install gate_isr_install gate_idt_init)
  moreover have "syscall_handlers_init f i = Some ([Sys_exit, Sys_write, Sys_read, Sys_getpid, Sys_sleep] ! i)"
    if "i < 5" for i f
  proof -
    from that have "i = 0 \<or> i = 1 \<or> i = 2 \<or> i = 3 \<or> i = 4" by arith
    then show ?thesis unfolding handlers_init_table by (elim disjE) simp_all
  qed
  moreover obtain f where "bt_tbl (boot_services e s) = syscall_handlers_init f" using boot_services_frames(9) by blast
  moreover have "keys_seen (key_arrivals e 14) (bt_say os' (s'\<lparr>bt_user := u\<rparr>))"
    using boot_services_keys [OF assms(14,17,16)] by (simp add: keys_seen_def s' frame_simps)
  ultimately show ?thesis
    using assms(4-12,14-17) boot_services_mouse [OF assms(15), of e]
    by (simp add: boot_ready_def boot_base_def kernel_pages_def s' frame_simps irqs_at_def)
qed

lemma irqs_at_text: "n < 16 \<Longrightarrow> irqs_at (Suc n) = irqs_at n" "17 \<le> n \<Longrightarrow> irqs_at (Suc n) = irqs_at n"
  by (simp_all add: irqs_at_def)

lemma boot_reaches_ready:
  assumes "boot_inputs e mbi s"
  shows "\<exists>r. boot_processes e (boot_memory e (multiboot_info.truncate mbi) (boot_descriptors e (boot_banner s))) = Some r
     \<and> boot_ready e 15 r"
proof -
  define u where "u = boot_descriptors e (boot_banner s)"
  define t where "t = boot_memory e (multiboot_info.truncate mbi) u"
  have inp: "bt_irq s = Map.empty" "mouse_ok (bt_mouse s)" "arrivals_ok e" using assms by (simp_all add: boot_inputs_def)
  have u: "bt_pmm u = bt_pmm s" "bt_paging u = bt_paging s" "next_pid (bt_kern u) = next_pid (bt_kern s)"
    "bt_irq u = Map.empty" "bt_mouse u = bt_mouse s" "bt_interrupts u"
    using inp by (simp_all add: u_def frame_simps boot_descriptors_mouse)
  note m = boot_memory_frames [OF assms u(1-4), folded t_def]
  define v where "v = arrive e 8 (bt_say [Str ''  [VFS] Ready'', NL, Str '' [OK]'', NL, Str ''[8/17] InitRD... [SKIP]'', NL,
      Str ''[9/17] Process...''] ((bt_say [Str ''[7/17] VFS...'', Str ''  [VFS] Initializing Virtual File System...'', NL] t)
        \<lparr>bt_vfs := vfs_init (bt_vfs t), bt_fs_root := 0\<rparr>))"
  have v: "kheap (bt_kern v) = kheap (bt_kern t)" "next_pid (bt_kern v) = 0" "bt_paging v = bt_paging t" "bt_pmm v = bt_pmm t"
    "bt_exc v = bt_exc t" "bt_idt v = bt_idt t" "bt_fs_root v = 0" "bt_irq v = Map.empty" "bt_mouse v = bt_mouse s"
    "bt_interrupts v"
    using m(2,10-12) u by (simp_all add: v_def frame_simps arrive_quiet_frames)
  obtain h1 h2 where
    k: "kmalloc sizeof_process (kheap (bt_kern v)) = Some (4194316, h1)" "kmalloc 0x2000 h1 = Some (4194448, h2)"
      "heap_rep h2 boot_blocks"
    unfolding v(1) by (rule boot_allocs [OF m(1)])
  have "heap_inv (kheap (bt_kern v))" using m(1) by (auto simp: heap_inv_def v)
  from process_init_boot [OF this v(2) k(1)] obtain kp where
    kp: "process_init (bt_kern v) = Some kp" "boot_state (scheduler_init kp)" "kheap kp = h1" by auto
  define w where "w = arrive e 9 (bt_say [Str '' [OK]'', NL] (bt_set_kern kp v))"
  have w: "bt_irq w = Map.empty" "bt_mouse w = bt_mouse s" "bt_interrupts w" "bt_kern w = kp\<lparr>con := con (bt_kern w)\<rparr>"
    "kheap (bt_kern w) = h1"
    using v kp(3) by (simp_all add: w_def frame_simps arrive_quiet_frames)
  have sw: "boot_state (scheduler_init (bt_kern w))"
    using kp(2) by (subst w(4)) (simp add: scheduler_init_con)
  define x where "x = bt_say [Str ''[14/17] User Mode...''] (boot_services e w)"
  have "boot_state (ukern (bt_user x))" using boot_services_state [OF sw] by (simp add: x_def frame_simps)
  moreover have "kmalloc 0x2000 (kheap (ukern (bt_user x))) = Some (4194448, h2)"
    using k(2) w(5) by (simp add: x_def frame_simps)
  ultimately obtain y where
    y: "usermode_init (bt_user x) = Some y" "boot_state (ukern y)" "kheap (ukern y) = h2"
    using usermode_init_boot by blast
  have wf: "bt_paging w = bt_paging t" "bt_pmm w = bt_pmm t" "bt_fs_root w = 0" "bt_exc w = bt_exc t" "bt_idt w = bt_idt t"
    using v by (simp_all add: w_def frame_simps)
  have "boot_ready e 14 (bt_say [Str '' [OK]'', NL] (x\<lparr>bt_user := y\<rparr>))"
    by (rule boot_services_ready [OF sw y(1) x_def])
      (use m wf w inp y k(3) in \<open>simp_all add: u_def frame_simps\<close>)
  then have "boot_ready e 15 (arrive e 14 (bt_say [Str '' [OK]'', NL] (x\<lparr>bt_user := y\<rparr>)))"
    using boot_ready_arrive [of e 14] irqs_at_text(1) [of 14] by simp
  moreover have "boot_processes e t = Some (arrive e 14 (bt_say [Str '' [OK]'', NL] (x\<lparr>bt_user := y\<rparr>)))"
  proof -
    have "bt_vfs (bt_say [Str ''[7/17] VFS...'', Str ''  [VFS] Initializing Virtual File System...'', NL] t) = bt_vfs t"
      by (simp add: bt_say_def bt_set_con_def bt_set_kern_def)
    with kp(1) y(1) show ?thesis unfolding boot_processes_def Let_def by (simp add: v_def w_def x_def)
  qed
  ultimately show ?thesis by (simp add: t_def u_def)
qed

section \<open>Graphics and mouse\<close>

lemma boot_ready_frames [frame_simps]:
  "boot_ready e n (bt_say os s) = boot_ready e n s" "boot_ready e n (bt_set_con c s) = boot_ready e n s"
  "boot_ready e n (s\<lparr>bt_gop := g\<rparr>) = boot_ready e n s" "boot_ready e n (s\<lparr>bt_gpu := u\<rparr>) = boot_ready e n s"
  "boot_ready e n (s\<lparr>bt_i915 := i\<rparr>) = boot_ready e n s"
  by (simp_all add: boot_ready_def boot_base_def keys_seen_def frame_simps)

lemma boot_ready_drivers [frame_simps]:
  "boot_ready e n (on_gop f s) = boot_ready e n s" "boot_ready e n (on_gpu f' s) = boot_ready e n s"
  "boot_ready e n (on_i915 f'' s) = boot_ready e n s"
  by (simp_all add: on_gop_def on_gpu_def on_i915_def Let_def frame_simps)

lemma boot_gop_ready:
  "boot_gop e F s = Continues (a, b, t) \<Longrightarrow> boot_ready e n s \<Longrightarrow> boot_ready e n t"
  by (auto simp: boot_gop_def Let_def frame_simps split: option.splits)

lemma boot_i915_ready:
  "boot_i915 e gpu s = Continues (a, t) \<Longrightarrow> boot_ready e n s \<Longrightarrow> boot_ready e n t"
  unfolding boot_i915_def Let_def
  by (simp add: case_prod_unfold frame_simps split: option.splits if_splits) (auto simp: frame_simps)

lemma boot_native_ready:
  "boot_native e s = Continues (a, t) \<Longrightarrow> boot_ready e n s \<Longrightarrow> boot_ready e n t"
  by (auto simp: boot_native_def Let_def frame_simps dest: boot_i915_ready split: if_splits)

lemma boot_graphics_ready:
  "boot_graphics e F mbi s = Continues (a, b, t) \<Longrightarrow> boot_ready e n s \<Longrightarrow> boot_ready e n t"
  by (auto simp: boot_graphics_def Let_def frame_simps dest!: boot_gop_ready boot_native_ready
      split: if_splits stage.splits prod.splits)

lemma boot_mouse_ready:
  assumes "boot_ready e 16 s"
  shows "boot_ready e 17 (boot_mouse e a b s)"
proof -
  obtain m io os os' where e: "boot_mouse e a b s = bt_say os' (arrive e 16 ((bt_say os s)\<lparr>bt_mouse := m, bt_io := io,
      bt_irq := irq_register_handler 12 Mouse_handler (bt_irq s)\<rparr>))" "(m, io) = mouse_init (be_dev e) (bt_mouse s, bt_io s)"
    by (simp add: boot_mouse_def Let_def case_prod_unfold frame_simps)
  let ?s = "(bt_say os s)\<lparr>bt_mouse := m, bt_io := io, bt_irq := irq_register_handler 12 Mouse_handler (bt_irq s)\<rparr>"
  have irq: "irq_register_handler 12 Mouse_handler (irqs_at 16) = irqs_at 17"
    by (simp add: irqs_at_def irq_register_handler_def)
  have m: "mouse_ok m" using assms e(2) mouse_init_ok unfolding boot_ready_def boot_base_def by (metis fst_conv)
  have ks: "keys_seen (key_arrivals e 16 + key_count (be_arrivals e 16)) (arrive e 16 ?s)"
    using assms keyboard_line_irqs [of 17] irq
    by (intro keys_seen_arrive) (auto simp: boot_ready_def boot_base_def keys_seen_def frame_simps)
  have "key_arrivals e 17 = key_arrivals e 16 + key_count (be_arrivals e 16)"
    using upt_Suc [of 12 16] by (simp add: key_arrivals_def)
  with ks assms irq m arrive_boot [of ?s e 16] arrive_mouse [of ?s e 16] have "boot_ready e 17 (arrive e 16 ?s)"
    by (auto simp: boot_ready_def boot_base_def frame_simps)
  then show ?thesis by (simp add: e(1) frame_simps)
qed

lemma boot_base_frames [frame_simps]:
  "boot_base e n (bt_say os s) = boot_base e n s" "boot_base e n (bt_set_con c s) = boot_base e n s"
  "boot_base e n (s\<lparr>bt_gop := g\<rparr>) = boot_base e n s" "boot_base e n (s\<lparr>bt_i915 := i\<rparr>) = boot_base e n s"
  "boot_base e n (s\<lparr>bt_mem := m, bt_paging := p\<rparr>) = boot_base e n s"
  by (simp_all add: boot_base_def keys_seen_def frame_simps)

lemma driver_frames [frame_simps]:
  "boot_base e n (on_gop f s) = boot_base e n s" "boot_base e n (on_i915 f' s) = boot_base e n s"
  "bt_paging (on_gop f s) = bt_paging s" "bt_paging (on_i915 f' s) = bt_paging s"
  "bt_interrupts (on_gop f s) = bt_interrupts s" "bt_interrupts (on_i915 f' s) = bt_interrupts s"
  by (simp_all add: on_gop_def on_i915_def Let_def frame_simps)

text \<open>The paging test leaves its trial mapping.\<close>

lemma boot_tests_base:
  "boot_base e 17 s \<Longrightarrow> boot_base e 18 (boot_tests e s)"
  "bt_paging (boot_tests e s) = paging_map_page 0x500000 0x800000 (PAGE_PRESENT OR PAGE_WRITE) (bt_paging s)"
  using boot_base_arrive [of e 17] irqs_at_text(2) [of 17]
  by (simp_all add: boot_tests_def paging_test_def Let_def frame_simps)

lemma boot_finish_base:
  assumes "boot_base e 18 s"
  shows "boot_base e 19 (boot_finish e a b s)" and "bt_paging (boot_finish e a b s) = bt_paging s"
proof -
  have on: "t\<lparr>bt_interrupts := True\<rparr> = t" if "boot_base e 18 t" for t using that by (simp add: boot_base_def)
  have "boot_base e 19 (arrive e 18 (t\<lparr>bt_interrupts := True\<rparr>))" if "boot_base e 18 t" for t
    unfolding on [OF that] using that boot_base_arrive [of e 18 t] irqs_at_text(2) [of 18] by simp
  with assms show "boot_base e 19 (boot_finish e a b s)" by (simp add: boot_finish_def Let_def frame_simps)
  show "bt_paging (boot_finish e a b s) = bt_paging s" by (simp add: boot_finish_def Let_def frame_simps)
qed

lemma boot_native_ends: "boot_native e s = Ended b \<Longrightarrow> b \<noteq> Idling t"
  by (auto simp: boot_native_def boot_i915_def Let_def case_prod_unfold split: if_splits option.splits)

lemma boot_graphics_ends: "boot_graphics e F mbi s = Ended b \<Longrightarrow> b \<noteq> Idling t"
  by (auto simp: boot_graphics_def boot_gop_def Let_def dest!: boot_native_ends
      split: if_splits option.splits stage.splits prod.splits)

lemma kernel_main_cases:
  assumes "boot_inputs e mbi s"
  obtains r where "boot_ready e 15 r" "kernel_main e F 0x2BADB002 mbi s =
     (case boot_graphics e F mbi r of Ended b \<Rightarrow> Some b
      | Continues (a, b, u) \<Rightarrow> Some (Idling (boot_finish e a b (boot_tests e (boot_mouse e a b (arrive e 15 u))))))"
proof -
  from boot_reaches_ready [OF assms] obtain r where
    "boot_processes e (boot_memory e (multiboot_info.truncate mbi) (boot_descriptors e (boot_banner s))) = Some r"
    "boot_ready e 15 r" by blast
  with that [of r] show thesis by (simp add: kernel_main_def Let_def)
qed

lemma test_alias:
  assumes "identity_upto 16777216 g"
  shows "translate (paging_map_page 0x500000 0x800000 (PAGE_PRESENT OR PAGE_WRITE) g) v =
     (if page_of v = 0x500 then Some (0x800000 OR (v AND 0xFFF)) else if unat v < 16777216 then Some v else None)"
proof -
  have "paging_inv g" using assms by (simp add: identity_upto_def)
  from paging_map_page_translate [OF this can_map_low [OF assms], of "0x500000" "0x800000" "PAGE_PRESENT OR PAGE_WRITE" v]
  show ?thesis using assms by (simp add: identity_upto_def PAGE_PRESENT_def PAGE_WRITE_def page_of_def)
qed

lemma kernel_main_idles:
  assumes "boot_inputs e mbi s" and "kernel_main e F 0x2BADB002 mbi s = Some (Idling t)"
  obtains g where "boot_base e 19 t" "kernel_pages g"
    "bt_paging t = paging_map_page 0x500000 0x800000 (PAGE_PRESENT OR PAGE_WRITE) g"
proof -
  from kernel_main_cases [OF assms(1), of F] obtain r where r0: "boot_ready e 15 r"
    "kernel_main e F 0x2BADB002 mbi s = (case boot_graphics e F mbi r of Ended b \<Rightarrow> Some b
      | Continues (a, b, u) \<Rightarrow> Some (Idling (boot_finish e a b (boot_tests e (boot_mouse e a b (arrive e 15 u))))))" by blast
  with assms(2) obtain a b u where r: "boot_graphics e F mbi r = Continues (a, b, u)"
    "t = boot_finish e a b (boot_tests e (boot_mouse e a b (arrive e 15 u)))"
    using boot_graphics_ends [of e F mbi r "Idling t"] by (auto split: stage.splits)
  let ?v = "boot_mouse e a b (arrive e 15 u)"
  have "boot_ready e 16 (arrive e 15 u)"
    using boot_ready_arrive [OF boot_graphics_ready [OF r(1) r0(1)]] irqs_at_text(1) [of 15] by simp
  then have v: "boot_base e 17 ?v" "kernel_pages (bt_paging ?v)"
    using boot_mouse_ready [of e "arrive e 15 u" a b] by (simp_all add: boot_ready_def)
  show thesis
    using that [of "bt_paging ?v"] v(2) boot_finish_base [OF boot_tests_base(1) [OF v(1)], of a b] boot_tests_base(2) [of e ?v]
    by (simp add: r(2))
qed

lemma keys_seen_rep:
  assumes "keys_seen n s"
  shows "\<exists>cs. length cs = n \<and> kbd_rep (bt_kbd s) (take 255 (typed (False, False) cs))"
proof -
  from assms obtain cs k where c: "length cs = n" "bt_kbd s = fold keyboard_handler cs (keyboard_init k)"
    by (auto simp: keys_seen_def)
  have "modifiers_of (keyboard_init k) = (False, False)" by (simp add: keyboard_init_def)
  with handlers_rep [of "keyboard_init k" "[]" cs] c show ?thesis by (auto simp: keyboard_init_rep)
qed


section \<open>Displays\<close>

lemma unmapped_high:
  assumes "boot_ready e n s" and "16777216 \<le> unat a"
  shows "unmapped (a # as) s = Some a"
  using assms by (simp add: unmapped_def boot_ready_def kernel_pages_def identity_upto_def)

lemma words_from_Cons: "n \<noteq> 0 \<Longrightarrow> \<exists>as. words_from a n = a # as"
  by (cases "unat n") (auto simp: words_from_def unat_eq_0 upt_conv_Cons simp del: upt_Suc)

text \<open>
  A page fault during the boot, at an address that is not mapped: the processor enters through the
  gate of vector 14, which leads to the stub for it.
\<close>

definition fault_raised :: "boot_env \<Rightarrow> u32 \<Rightarrow> boot \<Rightarrow> bool" where
  "fault_raised e a t \<longleftrightarrow> paging_enabled (bt_paging t) \<and> translate (bt_paging t) a = None
     \<and> gate (bt_idt t) 14 = (be_isr_stub e 14, 0x08, 0x8E)"

lemma fault_raised_ready:
  "boot_ready e n s \<Longrightarrow> 16777216 \<le> unat a \<Longrightarrow> fault_raised e a s"
  by (simp add: fault_raised_def boot_ready_def boot_base_def kernel_pages_def identity_upto_def)

text \<open>The framebuffer of the boot loader is usable if \<open>gop_fb_init\<close> accepts it.\<close>

definition gop_usable :: "framebuffer_info \<Rightarrow> bool" where
  "gop_usable mbi \<longleftrightarrow> mbi_flags mbi AND MULTIBOOT_FLAG_FRAMEBUFFER \<noteq> 0 \<and> framebuffer_type mbi = 1
     \<and> (ucast (framebuffer_addr mbi) :: ptr) \<noteq> 0 \<and> framebuffer_width mbi \<noteq> 0 \<and> framebuffer_height mbi \<noteq> 0"

lemma gop_usable_iff: "fst (gop_fb_init mbi g) = 0 \<longleftrightarrow> gop_usable mbi"
  by (simp add: gop_fb_init_result gop_usable_def)

lemma boot_gop_faults:
  assumes "boot_ready e n s" and "gop_usable mbi" and "16777216 \<le> unat (ucast (framebuffer_addr mbi) :: u32)"
    and "(framebuffer_pitch mbi div 4) * framebuffer_height mbi \<noteq> 0"
  shows "\<exists>t. boot_graphics e F mbi s = Ended (Faulted 2 (ucast (framebuffer_addr mbi)) t) \<and> boot_ready e n t"
proof -
  define u where "u = bt_say [Str ''[15/17] GPU & Display...'', NL] s"
  define v where "v = bt_say [Str ''  Using GOP framebuffer (UEFI/QEMU)'', NL] (on_gop (\<lambda>g. snd (gop_fb_init mbi g)) u)"
  have r: "fst (gop_fb_init mbi g) = 0" for g using assms(2) by (simp add: gop_usable_iff)
  from gop_fb_init_state [OF r] have
    g: "gop_framebuffer (bt_gop v) = ucast (framebuffer_addr mbi)"
       "gop_pitch (bt_gop v) = framebuffer_pitch mbi" "gop_height (bt_gop v) = framebuffer_height mbi"
    by (simp_all add: v_def on_gop_def Let_def frame_simps)
  from words_from_Cons [OF assms(4)] obtain as where
    w: "words_from (ucast (framebuffer_addr mbi)) ((framebuffer_pitch mbi div 4) * framebuffer_height mbi)
      = ucast (framebuffer_addr mbi) # as" by blast
  have v: "boot_ready e n v" using assms(1) by (simp add: v_def u_def frame_simps)
  have "boot_graphics e F mbi s = Ended (Faulted 2 (ucast (framebuffer_addr mbi)) v)"
    by (simp add: boot_graphics_def boot_gop_def Let_def r u_def [symmetric] v_def [symmetric] g w
        unmapped_high [OF v assms(3)])
  with v show ?thesis by blast
qed

lemma boot_graphics_text:
  assumes "\<not> gop_usable mbi" and "pci_host (be_hw e) cfg"
    and "\<And>f g. find (is_vga cfg) pci_functions = Some f \<Longrightarrow> vendor_id (found_gpu cfg f g) \<noteq> GPU_VENDOR_INTEL"
  shows "\<exists>u. boot_graphics e F mbi s = Continues (False, False, u)"
proof -
  have r: "fst (gop_fb_init mbi g) \<noteq> 0" for g using assms(1) by (simp add: gop_usable_iff)
  define u where "u = on_gop (\<lambda>g. snd (gop_fb_init mbi g)) (bt_say [Str ''[15/17] GPU & Display...'', NL] s)"
  define v where "v = on_gpu (\<lambda>g. snd (gpu_detect_init (be_hw e) g)) u"
  have "vendor_id (detected_gpu (bt_gpu v)) \<noteq> GPU_VENDOR_INTEL" if "fst (gpu_detect_init (be_hw e) (bt_gpu u)) = 0"
  proof -
    let ?g = "(bt_gpu u)\<lparr>gpu_con := con (bt_kern u)\<rparr>" and ?d = "(detected_gpu (bt_gpu u))\<lparr>detected := False\<rparr>"
    obtain q t where q: "gpu_scan (be_hw e) pci_functions ?d (gpu_trace (bt_gpu u)) = (q, t)" by fastforce
    from gpu_scan_host [OF assms(2), of pci_functions ?d "gpu_trace (bt_gpu u)"] q that obtain f where
      f: "find (is_vga cfg) pci_functions = Some f" "q = Some (found_gpu cfg f ?d)"
      by (auto simp: gpu_detect_init_def Let_def split: option.splits)
    then show ?thesis using assms(3) [OF f(1), of ?d] q
      by (simp add: v_def on_gpu_def gpu_detect_init_def Let_def frame_simps bt_set_con_def bt_set_kern_def)
  qed
  then show ?thesis
    using r by (auto simp: boot_graphics_def Let_def u_def [symmetric] v_def [symmetric] boot_native_def frame_simps)
qed

lemma boot_text_idles:
  assumes "boot_inputs e mbi s" and "\<not> gop_usable mbi" and "pci_host (be_hw e) cfg"
    and "\<And>f g. find (is_vga cfg) pci_functions = Some f \<Longrightarrow> vendor_id (found_gpu cfg f g) \<noteq> GPU_VENDOR_INTEL"
  shows "\<exists>t. kernel_main e F 0x2BADB002 mbi s = Some (Idling t)"
proof -
  from kernel_main_cases [OF assms(1), of F] obtain r where r:
    "kernel_main e F 0x2BADB002 mbi s = (case boot_graphics e F mbi r of Ended b \<Rightarrow> Some b
      | Continues (a, b, u) \<Rightarrow> Some (Idling (boot_finish e a b (boot_tests e (boot_mouse e a b (arrive e 15 u))))))" by blast
  from boot_graphics_text [OF assms(2-4)] obtain u where
    "boot_graphics e F mbi r = Continues (False, False, u)" by blast
  with r show ?thesis by simp
qed

text \<open>A machine with an empty PCI bus, on which a tick, a key and a spurious interrupt arrive after
  every step; the multiboot record of the witnesses, and initial data.\<close>

definition env_text :: "boot_env \<Rightarrow> boot_env" where
  "env_text e = e\<lparr>be_kernel_end := 0x120000, be_hw := pci_machine (\<lambda>_. 0xFFFFFFFF),
     be_arrivals := (\<lambda>n. List.map (\<lambda>v. regs_zero\<lparr>int_no := v\<rparr>) [32, 33, 39])\<rparr>"

definition mbi_text :: framebuffer_info where
  "mbi_text = (mbi_gop 4096 32)\<lparr>mbi_flags := 0\<rparr>"

definition boot_demo :: "boot \<Rightarrow> boot" where
  "boot_demo s = s\<lparr>bt_paging := paging_zero, bt_user := (bt_user s)\<lparr>ukern := kernel_zero\<rparr>,
     bt_irq := Map.empty, bt_mouse := mouse_initial\<rparr>"

lemma boot_demo_inputs: "boot_inputs (env_text e) mbi_text (boot_demo s)" "boot_inputs (env_text e) (mbi_gop 4096 32) (boot_demo s)"
  by (simp_all add: boot_inputs_def boot_frame_def arrivals_ok_def irq_vector_def mouse_initial_ok env_text_def boot_demo_def mbi_text_def mbi_gop_def mbi_demo_def
      multiboot_info.defs framebuffer_info.defs pmm_init_def Let_def pmm_region_total MULTIBOOT_FLAG_MEM_def
      paging_zero_def kernel_zero_def)

lemma text_demo:
  "\<not> gop_usable mbi_text" "find (is_vga (\<lambda>_. 0xFFFFFFFF)) fs = None"
  by (simp_all add: gop_usable_def mbi_text_def find_None_iff is_vga_def cfg_vendor_def)

lemma key_arrivals_text: "key_arrivals (env_text e) 19 = 7"
proof -
  have "[12..<19] = [12, 13, 14, 15, 16, 17, 18 :: nat]" by (simp add: upt_rec)
  then show ?thesis by (simp add: key_arrivals_def key_count_def env_text_def)
qed


text \<open>
  Remark. On a machine without a framebuffer from the boot loader and without an Intel graphics
  card the boot never fails: every allocation succeeds, and the kernel reaches its idle loop.
\<close>

theorem boot_text_mode:
  assumes "boot_inputs e mbi s" and "\<not> gop_usable mbi" and "pci_host (be_hw e) cfg"
    and "find (is_vga cfg) pci_functions = None"
  shows "\<exists>t. kernel_main e F 0x2BADB002 mbi s = Some (Idling t)"
  by (rule boot_text_idles [OF assms(1-3)]) (simp add: assms(4))

theorem boot_text_mode_witness:
  "\<forall>e s F. \<exists>t. kernel_main (env_text e) F 0x2BADB002 mbi_text (boot_demo s) = Some (Idling t)"
  by (intro allI boot_text_mode [OF boot_demo_inputs(1) text_demo(1) _ text_demo(2)])
    (simp add: env_text_def pci_machine_host)

text \<open>
  Property C30. With a framebuffer of the boot loader at or above 16 MiB, where graphics cards put it,
  the kernel does not get past its graphics test: paging is on since \<open>paging_init\<close>, which maps
  only the first 16 MiB, so the first write of \<open>gop_clear\<close> raises a page fault for a write to a page
  that is not present, at the address of the framebuffer, and the processor enters the stub of vector 14.
\<close>

theorem boot_framebuffer_faults:
  assumes "boot_inputs e mbi s" and "gop_usable mbi"
    and "16777216 \<le> unat (ucast (framebuffer_addr mbi) :: u32)"
    and "(framebuffer_pitch mbi div 4) * framebuffer_height mbi \<noteq> 0"
  shows "\<exists>t. kernel_main e F 0x2BADB002 mbi s = Some (Faulted 2 (ucast (framebuffer_addr mbi)) t)
     \<and> fault_raised e (ucast (framebuffer_addr mbi)) t"
proof -
  from kernel_main_cases [OF assms(1), of F] obtain r where r: "boot_ready e 15 r"
    "kernel_main e F 0x2BADB002 mbi s = (case boot_graphics e F mbi r of Ended b \<Rightarrow> Some b
      | Continues (a, b, u) \<Rightarrow> Some (Idling (boot_finish e a b (boot_tests e (boot_mouse e a b (arrive e 15 u))))))" by blast
  from boot_gop_faults [OF r(1) assms(2-4), of F] r(2) show ?thesis
    by (auto intro: fault_raised_ready [OF _ assms(3)])
qed

theorem boot_framebuffer_faults_witness:
  "\<forall>e s F. \<exists>t. kernel_main (env_text e) F 0x2BADB002 (mbi_gop 4096 32) (boot_demo s) = Some (Faulted 2 0xE0000000 t)
     \<and> fault_raised (env_text e) 0xE0000000 t"
proof (intro allI)
  fix e s F
  have u: "gop_usable (mbi_gop 4096 32)"
    by (simp add: gop_usable_def mbi_gop_def mbi_demo_def multiboot_info.defs framebuffer_info.defs
        MULTIBOOT_FLAG_FRAMEBUFFER_def)
  from boot_framebuffer_faults [OF boot_demo_inputs(2) u, of e F s]
  show "\<exists>t. kernel_main (env_text e) F 0x2BADB002 (mbi_gop 4096 32) (boot_demo s) = Some (Faulted 2 0xE0000000 t)
     \<and> fault_raised (env_text e) 0xE0000000 t"
    by (simp add: mbi_gop_def multiboot_info.defs framebuffer_info.defs)
qed

section \<open>Page frames under the heap\<close>

lemma frame_handed_out:
  assumes "pmm_inv s" and "j < unat (total_blocks s)" and "\<not> page_used s j"
  shows "\<exists>n. fst (pmm_alloc_page (((\<lambda>s. snd (pmm_alloc_page s)) ^^ n) s)) = frame_ptr j"
  using assms
proof (induction "card {i. i < j \<and> \<not> page_used s i}" arbitrary: s rule: less_induct)
  case less
  from less.prems(1) show ?case
  proof (cases rule: pmm_alloc_page_cases)
    case full
    with less.prems show ?thesis by auto
  next
    case (free k t)
    have b: "k < 2 ^ 20" using free(3) less.prems(1) by (simp add: pmm_inv_def)
    have t: "page_used t i \<longleftrightarrow> i = k \<or> page_used s i" for i
      using b by (simp add: free(6) page_used_bitmap_set page_used_more)
    have tot: "total_blocks t = total_blocks s" by (simp add: free(6) frame_simps)
    show ?thesis
    proof (cases "k = j")
      case True
      then show ?thesis using free(1) by (intro exI [of _ 0]) simp
    next
      case False
      with free(5) [of j] less.prems(3) have kj: "k < j" by (meson linorder_neqE_nat)
      have "{i. i < j \<and> \<not> page_used t i} \<subset> {i. i < j \<and> \<not> page_used s i}" using kj free(4) by (auto simp: t)
      then have "card {i. i < j \<and> \<not> page_used t i} < card {i. i < j \<and> \<not> page_used s i}"
        by (rule psubset_card_mono [rotated]) simp
      moreover have "pmm_inv t" using pmm_alloc_page_inv [OF less.prems(1)] free(1) by simp
      ultimately obtain n where "fst (pmm_alloc_page (((\<lambda>s. snd (pmm_alloc_page s)) ^^ n) t)) = frame_ptr j"
        using less.hyps [of t] less.prems False by (auto simp: t tot)
      then show ?thesis using free(1) by (intro exI [of _ "Suc n"]) (simp add: funpow_swap1 [symmetric] funpow_Suc_right del: funpow.simps)
    qed
  qed
qed

text \<open>Nothing after \<open>paging_init\<close> allocates page frames.\<close>

lemma boot_processes_pmm: "boot_processes e s = Some r \<Longrightarrow> bt_pmm r = bt_pmm s"
  by (auto simp: boot_processes_def Let_def frame_simps split: option.splits)

lemma driver_pmm [frame_simps]:
  "bt_pmm (on_gop f s) = bt_pmm s" "bt_pmm (on_gpu f' s) = bt_pmm s" "bt_pmm (on_i915 f'' s) = bt_pmm s"
  by (simp_all add: on_gop_def on_gpu_def on_i915_def Let_def frame_simps)

lemma boot_gop_pmm: "boot_gop e F s = Continues (a, b, t) \<Longrightarrow> bt_pmm t = bt_pmm s"
  by (auto simp: boot_gop_def Let_def frame_simps split: option.splits)

lemma boot_i915_pmm: "boot_i915 e gpu s = Continues (a, t) \<Longrightarrow> bt_pmm t = bt_pmm s"
  unfolding boot_i915_def Let_def
  by (simp add: case_prod_unfold frame_simps split: option.splits if_splits) (auto simp: frame_simps)

lemma boot_native_pmm: "boot_native e s = Continues (a, t) \<Longrightarrow> bt_pmm t = bt_pmm s"
  by (auto simp: boot_native_def Let_def frame_simps dest: boot_i915_pmm split: if_splits)

lemma boot_graphics_pmm: "boot_graphics e F mbi s = Continues (a, b, t) \<Longrightarrow> bt_pmm t = bt_pmm s"
  by (auto simp: boot_graphics_def Let_def frame_simps dest!: boot_gop_pmm boot_native_pmm
      split: if_splits stage.splits prod.splits)

lemma boot_end_pmm [frame_simps]:
  "bt_pmm (boot_mouse e a b s) = bt_pmm s" "bt_pmm (boot_tests e s) = bt_pmm s" "bt_pmm (boot_finish e a b s) = bt_pmm s"
  by (simp_all add: boot_mouse_def boot_tests_def boot_finish_def Let_def case_prod_unfold frame_simps)

lemma kernel_main_total:
  assumes "boot_inputs e mbi s" and "kernel_main e F 0x2BADB002 mbi s = Some (Idling t)"
  shows "total_blocks (bt_pmm t) = total_blocks (pmm_init (multiboot_info.truncate mbi) (be_kernel_end e) (bt_pmm s))"
proof -
  let ?u = "boot_descriptors e (boot_banner s)"
  let ?m = "boot_memory e (multiboot_info.truncate mbi) ?u"
  from boot_reaches_ready [OF assms(1)] obtain r where r: "boot_processes e ?m = Some r" by blast
  with assms(2) obtain a b u where u: "boot_graphics e F mbi r = Continues (a, b, u)"
    "t = boot_finish e a b (boot_tests e (boot_mouse e a b (arrive e 15 u)))"
    using boot_graphics_ends [of e F mbi r "Idling t"] by (auto simp: kernel_main_def Let_def split: stage.splits)
  have "bt_irq ?u = Map.empty" using assms(1) by (simp add: frame_simps boot_inputs_def)
  from boot_memory_frames(13) [OF assms(1) _ _ _ this] have
    "total_blocks (bt_pmm ?m) = total_blocks (pmm_init (multiboot_info.truncate mbi) (be_kernel_end e) (bt_pmm s))"
    by (simp add: frame_simps)
  with boot_processes_pmm [OF r] boot_graphics_pmm [OF u(1)] show ?thesis by (simp add: u(2) frame_simps)
qed

lemma heap_block_frames:
  assumes "pmm_inv p" and "\<forall>j<unat (total_blocks p). page_used p j \<longleftrightarrow> j \<le> d" and "d < 1024"
    and "2048 \<le> unat (total_blocks p)" and "4194304 \<le> a" "a < 8388608"
  shows "\<exists>m. fst (pmm_alloc_page (((\<lambda>s. snd (pmm_alloc_page s)) ^^ m) p)) = frame_ptr (a div 4096)"
proof (rule frame_handed_out [OF assms(1)])
  have a: "1024 \<le> a div 4096" "a div 4096 < 2048" using assms(5,6) by (auto simp: less_mult_imp_div_less)
  then show "a div 4096 < unat (total_blocks p)" using assms(4) by simp
  then show "\<not> page_used p (a div 4096)" using assms(2,3) a(1) by auto
qed



end
