(* ===== verification/BootNative.thy ===== *)
theory BootNative
  imports Boot
begin

text \<open>
  The end of the boot on a machine with an Intel graphics card and no framebuffer from the
  boot loader (\<^verbatim>\<open>core/kernel.c\<close> and \<^verbatim>\<open>drivers/gpu\<close>).
\<close>

text \<open>The registers of the card the scan finds at a function.\<close>

definition card_reg :: "(u32 \<Rightarrow> u32) \<Rightarrow> nat \<times> nat \<times> nat \<Rightarrow> u8 \<Rightarrow> u32" where
  "card_reg cfg = (\<lambda>(bus, slot, func) offset. cfg (pci_address (of_nat bus) (of_nat slot) (of_nat func) offset))"

definition card_mmio :: "(u32 \<Rightarrow> u32) \<Rightarrow> nat \<times> nat \<times> nat \<Rightarrow> u32" where
  "card_mmio cfg f = card_reg cfg f 0x10 AND 0xFFFFFFF0"

definition intel_card :: "(u32 \<Rightarrow> u32) \<Rightarrow> nat \<times> nat \<times> nat \<Rightarrow> bool" where
  "intel_card cfg f \<longleftrightarrow> find (is_vga cfg) pci_functions = Some f \<and> cfg_vendor (card_reg cfg f 0) = GPU_VENDOR_INTEL
     \<and> card_mmio cfg f \<noteq> 0 \<and> card_reg cfg f 0x18 AND 0xFFFFFFF0 \<noteq> 0"

lemma found_card:
  "vendor_id (found_gpu cfg f g) = cfg_vendor (card_reg cfg f 0)"
  "bar0 (found_gpu cfg f g) = card_reg cfg f 0x10" "bar2 (found_gpu cfg f g) = card_reg cfg f 0x18"
  by (auto simp: found_gpu_def card_reg_def identify_def Let_def split: prod.split)

lemma detect_card:
  assumes "pci_host hw cfg" and "find (is_vga cfg) pci_functions = Some f"
  shows "fst (gpu_detect_init hw g) = 0 \<and> (\<exists>h. detected_gpu (snd (gpu_detect_init hw g)) = found_gpu cfg f h)"
proof -
  let ?d = "(detected_gpu g)\<lparr>detected := False\<rparr>"
  obtain q t where q: "gpu_scan hw pci_functions ?d (gpu_trace g) = (q, t)" by fastforce
  from gpu_scan_host [OF assms(1), of pci_functions ?d "gpu_trace g"] q assms(2) have "q = Some (found_gpu cfg f ?d)"
    by simp
  with q show ?thesis by (auto simp: gpu_detect_init_def Let_def)
qed

lemma boot_i915_faults:
  assumes "boot_ready e n s" and "mmio = bar0 gpu AND 0xFFFFFFF0" and "mmio \<noteq> 0" "bar2 gpu AND 0xFFFFFFF0 \<noteq> 0"
    and "16777216 \<le> unat (mmio + PWR_WELL_CTL)"
  shows "boot_i915 e gpu s = Ended (Faulted 0 (mmio + PWR_WELL_CTL) s)"
  using assms(2-4) unmapped_high [OF assms(1,5), of "[]"]
  by (simp add: boot_i915_def Let_def store_pci_info_def set_dev_def case_prod_unfold)

text \<open>
  Property C31. On a machine with an Intel graphics card, whose registers the firmware maps at or
  above 16 MiB, and without a framebuffer from the boot loader, the kernel never gets past the
  graphics step: the first register the native driver reads, the power well control, is
  not mapped by \<open>paging_init\<close>, and the read raises a page fault at its address, which the processor
  takes through the stub of vector 14. The driver this version is named after cannot start.
\<close>

theorem boot_native_faults:
  assumes "boot_inputs e mbi s" and "\<not> gop_usable mbi" and "pci_host (be_hw e) cfg" and "intel_card cfg f"
    and "16777216 \<le> unat (card_mmio cfg f + PWR_WELL_CTL)"
  shows "\<exists>t. kernel_main e F 0x2BADB002 mbi s = Some (Faulted 0 (card_mmio cfg f + PWR_WELL_CTL) t)
     \<and> fault_raised e (card_mmio cfg f + PWR_WELL_CTL) t"
proof -
  from kernel_main_cases [OF assms(1), of F] obtain r where r: "boot_ready e 15 r"
    "kernel_main e F 0x2BADB002 mbi s = (case boot_graphics e F mbi r of Ended b \<Rightarrow> Some b
      | Continues (a, b, u) \<Rightarrow> Some (Idling (boot_finish e a b (boot_tests e (boot_mouse e a b (arrive e 15 u))))))" by blast
  define u where "u = on_gop (\<lambda>g. snd (gop_fb_init mbi g)) (bt_say [Str ''[15/17] GPU & Display...'', NL] r)"
  define v where "v = on_gpu (\<lambda>g. snd (gpu_detect_init (be_hw e) g)) u"
  have ready: "boot_ready e 15 v" using r(1) by (simp add: v_def u_def frame_simps)
  from assms(4) have card: "find (is_vga cfg) pci_functions = Some f" "cfg_vendor (card_reg cfg f 0) = GPU_VENDOR_INTEL"
    "card_mmio cfg f \<noteq> 0" "card_reg cfg f 0x18 AND 0xFFFFFFF0 \<noteq> 0" by (simp_all add: intel_card_def)
  note d = detect_card [OF assms(3) card(1)]
  from d obtain h where h: "detected_gpu (bt_gpu v) = found_gpu cfg f h"
    by (fastforce simp: v_def on_gpu_def Let_def bt_set_con_def bt_set_kern_def)
  let ?g = "detected_gpu (bt_gpu v)"
  have fault: "boot_i915 e ?g w = Ended (Faulted 0 (card_mmio cfg f + PWR_WELL_CTL) w)" if "boot_ready e 15 w" for w
    by (rule boot_i915_faults [OF that]) (use card assms(5) in \<open>simp_all add: h found_card card_mmio_def\<close>)
  have n: "fst (gop_fb_init mbi g) \<noteq> 0" for g using assms(2) by (simp add: gop_usable_iff)
  have "\<exists>w. boot_ready e 15 w \<and> boot_graphics e F mbi r = Ended (Faulted 0 (card_mmio cfg f + PWR_WELL_CTL) w)"
    using n d card(2) fault ready
    by (simp add: boot_graphics_def Let_def u_def [symmetric] v_def [symmetric] boot_native_def h found_card frame_simps)
  then obtain w where w: "boot_ready e 15 w"
    "boot_graphics e F mbi r = Ended (Faulted 0 (card_mmio cfg f + PWR_WELL_CTL) w)" by blast
  show ?thesis using r(2) w(2) fault_raised_ready [OF w(1) assms(5)] by simp
qed

text \<open>The card of the detection example, with its registers at \<open>0xF0000000\<close>.\<close>

theorem boot_native_faults_witness:
  "\<forall>e s F. \<exists>t. kernel_main ((env_text e)\<lparr>be_hw := pci_machine cfg_demo\<rparr>) F 0x2BADB002 mbi_text (boot_demo s)
       = Some (Faulted 0 0xF0045400 t) \<and> fault_raised ((env_text e)\<lparr>be_hw := pci_machine cfg_demo\<rparr>) 0xF0045400 t"
proof (intro allI)
  fix e s F
  obtain fs where fs: "pci_functions = (0, 0, 0) # (0, 0, 1) # fs" using pci_functions_first by blast
  have m: "card_mmio cfg_demo (0, 0, 1) = 0xF0000000"
    by (simp add: card_mmio_def card_reg_def cfg_demo_def pci_address_def)
  have "intel_card cfg_demo (0, 0, 1)"
    unfolding intel_card_def m fs
    by (simp add: is_vga_def cfg_vendor_def vga_class_def card_reg_def cfg_demo_def pci_address_def drop_bit_eq_div
        GPU_VENDOR_INTEL_def)
  moreover have "boot_inputs ((env_text e)\<lparr>be_hw := pci_machine cfg_demo\<rparr>) mbi_text (boot_demo s)"
    using boot_demo_inputs(1) [of e s] by (simp add: boot_inputs_def boot_frame_def arrivals_ok_def)
  ultimately show "\<exists>t. kernel_main ((env_text e)\<lparr>be_hw := pci_machine cfg_demo\<rparr>) F 0x2BADB002 mbi_text (boot_demo s)
       = Some (Faulted 0 0xF0045400 t) \<and> fault_raised ((env_text e)\<lparr>be_hw := pci_machine cfg_demo\<rparr>) 0xF0045400 t"
    using boot_native_faults [of "(env_text e)\<lparr>be_hw := pci_machine cfg_demo\<rparr>" mbi_text "boot_demo s" cfg_demo "(0, 0, 1)" F]
    by (simp add: text_demo(1) pci_machine_host m del: One_nat_def)
qed

end
