(* ===== verification/Machine.thy ===== *)
theory Machine
  imports Boot
begin

text \<open>
  The kernel after boot: once \<open>kernel_main\<close> (\<^verbatim>\<open>core/kernel.c\<close>) is in its idle loop,
  everything happens in hardware interrupts, which \<open>irq_handler\<close> (\<^verbatim>\<open>hal/irq.c\<close>) hands to the
  handlers the boot registered. A run is the list of the register frames the stubs push; the
  device decides which scancodes and mouse bytes the handlers read.
\<close>

section \<open>One interrupt\<close>

text \<open>The table the boot leaves, and what holds between interrupts.\<close>

definition boot_irqs :: "irq_name handlers" where
  "boot_irqs = [0 \<mapsto> Timer_callback, 1 \<mapsto> Keyboard_handler, 12 \<mapsto> Mouse_handler]"

definition idle_inv :: "boot \<Rightarrow> bool" where
  "idle_inv s \<longleftrightarrow> boot_state (bt_kern s) \<and> mouse_ok (bt_mouse s) \<and> bt_irq s = boot_irqs"

lemma boot_irqs_keyboard: "keyboard_line boot_irqs"
  by (auto simp: keyboard_line_def boot_irqs_def)

text \<open>What an interrupt leaves alone: processes, memory, screen and descriptor tables.\<close>

definition undisturbed :: "boot \<Rightarrow> boot \<Rightarrow> bool" where
  "undisturbed s t \<longleftrightarrow> current_process (bt_kern t) = current_process (bt_kern s)
     \<and> switches (bt_kern t) = switches (bt_kern s) \<and> same_processes (bt_kern s) (bt_kern t)
     \<and> con (bt_kern t) = con (bt_kern s) \<and> bt_paging t = bt_paging s \<and> bt_pmm t = bt_pmm s
     \<and> bt_idt t = bt_idt s \<and> bt_tbl t = bt_tbl s \<and> bt_interrupts t = bt_interrupts s"

lemma undisturbed_refl: "undisturbed s s"
  by (simp add: undisturbed_def same_processes_def)

lemma undisturbed_trans: "undisturbed s t \<Longrightarrow> undisturbed t u \<Longrightarrow> undisturbed s u"
  by (auto simp: undisturbed_def intro: same_trans)

text \<open>The effect of one interrupt on the idle kernel, line by line; \<open>d\<close> is the device.\<close>

lemma interrupt_effect:
  assumes "irq_vector r" and "bt_irq s = boot_irqs"
  obtains io where
    "interrupt d r s =
       (if int_no r = 32 then bt_set_kern (timer_callback (bt_kern s)) s
        else if int_no r = 33 then s\<lparr>bt_kbd := keyboard_handler (fst (inb d 0x60 (bt_io s))) (bt_kbd s)\<rparr>
        else if int_no r = 44 then s\<lparr>bt_mouse := fst (mouse_handler d (bt_mouse s, bt_io s))\<rparr>
        else s)\<lparr>bt_io := io\<rparr>"
proof -
  have line: "line_of r = 0 \<longleftrightarrow> int_no r = 32" "line_of r = 1 \<longleftrightarrow> int_no r = 33" "line_of r = 12 \<longleftrightarrow> int_no r = 44"
    using line_vector [OF assms(1), of 0] line_vector [OF assms(1), of 1] line_vector [OF assms(1), of 12] by simp_all
  have io: "irq_checked d r (bt_io s) = bt_io s" "\<not> spurious d r (bt_io s)" if "int_no r \<in> {32, 33, 44}"
    using that by (auto simp: irq_checked_def spurious_def)
  have none: "boot_irqs (line_of r) = None" if "int_no r \<notin> {32, 33, 44}"
    using that line by (auto simp: boot_irqs_def)
  have f: "fst (irq_handler d (run_irq d) (bt_irq s) r (s, bt_io s)) =
       (if int_no r = 32 then bt_set_kern (timer_callback (bt_kern s)) s
        else if int_no r = 33 then s\<lparr>bt_kbd := keyboard_handler (fst (inb d 0x60 (bt_io s))) (bt_kbd s)\<rparr>
        else if int_no r = 44 then s\<lparr>bt_mouse := fst (mouse_handler d (bt_mouse s, bt_io s))\<rparr>
        else s)" (is "_ = ?t")
  proof (cases "int_no r \<in> {32, 33, 44}")
    case True
    then consider "int_no r = 32" "line_of r = 0" | "int_no r = 33" "line_of r = 1" | "int_no r = 44" "line_of r = 12"
      using line by auto
    then show ?thesis
      using io [OF True]
      by cases (simp_all add: irq_handler_effect [OF assms(1)] assms(2) boot_irqs_def run_irq_def case_prod_unfold Let_def)
  next
    case False
    with none show ?thesis by (auto simp: irq_handler_effect [OF assms(1)] assms(2))
  qed
  show thesis by (rule that, unfold interrupt_state f, rule refl)
qed

lemma interrupt_idle:
  assumes "irq_vector r" and "idle_inv s"
  shows "idle_inv (interrupt d r s)" and "undisturbed s (interrupt d r s)"
    and "system_ticks (bt_kern (interrupt d r s)) = system_ticks (bt_kern s) + (if int_no r = 32 then 1 else 0)"
proof -
  from assms(2) have irq: "bt_irq s = boot_irqs" and b: "boot_state (bt_kern s)" and m: "mouse_ok (bt_mouse s)"
    by (simp_all add: idle_inv_def)
  obtain io where e: "interrupt d r s =
       (if int_no r = 32 then bt_set_kern (timer_callback (bt_kern s)) s
        else if int_no r = 33 then s\<lparr>bt_kbd := keyboard_handler (fst (inb d 0x60 (bt_io s))) (bt_kbd s)\<rparr>
        else if int_no r = 44 then s\<lparr>bt_mouse := fst (mouse_handler d (bt_mouse s, bt_io s))\<rparr>
        else s)\<lparr>bt_io := io\<rparr>"
    by (rule interrupt_effect [OF assms(1) irq])
  note t = timer_callback_boot [OF b]
  show "idle_inv (interrupt d r s)"
    using b irq m t by (auto simp: e idle_inv_def frame_simps mouse_handler_ok)
  have "bt_tbl (bt_set_kern q s) = bt_tbl s" "bt_interrupts (bt_set_kern q s) = bt_interrupts s" for q
    by (simp_all add: bt_set_kern_def)
  then show "undisturbed s (interrupt d r s)"
    using t same_timer_callback [of "bt_kern s"] by (simp add: e undisturbed_def same_refl frame_simps)
  show "system_ticks (bt_kern (interrupt d r s)) = system_ticks (bt_kern s) + (if int_no r = 32 then 1 else 0)"
    by (simp add: e frame_simps)
qed

section \<open>Any number of interrupts\<close>

definition timer_count :: "registers list \<Rightarrow> nat" where
  "timer_count rs = length (filter (\<lambda>r. int_no r = 32) rs)"

lemma interrupts_idle:
  assumes "\<forall>r\<in>set rs. irq_vector r" and "idle_inv s"
  shows "idle_inv (interrupts d rs s) \<and> undisturbed s (interrupts d rs s)
     \<and> system_ticks (bt_kern (interrupts d rs s)) = system_ticks (bt_kern s) + of_nat (timer_count rs)"
  using assms
proof (induction rs arbitrary: s)
  case Nil
  then show ?case by (simp add: undisturbed_refl timer_count_def)
next
  case (Cons r rs)
  from Cons.prems have r: "irq_vector r" by simp
  note i = interrupt_idle [OF r Cons.prems(2), of d]
  from Cons.IH [OF _ i(1)] Cons.prems(1) i(2-3) show ?case
    by (auto simp: timer_count_def intro: undisturbed_trans)
qed

lemma fold_typed:
  assumes "bt_kbd s = fold keyboard_handler cs (keyboard_init k)" and "\<forall>r\<in>set rs. irq_vector r" and "bt_irq s = boot_irqs"
  shows "kbd_rep (bt_kbd (interrupts d rs s)) (take 255 (typed (False, False) (cs @ keys_read d rs s)))"
proof -
  have "bt_kbd (interrupts d rs s) = fold keyboard_handler (cs @ keys_read d rs s) (keyboard_init k)"
    using interrupts_keyboard [OF assms(2)] boot_irqs_keyboard assms(1,3) by simp
  moreover have "modifiers_of (keyboard_init k) = (False, False)" by (simp add: keyboard_init_def)
  ultimately show ?thesis using handlers_rep [of "keyboard_init k" "[]" "cs @ keys_read d rs s"] by (simp add: keyboard_init_rep)
qed


text \<open>Four ticks and two keys, on a machine that boots in text mode with a key after each step.\<close>

definition demo_irqs :: "registers list" where
  "demo_irqs = List.map (\<lambda>v. regs_zero\<lparr>int_no := v\<rparr>) [32, 33, 32, 32, 33, 44, 39, 32]"


section \<open>User mode\<close>

text \<open>
  Property C38. The kernel cannot run anything in user mode. After the boot no address at all is
  accessible from ring 3, and no sequence of \<open>paging_map_page\<close> changes that unless it asks for a
  user page at or above 16 MiB: in the first 16 MiB, where kernel, heap and program lie, even a
  mapping with the user flag is without effect, because the directory entries are those of the
  kernel. So of the frame \<open>enter_usermode\<close> returns through neither the first instruction nor the top
  of the stack is accessible.
\<close>

theorem usermode_faults:
  assumes "boot_inputs e mbi s" and "kernel_main e F 0x2BADB002 mbi s = Some (Idling t)"
    and "\<forall>(v, p, f)\<in>set ms. f AND PAGE_USER = 0 \<or> unat v < 16777216"
  shows "let g = fold (\<lambda>(v, p, f). paging_map_page v p f) ms (bt_paging t) in
     (\<forall>a. \<not> user_accessible g a)
     \<and> (\<forall>fr u. enter_usermode flags prog (bt_user t) = Some (Iret fr, u) \<longrightarrow>
          \<not> user_accessible g (f_eip fr) \<and> \<not> user_accessible g (f_esp fr - 4))"
proof -
  obtain g where g: "boot_base e 19 t" "kernel_pages g"
    "bt_paging t = paging_map_page 0x500000 0x800000 (PAGE_PRESENT OR PAGE_WRITE) g"
    by (rule kernel_main_idles [OF assms(1,2)])
  from g(2) have "supervisor_only g" by (simp add: kernel_pages_def identity_supervisor)
  then have "supervisor_only (bt_paging t)" unfolding g(3) by (rule supervisor_map) simp
  from supervisor_inaccessible [OF supervisor_maps [OF this assms(3)]] show ?thesis by (simp add: Let_def)
qed

text \<open>Mapping the page of the program for user mode, in the example of a text mode boot.\<close>

theorem usermode_faults_witness:
  "\<forall>e s F. \<exists>t. kernel_main (env_text e) F 0x2BADB002 mbi_text (boot_demo s) = Some (Idling t)
     \<and> \<not> user_accessible (paging_map_page 0x100000 0x100000 7 (bt_paging t)) 0x100000"
proof (intro allI)
  fix e s F
  note inputs = boot_demo_inputs(1) [of e s]
  have "\<exists>t. kernel_main (env_text e) F 0x2BADB002 mbi_text (boot_demo s) = Some (Idling t)"
    by (rule boot_text_idles [OF inputs text_demo(1), where cfg = "\<lambda>_. 0xFFFFFFFF"])
      (simp_all add: env_text_def pci_machine_host text_demo(2))
  then obtain t where t: "kernel_main (env_text e) F 0x2BADB002 mbi_text (boot_demo s) = Some (Idling t)" ..
  from usermode_faults [OF inputs t, of "[(0x100000, 0x100000, 7)]"] t
  show "\<exists>t. kernel_main (env_text e) F 0x2BADB002 mbi_text (boot_demo s) = Some (Idling t)
     \<and> \<not> user_accessible (paging_map_page 0x100000 0x100000 7 (bt_paging t)) 0x100000" by (auto simp: Let_def)
qed

end
