(* ===== verification/Multiboot.thy ===== *)
theory Multiboot
  imports Boot Initrd
begin

text \<open>
  The record the boot loader passes (\<^verbatim>\<open>src/include/multiboot.h\<close>) in memory. The structure is
  packed, so a field is read at the sum of the sizes before it; \<open>mbi_at\<close> reads the fields the
  kernel uses, and \<open>multiboot_bytes\<close> is what a boot loader that follows the Multiboot format
  writes. \<open>kernel_main_at\<close> is \<open>kernel_main\<close> with the pointer argument of the code.
\<close>

record multiboot =
  mb_flags :: u32
  mb_mem_lower :: u32
  mb_mem_upper :: u32
  mb_boot_device :: u32
  mb_cmdline :: u32
  mb_mods_count :: u32
  mb_mods_addr :: u32
  mb_syms :: "u32 \<times> u32 \<times> u32 \<times> u32"
  mb_mmap_length :: u32
  mb_mmap_addr :: u32
  mb_drives_length :: u32
  mb_drives_addr :: u32
  mb_config_table :: u32
  mb_boot_loader_name :: u32
  mb_apm_table :: u32
  mb_vbe_control_info :: u32
  mb_vbe_mode_info :: u32
  mb_vbe_mode :: u16
  mb_vbe_interface_seg :: u16
  mb_vbe_interface_off :: u16
  mb_vbe_interface_len :: u16
  mb_framebuffer_addr :: "64 word"
  mb_framebuffer_pitch :: u32
  mb_framebuffer_width :: u32
  mb_framebuffer_height :: u32
  mb_framebuffer_bpp :: u8
  mb_framebuffer_type :: u8
  mb_color_info :: "u8 \<times> u8 \<times> u8 \<times> u8 \<times> u8 \<times> u8"

definition bytes16 :: "u16 \<Rightarrow> u8 list" where
  "bytes16 x = [ucast x, ucast (drop_bit 8 x)]"

definition bytes64 :: "64 word \<Rightarrow> u8 list" where
  "bytes64 x = bytes32 (ucast x) @ bytes32 (ucast (drop_bit 32 x))"

definition le64 :: "mem \<Rightarrow> ptr \<Rightarrow> 64 word" where
  "le64 m p = ucast (le32 m p) OR push_bit 32 (ucast (le32 m (p + 4)))"

text \<open>The bytes of the structure; the symbol table union is four words, the colour union six bytes.\<close>

definition multiboot_bytes :: "multiboot \<Rightarrow> u8 list" where
  "multiboot_bytes r =
     bytes32 (mb_flags r) @ bytes32 (mb_mem_lower r) @ bytes32 (mb_mem_upper r) @ bytes32 (mb_boot_device r)
     @ bytes32 (mb_cmdline r) @ bytes32 (mb_mods_count r) @ bytes32 (mb_mods_addr r)
     @ (case mb_syms r of (a, b, c, d) \<Rightarrow> bytes32 a @ bytes32 b @ bytes32 c @ bytes32 d)
     @ bytes32 (mb_mmap_length r) @ bytes32 (mb_mmap_addr r) @ bytes32 (mb_drives_length r)
     @ bytes32 (mb_drives_addr r) @ bytes32 (mb_config_table r) @ bytes32 (mb_boot_loader_name r)
     @ bytes32 (mb_apm_table r) @ bytes32 (mb_vbe_control_info r) @ bytes32 (mb_vbe_mode_info r)
     @ bytes16 (mb_vbe_mode r) @ bytes16 (mb_vbe_interface_seg r) @ bytes16 (mb_vbe_interface_off r)
     @ bytes16 (mb_vbe_interface_len r) @ bytes64 (mb_framebuffer_addr r) @ bytes32 (mb_framebuffer_pitch r)
     @ bytes32 (mb_framebuffer_width r) @ bytes32 (mb_framebuffer_height r)
     @ [mb_framebuffer_bpp r, mb_framebuffer_type r]
     @ (case mb_color_info r of (a, b, c, d, e, f) \<Rightarrow> [a, b, c, d, e, f])"

text \<open>Reading the fields through the pointer.\<close>

definition mbi_at :: "mem \<Rightarrow> ptr \<Rightarrow> framebuffer_info" where
  "mbi_at m p = multiboot_info.extend
     \<lparr>mbi_flags = le32 m p, mem_lower = le32 m (p + 4), mem_upper = le32 m (p + 8)\<rparr>
     (framebuffer_info.fields (le64 m (p + 88)) (le32 m (p + 96)) (le32 m (p + 100)) (le32 m (p + 104))
        (m (p + 108)) (m (p + 109)))"

definition kernel_main_at :: "boot_env \<Rightarrow> 'f floats \<Rightarrow> u32 \<Rightarrow> ptr \<Rightarrow> mem \<Rightarrow> boot \<Rightarrow> boot_end option" where
  "kernel_main_at e F magic p m s = kernel_main e F magic (mbi_at m p) s"

text \<open>The fields as the kernel sees them.\<close>

definition mbi_view :: "multiboot \<Rightarrow> framebuffer_info" where
  "mbi_view r = multiboot_info.extend
     \<lparr>mbi_flags = mb_flags r, mem_lower = mb_mem_lower r, mem_upper = mb_mem_upper r\<rparr>
     (framebuffer_info.fields (mb_framebuffer_addr r) (mb_framebuffer_pitch r) (mb_framebuffer_width r)
        (mb_framebuffer_height r) (mb_framebuffer_bpp r) (mb_framebuffer_type r))"

lemma byte_lengths [simp]: "length (bytes16 x) = 2" "length (bytes64 y) = 8"
  by (simp_all add: bytes16_def bytes64_def)

lemma le64_stored:
  assumes "stored m p (bytes64 x)"
  shows "le64 m p = x"
proof -
  from assms have "le32 m p = ucast x" "le32 m (p + 4) = ucast (drop_bit 32 x)"
    by (simp_all add: bytes64_def stored_append le32_stored)
  then show ?thesis
    by (intro bit_word_eqI) (auto simp: le64_def bit_simps)
qed

lemma multiboot_stored:
  assumes "stored m p (multiboot_bytes r)"
  shows "stored m p (bytes32 (mb_flags r))" "stored m (p + 4) (bytes32 (mb_mem_lower r))"
    "stored m (p + 8) (bytes32 (mb_mem_upper r))" "stored m (p + 88) (bytes64 (mb_framebuffer_addr r))"
    "stored m (p + 96) (bytes32 (mb_framebuffer_pitch r))" "stored m (p + 100) (bytes32 (mb_framebuffer_width r))"
    "stored m (p + 104) (bytes32 (mb_framebuffer_height r))"
    "m (p + 108) = mb_framebuffer_bpp r" "m (p + 109) = mb_framebuffer_type r"
  using assms
  by (simp_all add: multiboot_bytes_def stored_append stored_Cons add.assoc split: prod.splits)

text \<open>
  Remark. The packed layout is the one of the Multiboot format: whatever a boot loader
  writes in that format, the kernel reads the flags, the memory sizes and the framebuffer
  fields it wrote, wherever the record lies.
\<close>

theorem multiboot_roundtrip:
  assumes "stored m p (multiboot_bytes r)"
  shows "mbi_at m p = mbi_view r \<and> length (multiboot_bytes r) = 116"
proof -
  note s = multiboot_stored [OF assms]
  have "length (multiboot_bytes r) = 116" by (simp add: multiboot_bytes_def split: prod.split)
  then show ?thesis
    by (simp add: mbi_at_def mbi_view_def s(8,9) le32_stored [OF s(1)] le32_stored [OF s(2)] le32_stored [OF s(3)]
        le64_stored [OF s(4)] le32_stored [OF s(5)] le32_stored [OF s(6)] le32_stored [OF s(7)])
qed

definition place :: "ptr \<Rightarrow> u8 list \<Rightarrow> mem" where
  "place p bs a = (if unat (a - p) < length bs then bs ! unat (a - p) else 0)"

lemma place_stored: "length bs < 4294967296 \<Longrightarrow> stored (place p bs) p bs"
  by (simp add: stored_def place_def)

text \<open>A boot loader's record for a machine of 128 MiB with a framebuffer at \<open>0xE0000000\<close>.\<close>

definition multiboot_demo :: multiboot where
  "multiboot_demo = \<lparr>mb_flags = 0x1001, mb_mem_lower = 640, mb_mem_upper = 130432, mb_boot_device = 0, mb_cmdline = 0,
     mb_mods_count = 0, mb_mods_addr = 0, mb_syms = (0, 0, 0, 0), mb_mmap_length = 0, mb_mmap_addr = 0,
     mb_drives_length = 0, mb_drives_addr = 0, mb_config_table = 0, mb_boot_loader_name = 0, mb_apm_table = 0,
     mb_vbe_control_info = 0, mb_vbe_mode_info = 0, mb_vbe_mode = 0, mb_vbe_interface_seg = 0,
     mb_vbe_interface_off = 0, mb_vbe_interface_len = 0, mb_framebuffer_addr = 0xE0000000,
     mb_framebuffer_pitch = 4096, mb_framebuffer_width = 1024, mb_framebuffer_height = 768,
     mb_framebuffer_bpp = 32, mb_framebuffer_type = 1, mb_color_info = (16, 8, 8, 8, 0, 8)\<rparr>"

theorem multiboot_roundtrip_witness:
  "framebuffer_addr (mbi_at (place 0x9500 (multiboot_bytes multiboot_demo)) 0x9500) = 0xE0000000
     \<and> mem_upper (mbi_at (place 0x9500 (multiboot_bytes multiboot_demo)) 0x9500) = 130432"
proof -
  have "length (multiboot_bytes multiboot_demo) < 4294967296"
    by (simp add: multiboot_bytes_def split: prod.split)
  from multiboot_roundtrip [OF place_stored [OF this]] show ?thesis
    by (simp add: mbi_view_def multiboot_demo_def multiboot_info.defs framebuffer_info.defs)
qed

end
