(* ===== verification/Spec2Isabelle.thy ===== *)
theory Spec2Isabelle
  imports
    Prelude Interfaces Floats
    Pmm Heap Paging LibcString
    Monitor Console Keyboard Ports Interrupts Gdt Faults
    Process Scheduler Syscall
    VfsComplete VfsTypes Initrd
    Mouse VgaFont Canvas Vga Gop Lines GpuDetect I915 IntelHd4600
    AppManager Color Calculator Gui
    Usermode Shell ShellCat Terminal Mkinitrd Desktop Stubs BootState Boot BootNative Machine Multiboot
begin

text \<open>
  \<^bold>\<open>Zenix.\<close> A 32-bit x86 kernel in C: \<^verbatim>\<open>core/kernel.c\<close> is entered from the boot code with a
  multiboot record, initialises descriptor tables, physical memory, heap, paging, file system,
  processes, timer, keyboard, system calls, user mode, graphics and mouse in that order, and then
  idles; everything after that happens in interrupts, which are on from the fourth of its
  seventeen steps. Shell and desktop are complete components that
  \<^verbatim>\<open>kernel_main\<close> of this version does not start. Paths below are relative to \<^verbatim>\<open>src/kernel/\<close>
  unless they start with \<^verbatim>\<open>src/\<close>.

  \<^bold>\<open>How the program is modelled.\<close> The static variables of a file are a record, a C structure is a
  record, an enumeration a datatype, each function a definition of the same name that takes and
  returns the record (renamed where HOL has the name already). \<open>uint8_t\<close>, \<open>uint16_t\<close>, \<open>uint32_t\<close>
  are words and wrap; \<open>int\<close>s are integers, converted with \<open>sint\<close> and \<open>word_of_int\<close> where the
  code converts. Pointers are 32-bit words; what they point to is a function from addresses, either to
  bytes (\<open>mem\<close>: strings, file images, screens) or to structures (heap headers, processes, nodes).
  Port and register accesses append events to a trace, and what the device answers is a function of
  the trace so far, so every device behaviour is covered. Console output goes through the model of
  the console itself. Loops are recursive functions on the counter or on a bound the code has; the
  three loops without one (\<open>sys_sleep\<close>, the traversals of the heap's list, \<open>cat\<close>) are
  \<open>partial_function (option)\<close>, whose \<open>None\<close> is not returning, and the theorems say when they return.
  Functions that end in an endless halt return an outcome \<open>Halted\<close>.

  \<^bold>\<open>Shared theories.\<close>
  \<^item> \<open>Prelude\<close>: word types, conversion and wrap-around lemmas, bytes of text, decimal numerals, and the
    collections \<open>frame_simps\<close> (what an operation leaves alone) and \<open>inv_intros\<close> (what keeps an invariant).
  \<^item> \<open>Interfaces\<close>: the contracts between components as locales, each with the lemmas its clients
    need: \<open>allocator\<close> (interpreted by the page allocator and by the heap), \<open>byte_queue\<close> and
    \<open>ready_queue\<close> style queues (keyboard buffer, ready queue), descriptor tables and the like.
  \<^item> \<open>Canvas\<close>: the contract of a pixel store; \<open>Vga\<close>, \<open>Gop\<close>, \<open>I915\<close>, \<open>IntelHd4600\<close> interpret it, so
    rectangles are proved once.
  \<^item> \<open>Floats\<close>: the single-precision operations the drawing code applies, as a record, with what IEEE
    arithmetic guarantees on small integers as the hypothesis \<open>exact_floats\<close>.
  \<^item> \<open>Console\<close>: text fragments (\<open>Str\<close>, \<open>Dec\<close>, \<open>Hex\<close>, \<open>NL\<close>) and their printing on the console.

  \<^bold>\<open>Memory.\<close>
  \<^item> \<open>Pmm\<close> (\<^verbatim>\<open>mm/pmm.c\<close>): bitmap of frames; allocation is first fit, never hands out a frame twice,
    the counter is exact, \<open>pmm_init\<close> reserves kernel and bitmap.
  \<^item> \<open>Heap\<close> (\<^verbatim>\<open>mm/heap.c\<close>): headers in memory linked by addresses, related to a list of blocks by
    \<open>heap_rep\<close> (tiling, alignment, coalescing, byte count). \<open>kmalloc\<close> refines first fit and \<open>kfree\<close>
    refines release with merging on that list; both always return on such a heap.
  \<^item> \<open>Paging\<close> (\<^verbatim>\<open>mm/paging.c\<close>): directory and tables with their bit fields, the pool of 256 tables; \<open>translate\<close>
    is what the processor computes. Mapping and unmapping change exactly one page; the identity map.
  \<^item> \<open>LibcString\<close> (\<^verbatim>\<open>src/lib/libc/string.c\<close>): the ten functions on byte memory.

  \<^bold>\<open>Processor and devices.\<close>
  \<^item> \<open>Ports\<close> (\<^verbatim>\<open>src/include/io.h\<close>, \<^verbatim>\<open>hal/pic.c\<close>), \<open>Interrupts\<close> (\<^verbatim>\<open>hal/idt.c\<close>, \<^verbatim>\<open>isr.c\<close>, \<^verbatim>\<open>irq.c\<close>), \<open>Gdt\<close> (\<^verbatim>\<open>hal/gdt.c\<close>):
    encodings and their decoding by the processor, dispatch of exceptions and interrupts,
    acknowledgement, spurious interrupts.
  \<^item> \<open>Faults\<close> (\<^verbatim>\<open>core/panic.c\<close> and the handler of \<^verbatim>\<open>mm/paging.c\<close>): reports, stack walk, halting.
  \<^item> \<open>Monitor\<close> (\<^verbatim>\<open>core/monitor.c\<close>): screen and scrollback stay in bounds; numerals.
  \<^item> \<open>Keyboard\<close> (\<^verbatim>\<open>drivers/keyboard/keyboard.c\<close>), \<open>Mouse\<close> (\<^verbatim>\<open>drivers/mouse/mouse.c\<close>): interrupts and reads interleaved.
  \<^item> \<open>Vga\<close>, \<open>VgaFont\<close> (\<^verbatim>\<open>drivers/vga\<close>), \<open>Gop\<close> (\<^verbatim>\<open>drivers/video\<close>), \<open>GpuDetect\<close>, \<open>I915\<close>, \<open>IntelHd4600\<close> (\<^verbatim>\<open>drivers/gpu\<close>):
    pixels, PCI scan, register programming; \<open>Lines\<close>: the line routines of the first two. Waiting loops are bounded by the code (\<open>timeout * 1000\<close> polls).

  \<^bold>\<open>Processes, files, applications.\<close>
  \<^item> \<open>Process\<close>, \<open>Scheduler\<close> (\<^verbatim>\<open>proc\<close>, \<^verbatim>\<open>drivers/timer/pit.c\<close>): the process table on the heap with its invariant
    \<open>proc_inv\<close>, round robin on the linked ready queue, reachable states by rule induction over
    \<open>kernel_step\<close>. The calls of the context switch are recorded there.
  \<^item> \<open>Stubs\<close> (\<^verbatim>\<open>proc/switch.asm\<close>, \<^verbatim>\<open>hal/isr_stubs.asm\<close>, \<^verbatim>\<open>hal/irq_stubs.asm\<close>): the switch as instructions on registers
    and memory, called as \<open>schedule\<close> calls it, and what the entry stubs pass to their handlers. The stub of a
    hardware interrupt passes the saved registers; the one of an exception does not, so nothing is
    claimed about what an exception's handler does with them when it is entered through the stub.
  \<^item> \<open>Syscall\<close> (\<^verbatim>\<open>syscall\<close>): table, dispatcher, the five calls.
  \<^item> \<open>VfsComplete\<close> (\<^verbatim>\<open>fs/vfs_complete.c\<close>): descriptors and paths over drivers given as functions.
    \<open>VfsTypes\<close>: over typed drivers every pointer it follows is a node, after any sequence of calls.
    \<open>Initrd\<close> (\<^verbatim>\<open>fs/vfs.c\<close>, \<^verbatim>\<open>fs/initrd.c\<close>, \<^verbatim>\<open>src/tools/mkinitrd.c\<close>): the ram disk and the tool that writes it;
    \<open>Mkinitrd\<close>: the tool's \<^verbatim>\<open>main\<close> with its error exits, and the image it writes. Its headers are padded
    where those of the kernel are packed; remarks say what the kernel makes of either layout.
  \<^item> \<open>Usermode\<close> (\<^verbatim>\<open>usermode/usermode.c\<close>): stacks and the frame that enters ring 3.
  \<^item> \<open>Shell\<close> (\<^verbatim>\<open>shell/shell.c\<close>): line editor, splitting, all commands; \<open>shell_turns\<close> runs a number of
    turns of its endless loop, \<open>ls_loop\<close> the at most 101 entries the code lists. \<open>Terminal\<close> runs it
    under keyboard interrupts: the result depends only on the characters typed, not on the interleaving.
    \<open>ShellCat\<close> follows \<open>cat\<close> through its unbounded loop down to the bytes of the ram disk.
  \<^item> \<open>AppManager\<close> (\<^verbatim>\<open>apps/app_manager.c\<close>), \<open>Calculator\<close> (\<^verbatim>\<open>apps/calculator/calculator_app.c\<close>),
    \<open>Color\<close> (\<^verbatim>\<open>gui/color.c\<close>), \<open>Gui\<close> (\<^verbatim>\<open>gui/gui.c\<close>): the desktop; double and float arithmetic are parameters.
    \<open>Desktop\<close>: the mouse driver and the desktop together, a drag from the packet bytes to the window's place.
  \<^item> \<open>BootState\<close>: the state of all components together, and a hardware interrupt on it. \<open>Boot\<close> (\<^verbatim>\<open>core/kernel.c\<close>):
    \<open>kernel_main\<close> on that state. Any number of interrupts may arrive after each step (\<open>arrive\<close>). An access to an
    address the page tables do not map ends the model as \<open>Faulted\<close>, where the processor enters the stub of
    vector 14. The theorems tie the
    components together: the invariants the others start from are established, the page
    tables decide which graphics accesses fault, and heap and page allocator share frames.
    \<open>BootNative\<close> is its end on Intel graphics, \<open>Machine\<close> the idle kernel under any sequence of hardware
    interrupts and its user mode, \<open>Multiboot\<close> (\<^verbatim>\<open>src/include/multiboot.h\<close>) the packed record in memory it starts from.

  \<^bold>\<open>What the theorems show.\<close> Theorems numbered C1 to C40 are the properties of the development, those
  marked as remarks further behaviour, boundary cases and defects among them. Refinements and
  equivalences: heap, shell line, terminal, keyboard, path lookup, PCI scan. Invariants and
  bounds: the running kernel, console, windows, calculator display, mouse, boot. Types: the pointers of the
  file system. Safety: disjoint blocks and frames, stacks of user mode, what a context
  switch enters. Errors: process
  creation and the graphics steps of the boot. Liveness and termination: stack walk, sleeping,
  \<open>cat\<close>. Round trips: heap, processes. Functional behaviour: paging, processes, image tool, drag, calculator.

  \<^bold>\<open>Not modelled.\<close> The boot code, the loading of the paging registers, the system call stub and the way back
  through the stubs of interrupts are assembly that appears as addresses and parameters. An
  interrupt that breaks into \<open>mouse_init\<close> and takes its replies, a ram disk image inside the heap region,
  and reads of the stack walk in unmapped memory are outside the model. The limits of \<^verbatim>\<open>src/include/stdint.h\<close> and structures of \<^verbatim>\<open>src/include/multiboot.h\<close> that
  nothing reads are left out. \<^verbatim>\<open>gui/window_api.h\<close> and \<^verbatim>\<open>gui/antialiasing.h\<close> declare functions
  without an implementation, and some 67 files of the tree (disk and network drivers, file systems,
  libraries, user programs) are empty. Caching, timing and the concurrency of real hardware beyond
  the interleaving of interrupts with reads are not considered.
\<close>

end
